(* ===== verification/FP_Prelude.thy ===== *)
theory FP_Prelude
  imports Main "HOL-Library.Word"
begin

text \<open>
  Shared material of the development: the machine types of the C++ sources
  (\<^verbatim>\<open>src/fastpath/types.h\<close>), the faults a C++ operation can run into, little-endian
  scalars as byte lists, C strings, and the generic list lemmas the component
  theories use. The collection \<open>storage_simps\<close> gathers the rewrite rules of the byte
  storage classes, \<open>codec_simps\<close> those of the message codec.
\<close>

unbundle bit_operations_syntax

named_theorems storage_simps
named_theorems codec_simps
named_theorems event_simps

type_synonym byte = "8 word"
type_synonym u16 = "16 word"
type_synonym u32 = "32 word"
type_synonym size_t = "64 word"

text \<open>
  What can stop a C++ operation: a thrown \<^verbatim>\<open>fp::exception\<close> (with its text), a failed
  \<^verbatim>\<open>assert\<close>, and the undefined behaviours the model tracks: an access outside the
  allocated block, a write through a pointer into a block that was freed, a copy into a
  fixed array that is too small, a missing key given to \<^verbatim>\<open>at\<close> inside a \<^verbatim>\<open>noexcept\<close>
  function. \<open>OutOfFuel\<close> is the artefact of a bounded recursion; every operation that has
  fuel comes with a theorem that it is never returned.
\<close>

datatype fault =
    FpException string
  | AssertFailed
  | OutOfBounds
  | UseAfterFree
  | BufferOverflow
  | Terminate
  | OutOfFuel

type_synonym 'a outcome = "fault + 'a"

primrec bind_outcome :: "'a outcome \<Rightarrow> ('a \<Rightarrow> 'b outcome) \<Rightarrow> 'b outcome" where
  "bind_outcome (Inl e) f = Inl e"
| "bind_outcome (Inr a) f = f a"

definition assert_that :: "bool \<Rightarrow> unit outcome" where
  "assert_that b = (if b then Inr () else Inl AssertFailed)"

text \<open>
  Little-endian scalars. \<open>le_bytes n x\<close> is the \<open>n\<close>-byte object representation of the
  unsigned value \<open>x\<close> truncated to \<open>n\<close> bytes, which is what a \<^verbatim>\<open>static_cast\<close> to an
  unsigned type of that size followed by a store leaves in memory.
\<close>

primrec le_bytes :: "nat \<Rightarrow> nat \<Rightarrow> byte list" where
  "le_bytes 0 x = []"
| "le_bytes (Suc n) x = word_of_nat x # le_bytes n (x div 256)"

primrec le_value :: "byte list \<Rightarrow> nat" where
  "le_value [] = 0"
| "le_value (b # bs) = unat b + 256 * le_value bs"

text \<open>
  C strings: the characters before the first NUL of an array
  (\<^verbatim>\<open>strlen\<close>, \<^verbatim>\<open>strcpy\<close>, \<^verbatim>\<open>strcmp\<close> look at nothing else).
\<close>

definition c_string :: "byte list \<Rightarrow> byte list" where
  "c_string arr = takeWhile (\<lambda>b. b \<noteq> 0) arr"

definition nul_free :: "byte list \<Rightarrow> bool" where
  "nul_free s \<longleftrightarrow> 0 \<notin> set s"

definition str_bytes :: "string \<Rightarrow> byte list" where
  "str_bytes s = map of_char s"

text \<open>
  \<open>overwrite k ys xs\<close> overwrites \<open>xs\<close> with \<open>ys\<close> from offset \<open>k\<close> on: the effect of a
  copy of \<open>length ys\<close> bytes to that offset of a block.
\<close>

definition overwrite :: "nat \<Rightarrow> 'a list \<Rightarrow> 'a list \<Rightarrow> 'a list" where
  "overwrite k ys xs = take k xs @ ys @ drop (k + length ys) xs"

text \<open>
  Hash tables as association lists with one entry per key: \<^verbatim>\<open>emplace\<close> keeps an entry that
  is there, \<open>erase_key\<close> is \<^verbatim>\<open>erase\<close>, and \<open>alter_key\<close> changes a value in place.
\<close>

definition emplace :: "'k \<Rightarrow> 'v \<Rightarrow> ('k \<times> 'v) list \<Rightarrow> ('k \<times> 'v) list" where
  "emplace k v m = (if map_of m k = None then m @ [(k, v)] else m)"

definition erase_key :: "'k \<Rightarrow> ('k \<times> 'v) list \<Rightarrow> ('k \<times> 'v) list" where
  "erase_key k m = filter (\<lambda>x. fst x \<noteq> k) m"

definition alter_key :: "'k \<Rightarrow> ('v \<Rightarrow> 'v) \<Rightarrow> ('k \<times> 'v) list \<Rightarrow> ('k \<times> 'v) list" where
  "alter_key k f m = map (\<lambda>(a, b). (a, if a = k then f b else b)) m"

section \<open>Generic lemmas\<close>

lemma emplace_fresh: "k \<notin> fst ` set m \<Longrightarrow> emplace k v m = m @ [(k, v)]"
  by (simp add: emplace_def map_of_eq_None_iff)

lemma map_of_emplace [simp]:
  "map_of (emplace k v m) x = (if x = k \<and> map_of m k = None then Some v else map_of m x)"
  by (auto simp: emplace_def map_add_def split: option.splits)

lemma map_of_erase_key [simp]: "map_of (erase_key k m) x = (if x = k then None else map_of m x)"
  by (induction m) (auto simp: erase_key_def)

lemma map_of_alter_key [simp]:
  "map_of (alter_key k f m) x = (if x = k then map_option f (map_of m x) else map_of m x)"
  by (induction m) (auto simp: alter_key_def)

lemma length_overwrite [simp]:
  "k + length ys \<le> length xs \<Longrightarrow> length (overwrite k ys xs) = length xs"
  by (simp add: overwrite_def)

lemma take_overwrite_end:
  "k + length ys \<le> length xs \<Longrightarrow> take (k + length ys) (overwrite k ys xs) = take k xs @ ys"
  by (simp add: overwrite_def)

lemma take_overwrite_before: "n \<le> k \<Longrightarrow> k \<le> length xs \<Longrightarrow> take n (overwrite k ys xs) = take n xs"
  by (simp add: overwrite_def min_def)

lemma overwrite_take:
  "k + length ys \<le> n \<Longrightarrow> n \<le> length xs \<Longrightarrow> take n (overwrite k ys xs) = overwrite k ys (take n xs)"
  by (simp add: overwrite_def take_drop)

lemma overwrite_append_middle:
  "length as = k \<Longrightarrow> length ys = length bs \<Longrightarrow> overwrite k ys (as @ bs @ cs) = as @ ys @ cs"
  by (simp add: overwrite_def)

lemma bind_outcome_Inr [simp]:
  "bind_outcome m f = Inr b \<longleftrightarrow> (\<exists>a. m = Inr a \<and> f a = Inr b)"
  by (cases m) auto

lemma bind_outcome_Inl:
  "bind_outcome m f = Inl e \<longleftrightarrow> m = Inl e \<or> (\<exists>a. m = Inr a \<and> f a = Inl e)"
  by (cases m) auto

lemma bind_outcome_assoc: "bind_outcome (bind_outcome m f) g = bind_outcome m (\<lambda>x. bind_outcome (f x) g)"
  by (cases m) auto

lemma bind_outcome_Inr_id [simp]: "bind_outcome m Inr = m"
  by (cases m) auto

lemma assert_that_True [simp]: "assert_that True = Inr ()"
  by (simp add: assert_that_def)

lemma assert_that_Inr [simp]: "assert_that b = Inr u \<longleftrightarrow> b"
  by (simp add: assert_that_def)

lemma length_le_bytes [simp]: "length (le_bytes n x) = n"
  by (induction n arbitrary: x) auto

lemma le_value_less: "le_value bs < 256 ^ length bs"
proof (induction bs)
  case (Cons b bs)
  have "unat b < 256" using unsigned_less [of b] by simp
  with Cons show ?case by simp
qed simp

lemma le_value_le_bytes: "le_value (le_bytes n x) = x mod 256 ^ n"
proof (induction n arbitrary: x)
  case (Suc n)
  have "x mod (256 * 256 ^ n) = 256 * (x div 256 mod 256 ^ n) + x mod 256"
    by (rule mod_mult2_eq)
  with Suc show ?case by (simp add: unat_of_nat)
qed simp

lemma le_value_le_bytes_id [simp]: "x < 256 ^ n \<Longrightarrow> le_value (le_bytes n x) = x"
  by (simp add: le_value_le_bytes)

lemma le_bytes_le_value [simp]: "length bs = n \<Longrightarrow> le_bytes n (le_value bs) = bs"
proof (induction bs arbitrary: n)
  case (Cons b bs)
  then obtain k where n: "n = Suc k" and k: "length bs = k" by (cases n) auto
  have b: "unat b < 256" using unsigned_less [of b] by simp
  then have "(unat b + 256 * le_value bs) div 256 = le_value bs" by simp
  moreover have "(word_of_nat (unat b + 256 * le_value bs) :: byte) = b"
  proof -
    have "unat (word_of_nat (unat b + 256 * le_value bs) :: byte) = unat b"
      using b by (simp only: unat_of_nat) simp
    then show ?thesis by (rule unsigned_word_eqI)
  qed
  ultimately show ?case using n k Cons.IH by simp
qed simp

lemma le_bytes_mod: "le_bytes n (x mod 256 ^ n) = le_bytes n x"
  by (metis le_bytes_le_value le_value_le_bytes length_le_bytes)

lemma c_string_nul_free [simp]: "nul_free (c_string arr)"
  by (auto simp: nul_free_def c_string_def dest: set_takeWhileD)

lemma c_string_append_nul [simp]: "nul_free s \<Longrightarrow> c_string (s @ 0 # rest) = s"
  by (induction s) (auto simp: c_string_def nul_free_def)

lemma c_string_id: "nul_free s \<Longrightarrow> c_string s = s"
  by (induction s) (auto simp: c_string_def nul_free_def)

lemma length_c_string: "length (c_string arr) \<le> length arr"
  by (simp add: c_string_def length_takeWhile_le)

lemma nul_free_Nil [simp]: "nul_free []"
  by (simp add: nul_free_def)

lemma nul_free_Cons [simp]: "nul_free (b # bs) \<longleftrightarrow> b \<noteq> 0 \<and> nul_free bs"
  by (auto simp: nul_free_def)

lemma unat_of_nat_sub64:
  assumes "b \<le> a" "a < 2 ^ 64"
  shows "unat (word_of_nat a - word_of_nat b :: size_t) = a - b"
proof -
  have "(word_of_nat a - word_of_nat b :: size_t) = word_of_nat (a - b)"
    using assms(1) by (simp add: of_nat_diff)
  then have "unat (word_of_nat a - word_of_nat b :: size_t) = (a - b) mod 2 ^ 64"
    by (simp only: unat_of_nat) simp
  then show ?thesis using assms by simp
qed

lemma unat_of_nat64 [simp]: "a < 2 ^ 64 \<Longrightarrow> unat (word_of_nat a :: size_t) = a"
  by (simp add: unat_of_nat)

end
