(* ===== verification/Byte_Storage.thy ===== *)
theory Byte_Storage
  imports FP_Prelude
begin

text \<open>
  The byte containers \<^verbatim>\<open>ByteStorage\<close> (\<^verbatim>\<open>src/fastpath/ByteStorage.h\<close>) and
  \<^verbatim>\<open>MutableByteStorage\<close> (\<^verbatim>\<open>src/fastpath/MutableByteStorage.h\<close>), with the scalar
  accessors of \<^verbatim>\<open>src/fastpath/messages/Serializable.h\<close>.

  A storage owns or views one block of memory. \<open>m_bytes\<close> is the memory addressable from
  \<^verbatim>\<open>m_storage.first\<close>, \<open>m_capacity\<close> is \<^verbatim>\<open>m_storage.second\<close> (0 for a view) and
  \<open>m_block\<close> identifies the block: every \<^verbatim>\<open>allocateStorage\<close> takes a fresh one, so that a
  pointer handed out before a reallocation, which still names the old block, is
  recognised as dangling. The two read pointers are offsets from \<^verbatim>\<open>m_storage.first\<close>.
  \<open>m_allocator\<close> stands for the allocator: \<open>m_allocator i\<close> is the indeterminate byte a
  fresh block holds at offset \<open>i\<close>. Sizes are \<open>nat\<close>; where the source computes with
  \<^verbatim>\<open>size_t\<close> in a way that can wrap, the computation is written on 64-bit words.
\<close>

section \<open>Scalars and byte order\<close>

datatype endianness = LittleEndian | BigEndian

text \<open>The byte order in which the host stores an \<open>n\<close>-byte scalar, and \<^verbatim>\<open>__builtin_bswap\<close>.\<close>

definition native_store :: "endianness \<Rightarrow> nat \<Rightarrow> nat \<Rightarrow> byte list" where
  "native_store e n x = (case e of LittleEndian \<Rightarrow> le_bytes n x | BigEndian \<Rightarrow> rev (le_bytes n x))"

definition native_load :: "endianness \<Rightarrow> byte list \<Rightarrow> nat" where
  "native_load e bs = (case e of LittleEndian \<Rightarrow> le_value bs | BigEndian \<Rightarrow> le_value (rev bs))"

definition bswap :: "nat \<Rightarrow> nat \<Rightarrow> nat" where
  "bswap n x = le_value (rev (le_bytes n x))"

definition endianScalar :: "endianness \<Rightarrow> nat \<Rightarrow> nat \<Rightarrow> nat" where
  "endianScalar e n t =
     (case e of
        BigEndian \<Rightarrow> if n = 1 then t else bswap n t
      | LittleEndian \<Rightarrow> t)"

section \<open>ByteStorage\<close>

record byte_storage =
  m_allocator :: "nat \<Rightarrow> byte"
  m_block :: nat
  m_bytes :: "byte list"
  m_capacity :: nat
  m_storedLength :: nat
  m_options :: u32
  m_read_ptr :: nat
  m_mark_ptr :: nat

text \<open>A pointer into a block: the block and the offset.\<close>

type_synonym ptr = "nat \<times> nat"

definition TRANSIENT :: u32 where
  "TRANSIENT = 1"

definition COPY_ON_CONSTRUCT :: u32 where
  "COPY_ON_CONSTRUCT = 2"

definition TAKE_OWNERSHIP :: u32 where
  "TAKE_OWNERSHIP = 4"

definition next_pow2 :: "size_t \<Rightarrow> size_t" where
  "next_pow2 len =
     (let s = len - 1;
          s = s OR drop_bit 1 s;
          s = s OR drop_bit 2 s;
          s = s OR drop_bit 4 s;
          s = s OR drop_bit 8 s;
          s = s OR drop_bit 16 s
      in s + 1)"

definition allocateStorage :: "nat \<Rightarrow> byte_storage \<Rightarrow> byte_storage" where
  "allocateStorage len s =
     (let c = unat (next_pow2 (word_of_nat len))
      in s\<lparr>m_capacity := c, m_block := Suc (m_block s), m_bytes := map (m_allocator s) [0..<c]\<rparr>)"

definition ByteStorage_alloc :: "(nat \<Rightarrow> byte) \<Rightarrow> nat \<Rightarrow> byte_storage" where
  "ByteStorage_alloc allocator allocation =
     (let s = allocateStorage allocation
                \<lparr>m_allocator = allocator, m_block = 0, m_bytes = [], m_capacity = 0,
                 m_storedLength = 0, m_options = 0, m_read_ptr = 0, m_mark_ptr = 0\<rparr>
      in s\<lparr>m_read_ptr := 0, m_mark_ptr := 0\<rparr>)"

text \<open>
  The second constructor takes a pointer to existing bytes: \<open>bytes\<close> is the memory from
  that pointer to the end of its block.
\<close>

definition ByteStorage_bytes ::
  "(nat \<Rightarrow> byte) \<Rightarrow> byte list \<Rightarrow> nat \<Rightarrow> u32 \<Rightarrow> byte_storage outcome" where
  "ByteStorage_bytes allocator bytes len options =
     (let s0 = \<lparr>m_allocator = allocator, m_block = 0, m_bytes = [], m_capacity = 0,
                m_storedLength = 0, m_options = options, m_read_ptr = 0, m_mark_ptr = 0\<rparr>
      in if options AND COPY_ON_CONSTRUCT = COPY_ON_CONSTRUCT
         then let s = allocateStorage len s0
              in if len \<le> length bytes \<and> len \<le> m_capacity s
                 then Inr (s\<lparr>m_bytes := overwrite 0 (take len bytes) (m_bytes s),
                             m_storedLength := len, m_read_ptr := 0, m_mark_ptr := 0\<rparr>)
                 else Inl OutOfBounds
         else Inr (s0\<lparr>m_bytes := bytes, m_capacity := 0, m_storedLength := len,
                      m_read_ptr := 0, m_mark_ptr := 0\<rparr>))"

text \<open>The move constructor: the new object and what is left of \<^verbatim>\<open>orig\<close>.\<close>

definition ByteStorage_move :: "byte_storage \<Rightarrow> byte_storage \<times> byte_storage" where
  "ByteStorage_move orig =
     (orig\<lparr>m_read_ptr := 0, m_mark_ptr := 0\<rparr>,
      orig\<lparr>m_bytes := [], m_capacity := 0, m_storedLength := 0, m_options := 0,
           m_read_ptr := 0, m_mark_ptr := 0\<rparr>)"

text \<open>The destructor: the block it hands back to the allocator, if any.\<close>

definition ByteStorage_destroy :: "byte_storage \<Rightarrow> (nat \<times> nat) option" where
  "ByteStorage_destroy s =
     (if m_options s AND TAKE_OWNERSHIP = TAKE_OWNERSHIP
      then Some (m_block s, m_capacity s) else None)"

definition release_ownership :: "byte_storage \<Rightarrow> byte_storage" where
  "release_ownership s = s\<lparr>m_options := m_options s AND NOT TAKE_OWNERSHIP, m_capacity := 0\<rparr>"

text \<open>\<^verbatim>\<open>bytes(&data)\<close>: the data pointer (\<open>None\<close> for \<^verbatim>\<open>nullptr\<close>) and the length.\<close>

definition bytes_of :: "byte_storage \<Rightarrow> ptr option \<times> nat" where
  "bytes_of s = (if m_storedLength s > 0 then Some (m_block s, 0) else None, m_storedLength s)"

definition owns_copy :: "byte_storage \<Rightarrow> bool" where
  "owns_copy s \<longleftrightarrow> m_options s AND TAKE_OWNERSHIP = TAKE_OWNERSHIP"

definition byte_at :: "byte_storage \<Rightarrow> nat \<Rightarrow> byte outcome" where
  "byte_at s index = (if index < length (m_bytes s) then Inr (m_bytes s ! index) else Inl OutOfBounds)"

definition mark :: "byte_storage \<Rightarrow> byte_storage" where
  "mark s = s\<lparr>m_mark_ptr := m_read_ptr s\<rparr>"

definition resetRead :: "byte_storage \<Rightarrow> byte_storage" where
  "resetRead s = s\<lparr>m_read_ptr := m_mark_ptr s\<rparr>"

definition advanceRead :: "nat \<Rightarrow> byte_storage \<Rightarrow> byte_storage" where
  "advanceRead distance s = s\<lparr>m_read_ptr := m_read_ptr s + distance\<rparr>"

definition bytesRead :: "byte_storage \<Rightarrow> nat" where
  "bytesRead s = m_read_ptr s"

text \<open>The subtraction is on \<^verbatim>\<open>size_t\<close>: it wraps when more was read than is stored.\<close>

definition remainingReadLength :: "byte_storage \<Rightarrow> nat" where
  "remainingReadLength s = unat (word_of_nat (m_storedLength s) - word_of_nat (bytesRead s) :: size_t)"

text \<open>
  \<open>peek_bytes s k n\<close> reads \<open>n\<close> bytes at distance \<open>k\<close> from the read pointer
  (\<^verbatim>\<open>readBytes()\<close> and pointer arithmetic on it); leaving the block is a fault.
\<close>

definition peek_bytes :: "byte_storage \<Rightarrow> nat \<Rightarrow> nat \<Rightarrow> byte list outcome" where
  "peek_bytes s k n =
     (if m_read_ptr s + k + n \<le> length (m_bytes s)
      then Inr (take n (drop (m_read_ptr s + k) (m_bytes s))) else Inl OutOfBounds)"

text \<open>\<^verbatim>\<open>readScalar<T>(p)\<close> of Serializable.h, at a distance from the read pointer.\<close>

definition peekScalar :: "nat \<Rightarrow> nat \<Rightarrow> byte_storage \<Rightarrow> nat outcome" where
  "peekScalar k n s = bind_outcome (peek_bytes s k n) (\<lambda>bs. Inr (le_value bs))"

text \<open>The member \<^verbatim>\<open>readScalar<S>()\<close>: read \<open>n\<close> bytes and advance.\<close>

definition readScalar :: "nat \<Rightarrow> byte_storage \<Rightarrow> (nat \<times> byte_storage) outcome" where
  "readScalar n s = bind_outcome (peekScalar 0 n s) (\<lambda>v. Inr (v, advanceRead n s))"

definition segment :: "nat \<Rightarrow> byte_storage \<Rightarrow> (byte_storage \<times> byte_storage) outcome" where
  "segment len s =
     bind_outcome (assert_that (len \<le> remainingReadLength s)) (\<lambda>_.
     bind_outcome (ByteStorage_bytes (m_allocator s) (drop (m_read_ptr s) (m_bytes s)) len TRANSIENT) (\<lambda>seg.
     Inr (seg, advanceRead len s)))"

text \<open>The stored bytes, and \<^verbatim>\<open>operator==\<close> with its early return and its loop.\<close>

definition content :: "byte_storage \<Rightarrow> byte list" where
  "content s = take (m_storedLength s) (m_bytes s)"

fun equal_loop :: "byte list \<Rightarrow> byte list \<Rightarrow> nat \<Rightarrow> nat \<Rightarrow> bool" where
  "equal_loop xs ys i 0 = True"
| "equal_loop xs ys i (Suc n) = (if xs ! i \<noteq> ys ! i then False else equal_loop xs ys (Suc i) n)"

definition storage_equal :: "byte_storage \<Rightarrow> byte_storage \<Rightarrow> bool" where
  "storage_equal s t =
     (if m_storedLength s = m_storedLength t
      then equal_loop (m_bytes s) (m_bytes t) 0 (m_storedLength s) else False)"

section \<open>MutableByteStorage\<close>

definition setData :: "byte list \<Rightarrow> byte_storage \<Rightarrow> byte_storage" where
  "setData data s =
     (let s1 = (if length data > m_capacity s
                then allocateStorage (max (length data) (m_capacity s * 2)) s else s)
      in s1\<lparr>m_bytes := overwrite 0 data (m_bytes s1), m_storedLength := length data\<rparr>)"

definition allocate :: "nat \<Rightarrow> byte_storage \<Rightarrow> ptr \<times> byte_storage" where
  "allocate len s =
     (let s1 = (if m_storedLength s + len > m_capacity s
                then let t = allocateStorage (m_capacity s + len) s
                     in t\<lparr>m_bytes := overwrite 0 (m_bytes s) (m_bytes t)\<rparr>
                else s);
          pref_length = m_storedLength s1
      in ((m_block s1, pref_length), s1\<lparr>m_storedLength := pref_length + len\<rparr>))"

definition truncate_storage :: "nat \<Rightarrow> byte_storage \<Rightarrow> byte_storage" where
  "truncate_storage len s = s\<lparr>m_storedLength := len\<rparr>"

definition append_bytes :: "byte list \<Rightarrow> byte_storage \<Rightarrow> byte_storage" where
  "append_bytes buffer s =
     (let (p, s1) = allocate (length buffer) s
      in s1\<lparr>m_bytes := overwrite (snd p) buffer (m_bytes s1)\<rparr>)"

text \<open>\<^verbatim>\<open>append(src, length)\<close>: at most \<open>len\<close> of the stored bytes of another storage.\<close>

definition append_storage :: "byte_storage \<Rightarrow> nat \<Rightarrow> byte_storage \<Rightarrow> byte_storage" where
  "append_storage src len s = append_bytes (take (min (m_storedLength src) len) (m_bytes src)) s"

text \<open>\<^verbatim>\<open>appendScalar<S>(x)\<close> with \<open>n = sizeof(S)\<close>.\<close>

definition appendScalar :: "nat \<Rightarrow> nat \<Rightarrow> byte_storage \<Rightarrow> byte_storage" where
  "appendScalar n x s =
     (let (p, s1) = allocate n s
      in s1\<lparr>m_bytes := overwrite (snd p) (le_bytes n x) (m_bytes s1)\<rparr>)"

definition clear_storage :: "byte_storage \<Rightarrow> byte_storage" where
  "clear_storage s = s\<lparr>m_storedLength := 0, m_read_ptr := 0, m_mark_ptr := 0\<rparr>"

text \<open>\<^verbatim>\<open>writeScalar(p, t)\<close> of Serializable.h through a pointer obtained earlier.\<close>

definition writeScalar :: "ptr \<Rightarrow> nat \<Rightarrow> nat \<Rightarrow> byte_storage \<Rightarrow> byte_storage outcome" where
  "writeScalar p n t s =
     (if fst p \<noteq> m_block s then Inl UseAfterFree
      else if snd p + n > length (m_bytes s) then Inl OutOfBounds
      else Inr (s\<lparr>m_bytes := overwrite (snd p) (le_bytes n t) (m_bytes s)\<rparr>))"

text \<open>
  The invariant of an owning storage. The bound on the capacity is the address space:
  no allocator returns a block of more than \<open>2 ^ 62\<close> bytes.
\<close>

definition wf_storage :: "byte_storage \<Rightarrow> bool" where
  "wf_storage s \<longleftrightarrow> length (m_bytes s) = m_capacity s \<and> m_storedLength s \<le> m_capacity s
     \<and> m_capacity s \<le> 2 ^ 62"

section \<open>Byte order: the wire format does not depend on the host\<close>

lemma le_bytes_rev_value: "rev (le_bytes n (le_value (rev (le_bytes n x)))) = le_bytes n x"
  by simp

lemma store_endianScalar: "native_store e n (endianScalar e n x) = le_bytes n x"
proof (cases "e = BigEndian \<and> n = 1")
  case True
  then show ?thesis by (simp add: native_store_def endianScalar_def)
next
  case False
  then show ?thesis
    by (auto simp: native_store_def endianScalar_def bswap_def le_bytes_rev_value split: endianness.split)
qed

lemma load_endianScalar:
  assumes "length bs = n"
  shows "endianScalar e n (native_load e bs) = le_value bs"
proof (cases "e = BigEndian \<and> n = 1")
  case True
  with assms obtain b where "bs = [b]" by (auto simp: length_Suc_conv)
  with True show ?thesis by (simp add: native_load_def endianScalar_def)
next
  case False
  with assms show ?thesis
    by (auto simp: native_load_def endianScalar_def bswap_def split: endianness.split)
qed

section \<open>The capacity computation\<close>

definition smear :: "size_t \<Rightarrow> size_t" where
  "smear x0 =
     (let x1 = x0 OR drop_bit 1 x0; x2 = x1 OR drop_bit 2 x1; x3 = x2 OR drop_bit 4 x2;
          x4 = x3 OR drop_bit 8 x3
      in x4 OR drop_bit 16 x4)"

lemma next_pow2_smear: "next_pow2 len = smear (len - 1) + 1"
  by (simp add: next_pow2_def smear_def Let_def)

lemma smear_ge: "x \<le> smear x"
  unfolding smear_def Let_def by (meson le_word_or2 order_trans)

lemma bit_smear_step:
  fixes w :: size_t
  assumes "\<And>i. bit w i \<longleftrightarrow> (\<exists>j<n. bit x (i + j))"
  shows "bit (w OR drop_bit n w) i \<longleftrightarrow> (\<exists>j<2 * n. bit x (i + j))"
proof -
  have "bit (w OR drop_bit n w) i \<longleftrightarrow> (\<exists>j<n. bit x (i + j)) \<or> (\<exists>j<n. bit x (i + (n + j)))"
    using assms by (simp add: bit_or_iff bit_drop_bit_eq add.assoc add.left_commute)
  also have "\<dots> \<longleftrightarrow> (\<exists>j<2 * n. bit x (i + j))"
  proof (intro iffI; elim disjE exE conjE)
    fix j assume "j < 2 * n" "bit x (i + j)"
    then show "(\<exists>j<n. bit x (i + j)) \<or> (\<exists>j<n. bit x (i + (n + j)))"
    proof (cases "j < n")
      case False
      with \<open>j < 2 * n\<close> \<open>bit x (i + j)\<close> have "j - n < n \<and> bit x (i + (n + (j - n)))" by simp
      then show ?thesis by blast
    qed blast
  next
    fix j assume "j < n" "bit x (i + j)"
    then show "\<exists>j<2 * n. bit x (i + j)" by (auto intro!: exI [of _ j])
  next
    fix j assume "j < n" "bit x (i + (n + j))"
    then show "\<exists>j<2 * n. bit x (i + j)" by (auto intro!: exI [of _ "n + j"])
  qed
  finally show ?thesis .
qed

lemma bit_smear: "bit (smear x) i \<longleftrightarrow> (\<exists>j<32. bit x (i + j))"
proof -
  let ?x1 = "x OR drop_bit 1 x"
  let ?x2 = "?x1 OR drop_bit 2 ?x1"
  let ?x3 = "?x2 OR drop_bit 4 ?x2"
  let ?x4 = "?x3 OR drop_bit 8 ?x3"
  have b1: "bit ?x1 i \<longleftrightarrow> (\<exists>j<2. bit x (i + j))" for i
    using bit_smear_step [where n = 1 and w = x and x = x] by simp
  have b2: "bit ?x2 i \<longleftrightarrow> (\<exists>j<4. bit x (i + j))" for i
    using bit_smear_step [OF b1, of i] by simp
  have b3: "bit ?x3 i \<longleftrightarrow> (\<exists>j<8. bit x (i + j))" for i
    using bit_smear_step [OF b2, of i] by simp
  have b4: "bit ?x4 i \<longleftrightarrow> (\<exists>j<16. bit x (i + j))" for i
    using bit_smear_step [OF b3, of i] by simp
  show ?thesis
    using bit_smear_step [OF b4, of i] by (simp add: smear_def Let_def)
qed

lemma high_bits_unset:
  fixes w :: size_t
  assumes "\<And>i. n \<le> i \<Longrightarrow> \<not> bit w i"
  shows "unat w < 2 ^ n"
proof -
  have "take_bit n w = w"
    using assms by (intro bit_word_eqI) (metis bit_take_bit_iff not_le)
  then have "unat w = take_bit n (unat w)" by (metis unsigned_take_bit_eq)
  then show ?thesis by (metis take_bit_nat_less_exp)
qed

lemma no_bit_above:
  fixes w :: size_t
  assumes "unat w < 2 ^ n" "n \<le> i"
  shows "\<not> bit w i"
proof -
  have "take_bit n w = w"
    using assms(1) by (metis take_bit_nat_eq_self unsigned_take_bit_eq unsigned_word_eqI)
  then show ?thesis using assms(2) by (metis bit_take_bit_iff not_le)
qed

lemma smear_less: "unat x < 2 ^ n \<Longrightarrow> unat (smear x) < 2 ^ n"
  using no_bit_above [of x n] by (intro high_bits_unset) (meson bit_smear trans_le_add1)

lemma next_pow2_bounds:
  assumes "n \<le> 2 ^ 62"
  shows "n \<le> unat (next_pow2 (word_of_nat n))" "unat (next_pow2 (word_of_nat n)) \<le> 2 ^ 62"
proof -
  have "n \<le> unat (next_pow2 (word_of_nat n)) \<and> unat (next_pow2 (word_of_nat n)) \<le> 2 ^ 62"
  proof (cases "n = 0")
    case True
    have "next_pow2 0 = 0" by (simp add: next_pow2_def Let_def)
    with True show ?thesis by simp
  next
    case False
    let ?x = "word_of_nat (n - 1) :: size_t"
    have n1: "(word_of_nat n - 1 :: size_t) = ?x" using False by (simp add: of_nat_diff)
    have ux: "unat ?x = n - 1" using assms by (intro unat_of_nat64) simp
    with assms False have "unat ?x < 2 ^ 62" by simp
    then have less: "unat (smear ?x) < 2 ^ 62" by (rule smear_less)
    have "unat (smear ?x + 1) = unat (smear ?x) + 1"
      using less by (simp add: unat_word_ariths)
    moreover have "n - 1 \<le> unat (smear ?x)"
      using smear_ge [of ?x] ux by (simp add: word_le_nat_alt)
    ultimately show ?thesis using less by (simp add: next_pow2_smear n1)
  qed
  then show "n \<le> unat (next_pow2 (word_of_nat n))" "unat (next_pow2 (word_of_nat n)) \<le> 2 ^ 62"
    by blast+
qed

lemma smear_top_bit:
  assumes "2 ^ k \<le> unat x" "unat x < 2 ^ Suc k" "k < 32"
  shows "smear x = mask (Suc k)"
proof (rule bit_word_eqI)
  fix i assume i: "i < LENGTH(64)"
  have "unat x div 2 ^ k = 1"
    using assms(1,2) by (intro div_nat_eqI) simp_all
  then have "bit (unat x) k" by (simp add: bit_iff_odd)
  then have top: "bit x k" by (simp add: bit_unsigned_iff)
  have "bit (smear x) i \<longleftrightarrow> i \<le> k"
  proof
    assume "bit (smear x) i"
    then obtain j where "bit x (i + j)" by (auto simp: bit_smear)
    then have "\<not> Suc k \<le> i + j" using no_bit_above [OF assms(2)] by blast
    then show "i \<le> k" by simp
  next
    assume "i \<le> k"
    with top assms(3) have "k - i < 32 \<and> bit x (i + (k - i))" by simp
    then show "bit (smear x) i" unfolding bit_smear by blast
  qed
  then show "bit (smear x) i \<longleftrightarrow> bit (mask (Suc k) :: size_t) i"
    using i by (auto simp: bit_mask_iff)
qed

lemma next_pow2_least_power:
  assumes "0 < n" "n \<le> 2 ^ 32"
  shows "\<exists>k. unat (next_pow2 (word_of_nat n)) = 2 ^ k \<and> n \<le> 2 ^ k \<and> (\<forall>j. n \<le> 2 ^ j \<longrightarrow> k \<le> j)"
proof (cases "n = 1")
  case True
  have "next_pow2 1 = 1" by (simp add: next_pow2_def Let_def)
  with True show ?thesis by (intro exI [of _ 0]) simp
next
  case False
  let ?x = "word_of_nat (n - 1) :: size_t"
  have n1: "(word_of_nat n - 1 :: size_t) = ?x" using assms(1) by (simp add: of_nat_diff)
  have ux: "unat ?x = n - 1" using assms(2) by (intro unat_of_nat64) simp
  have "1 \<le> n - 1" using False assms(1) by simp
  then obtain k where k: "2 ^ k \<le> n - 1" "n - 1 < 2 ^ (k + 1)"
    using ex_power_ivl1 [of 2 "n - 1"] by auto
  have "(2::nat) ^ k < 2 ^ 32" using k(1) assms by simp
  then have k32: "k < 32" by (rule power_less_imp_less_exp [rotated]) simp
  have "smear ?x = mask (Suc k)"
    using k k32 ux by (intro smear_top_bit) simp_all
  then have "next_pow2 (word_of_nat n) = 2 ^ Suc k"
    by (simp add: next_pow2_smear n1 mask_eq_decr_exp)
  moreover have "unat (2 ^ Suc k :: size_t) = 2 ^ Suc k"
  proof -
    have "(2::nat) ^ Suc k < 2 ^ 64" using k32 by (intro power_strict_increasing) simp_all
    then have "unat (word_of_nat (2 ^ Suc k) :: size_t) = 2 ^ Suc k" by (rule unat_of_nat64)
    then show ?thesis by (simp only: of_nat_power of_nat_numeral)
  qed
  moreover have "Suc k \<le> j" if "n \<le> 2 ^ j" for j
  proof -
    have "(2::nat) ^ k < 2 ^ j" using k(1) that assms(1) by linarith
    then show ?thesis by (simp add: Suc_le_eq)
  qed
  moreover have "n \<le> 2 ^ Suc k" using k(2) by simp
  ultimately show ?thesis by metis
qed

section \<open>Storage operations and their contents\<close>

lemma allocateStorage_simps [storage_simps]:
  "m_allocator (allocateStorage n s) = m_allocator s"
  "m_storedLength (allocateStorage n s) = m_storedLength s"
  "m_options (allocateStorage n s) = m_options s"
  "m_read_ptr (allocateStorage n s) = m_read_ptr s"
  "m_mark_ptr (allocateStorage n s) = m_mark_ptr s"
  "m_block (allocateStorage n s) = Suc (m_block s)"
  "m_capacity (allocateStorage n s) = unat (next_pow2 (word_of_nat n))"
  "length (m_bytes (allocateStorage n s)) = m_capacity (allocateStorage n s)"
  by (simp_all add: allocateStorage_def Let_def)

lemma allocateStorage_capacity:
  assumes "n \<le> 2 ^ 62"
  shows "n \<le> m_capacity (allocateStorage n s)" "m_capacity (allocateStorage n s) \<le> 2 ^ 62"
  using next_pow2_bounds [OF assms] by (simp_all add: allocateStorage_simps)

lemma wf_storage_alloc: "n \<le> 2 ^ 62 \<Longrightarrow> wf_storage (ByteStorage_alloc a n)"
  using allocateStorage_capacity [of n]
  by (simp add: wf_storage_def ByteStorage_alloc_def Let_def storage_simps)

lemma content_alloc [storage_simps]: "content (ByteStorage_alloc a n) = []"
  by (simp add: content_def ByteStorage_alloc_def Let_def storage_simps)

lemma length_content: "wf_storage s \<Longrightarrow> length (content s) = m_storedLength s"
  by (simp add: content_def wf_storage_def)

text \<open>
  \<open>allocate\<close> keeps the stored bytes, extends the length, returns the old end as the
  pointer, and moves to a new block exactly when the capacity does not suffice.
\<close>

lemma allocate_no_grow:
  assumes "m_storedLength s + n \<le> m_capacity s"
  shows "allocate n s = ((m_block s, m_storedLength s), s\<lparr>m_storedLength := m_storedLength s + n\<rparr>)"
  using assms by (simp add: allocate_def Let_def)

lemma allocate_spec:
  assumes wf: "wf_storage s" and fits: "m_capacity s + n \<le> 2 ^ 62"
    and al: "allocate n s = (p, s')"
  shows "wf_storage s'" "m_storedLength s' = m_storedLength s + n"
    "take (m_storedLength s) (m_bytes s') = content s"
    "p = (m_block s', m_storedLength s)"
    "m_read_ptr s' = m_read_ptr s" "m_mark_ptr s' = m_mark_ptr s"
    "m_block s' = m_block s \<longleftrightarrow> m_storedLength s + n \<le> m_capacity s"
proof -
  let ?t = "allocateStorage (m_capacity s + n) s"
  have cap: "m_capacity s + n \<le> m_capacity ?t" "m_capacity ?t \<le> 2 ^ 62"
    using allocateStorage_capacity [OF fits] by blast+
  have len: "length (overwrite 0 (m_bytes s) (m_bytes ?t)) = m_capacity ?t"
    using cap wf by (subst length_overwrite) (simp_all add: wf_storage_def storage_simps)
  have stored: "take (m_storedLength s) (overwrite 0 (m_bytes s) (m_bytes ?t)) = content s"
    using wf by (simp add: overwrite_def content_def wf_storage_def)
  show "wf_storage s'"
    using wf cap len al by (auto simp: allocate_def Let_def wf_storage_def storage_simps split: if_splits)
  show "m_storedLength s' = m_storedLength s + n" "p = (m_block s', m_storedLength s)"
    "m_read_ptr s' = m_read_ptr s" "m_mark_ptr s' = m_mark_ptr s"
    "m_block s' = m_block s \<longleftrightarrow> m_storedLength s + n \<le> m_capacity s"
    using al by (auto simp: allocate_def Let_def storage_simps split: if_splits)
  show "take (m_storedLength s) (m_bytes s') = content s"
    using al stored by (auto simp: allocate_def Let_def storage_simps content_def split: if_splits)
qed

text \<open>Writing into the space just allocated: the common core of \<open>append\<close> and \<open>appendScalar\<close>.\<close>

lemma allocate_fill:
  assumes wf: "wf_storage s" and fits: "m_capacity s + length bs \<le> 2 ^ 62"
    and al: "allocate (length bs) s = (p, s')"
  shows "wf_storage (s'\<lparr>m_bytes := overwrite (snd p) bs (m_bytes s')\<rparr>)"
    "content (s'\<lparr>m_bytes := overwrite (snd p) bs (m_bytes s')\<rparr>) = content s @ bs"
proof -
  note a = allocate_spec [OF wf fits al]
  have room: "m_storedLength s + length bs \<le> length (m_bytes s')"
    using a(1,2) by (simp add: wf_storage_def)
  show "wf_storage (s'\<lparr>m_bytes := overwrite (snd p) bs (m_bytes s')\<rparr>)"
    using a(1,4) room by (simp add: wf_storage_def)
  show "content (s'\<lparr>m_bytes := overwrite (snd p) bs (m_bytes s')\<rparr>) = content s @ bs"
    using take_overwrite_end [OF room] a(2,3,4) by (simp add: content_def)
qed

lemma append_bytes_spec:
  assumes "wf_storage s" "m_capacity s + length bs \<le> 2 ^ 62"
  shows "wf_storage (append_bytes bs s)" "content (append_bytes bs s) = content s @ bs"
  using allocate_fill [OF assms] by (simp_all add: append_bytes_def split: prod.split)

lemma appendScalar_eq: "appendScalar n x s = append_bytes (le_bytes n x) s"
  by (simp add: appendScalar_def append_bytes_def)

lemma appendScalar_spec:
  assumes "wf_storage s" "m_capacity s + n \<le> 2 ^ 62"
  shows "wf_storage (appendScalar n x s)" "content (appendScalar n x s) = content s @ le_bytes n x"
  using append_bytes_spec [of s "le_bytes n x"] assms by (simp_all add: appendScalar_eq)

text \<open>Without growth the block, the capacity and the read pointers do not move.\<close>

lemma append_bytes_in_place:
  assumes "m_storedLength s + length bs \<le> m_capacity s"
  shows "append_bytes bs s =
    s\<lparr>m_storedLength := m_storedLength s + length bs, m_bytes := overwrite (m_storedLength s) bs (m_bytes s)\<rparr>"
  using assms by (simp add: append_bytes_def allocate_no_grow)

lemma append_bytes_in_place_simps [storage_simps]:
  assumes "m_storedLength s + length bs \<le> m_capacity s"
  shows "m_block (append_bytes bs s) = m_block s" "m_capacity (append_bytes bs s) = m_capacity s"
    "m_storedLength (append_bytes bs s) = m_storedLength s + length bs"
    "m_read_ptr (append_bytes bs s) = m_read_ptr s" "m_options (append_bytes bs s) = m_options s"
  using assms by (simp_all add: append_bytes_in_place)

lemma append_storage_spec:
  assumes "wf_storage s" "wf_storage src" "m_capacity s + m_storedLength src \<le> 2 ^ 62"
  shows "content (append_storage src len s) = content s @ take len (content src)"
proof -
  have "take (min (m_storedLength src) len) (m_bytes src) = take len (content src)"
    by (simp add: content_def min.commute)
  moreover have "length (take len (content src)) \<le> m_storedLength src"
    using length_content [OF assms(2)] by simp
  ultimately show ?thesis
    using append_bytes_spec(2) [OF assms(1), of "take len (content src)"] assms(3)
    by (simp add: append_storage_def)
qed

lemma setData_spec:
  assumes "wf_storage s" "length data \<le> 2 ^ 62" "m_capacity s \<le> 2 ^ 61"
  shows "wf_storage (setData data s)" "content (setData data s) = data"
proof -
  let ?n = "max (length data) (m_capacity s * 2)"
  have "?n \<le> 2 ^ 62" using assms(2,3) by simp
  note cap = allocateStorage_capacity [OF this, of s]
  show "wf_storage (setData data s)"
    using assms(1) cap by (auto simp: setData_def Let_def wf_storage_def storage_simps)
  show "content (setData data s) = data"
    by (auto simp: setData_def Let_def content_def overwrite_def)
qed

lemma writeScalar_content:
  assumes "wf_storage s" "writeScalar p n x s = Inr s'" "snd p + n \<le> m_storedLength s"
  shows "wf_storage s'" "content s' = overwrite (snd p) (le_bytes n x) (content s)"
    "m_block s' = m_block s" "m_capacity s' = m_capacity s" "m_storedLength s' = m_storedLength s"
  using assms by (auto simp: writeScalar_def wf_storage_def content_def overwrite_take split: if_splits)

lemma remaining_simp [storage_simps]:
  "m_read_ptr s \<le> m_storedLength s \<Longrightarrow> m_storedLength s < 2 ^ 64 \<Longrightarrow>
   remainingReadLength s = m_storedLength s - m_read_ptr s"
  by (simp add: remainingReadLength_def bytesRead_def unat_of_nat_sub64 del: word_of_nat_eq_iff)

lemma equal_loop_iff:
  "i + n \<le> length xs \<Longrightarrow> i + n \<le> length ys \<Longrightarrow>
   equal_loop xs ys i n \<longleftrightarrow> take n (drop i xs) = take n (drop i ys)"
proof (induction xs ys i n rule: equal_loop.induct)
  case (2 xs ys i n)
  have "take (Suc n) (drop i zs) = zs ! i # take n (drop (Suc i) zs)" if "i < length zs" for zs :: "byte list"
    using that by (simp add: Cons_nth_drop_Suc [symmetric])
  then show ?case using 2 by auto
qed simp

lemma storage_equal_iff:
  assumes "wf_storage s" "wf_storage t"
  shows "storage_equal s t \<longleftrightarrow> content s = content t"
proof (cases "m_storedLength s = m_storedLength t")
  case True
  then show ?thesis
    using assms equal_loop_iff [of 0 "m_storedLength s" "m_bytes s" "m_bytes t"]
    by (simp add: storage_equal_def content_def wf_storage_def)
next
  case False
  then have "length (content s) \<noteq> length (content t)"
    using assms by (simp add: length_content)
  with False show ?thesis by (auto simp: storage_equal_def)
qed

end
