(* ===== verification/Message_Fields.thy ===== *)
theory Message_Fields
  imports Byte_Storage "HOL-Library.Signed_Division"
begin

text \<open>
  The field classes of \<^verbatim>\<open>src/fastpath/messages\<close>: storage types
  (\<^verbatim>\<open>StorageTypes.h\<close>), the traits of the scalar types (\<^verbatim>\<open>FieldTraits.h\<close>), the base class
  \<^verbatim>\<open>Field\<close> and its five subclasses with their constructors, accessors and equality.

  A field is a header (the members of \<^verbatim>\<open>Field\<close>) and the payload of its class. The
  identifier is the C string in the 256-byte array \<^verbatim>\<open>m_identifier\<close>. Small and large data
  fields hold the bytes that were written to their storage. Floating point values are
  their bit patterns. Fields and messages are mutually recursive, because a
  \<^verbatim>\<open>MessageField\<close> holds a message.
\<close>

section \<open>Storage types and scalar traits\<close>

datatype storage_type =
    st_unknown | st_string | st_date_time | st_boolean
  | st_uint8 | st_uint16 | st_uint32 | st_uint64
  | st_int8 | st_int16 | st_int32 | st_int64
  | st_float32 | st_float64 | st_data | st_message
  | st_invalid byte  \<comment> \<open>a value cast from the wire that no enumerator has\<close>

fun type_code :: "storage_type \<Rightarrow> byte" where
  "type_code st_unknown = 0"
| "type_code st_string = 1"
| "type_code st_date_time = 2"
| "type_code st_boolean = 3"
| "type_code st_uint8 = 4"
| "type_code st_uint16 = 5"
| "type_code st_uint32 = 6"
| "type_code st_uint64 = 7"
| "type_code st_int8 = 8"
| "type_code st_int16 = 9"
| "type_code st_int32 = 10"
| "type_code st_int64 = 11"
| "type_code st_float32 = 12"
| "type_code st_float64 = 13"
| "type_code st_data = 14"
| "type_code st_message = 15"
| "type_code (st_invalid b) = b"

definition enumerators :: "storage_type list" where
  "enumerators =
     [st_unknown, st_string, st_date_time, st_boolean, st_uint8, st_uint16, st_uint32, st_uint64,
      st_int8, st_int16, st_int32, st_int64, st_float32, st_float64, st_data, st_message]"

text \<open>\<^verbatim>\<open>static_cast<storage_type>(code)\<close>\<close>

definition type_of_code :: "byte \<Rightarrow> storage_type" where
  "type_of_code b = (if unat b < 16 then enumerators ! unat b else st_invalid b)"

datatype scalar =
    SBool bool
  | SU8 byte | SU16 u16 | SU32 u32 | SU64 size_t
  | SI8 byte | SI16 u16 | SI32 u32 | SI64 size_t
  | SF32 u32 | SF64 size_t

fun scalar_type :: "scalar \<Rightarrow> storage_type" where
  "scalar_type (SBool _) = st_boolean"
| "scalar_type (SU8 _) = st_uint8"
| "scalar_type (SU16 _) = st_uint16"
| "scalar_type (SU32 _) = st_uint32"
| "scalar_type (SU64 _) = st_uint64"
| "scalar_type (SI8 _) = st_int8"
| "scalar_type (SI16 _) = st_int16"
| "scalar_type (SI32 _) = st_int32"
| "scalar_type (SI64 _) = st_int64"
| "scalar_type (SF32 _) = st_float32"
| "scalar_type (SF64 _) = st_float64"

text \<open>\<^verbatim>\<open>field_traits<T>::size\<close>, by the storage type of \<open>T\<close>.\<close>

fun type_size :: "storage_type \<Rightarrow> nat" where
  "type_size st_boolean = 1"
| "type_size st_uint8 = 1"
| "type_size st_uint16 = 2"
| "type_size st_uint32 = 4"
| "type_size st_uint64 = 8"
| "type_size st_int8 = 1"
| "type_size st_int16 = 2"
| "type_size st_int32 = 4"
| "type_size st_int64 = 8"
| "type_size st_float32 = 4"
| "type_size st_float64 = 8"
| "type_size _ = 0"

fun scalar_bits :: "scalar \<Rightarrow> nat" where
  "scalar_bits (SBool b) = (if b then 1 else 0)"
| "scalar_bits (SU8 w) = unat w"
| "scalar_bits (SU16 w) = unat w"
| "scalar_bits (SU32 w) = unat w"
| "scalar_bits (SU64 w) = unat w"
| "scalar_bits (SI8 w) = unat w"
| "scalar_bits (SI16 w) = unat w"
| "scalar_bits (SI32 w) = unat w"
| "scalar_bits (SI64 w) = unat w"
| "scalar_bits (SF32 w) = unat w"
| "scalar_bits (SF64 w) = unat w"

text \<open>\<^verbatim>\<open>readScalar<T>(m_raw)\<close>, again by the storage type of \<open>T\<close>.\<close>

fun scalar_of_bits :: "storage_type \<Rightarrow> nat \<Rightarrow> scalar option" where
  "scalar_of_bits st_boolean n = Some (SBool (n \<noteq> 0))"
| "scalar_of_bits st_uint8 n = Some (SU8 (word_of_nat n))"
| "scalar_of_bits st_uint16 n = Some (SU16 (word_of_nat n))"
| "scalar_of_bits st_uint32 n = Some (SU32 (word_of_nat n))"
| "scalar_of_bits st_uint64 n = Some (SU64 (word_of_nat n))"
| "scalar_of_bits st_int8 n = Some (SI8 (word_of_nat n))"
| "scalar_of_bits st_int16 n = Some (SI16 (word_of_nat n))"
| "scalar_of_bits st_int32 n = Some (SI32 (word_of_nat n))"
| "scalar_of_bits st_int64 n = Some (SI64 (word_of_nat n))"
| "scalar_of_bits st_float32 n = Some (SF32 (word_of_nat n))"
| "scalar_of_bits st_float64 n = Some (SF64 (word_of_nat n))"
| "scalar_of_bits _ n = None"

section \<open>Fields and messages\<close>

record field_header =
  f_identifier :: "byte list"
  f_type :: storage_type
  f_data_length :: nat

datatype field =
    ScalarField (field_hdr: field_header) (m_raw: "byte list")
  | SmallDataField (field_hdr: field_header) (small_storage: "byte list")
  | LargeDataField (field_hdr: field_header) (large_storage: "byte list")
  | DateTimeField (field_hdr: field_header) (fp_seconds: size_t) (fp_microseconds: size_t)
  | MessageField (field_hdr: field_header) (m_msg: message)
and message =
    Message (m_hasAddressing: bool) (m_flags: byte) (m_subject: "byte list")
      (m_payload: "field list") (m_keys: "(byte list \<times> nat) list")

text \<open>
  The constructor \<^verbatim>\<open>Field(identifier, type, length)\<close> copies the identifier with
  \<^verbatim>\<open>strcpy\<close> into an array of 256 characters.
\<close>

definition Field_ctor :: "byte list \<Rightarrow> storage_type \<Rightarrow> nat \<Rightarrow> field_header outcome" where
  "Field_ctor ident ty len =
     (if length (c_string ident) < 256
      then Inr \<lparr>f_identifier = c_string ident, f_type = ty, f_data_length = len\<rparr>
      else Inl BufferOverflow)"

definition field_identifier :: "field \<Rightarrow> byte list" where
  "field_identifier f = f_identifier (field_hdr f)"

definition field_type :: "field \<Rightarrow> storage_type" where
  "field_type f = f_type (field_hdr f)"

definition field_size :: "field \<Rightarrow> nat" where
  "field_size f = f_data_length (field_hdr f)"

subsection \<open>ScalarField\<close>

definition ScalarField_ctor :: "byte list \<Rightarrow> scalar \<Rightarrow> field outcome" where
  "ScalarField_ctor ident value =
     bind_outcome (Field_ctor ident (scalar_type value) (type_size (scalar_type value))) (\<lambda>h.
     Inr (ScalarField h
       (overwrite 0 (le_bytes (type_size (scalar_type value)) (scalar_bits value)) (replicate 8 0))))"

text \<open>
  \<^verbatim>\<open>get<T>()\<close> with its assertion on the stored type. Applied to a field of another
  class (the caller casts without a check) the assertion reads the same base class member.
\<close>

definition ScalarField_get :: "storage_type \<Rightarrow> field \<Rightarrow> scalar outcome" where
  "ScalarField_get t f =
     bind_outcome (assert_that (field_type f = t)) (\<lambda>_.
     case f of
       ScalarField h raw \<Rightarrow>
         (case scalar_of_bits t (le_value (take (type_size t) raw)) of
            Some v \<Rightarrow> Inr v | None \<Rightarrow> Inl OutOfBounds)
     | _ \<Rightarrow> Inl OutOfBounds)"

subsection \<open>SmallDataField and LargeDataField\<close>

definition max_small_size :: nat where
  "max_small_size = 256"

definition SmallDataField_string :: "byte list \<Rightarrow> byte list \<Rightarrow> field outcome" where
  "SmallDataField_string ident value =
     bind_outcome (Field_ctor ident st_string (length (c_string value) + 1)) (\<lambda>h.
     if f_data_length h \<le> max_small_size then Inr (SmallDataField h (c_string value @ [0]))
     else Inl BufferOverflow)"

definition SmallDataField_data :: "byte list \<Rightarrow> byte list \<Rightarrow> field outcome" where
  "SmallDataField_data ident value =
     bind_outcome (Field_ctor ident st_data (length value)) (\<lambda>h.
     if f_data_length h \<le> max_small_size then Inr (SmallDataField h value)
     else Inl BufferOverflow)"

text \<open>The large fields copy into a \<^verbatim>\<open>MutableByteStorage\<close> with \<^verbatim>\<open>setData\<close>.\<close>

definition LargeDataField_string :: "byte list \<Rightarrow> byte list \<Rightarrow> field outcome" where
  "LargeDataField_string ident value =
     bind_outcome (Field_ctor ident st_string (length (c_string value) + 1)) (\<lambda>h.
     Inr (LargeDataField h (content (setData (c_string value @ [0]) (ByteStorage_alloc (\<lambda>_. 0) 512)))))"

definition LargeDataField_data :: "byte list \<Rightarrow> byte list \<Rightarrow> field outcome" where
  "LargeDataField_data ident value =
     bind_outcome (Field_ctor ident st_data (length value)) (\<lambda>h.
     Inr (LargeDataField h (content (setData value (ByteStorage_alloc (\<lambda>_. 0) (length value))))))"

definition createDataField_string :: "byte list \<Rightarrow> byte list \<Rightarrow> field outcome" where
  "createDataField_string ident value =
     (if length (c_string value) + 1 \<le> max_small_size
      then SmallDataField_string ident value else LargeDataField_string ident value)"

definition createDataField_data :: "byte list \<Rightarrow> byte list \<Rightarrow> field outcome" where
  "createDataField_data ident value =
     (if length value \<le> max_small_size
      then SmallDataField_data ident value else LargeDataField_data ident value)"

text \<open>
  \<^verbatim>\<open>get(const char **)\<close> and \<^verbatim>\<open>get(const byte **)\<close>: the bytes the returned pointer
  and length describe.
\<close>

definition DataField_get :: "storage_type \<Rightarrow> field \<Rightarrow> byte list outcome" where
  "DataField_get t f =
     bind_outcome (assert_that (field_type f = t)) (\<lambda>_.
     case f of
       SmallDataField h bs \<Rightarrow> Inr (take (f_data_length h) bs)
     | LargeDataField h bs \<Rightarrow> Inr bs
     | _ \<Rightarrow> Inl OutOfBounds)"

subsection \<open>DateTimeField\<close>

definition date_time_size :: nat where
  "date_time_size = 16"

definition DateTimeField_seconds :: "byte list \<Rightarrow> size_t \<Rightarrow> size_t \<Rightarrow> field outcome" where
  "DateTimeField_seconds ident secs micros =
     bind_outcome (Field_ctor ident st_date_time date_time_size) (\<lambda>h.
     Inr (DateTimeField h secs micros))"

text \<open>From a count of microseconds; C++ division and remainder truncate towards zero.\<close>

definition DateTimeField_micros :: "byte list \<Rightarrow> int \<Rightarrow> field outcome" where
  "DateTimeField_micros ident value =
     bind_outcome (Field_ctor ident st_date_time date_time_size) (\<lambda>h.
     Inr (DateTimeField h (word_of_int (value sdiv 1000000)) (word_of_int (value smod 1000000))))"

text \<open>From a \<^verbatim>\<open>system_clock\<close> time point, a count of nanoseconds since the epoch.\<close>

definition DateTimeField_time_point :: "byte list \<Rightarrow> int \<Rightarrow> field outcome" where
  "DateTimeField_time_point ident ns =
     bind_outcome (Field_ctor ident st_date_time date_time_size) (\<lambda>h.
     let time = ns sdiv 1000
     in Inr (DateTimeField h (word_of_int (time sdiv 1000000)) (word_of_int (time smod 1000000))))"

definition DateTimeField_get :: "field \<Rightarrow> int option" where
  "DateTimeField_get f =
     (case f of
        DateTimeField h secs micros \<Rightarrow> Some (sint (secs * 1000000 + micros))
      | _ \<Rightarrow> None)"

subsection \<open>MessageField\<close>

definition MessageField_ctor :: "byte list \<Rightarrow> message \<Rightarrow> field outcome" where
  "MessageField_ctor ident msg =
     bind_outcome (Field_ctor ident st_message 0) (\<lambda>h. Inr (MessageField h msg))"

subsection \<open>Equality\<close>

text \<open>
  \<^verbatim>\<open>Field::operator==\<close> compares the base class and dispatches to \<^verbatim>\<open>isEqual\<close> of the
  left operand; \<^verbatim>\<open>BaseMessage::operator==\<close> is the three-iterator \<^verbatim>\<open>std::equal\<close>: it
  walks the payload of the left message, reads the other payload in step, and does not
  look at the length of the other one.
\<close>

fun field_equal :: "field \<Rightarrow> field \<Rightarrow> bool outcome"
  and payload_equal :: "field list \<Rightarrow> field list \<Rightarrow> bool outcome"
  and message_equal :: "message \<Rightarrow> message \<Rightarrow> bool outcome" where
  "field_equal (ScalarField h r) g =
     (if field_hdr g = h
      then (case g of ScalarField _ r' \<Rightarrow> Inr (r = r') | _ \<Rightarrow> Inr False) else Inr False)"
| "field_equal (SmallDataField h d) g =
     (if field_hdr g = h
      then (case g of SmallDataField _ d' \<Rightarrow> Inr (take (f_data_length h) d = take (f_data_length h) d')
            | _ \<Rightarrow> Inr False) else Inr False)"
| "field_equal (LargeDataField h d) g =
     (if field_hdr g = h
      then (case g of LargeDataField _ d' \<Rightarrow> Inr (d = d') | _ \<Rightarrow> Inr False) else Inr False)"
| "field_equal (DateTimeField h a b) g =
     (if field_hdr g = h
      then (case g of DateTimeField _ a' b' \<Rightarrow> Inr (a = a' \<and> b = b') | _ \<Rightarrow> Inr False) else Inr False)"
| "field_equal (MessageField h m) g =
     (if field_hdr g = h
      then (case g of MessageField _ m' \<Rightarrow> message_equal m m' | _ \<Rightarrow> Inr False) else Inr False)"
| "payload_equal [] ys = Inr True"
| "payload_equal (x # xs) [] = Inl OutOfBounds"
| "payload_equal (x # xs) (y # ys) =
     bind_outcome (field_equal x y) (\<lambda>b. if b then payload_equal xs ys else Inr False)"
| "message_equal (Message a fl sub pay keys) m' =
     (if fl = m_flags m' \<and> c_string sub = c_string (m_subject m')
      then payload_equal pay (m_payload m') else Inr False)"

section \<open>Lemmas\<close>

definition valid_type :: "storage_type \<Rightarrow> bool" where
  "valid_type t \<longleftrightarrow> (case t of st_invalid b \<Rightarrow> 16 \<le> unat b | _ \<Rightarrow> True)"

lemma enumerators_codes:
  assumes "n < 16"
  shows "type_code (enumerators ! n) = word_of_nat n" "valid_type (enumerators ! n)"
proof -
  have "list_all (\<lambda>n. type_code (enumerators ! n) = word_of_nat n \<and> valid_type (enumerators ! n)) [0..<16]"
    by (simp add: upt_rec enumerators_def valid_type_def)
  with assms show "type_code (enumerators ! n) = word_of_nat n" "valid_type (enumerators ! n)"
    by (auto simp: list_all_iff)
qed

lemma type_code_of_code [simp]: "type_code (type_of_code b) = b"
  by (simp add: type_of_code_def enumerators_codes)

lemma type_of_code_code [simp]: "valid_type t \<Longrightarrow> type_of_code (type_code t) = t"
  by (cases t) (simp_all add: type_of_code_def enumerators_def valid_type_def)

lemma valid_type_of_code [simp]: "valid_type (type_of_code b)"
  by (simp add: type_of_code_def enumerators_codes) (simp add: valid_type_def)

lemma scalar_bits_roundtrip [simp]: "scalar_of_bits (scalar_type v) (scalar_bits v) = Some v"
  by (cases v) simp_all

lemma scalar_bits_less: "scalar_bits v < 256 ^ type_size (scalar_type v)"
proof -
  have "unat (w :: byte) < 256" "unat (x :: u16) < 65536" "unat (y :: u32) < 4294967296"
    "unat (z :: size_t) < 18446744073709551616" for w x y z
    using unsigned_less [of w] unsigned_less [of x] unsigned_less [of y] unsigned_less [of z]
    by simp_all
  then show ?thesis by (cases v) simp_all
qed

lemma type_size_le_8: "type_size t \<le> 8"
  by (cases t) simp_all

lemma Field_ctor_Inr:
  "Field_ctor i t n = Inr h \<longleftrightarrow> length (c_string i) < 256
     \<and> h = \<lparr>f_identifier = c_string i, f_type = t, f_data_length = n\<rparr>"
  by (auto simp: Field_ctor_def)

lemma ScalarField_get_ctor:
  assumes "ScalarField_ctor i v = Inr f"
  shows "ScalarField_get t f = (if t = scalar_type v then Inr v else Inl AssertFailed)"
proof -
  let ?n = "type_size (scalar_type v)"
  have "take ?n (overwrite 0 (le_bytes ?n (scalar_bits v)) (replicate 8 0)) = le_bytes ?n (scalar_bits v)"
    by (simp add: overwrite_def)
  with assms show ?thesis
    by (auto simp: ScalarField_ctor_def Field_ctor_Inr ScalarField_get_def field_type_def
        assert_that_def scalar_bits_less)
qed

lemma LargeDataField_content:
  assumes "length bs \<le> 2 ^ 60" "n \<le> 2 ^ 60"
  shows "content (setData bs (ByteStorage_alloc (\<lambda>_. 0) n)) = bs"
  by (auto simp: setData_def Let_def content_def overwrite_def)

lemma DataField_get_string:
  assumes "createDataField_string i v = Inr f" "length v < 2 ^ 60"
  shows "DataField_get st_string f = Inr (c_string v @ [0])"
proof -
  have "length (c_string v @ [0]) \<le> 2 ^ 60"
    using assms(2) length_c_string [of v] by simp
  with assms show ?thesis
    by (auto simp: createDataField_string_def SmallDataField_string_def LargeDataField_string_def
        Field_ctor_Inr DataField_get_def field_type_def LargeDataField_content split: if_splits)
qed

lemma DataField_get_data:
  assumes "createDataField_data i v = Inr f" "length v < 2 ^ 60"
  shows "DataField_get st_data f = Inr v"
  using assms
  by (auto simp: createDataField_data_def SmallDataField_data_def LargeDataField_data_def
      Field_ctor_Inr DataField_get_def field_type_def LargeDataField_content split: if_splits)

lemma DateTimeField_get_micros:
  assumes "DateTimeField_micros i t = Inr f" "- (2 ^ 63) \<le> t" "t < 2 ^ 63"
  shows "DateTimeField_get f = Some t"
proof -
  have "(word_of_int (t sdiv 1000000) * 1000000 + word_of_int (t smod 1000000) :: size_t)
      = word_of_int ((t sdiv 1000000) * 1000000 + t smod 1000000)"
    by simp
  also have "(t sdiv 1000000) * 1000000 + t smod 1000000 = t"
    by (metis add.commute smod_sdiv_mult_eq)
  finally have "sint (word_of_int (t sdiv 1000000) * 1000000 + word_of_int (t smod 1000000) :: size_t) = t"
    using assms(2,3) by (simp add: signed_of_int signed_take_bit_int_eq_self)
  with assms(1) show ?thesis
    by (auto simp: DateTimeField_micros_def Field_ctor_Inr DateTimeField_get_def)
qed

lemma field_equal_refl: "field_equal f f = Inr True"
  and message_equal_refl: "message_equal m m = Inr True"
proof (induction f and m rule: field.induct message.induct)
  case (Message a fl sub pay keys)
  then have "payload_equal pay pay = Inr True" by (induction pay) simp_all
  then show ?case by simp
qed simp_all

text \<open>A message compares equal to every message that extends its payload.\<close>

lemma payload_equal_prefix: "payload_equal xs (xs @ ys) = Inr True"
  by (induction xs) (simp_all add: field_equal_refl)

end
