(* ===== verification/Messages.thy ===== *)
theory Messages
  imports Message_Fields "HOL-Library.AList"
begin

text \<open>
  The message classes of \<^verbatim>\<open>src/fastpath/messages\<close>: \<^verbatim>\<open>BaseMessage\<close> (the payload vector and
  the index from identifiers to positions), \<^verbatim>\<open>Message\<close> (flags and subject) and
  \<^verbatim>\<open>MutableMessage\<close> (the operations that build a message). The key index is an
  association list from identifiers to payload positions with at most one entry per key.
  The subject is the written prefix of the array \<^verbatim>\<open>m_subject\<close>. A null identifier is
  \<open>None\<close>. Field destruction only returns memory and has no effect on these values.
\<close>

section \<open>BaseMessage and Message\<close>

definition max_subject_length :: nat where
  "max_subject_length = 65535"

definition Message_new :: message where
  "Message_new = Message True 255 [0] [] []"

text \<open>The move constructor: the new message and what is left of the other one.\<close>

definition Message_move :: "message \<Rightarrow> message \<times> message" where
  "Message_move other =
     (case other of Message a fl sub pay keys \<Rightarrow>
        (Message a fl (c_string sub @ [0]) pay keys,
         Message a fl (overwrite 0 [0] sub) [] []))"

definition BaseMessage_size :: "message \<Rightarrow> nat" where
  "BaseMessage_size m = length (m_payload m) mod 2 ^ 32"

definition BaseMessage_clear :: "message \<Rightarrow> message" where
  "BaseMessage_clear m =
     (case m of Message a fl sub pay keys \<Rightarrow> Message a fl sub [] [])"

definition Message_clear :: "message \<Rightarrow> message" where
  "Message_clear m =
     (case m of Message a fl sub pay keys \<Rightarrow>
        BaseMessage_clear (Message a 255 (overwrite 0 [0] sub) pay keys))"

definition prepareForReuse :: "message \<Rightarrow> message" where
  "prepareForReuse m = Message_clear m"

definition payload_at :: "message \<Rightarrow> nat \<Rightarrow> field outcome" where
  "payload_at m i = (if i < length (m_payload m) then Inr (m_payload m ! i) else Inl OutOfBounds)"

definition find_key :: "message \<Rightarrow> byte list \<Rightarrow> nat option" where
  "find_key m name = map_of (m_keys m) (c_string name)"

text \<open>\<^verbatim>\<open>m_keys.at(field)\<close> throws for an unknown field, inside a \<^verbatim>\<open>noexcept\<close> function.\<close>

definition storageType :: "byte list \<Rightarrow> message \<Rightarrow> storage_type outcome" where
  "storageType name m =
     (case find_key m name of
        None \<Rightarrow> Inl Terminate
      | Some i \<Rightarrow> bind_outcome (payload_at m i) (\<lambda>f. Inr (field_type f)))"

text \<open>
  The eleven overloads of \<^verbatim>\<open>getScalarField\<close> differ in the type \<open>t\<close> only. The result is
  \<open>None\<close> where the function returns false.
\<close>

definition getScalarField :: "storage_type \<Rightarrow> byte list option \<Rightarrow> message \<Rightarrow> scalar option outcome" where
  "getScalarField t name m =
     (case name of
        None \<Rightarrow> Inr None
      | Some n \<Rightarrow>
          (case find_key m n of
             None \<Rightarrow> Inr None
           | Some i \<Rightarrow>
               bind_outcome (payload_at m i) (\<lambda>f.
               bind_outcome (ScalarField_get t f) (\<lambda>v. Inr (Some v)))))"

definition getDataField :: "byte list option \<Rightarrow> message \<Rightarrow> byte list option outcome" where
  "getDataField name m =
     (case name of
        None \<Rightarrow> Inr None
      | Some n \<Rightarrow>
          (case find_key m n of
             None \<Rightarrow> Inr None
           | Some i \<Rightarrow>
               bind_outcome (payload_at m i) (\<lambda>f.
               bind_outcome (DataField_get st_string f) (\<lambda>v. Inr (Some v)))))"

definition subject_string :: "message \<Rightarrow> byte list" where
  "subject_string m = c_string (m_subject m)"

section \<open>MutableMessage\<close>

definition setSubject :: "byte list \<Rightarrow> message \<Rightarrow> bool \<times> message" where
  "setSubject subject m =
     (if length (c_string subject) < max_subject_length
      then (True, case m of Message a fl sub pay keys \<Rightarrow>
                    Message a fl (overwrite 0 (c_string subject @ [0]) sub) pay keys)
      else (False, m))"

text \<open>\<^verbatim>\<open>m_keys.insert\<close>: whether the key was inserted, and the index afterwards.\<close>

definition key_insert :: "byte list \<Rightarrow> nat \<Rightarrow> (byte list \<times> nat) list \<Rightarrow> bool \<times> (byte list \<times> nat) list" where
  "key_insert k i keys =
     (case map_of keys k of None \<Rightarrow> (True, (k, i) # keys) | Some _ \<Rightarrow> (False, keys))"

text \<open>The common body of the \<^verbatim>\<open>add...Field\<close> functions, after the field \<^verbatim>\<open>e\<close> was created.\<close>

definition add_field :: "field \<Rightarrow> message \<Rightarrow> bool \<times> message" where
  "add_field e m =
     (case m of Message a fl sub pay keys \<Rightarrow>
        let (inserted, keys') = key_insert (field_identifier e) (length pay) keys
        in if inserted then (True, Message a fl sub (pay @ [e]) keys')
           else (False, Message a fl sub pay keys'))"

definition addScalarField :: "byte list \<Rightarrow> scalar \<Rightarrow> message \<Rightarrow> (bool \<times> message) outcome" where
  "addScalarField name value m =
     bind_outcome (ScalarField_ctor name value) (\<lambda>e. Inr (add_field e m))"

definition addDataField_data :: "byte list \<Rightarrow> byte list \<Rightarrow> message \<Rightarrow> (bool \<times> message) outcome" where
  "addDataField_data name value m =
     bind_outcome (createDataField_data name value) (\<lambda>e. Inr (add_field e m))"

definition addDataField_string :: "byte list \<Rightarrow> byte list \<Rightarrow> message \<Rightarrow> (bool \<times> message) outcome" where
  "addDataField_string name value m =
     bind_outcome (createDataField_string name value) (\<lambda>e. Inr (add_field e m))"

definition addMessageField :: "byte list \<Rightarrow> message \<Rightarrow> message \<Rightarrow> (bool \<times> message) outcome" where
  "addMessageField name msg m =
     bind_outcome (MessageField_ctor name msg) (\<lambda>e. Inr (add_field e m))"

definition addDateTimeField_time_point :: "byte list \<Rightarrow> int \<Rightarrow> message \<Rightarrow> (bool \<times> message) outcome" where
  "addDateTimeField_time_point name time m =
     bind_outcome (DateTimeField_time_point name time) (\<lambda>e. Inr (add_field e m))"

definition addDateTimeField_micros :: "byte list \<Rightarrow> int \<Rightarrow> message \<Rightarrow> (bool \<times> message) outcome" where
  "addDateTimeField_micros name time m =
     bind_outcome (DateTimeField_micros name time) (\<lambda>e. Inr (add_field e m))"

definition addDateTimeField_seconds ::
  "byte list \<Rightarrow> size_t \<Rightarrow> size_t \<Rightarrow> message \<Rightarrow> (bool \<times> message) outcome" where
  "addDateTimeField_seconds name secs micros m =
     bind_outcome (DateTimeField_seconds name secs micros) (\<lambda>e. Inr (add_field e m))"

text \<open>
  \<^verbatim>\<open>removeField\<close> erases the key and the payload element at its position. The source reads
  the position through the iterator after the erase that invalidated it; the model takes
  the value the iterator had. The positions of the other keys are left as they are.
\<close>

definition removeField :: "byte list option \<Rightarrow> message \<Rightarrow> (bool \<times> message) outcome" where
  "removeField name m =
     (case name of
        None \<Rightarrow> Inr (False, m)
      | Some n \<Rightarrow>
          (case find_key m n of
             None \<Rightarrow> Inr (False, m)
           | Some i \<Rightarrow>
               (case m of Message a fl sub pay keys \<Rightarrow>
                  if i < length pay
                  then Inr (True, Message a fl sub (take i pay @ drop (Suc i) pay)
                                    (AList.delete (c_string n) keys))
                  else Inl OutOfBounds)))"

section \<open>The key index invariant\<close>

text \<open>
  Every key names a payload element with that identifier (\<open>index_ok\<close>), and for messages
  that were built by the \<^verbatim>\<open>add\<close> functions every element has its key (\<open>index_exact\<close>).
\<close>

definition index_ok :: "message \<Rightarrow> bool" where
  "index_ok m \<longleftrightarrow> (\<forall>k i. map_of (m_keys m) k = Some i \<longrightarrow>
      i < length (m_payload m) \<and> field_identifier (m_payload m ! i) = k)"

definition index_exact :: "message \<Rightarrow> bool" where
  "index_exact m \<longleftrightarrow> (\<forall>k i. map_of (m_keys m) k = Some i \<longleftrightarrow>
      i < length (m_payload m) \<and> field_identifier (m_payload m ! i) = k)"

definition lookup_field :: "message \<Rightarrow> byte list \<Rightarrow> field option" where
  "lookup_field m k =
     (case map_of (m_keys m) k of
        None \<Rightarrow> None
      | Some i \<Rightarrow> if i < length (m_payload m) then Some (m_payload m ! i) else None)"

section \<open>The contract of a keyed container\<close>

locale keyed_container =
  fixes invar :: "'m \<Rightarrow> bool"
    and lookup :: "'m \<Rightarrow> 'k \<Rightarrow> 'f option"
    and add :: "'f \<Rightarrow> 'm \<Rightarrow> bool \<times> 'm"
    and key :: "'f \<Rightarrow> 'k"
  assumes add_fresh: "invar m \<Longrightarrow> lookup m (key f) = None \<Longrightarrow>
            fst (add f m) \<and> lookup (snd (add f m)) = (lookup m)(key f \<mapsto> f)"
    and add_duplicate: "invar m \<Longrightarrow> lookup m (key f) \<noteq> None \<Longrightarrow> add f m = (False, m)"
    and add_invar: "invar m \<Longrightarrow> invar (snd (add f m))"
begin

definition add_all :: "'f list \<Rightarrow> 'm \<Rightarrow> 'm" where
  "add_all fs m = fold (\<lambda>f m. snd (add f m)) fs m"

lemma add_keeps:
  "invar m \<Longrightarrow> lookup m k = Some g \<Longrightarrow> lookup (snd (add f m)) k = Some g"
  by (cases "lookup m (key f)") (auto simp: add_fresh add_duplicate)

lemma add_all_keeps:
  "invar m \<Longrightarrow> lookup m k = Some g \<Longrightarrow> lookup (add_all fs m) k = Some g"
  unfolding add_all_def by (induction fs arbitrary: m) (auto simp: add_keeps add_invar)

lemma add_all_lookup:
  assumes "invar m" "distinct (map key fs)" "\<And>f. f \<in> set fs \<Longrightarrow> lookup m (key f) = None" "f \<in> set fs"
  shows "lookup (add_all fs m) (key f) = Some f"
  using assms
proof (induction fs arbitrary: m)
  case (Cons g gs)
  have inv: "invar (snd (add g m))" using Cons.prems(1) by (rule add_invar)
  have fresh: "lookup (snd (add g m)) = (lookup m)(key g \<mapsto> g)"
    using Cons.prems(1,3) add_fresh by simp
  have eq: "add_all (g # gs) m = add_all gs (snd (add g m))" by (simp add: add_all_def)
  show ?case
  proof (cases "f = g")
    case True
    then show ?thesis using add_all_keeps [OF inv, of "key g" g gs] fresh eq by simp
  next
    case False
    then have "f \<in> set gs" using Cons.prems(4) by simp
    moreover have "lookup (snd (add g m)) (key h) = None" if "h \<in> set gs" for h
      using that Cons.prems(2,3) fresh by (auto simp: image_iff)
    ultimately show ?thesis using Cons.IH [OF inv] Cons.prems(2) eq by simp
  qed
qed simp

end

section \<open>Lemmas\<close>

lemma index_exact_ok: "index_exact m \<Longrightarrow> index_ok m"
  by (simp add: index_exact_def index_ok_def)

lemma index_exact_new: "index_exact Message_new"
  by (simp add: index_exact_def Message_new_def)

lemma index_exact_clear: "index_exact (Message_clear m)"
  by (cases m) (simp add: Message_clear_def BaseMessage_clear_def index_exact_def)

lemma lookup_field_exact:
  "index_exact m \<Longrightarrow> lookup_field m k = None \<longleftrightarrow> map_of (m_keys m) k = None"
  by (auto simp: lookup_field_def index_exact_def split: option.splits)

lemma add_field_fresh:
  assumes "map_of (m_keys m) (field_identifier e) = None"
  shows "add_field e m = (True, Message (m_hasAddressing m) (m_flags m) (m_subject m)
           (m_payload m @ [e]) ((field_identifier e, length (m_payload m)) # m_keys m))"
  using assms by (cases m) (simp add: add_field_def key_insert_def)

lemma add_field_duplicate:
  assumes "map_of (m_keys m) (field_identifier e) = Some i"
  shows "add_field e m = (False, m)"
  using assms by (cases m) (simp add: add_field_def key_insert_def)

lemma index_exactD:
  assumes "index_exact m" "i < length (m_payload m)"
  shows "map_of (m_keys m) (field_identifier (m_payload m ! i)) = Some i"
  using assms by (simp add: index_exact_def)

lemma index_ok_less: "index_ok m \<Longrightarrow> map_of (m_keys m) k = Some i \<Longrightarrow> i < length (m_payload m)"
  by (simp add: index_ok_def)

lemma index_exact_add:
  assumes "index_exact m"
  shows "index_exact (snd (add_field e m))"
proof (cases "map_of (m_keys m) (field_identifier e)")
  case None
  have "field_identifier (m_payload m ! i) \<noteq> field_identifier e" if "i < length (m_payload m)" for i
    using index_exactD [OF assms that] None by auto
  with assms None show ?thesis
    by (auto simp: add_field_fresh index_exact_def nth_append less_Suc_eq)
next
  case (Some i)
  with assms show ?thesis by (simp add: add_field_duplicate)
qed

lemma index_ok_add: "index_ok m \<Longrightarrow> index_ok (snd (add_field e m))"
  by (cases "map_of (m_keys m) (field_identifier e)")
     (auto simp: add_field_fresh add_field_duplicate index_ok_def nth_append less_Suc_eq)

lemma lookup_add_fresh:
  assumes "index_exact m" "lookup_field m (field_identifier e) = None"
  shows "lookup_field (snd (add_field e m)) = (lookup_field m)(field_identifier e \<mapsto> e)"
proof
  fix k
  have fresh: "map_of (m_keys m) (field_identifier e) = None"
    using assms lookup_field_exact by blast
  show "lookup_field (snd (add_field e m)) k = ((lookup_field m)(field_identifier e \<mapsto> e)) k"
  proof (cases "map_of (m_keys m) k")
    case None
    with fresh show ?thesis by (auto simp: add_field_fresh lookup_field_def)
  next
    case (Some i)
    then have "i < length (m_payload m)"
      using index_ok_less [OF index_exact_ok [OF assms(1)]] by blast
    with Some fresh show ?thesis by (auto simp: add_field_fresh lookup_field_def nth_append)
  qed
qed

interpretation msg: keyed_container index_exact lookup_field add_field field_identifier
proof unfold_locales
  fix m :: message and f
  assume m: "index_exact m"
  show "index_exact (snd (add_field f m))" by (rule index_exact_add [OF m])
  show "fst (add_field f m) \<and> lookup_field (snd (add_field f m)) = (lookup_field m)(field_identifier f \<mapsto> f)"
    if "lookup_field m (field_identifier f) = None"
    using lookup_add_fresh [OF m that] that m by (simp add: lookup_field_exact add_field_fresh)
  show "add_field f m = (False, m)" if "lookup_field m (field_identifier f) \<noteq> None"
    using that m by (auto simp: lookup_field_exact add_field_duplicate)
qed

text \<open>The getters read through \<open>lookup_field\<close> when the index is consistent.\<close>

lemma getScalarField_lookup:
  assumes "index_ok m"
  shows "getScalarField t (Some n) m =
    (case lookup_field m (c_string n) of
       None \<Rightarrow> Inr None
     | Some f \<Rightarrow> bind_outcome (ScalarField_get t f) (\<lambda>v. Inr (Some v)))"
  using assms
  by (auto simp: getScalarField_def find_key_def lookup_field_def payload_at_def index_ok_def
      split: option.splits)

lemma getDataField_lookup:
  assumes "index_ok m"
  shows "getDataField (Some n) m =
    (case lookup_field m (c_string n) of
       None \<Rightarrow> Inr None
     | Some f \<Rightarrow> bind_outcome (DataField_get st_string f) (\<lambda>v. Inr (Some v)))"
  using assms
  by (auto simp: getDataField_def find_key_def lookup_field_def payload_at_def index_ok_def
      split: option.splits)

text \<open>Removing the last field restores a consistent message without that field.\<close>

lemma removeField_last:
  assumes m: "index_exact m" and k: "find_key m n = Some (length (m_payload m) - 1)"
  shows "\<exists>m'. removeField (Some n) m = Inr (True, m') \<and> index_exact m'
    \<and> lookup_field m' = (lookup_field m)(c_string n := None)"
proof -
  obtain a fl sub pay keys where mm: "m = Message a fl sub pay keys" by (cases m)
  have "length pay - 1 < length pay" using k m mm by (auto simp: find_key_def index_exact_def)
  then obtain xs x where pay: "pay = xs @ [x]" by (cases pay rule: rev_cases) auto
  let ?c = "c_string n"
  let ?m' = "Message a fl sub xs (AList.delete ?c keys)"
  have c: "map_of keys ?c = Some (length xs)" using k mm pay by (simp add: find_key_def)
  have old: "map_of keys k = Some j \<longleftrightarrow> j < Suc (length xs) \<and> field_identifier ((xs @ [x]) ! j) = k" for k j
    using m mm pay by (simp add: index_exact_def)
  have keys': "map_of (AList.delete ?c keys) = (map_of keys)(?c := None)"
    by (rule delete_conv')
  have new: "map_of (AList.delete ?c keys) k = Some j \<longleftrightarrow> j < length xs \<and> field_identifier (xs ! j) = k" for k j
  proof
    assume "map_of (AList.delete ?c keys) k = Some j"
    then have kj: "k \<noteq> ?c" "map_of keys k = Some j" by (auto simp: keys' split: if_splits)
    then have "j \<noteq> length xs" using old [of ?c "length xs"] c old [of k j] by auto
    then show "j < length xs \<and> field_identifier (xs ! j) = k"
      using kj(2) old [of k j] by (auto simp: nth_append split: if_splits)
  next
    assume j: "j < length xs \<and> field_identifier (xs ! j) = k"
    then have "map_of keys k = Some j" using old [of k j] by (simp add: nth_append)
    moreover from this j c have "k \<noteq> ?c" by auto
    ultimately show "map_of (AList.delete ?c keys) k = Some j" by (simp add: keys')
  qed
  have "index_exact ?m'" by (simp add: index_exact_def new)
  moreover have "lookup_field ?m' k = ((lookup_field m)(?c := None)) k" for k
  proof (cases "map_of (AList.delete ?c keys) k")
    case None
    then show ?thesis by (auto simp: lookup_field_def mm keys' split: if_splits)
  next
    case (Some j)
    then have "k \<noteq> ?c" "map_of keys k = Some j" by (auto simp: keys' split: if_splits)
    moreover have "j < length xs" using Some new by blast
    ultimately show ?thesis by (simp add: lookup_field_def mm pay nth_append)
  qed
  moreover have "removeField (Some n) m = Inr (True, ?m')"
    using c by (simp add: removeField_def find_key_def mm pay)
  ultimately show ?thesis by blast
qed

end
