(* ===== verification/Message_Codec.thy ===== *)
theory Message_Codec
  imports Messages
begin

text \<open>
  The wire format: \<^verbatim>\<open>MessageCodec\<close> (\<^verbatim>\<open>src/fastpath/messages/MessageCodec.h\<close>) with the
  \<^verbatim>\<open>encode\<close> members and the decoding constructors of the field classes.

  Encoding appends to a storage. A message field and the outermost message reserve the
  space of a length, append their body and write the length afterwards through the
  pointer they kept; the pointer is compared with the current block, so that a write
  after the storage moved to another block is the fault \<open>UseAfterFree\<close>.
  Decoding reads from a view. The recursion between messages and fields is bounded by a
  fuel argument; \<open>decode_fuel\<close> is enough for every input (\<open>decode_base_total\<close>).
  The specification of the format is \<open>wire_message\<close>, on byte lists.
\<close>

section \<open>Layout constants\<close>

definition addressing_flag :: nat where
  "addressing_flag = 1"

definition body_flag :: nat where
  "body_flag = 2"

text \<open>\<^verbatim>\<open>MsgAddressing\<close>: start 1, length 8, flags 1, reserved 4, subject length 2.\<close>

definition MsgAddressing_size :: nat where
  "MsgAddressing_size = 1 + 8 + 1 + 4 + 2"

definition msg_length_offset :: nat where
  "msg_length_offset = 1 + 8"

definition MsgHeader_size :: nat where
  "MsgHeader_size = 1 + 4"

definition MsgField_size :: nat where
  "MsgField_size = 1 + 1 + 4"

section \<open>Encoding\<close>

definition Field_encode :: "field_header \<Rightarrow> byte list \<Rightarrow> byte_storage \<Rightarrow> nat \<times> byte_storage" where
  "Field_encode h data s =
     (let s = appendScalar 1 (unat (type_code (f_type h))) s;
          identifier_length = length (f_identifier h);
          s = appendScalar 1 identifier_length s;
          s = appendScalar 4 (length data) s;
          s = append_bytes (f_identifier h) s;
          s = append_bytes data s
      in (MsgField_size + identifier_length + length data, s))"

text \<open>\<^verbatim>\<open>m_time\<close> as bytes of the host.\<close>

definition date_time_bytes :: "endianness \<Rightarrow> size_t \<Rightarrow> size_t \<Rightarrow> byte list" where
  "date_time_bytes e secs micros = native_store e 8 (unat secs) @ native_store e 8 (unat micros)"

fun encode_field :: "field \<Rightarrow> byte_storage \<Rightarrow> (nat \<times> byte_storage) outcome"
  and encode_payload :: "field list \<Rightarrow> nat \<Rightarrow> byte_storage \<Rightarrow> (nat \<times> byte_storage) outcome"
  and encode_base :: "message \<Rightarrow> byte_storage \<Rightarrow> (nat \<times> byte_storage) outcome" where
  "encode_field (ScalarField h raw) s =
     (if f_data_length h \<le> length raw
      then Inr (Field_encode h (take (f_data_length h) raw) s) else Inl OutOfBounds)"
| "encode_field (SmallDataField h d) s =
     (if f_data_length h \<le> length d
      then Inr (Field_encode h (take (f_data_length h) d) s) else Inl OutOfBounds)"
| "encode_field (LargeDataField h d) s = Inr (Field_encode h d s)"
| "encode_field (DateTimeField h a b) s = Inr (Field_encode h (date_time_bytes LittleEndian a b) s)"
| "encode_field (MessageField h m) s =
     (let s = appendScalar 1 (unat (type_code (f_type h))) s;
          identifier_length = length (f_identifier h);
          s = appendScalar 1 identifier_length s;
          (data_len_ptr, s) = allocate 4 s;
          s = append_bytes (f_identifier h) s
      in bind_outcome (encode_base m s) (\<lambda>(data_length, s).
         bind_outcome (writeScalar data_len_ptr 4 data_length s) (\<lambda>s.
         Inr (MsgField_size + identifier_length + data_length, s))))"
| "encode_payload [] msgLength s = Inr (msgLength, s)"
| "encode_payload (f # fs) msgLength s =
     bind_outcome (encode_field f s) (\<lambda>(n, s). encode_payload fs (msgLength + n) s)"
| "encode_base (Message a fl sub pay keys) s =
     (let s = appendScalar 1 body_flag s;
          s = appendScalar 4 (BaseMessage_size (Message a fl sub pay keys)) s
      in encode_payload pay MsgHeader_size s)"

definition encode_message :: "message \<Rightarrow> byte_storage \<Rightarrow> (nat \<times> byte_storage) outcome" where
  "encode_message msg s =
     (let s = appendScalar 1 addressing_flag s;
          (length_ptr, s) = allocate 8 s;
          s = appendScalar 1 (unat (m_flags msg)) s;
          s = appendScalar 4 0 s;
          subject_length = length (subject_string msg) + 1;
          s = appendScalar 2 subject_length s;
          s = append_bytes (subject_string msg @ [0]) s;
          addressing_size = MsgAddressing_size + subject_length
      in bind_outcome (encode_base msg s) (\<lambda>(n, s).
         bind_outcome (writeScalar length_ptr 8 (addressing_size + n - msg_length_offset) s) (\<lambda>s.
         Inr (addressing_size + n, s))))"

section \<open>Decoding\<close>

definition Field_decode :: "byte_storage \<Rightarrow> (field_header \<times> byte_storage) outcome" where
  "Field_decode s =
     (if remainingReadLength s \<ge> MsgField_size then
        bind_outcome (readScalar 1 s) (\<lambda>(ty, s).
        bind_outcome (readScalar 1 s) (\<lambda>(identifier_length, s).
        bind_outcome (readScalar 4 s) (\<lambda>(data_length, s).
        if remainingReadLength s \<ge> identifier_length then
          bind_outcome (peek_bytes s 0 identifier_length) (\<lambda>bs.
          let s = advanceRead identifier_length s
          in if remainingReadLength s \<ge> data_length
             then Inr (\<lparr>f_identifier = c_string (bs @ [0]), f_type = type_of_code (word_of_nat ty),
                        f_data_length = data_length\<rparr>, s)
             else Inl (FpException ''Decode failed''))
        else Inl (FpException ''Decode failed''))))
      else Inl (FpException ''Decode failed''))"

definition peek_field_header :: "byte_storage \<Rightarrow> (storage_type \<times> nat \<times> nat) outcome" where
  "peek_field_header s =
     bind_outcome (peekScalar 0 1 s) (\<lambda>ty.
     bind_outcome (peekScalar 1 1 s) (\<lambda>identifier_length.
     bind_outcome (peekScalar 2 4 s) (\<lambda>data_size.
     Inr (type_of_code (word_of_nat ty), identifier_length, data_size))))"

definition ScalarField_decode :: "byte_storage \<Rightarrow> (field \<times> byte_storage) outcome" where
  "ScalarField_decode s =
     bind_outcome (Field_decode s) (\<lambda>(h, s).
     bind_outcome (peek_bytes s 0 (f_data_length h)) (\<lambda>bs.
     if f_data_length h \<le> 8
     then Inr (ScalarField h (overwrite 0 bs (replicate 8 0)), advanceRead (f_data_length h) s)
     else Inl BufferOverflow))"

definition SmallDataField_decode :: "byte_storage \<Rightarrow> (field \<times> byte_storage) outcome" where
  "SmallDataField_decode s =
     bind_outcome (Field_decode s) (\<lambda>(h, s).
     bind_outcome (peek_bytes s 0 (f_data_length h)) (\<lambda>bs.
     if f_data_length h \<le> max_small_size
     then Inr (SmallDataField h bs, advanceRead (f_data_length h) s)
     else Inl BufferOverflow))"

definition LargeDataField_decode :: "byte_storage \<Rightarrow> (field \<times> byte_storage) outcome" where
  "LargeDataField_decode s =
     bind_outcome (Field_decode s) (\<lambda>(h, s).
     bind_outcome (peek_bytes s 0 (f_data_length h)) (\<lambda>bs.
     Inr (LargeDataField h (content (setData bs (ByteStorage_alloc (\<lambda>_. 0) 512))),
          advanceRead (f_data_length h) s)))"

definition createDataField_decode :: "nat \<Rightarrow> byte_storage \<Rightarrow> (field \<times> byte_storage) outcome" where
  "createDataField_decode data_size s =
     (if data_size \<le> max_small_size then SmallDataField_decode s else LargeDataField_decode s)"

definition DateTimeField_decode :: "byte_storage \<Rightarrow> (field \<times> byte_storage) outcome" where
  "DateTimeField_decode s =
     bind_outcome (Field_decode s) (\<lambda>(h, s).
     bind_outcome (readScalar 8 s) (\<lambda>(secs, s).
     bind_outcome (readScalar 8 s) (\<lambda>(micros, s).
     Inr (DateTimeField h (word_of_nat secs) (word_of_nat micros), s))))"

text \<open>
  The decoder adds a key (which fails silently for a duplicate) and then the field.
\<close>

definition push_field :: "field \<Rightarrow> message \<Rightarrow> message" where
  "push_field f m =
     (case m of Message a fl sub pay keys \<Rightarrow>
        Message a fl sub (pay @ [f]) (snd (key_insert (field_identifier f) (length pay) keys)))"

fun decode_base :: "nat \<Rightarrow> message \<Rightarrow> byte_storage \<Rightarrow> (bool \<times> message \<times> byte_storage) outcome"
  and decode_fields :: "nat \<Rightarrow> nat \<Rightarrow> bool \<Rightarrow> message \<Rightarrow> byte_storage \<Rightarrow> (bool \<times> message \<times> byte_storage) outcome"
  and decode_field :: "nat \<Rightarrow> byte_storage \<Rightarrow> (field \<times> byte_storage) outcome" where
  "decode_base 0 msg s = Inl OutOfFuel"
| "decode_base (Suc fuel) msg s =
     bind_outcome (assert_that (m_storedLength s > 0)) (\<lambda>_.
     if remainingReadLength s > MsgHeader_size then
       bind_outcome (readScalar 1 s) (\<lambda>(chk, s).
       if chk \<noteq> body_flag then Inl (FpException ''Received corrupt message - incorrect body marker'')
       else bind_outcome (readScalar 4 s) (\<lambda>(field_count, s).
            decode_fields fuel field_count False msg s))
     else Inr (False, msg, s))"
| "decode_fields 0 n success msg s = Inl OutOfFuel"
| "decode_fields (Suc fuel) n success msg s =
     (if n = 0 then Inr (success, msg, s)
      else bind_outcome (decode_field fuel s) (\<lambda>(f, s).
           decode_fields fuel (n - 1) True (push_field f msg) s))"
| "decode_field 0 s = Inl OutOfFuel"
| "decode_field (Suc fuel) s =
     bind_outcome (peek_field_header s) (\<lambda>(ty, identifier_size, data_size).
     case ty of
       st_string \<Rightarrow> createDataField_decode data_size s
     | st_data \<Rightarrow> createDataField_decode data_size s
     | st_date_time \<Rightarrow> DateTimeField_decode s
     | st_message \<Rightarrow>
         bind_outcome (Field_decode s) (\<lambda>(h, s).
         bind_outcome (decode_base fuel Message_new s) (\<lambda>(_, m, s).
         Inr (MessageField (h\<lparr>f_data_length := 0\<rparr>) m, s)))
     | _ \<Rightarrow> ScalarField_decode s)"

definition decode_fuel :: "byte_storage \<Rightarrow> nat" where
  "decode_fuel s = 3 * length (m_bytes s) + 3"

datatype MessageDecodeStatus = CompleteMessage | IncompleteMessage | CorruptMessage

text \<open>
  The status and the out-parameter \<^verbatim>\<open>msg_length\<close> (0 where it is not assigned; the callers
  initialise it so). The sum is computed in \<^verbatim>\<open>uint64_t\<close>.
\<close>

definition have_complete_message :: "byte_storage \<Rightarrow> (MessageDecodeStatus \<times> nat) outcome" where
  "have_complete_message s =
     (if remainingReadLength s \<ge> MsgAddressing_size then
        bind_outcome (peekScalar 0 1 s) (\<lambda>chk.
        if chk \<noteq> addressing_flag then Inr (CorruptMessage, 0)
        else bind_outcome (peekScalar 1 8 s) (\<lambda>len.
             let msg_length = unat (word_of_nat len + word_of_nat msg_length_offset :: size_t)
             in if remainingReadLength s \<ge> msg_length then Inr (CompleteMessage, msg_length)
                else Inr (IncompleteMessage, msg_length)))
      else Inr (IncompleteMessage, 0))"

text \<open>The out-parameters of \<^verbatim>\<open>addressing_details\<close>; the subject is an offset into the storage.\<close>

record addressing =
  a_subject :: "nat option"
  a_subject_length :: nat
  a_flags :: byte
  a_msg_length :: nat

definition addressing_details ::
  "byte_storage \<Rightarrow> byte \<Rightarrow> (MessageDecodeStatus \<times> addressing \<times> byte_storage) outcome" where
  "addressing_details s flags0 =
     bind_outcome (have_complete_message s) (\<lambda>(status, msg_length).
     if status = CompleteMessage then
       let s = advanceRead 8 (advanceRead 1 s)
       in bind_outcome (peekScalar 0 1 s) (\<lambda>flags.
          let s = advanceRead 4 (advanceRead 1 s)
          in bind_outcome (peekScalar 0 2 s) (\<lambda>subject_length.
             let s = advanceRead 2 s
             in Inr (status,
                     \<lparr>a_subject = Some (m_read_ptr s), a_subject_length = subject_length,
                      a_flags = word_of_nat flags, a_msg_length = msg_length\<rparr>,
                     advanceRead subject_length s)))
     else Inr (status, \<lparr>a_subject = None, a_subject_length = 0, a_flags = flags0,
                        a_msg_length = msg_length\<rparr>, s))"

definition copy_subject :: "byte_storage \<Rightarrow> nat \<Rightarrow> nat \<Rightarrow> byte list \<Rightarrow> byte list outcome" where
  "copy_subject s off len arr =
     (if off + len \<le> length (m_bytes s)
      then Inr (overwrite 0 (take len (drop off (m_bytes s))) arr) else Inl OutOfBounds)"

definition decode_message :: "message \<Rightarrow> byte_storage \<Rightarrow> (bool \<times> message \<times> byte_storage) outcome" where
  "decode_message msg s =
     bind_outcome (addressing_details s (m_flags msg)) (\<lambda>(status, a, s).
     case status of
       CompleteMessage \<Rightarrow>
         (case a_subject a of
            None \<Rightarrow> Inl OutOfBounds
          | Some off \<Rightarrow>
              bind_outcome (copy_subject s off (a_subject_length a) (m_subject msg)) (\<lambda>sub.
              decode_base (decode_fuel s)
                (Message (m_hasAddressing msg) (a_flags a) sub (m_payload msg) (m_keys msg)) s))
     | CorruptMessage \<Rightarrow> Inl (FpException ''Received corrupt message - incorrect addressing marker'')
     | IncompleteMessage \<Rightarrow>
         Inr (False, Message (m_hasAddressing msg) (a_flags a) (m_subject msg) (m_payload msg) (m_keys msg), s))"

section \<open>The wire format as a specification\<close>

definition wire_leaf :: "field_header \<Rightarrow> byte list \<Rightarrow> byte list" where
  "wire_leaf h data =
     [type_code (f_type h)] @ le_bytes 1 (length (f_identifier h)) @ le_bytes 4 (length data)
     @ f_identifier h @ data"

fun wire_field :: "field \<Rightarrow> byte list"
  and wire_payload :: "field list \<Rightarrow> byte list"
  and wire_base :: "message \<Rightarrow> byte list" where
  "wire_field (ScalarField h raw) = wire_leaf h (take (f_data_length h) raw)"
| "wire_field (SmallDataField h d) = wire_leaf h (take (f_data_length h) d)"
| "wire_field (LargeDataField h d) = wire_leaf h d"
| "wire_field (DateTimeField h a b) = wire_leaf h (le_bytes 8 (unat a) @ le_bytes 8 (unat b))"
| "wire_field (MessageField h m) = wire_leaf h (wire_base m)"
| "wire_payload [] = []"
| "wire_payload (f # fs) = wire_field f @ wire_payload fs"
| "wire_base (Message a fl sub pay keys) = [2] @ le_bytes 4 (length pay) @ wire_payload pay"

definition wire_message :: "message \<Rightarrow> byte list" where
  "wire_message m =
     (let rest = [m_flags m] @ le_bytes 4 0 @ le_bytes 2 (length (subject_string m) + 1)
                 @ subject_string m @ [0] @ wire_base m
      in [1] @ le_bytes 8 (length rest) @ rest)"

text \<open>
  Fields and messages the format can carry: what the constructors build, within the
  widths of the length fields, and with a field in every nested message.
\<close>

definition wf_header :: "field_header \<Rightarrow> bool" where
  "wf_header h \<longleftrightarrow> nul_free (f_identifier h) \<and> length (f_identifier h) < 256"

fun wf_field :: "field \<Rightarrow> bool"
  and wf_payload :: "field list \<Rightarrow> bool"
  and wf_base :: "message \<Rightarrow> bool" where
  "wf_field (ScalarField h raw) \<longleftrightarrow>
     wf_header h \<and> valid_type (f_type h)
     \<and> f_type h \<notin> {st_string, st_data, st_date_time, st_message}
     \<and> f_data_length h \<le> 8 \<and> length raw = 8
     \<and> drop (f_data_length h) raw = replicate (8 - f_data_length h) 0"
| "wf_field (SmallDataField h d) \<longleftrightarrow>
     wf_header h \<and> f_type h \<in> {st_string, st_data} \<and> length d = f_data_length h
     \<and> f_data_length h \<le> max_small_size"
| "wf_field (LargeDataField h d) \<longleftrightarrow>
     wf_header h \<and> f_type h \<in> {st_string, st_data} \<and> length d = f_data_length h
     \<and> max_small_size < f_data_length h \<and> f_data_length h < 2 ^ 32"
| "wf_field (DateTimeField h a b) \<longleftrightarrow>
     wf_header h \<and> f_type h = st_date_time \<and> f_data_length h = date_time_size"
| "wf_field (MessageField h m) \<longleftrightarrow>
     wf_header h \<and> f_type h = st_message \<and> f_data_length h = 0
     \<and> wf_base m \<and> length (wire_base m) < 2 ^ 32"
| "wf_payload [] \<longleftrightarrow> True"
| "wf_payload (f # fs) \<longleftrightarrow> wf_field f \<and> wf_payload fs"
| "wf_base (Message a fl sub pay keys) \<longleftrightarrow> pay \<noteq> [] \<and> length pay < 2 ^ 32 \<and> wf_payload pay"

definition wf_message :: "message \<Rightarrow> bool" where
  "wf_message m \<longleftrightarrow> wf_base m \<and> length (subject_string m) + 1 < 2 ^ 16 \<and> length (wire_message m) < 2 ^ 62"

text \<open>
  What the decoder makes of an encoded field: nested messages lose their flags and
  subject, which are not part of the format, and get a fresh key index.
\<close>

fun received_field :: "field \<Rightarrow> field"
  and received_payload :: "field list \<Rightarrow> field list"
  and received_base :: "message \<Rightarrow> message" where
  "received_field (MessageField h m) = MessageField h (received_base m)"
| "received_field f = f"
| "received_payload [] = []"
| "received_payload (f # fs) = received_field f # received_payload fs"
| "received_base (Message a fl sub pay keys) = fold push_field (received_payload pay) Message_new"

end
