(* ===== verification/Message_Buffer.thy ===== *)
theory Message_Buffer
  imports Byte_Storage
begin

text \<open>
  The receive and send buffer \<^verbatim>\<open>MessageBuffer\<close> (\<^verbatim>\<open>src/fastpath/MessageBuffer.h\<close>): a
  growing storage of which a prefix (\<open>m_startIndex\<close> bytes) has been consumed. Its
  abstraction is the byte stream still to be read, \<open>visible\<close>; the locale \<open>byte_fifo\<close>
  states the contract the transports rely on, and is interpreted on the buffer.
\<close>

record message_buffer =
  m_startIndex :: nat
  mb_storage :: byte_storage

definition visible_length :: "message_buffer \<Rightarrow> nat" where
  "visible_length b =
     (if m_storedLength (mb_storage b) > m_startIndex b
      then m_storedLength (mb_storage b) - m_startIndex b else 0)"

definition MessageBuffer_new :: "(nat \<Rightarrow> byte) \<Rightarrow> nat \<Rightarrow> message_buffer" where
  "MessageBuffer_new a initialAllocation =
     \<lparr>m_startIndex = 0, mb_storage = ByteStorage_alloc a initialAllocation\<rparr>"

definition MessageBuffer_bytes :: "(nat \<Rightarrow> byte) \<Rightarrow> byte list \<Rightarrow> nat \<Rightarrow> message_buffer outcome" where
  "MessageBuffer_bytes a buffer initialAllocation =
     bind_outcome (ByteStorage_bytes a buffer initialAllocation (COPY_ON_CONSTRUCT OR TAKE_OWNERSHIP))
       (\<lambda>s. Inr \<lparr>m_startIndex = 0, mb_storage = s\<rparr>)"

definition MessageBuffer_move :: "message_buffer \<Rightarrow> message_buffer \<times> message_buffer" where
  "MessageBuffer_move orig =
     (let (s, s') = ByteStorage_move (mb_storage orig)
      in (orig\<lparr>mb_storage := s\<rparr>, \<lparr>m_startIndex = 0, mb_storage = s'\<rparr>))"

definition mutableBuffer :: "message_buffer \<Rightarrow> byte_storage outcome" where
  "mutableBuffer b =
     bind_outcome (assert_that (m_startIndex b \<le> m_storedLength (mb_storage b)))
       (\<lambda>_. Inr (mb_storage b))"

text \<open>
  \<^verbatim>\<open>byteStorage()\<close>: a transient view from the start index on. \<^verbatim>\<open>bytes\<close> is null when
  nothing is stored; the view then addresses nothing.
\<close>

definition byteStorage :: "message_buffer \<Rightarrow> byte_storage outcome" where
  "byteStorage b =
     ByteStorage_bytes (m_allocator (mb_storage b))
       (if fst (bytes_of (mb_storage b)) = None then []
        else drop (m_startIndex b) (m_bytes (mb_storage b)))
       (visible_length b) TRANSIENT"

definition buffer_allocate :: "nat \<Rightarrow> message_buffer \<Rightarrow> ptr \<times> message_buffer" where
  "buffer_allocate len b =
     (let st = mb_storage b;
          b1 = (if m_startIndex b \<noteq> 0 \<and> m_storedLength st + len > m_capacity st
                then let keep = m_storedLength st - m_startIndex b;
                         moved = st\<lparr>m_bytes := overwrite 0 (take keep (drop (m_startIndex b) (m_bytes st))) (m_bytes st)\<rparr>
                     in \<lparr>m_startIndex = 0, mb_storage = truncate_storage keep moved\<rparr>
                else b);
          previous_length = m_storedLength (mb_storage b1);
          (_, st2) = allocate len (mb_storage b1)
      in ((m_block st2, previous_length), b1\<lparr>mb_storage := st2\<rparr>))"

definition increaseLengthBy :: "nat \<Rightarrow> message_buffer \<Rightarrow> message_buffer" where
  "increaseLengthBy len b = snd (buffer_allocate len b)"

definition buffer_append :: "byte list \<Rightarrow> message_buffer \<Rightarrow> message_buffer" where
  "buffer_append data b = b\<lparr>mb_storage := append_bytes data (mb_storage b)\<rparr>"

definition erase_back :: "nat \<Rightarrow> message_buffer \<Rightarrow> message_buffer outcome" where
  "erase_back len b =
     (if len > 0 then
        bind_outcome (assert_that (len \<le> visible_length b)) (\<lambda>_.
        Inr (b\<lparr>mb_storage := truncate_storage (m_storedLength (mb_storage b) - len) (mb_storage b)\<rparr>))
      else Inr b)"

definition erase_front :: "nat \<Rightarrow> message_buffer \<Rightarrow> message_buffer outcome" where
  "erase_front len b =
     bind_outcome (assert_that (len \<le> visible_length b)) (\<lambda>_.
     bind_outcome (assert_that (len + m_startIndex b \<le> m_storedLength (mb_storage b))) (\<lambda>_.
     if len + m_startIndex b \<ge> m_storedLength (mb_storage b)
     then Inr \<lparr>m_startIndex = 0, mb_storage = clear_storage (mb_storage b)\<rparr>
     else if m_storedLength (mb_storage b) = 0 then Inr (b\<lparr>m_startIndex := 0\<rparr>)
     else bind_outcome (assert_that (m_startIndex b + len \<le> m_storedLength (mb_storage b)))
            (\<lambda>_. Inr (b\<lparr>m_startIndex := m_startIndex b + len\<rparr>))))"

text \<open>\<^verbatim>\<open>bytes(&data)\<close>: the readable bytes themselves stand for pointer and length.\<close>

definition buffer_bytes :: "message_buffer \<Rightarrow> byte list outcome" where
  "buffer_bytes b =
     bind_outcome (assert_that (m_startIndex b \<le> m_storedLength (mb_storage b))) (\<lambda>_.
     Inr (take (m_storedLength (mb_storage b) - m_startIndex b)
            (drop (m_startIndex b) (m_bytes (mb_storage b)))))"

text \<open>\<^verbatim>\<open>append(src, length)\<close>: the parameter \<open>len\<close> is not used by the body.\<close>

definition buffer_append_buffer :: "message_buffer \<Rightarrow> nat \<Rightarrow> message_buffer \<Rightarrow> message_buffer outcome" where
  "buffer_append_buffer src len b =
     bind_outcome (buffer_bytes src) (\<lambda>d.
     Inr (buffer_append (take (min (length d) (visible_length src)) d) b))"

definition buffer_clear :: "message_buffer \<Rightarrow> message_buffer" where
  "buffer_clear b = \<lparr>m_startIndex = 0, mb_storage = clear_storage (mb_storage b)\<rparr>"

definition buffer_at :: "message_buffer \<Rightarrow> nat \<Rightarrow> byte outcome" where
  "buffer_at b index =
     bind_outcome (assert_that (m_startIndex b \<le> m_storedLength (mb_storage b))) (\<lambda>_.
     if m_storedLength (mb_storage b) = 0 then Inl OutOfBounds
     else byte_at (mb_storage b) (m_startIndex b + index))"

definition wf_buffer :: "message_buffer \<Rightarrow> bool" where
  "wf_buffer b \<longleftrightarrow> wf_storage (mb_storage b) \<and> m_startIndex b \<le> m_storedLength (mb_storage b)"

definition visible :: "message_buffer \<Rightarrow> byte list" where
  "visible b = drop (m_startIndex b) (content (mb_storage b))"

section \<open>The contract: a byte FIFO\<close>

text \<open>
  What the transports use of the buffer: received bytes are added at the back, surplus
  is cut off the back, processed bytes are dropped from the front.
\<close>

locale byte_fifo =
  fixes contents :: "'b \<Rightarrow> byte list"
    and invar :: "'b \<Rightarrow> bool"
    and room :: "'b \<Rightarrow> nat \<Rightarrow> bool"
    and push_back :: "byte list \<Rightarrow> 'b \<Rightarrow> 'b"
    and drop_front :: "nat \<Rightarrow> 'b \<Rightarrow> 'b outcome"
    and drop_back :: "nat \<Rightarrow> 'b \<Rightarrow> 'b outcome"
  assumes push_contents: "invar b \<Longrightarrow> room b (length d) \<Longrightarrow> contents (push_back d b) = contents b @ d"
    and push_invar: "invar b \<Longrightarrow> room b (length d) \<Longrightarrow> invar (push_back d b)"
    and drop_front_ok: "invar b \<Longrightarrow> n \<le> length (contents b) \<Longrightarrow>
          \<exists>b'. drop_front n b = Inr b' \<and> invar b' \<and> contents b' = drop n (contents b)"
    and drop_back_ok: "invar b \<Longrightarrow> n \<le> length (contents b) \<Longrightarrow>
          \<exists>b'. drop_back n b = Inr b' \<and> invar b' \<and> contents b' = take (length (contents b) - n) (contents b)"
begin

text \<open>Receiving \<open>d\<close> and then consuming as much as was there keeps exactly the rest.\<close>

lemma push_then_drop:
  assumes "invar b" "room b (length d)" "n \<le> length (contents b) + length d"
  shows "\<exists>b'. drop_front n (push_back d b) = Inr b' \<and> invar b' \<and> contents b' = drop n (contents b @ d)"
  using drop_front_ok [OF push_invar [OF assms(1,2)], of n] assms by (simp add: push_contents)

lemma push_then_cut:
  assumes "invar b" "room b (length d)" "n \<le> length d"
  shows "\<exists>b'. drop_back n (push_back d b) = Inr b' \<and> invar b'
    \<and> contents b' = contents b @ take (length d - n) d"
  using drop_back_ok [OF push_invar [OF assms(1,2)], of n] assms by (simp add: push_contents)

end

section \<open>The buffer meets the contract\<close>

lemma length_visible: "wf_buffer b \<Longrightarrow> length (visible b) = visible_length b"
  by (auto simp: wf_buffer_def visible_def visible_length_def length_content)

lemma wf_buffer_new: "n \<le> 2 ^ 62 \<Longrightarrow> wf_buffer (MessageBuffer_new a n) \<and> visible (MessageBuffer_new a n) = []"
  by (simp add: wf_buffer_def MessageBuffer_new_def visible_def wf_storage_alloc storage_simps)

lemma buffer_append_spec:
  assumes "wf_buffer b" "m_capacity (mb_storage b) + length d \<le> 2 ^ 62"
  shows "wf_buffer (buffer_append d b)" "visible (buffer_append d b) = visible b @ d"
proof -
  have wf: "wf_storage (mb_storage b)" using assms(1) by (simp add: wf_buffer_def)
  note ap = append_bytes_spec [OF wf assms(2)]
  have "length (content (append_bytes d (mb_storage b))) = m_storedLength (mb_storage b) + length d"
    using ap length_content [OF wf] by simp
  then show "wf_buffer (buffer_append d b)"
    using ap assms(1) length_content [OF ap(1)] by (simp add: wf_buffer_def buffer_append_def)
  show "visible (buffer_append d b) = visible b @ d"
    using ap assms(1) by (simp add: visible_def buffer_append_def wf_buffer_def length_content)
qed

lemma erase_front_spec:
  assumes "wf_buffer b" "n \<le> length (visible b)"
  shows "\<exists>b'. erase_front n b = Inr b' \<and> wf_buffer b' \<and> visible b' = drop n (visible b)"
proof -
  let ?len = "m_storedLength (mb_storage b)"
  have wf: "wf_storage (mb_storage b)" and start: "m_startIndex b \<le> ?len"
    using assms(1) by (simp_all add: wf_buffer_def)
  have n: "n \<le> visible_length b" using assms length_visible by simp
  then have tot: "n + m_startIndex b \<le> ?len"
    using start by (auto simp: visible_length_def split: if_splits)
  show ?thesis
  proof (cases "n + m_startIndex b = ?len")
    case True
    then have "drop n (visible b) = []"
      using length_content [OF wf] by (simp add: visible_def)
    with True n wf show ?thesis
      by (auto simp: erase_front_def clear_storage_def wf_buffer_def wf_storage_def visible_def content_def)
  next
    case False
    with tot n wf show ?thesis
      by (auto simp: erase_front_def wf_buffer_def visible_def add.commute)
  qed
qed

lemma erase_back_spec:
  assumes "wf_buffer b" "n \<le> length (visible b)"
  shows "\<exists>b'. erase_back n b = Inr b' \<and> wf_buffer b' \<and>
    visible b' = take (length (visible b) - n) (visible b)"
proof (cases "n = 0")
  case True
  with assms show ?thesis by (simp add: erase_back_def)
next
  case False
  let ?len = "m_storedLength (mb_storage b)"
  have wf: "wf_storage (mb_storage b)" and n: "n \<le> visible_length b"
    using assms length_visible by (simp_all add: wf_buffer_def)
  have lv: "length (visible b) = ?len - m_startIndex b"
    using assms(1) by (simp add: visible_def wf_buffer_def length_content)
  have st: "m_startIndex b + n \<le> ?len"
    using lv assms False by simp
  have "drop (m_startIndex b) (take (?len - n) (m_bytes (mb_storage b)))
      = take (?len - m_startIndex b - n) (drop (m_startIndex b) (take ?len (m_bytes (mb_storage b))))"
    using st by (simp add: take_drop min_def add.commute)
  with False n wf st lv show ?thesis
    by (auto simp: erase_back_def truncate_storage_def wf_buffer_def wf_storage_def visible_def content_def)
qed

interpretation mbuf: byte_fifo visible wf_buffer
  "\<lambda>b n. m_capacity (mb_storage b) + n \<le> 2 ^ 62" buffer_append erase_front erase_back
proof unfold_locales
qed (use buffer_append_spec erase_front_spec erase_back_spec in blast)+

text \<open>
  Compaction: \<open>buffer_allocate\<close> moves the unread bytes to the front when the block is
  exhausted, and hands out a pointer to the end of the unread data in either case.
\<close>

lemma buffer_allocate_spec:
  assumes wf: "wf_buffer b" and fits: "m_capacity (mb_storage b) + n \<le> 2 ^ 62"
    and al: "buffer_allocate n b = (p, b')"
  shows "wf_buffer b'" "take (length (visible b)) (visible b') = visible b"
    "length (visible b') = length (visible b) + n"
    "p = (m_block (mb_storage b'), m_startIndex b' + length (visible b))"
proof -
  let ?st = "mb_storage b"
  let ?keep = "m_storedLength ?st - m_startIndex b"
  define b1 where "b1 = (if m_startIndex b \<noteq> 0 \<and> m_storedLength ?st + n > m_capacity ?st
      then \<lparr>m_startIndex = 0, mb_storage = truncate_storage ?keep
        (?st\<lparr>m_bytes := overwrite 0 (take ?keep (drop (m_startIndex b) (m_bytes ?st))) (m_bytes ?st)\<rparr>)\<rparr>
      else b)"
  have wfs: "wf_storage ?st" and start: "m_startIndex b \<le> m_storedLength ?st"
    using wf by (simp_all add: wf_buffer_def)
  have moved: "take ?keep (overwrite 0 (take ?keep (drop (m_startIndex b) (m_bytes ?st))) (m_bytes ?st))
      = drop (m_startIndex b) (take (m_storedLength ?st) (m_bytes ?st))"
    using wfs start by (simp add: overwrite_def wf_storage_def take_drop)
  have moved_len: "length (overwrite 0 (take ?keep (drop (m_startIndex b) (m_bytes ?st))) (m_bytes ?st))
      = length (m_bytes ?st)"
    by (rule length_overwrite) simp
  have b1: "wf_buffer b1 \<and> visible b1 = visible b \<and> m_capacity (mb_storage b1) = m_capacity ?st"
    using wf wfs moved moved_len
    by (auto simp: b1_def wf_buffer_def wf_storage_def truncate_storage_def visible_def content_def
        min_def)
  obtain q st2 where q: "allocate n (mb_storage b1) = (q, st2)"
    by (cases "allocate n (mb_storage b1)")
  have res: "p = (m_block st2, m_storedLength (mb_storage b1))" "b' = b1\<lparr>mb_storage := st2\<rparr>"
    using al q by (auto simp: buffer_allocate_def Let_def b1_def)
  have wf1: "wf_storage (mb_storage b1)" and start1: "m_startIndex b1 \<le> m_storedLength (mb_storage b1)"
    using b1 by (auto simp: wf_buffer_def)
  have "m_capacity (mb_storage b1) + n \<le> 2 ^ 62" using b1 fits by simp
  note a = allocate_spec [OF wf1 this q]
  show "wf_buffer b'" using a(1,2) start1 res(2) by (simp add: wf_buffer_def)
  have lv: "length (visible b) = m_storedLength (mb_storage b1) - m_startIndex b1"
    using b1 length_content [OF wf1] by (metis length_drop visible_def)
  show "length (visible b') = length (visible b) + n"
    using lv start1 a(1,2) length_content [OF a(1)] res(2) by (simp add: visible_def)
  show "p = (m_block (mb_storage b'), m_startIndex b' + length (visible b))"
    using res lv start1 by simp
  have "take (m_storedLength (mb_storage b1)) (content st2) = content (mb_storage b1)"
    using a(2,3) by (simp add: content_def min_def)
  then have "drop (m_startIndex b1) (take (m_storedLength (mb_storage b1)) (content st2)) = visible b"
    using b1 by (simp add: visible_def)
  then show "take (length (visible b)) (visible b') = visible b"
    using lv start1 by (simp add: res(2) visible_def take_drop)
qed

text \<open>The view a receiver decodes from shows exactly the unread bytes.\<close>

lemma byteStorage_spec:
  assumes "wf_buffer b"
  shows "\<exists>v. byteStorage b = Inr v \<and> content v = visible b \<and> m_storedLength v = length (visible b)
    \<and> m_read_ptr v = 0 \<and> m_storedLength v \<le> length (m_bytes v)"
proof -
  have "visible_length b = length (visible b)" using length_visible [OF assms] by simp
  moreover have "TRANSIENT AND COPY_ON_CONSTRUCT \<noteq> COPY_ON_CONSTRUCT"
    by (simp add: TRANSIENT_def COPY_ON_CONSTRUCT_def)
  ultimately show ?thesis
    using assms
    by (auto simp: byteStorage_def ByteStorage_bytes_def Let_def content_def visible_def bytes_of_def
        wf_buffer_def wf_storage_def take_drop)
qed

end
