(* ===== verification/Codec_Correct.thy ===== *)
theory Codec_Correct
  imports Message_Codec Message_Buffer
begin

text \<open>
  Correctness of the codec: encoding within the capacity appends exactly the specified
  bytes; decoding those bytes gives back the fields; every decode returns.
\<close>

section \<open>Encoding\<close>

text \<open>\<open>extends s s' bs\<close>: \<open>s'\<close> is \<open>s\<close> with \<open>bs\<close> appended in the same block.\<close>

definition extends :: "byte_storage \<Rightarrow> byte_storage \<Rightarrow> byte list \<Rightarrow> bool" where
  "extends s s' bs \<longleftrightarrow> wf_storage s' \<and> content s' = content s @ bs \<and> m_block s' = m_block s
     \<and> m_capacity s' = m_capacity s \<and> m_storedLength s' = m_storedLength s + length bs"

lemma extends_append:
  assumes "wf_storage s" "m_storedLength s + length bs \<le> m_capacity s"
  shows "extends s (append_bytes bs s) bs"
  using assms take_overwrite_end [of "m_storedLength s" bs "m_bytes s"]
  by (simp add: extends_def append_bytes_in_place wf_storage_def content_def)

lemma extends_scalar:
  "wf_storage s \<Longrightarrow> m_storedLength s + n \<le> m_capacity s \<Longrightarrow> extends s (appendScalar n x s) (le_bytes n x)"
  by (simp add: appendScalar_eq extends_append)

lemma extends_allocate:
  assumes "wf_storage s" "m_storedLength s + n \<le> m_capacity s"
  shows "\<exists>s' junk. allocate n s = ((m_block s, m_storedLength s), s') \<and> extends s s' junk \<and> length junk = n"
proof -
  let ?junk = "take n (drop (m_storedLength s) (m_bytes s))"
  have "take (m_storedLength s + n) (m_bytes s) = take (m_storedLength s) (m_bytes s) @ ?junk"
    by (rule take_add)
  moreover have "length ?junk = n" using assms by (simp add: wf_storage_def)
  ultimately show ?thesis
    using assms by (auto simp: allocate_no_grow extends_def wf_storage_def content_def)
qed

lemma extends_trans: "extends s t xs \<Longrightarrow> extends t u ys \<Longrightarrow> extends s u (xs @ ys)"
  by (simp add: extends_def)

lemma extendsD:
  assumes "extends s s' bs"
  shows "wf_storage s'" "m_block s' = m_block s" "m_capacity s' = m_capacity s"
    "m_storedLength s' = m_storedLength s + length bs" "content s' = content s @ bs"
  using assms by (simp_all add: extends_def)

lemma length_wire_leaf [simp]:
  "length (wire_leaf h d) = MsgField_size + length (f_identifier h) + length d"
  by (simp add: wire_leaf_def MsgField_size_def)

lemma le_bytes_1_byte: "le_bytes 1 (unat (b :: byte)) = [b]"
  by simp

lemma Field_encode_extends:
  assumes wf: "wf_storage s" and room: "m_storedLength s + length (wire_leaf h d) \<le> m_capacity s"
  shows "\<exists>s'. Field_encode h d s = (length (wire_leaf h d), s') \<and> extends s s' (wire_leaf h d)"
proof -
  have r: "m_storedLength s + 6 + length (f_identifier h) + length d \<le> m_capacity s"
    using room by (simp add: MsgField_size_def)
  define s1 where "s1 = appendScalar 1 (unat (type_code (f_type h))) s"
  define s2 where "s2 = appendScalar 1 (length (f_identifier h)) s1"
  define s3 where "s3 = appendScalar 4 (length d) s2"
  define s4 where "s4 = append_bytes (f_identifier h) s3"
  define s5 where "s5 = append_bytes d s4"
  have e1: "extends s s1 [type_code (f_type h)]"
    using extends_scalar [OF wf, of 1 "unat (type_code (f_type h))"] r by (simp add: s1_def)
  have e2: "extends s1 s2 (le_bytes 1 (length (f_identifier h)))"
    unfolding s2_def using extendsD [OF e1] r by (intro extends_scalar) simp_all
  have e3: "extends s2 s3 (le_bytes 4 (length d))"
    unfolding s3_def using extendsD [OF e2] extendsD [OF e1] r by (intro extends_scalar) simp_all
  have e4: "extends s3 s4 (f_identifier h)"
    unfolding s4_def using extendsD [OF e3] extendsD [OF e2] extendsD [OF e1] r
    by (intro extends_append) simp_all
  have e5: "extends s4 s5 d"
    unfolding s5_def using extendsD [OF e4] extendsD [OF e3] extendsD [OF e2] extendsD [OF e1] r
    by (intro extends_append) simp_all
  have "extends s s5 (wire_leaf h d)"
    using extends_trans [OF e1 extends_trans [OF e2 extends_trans [OF e3 extends_trans [OF e4 e5]]]]
    by (simp add: wire_leaf_def)
  moreover have "Field_encode h d s = (length (wire_leaf h d), s5)"
    by (simp add: Field_encode_def Let_def s1_def s2_def s3_def s4_def s5_def)
  ultimately show ?thesis by blast
qed

text \<open>
  Writing a length into the gap reserved for it: the gap was reserved after \<open>pre\<close>, the
  body was appended behind it.
\<close>

lemma extends_backpatch:
  assumes e: "extends s s' (pre @ gap @ post)" and n: "length gap = n"
  shows "\<exists>t. writeScalar (m_block s, m_storedLength s + length pre) n x s' = Inr t
    \<and> extends s t (pre @ le_bytes n x @ post)"
proof -
  let ?p = "(m_block s, m_storedLength s + length pre)"
  note d = extendsD [OF e]
  have fits: "snd ?p + n \<le> m_storedLength s'" using d(4) n by simp
  then have "snd ?p + n \<le> length (m_bytes s')" using d(1) by (simp add: wf_storage_def)
  then obtain t where t: "writeScalar ?p n x s' = Inr t"
    using d(2) by (simp add: writeScalar_def)
  note w = writeScalar_content [OF d(1) t fits]
  have "m_storedLength s = length (content s)"
    using d(1,4,5) length_content [OF d(1)] by simp
  then have "content t = content s @ pre @ le_bytes n x @ post"
    using w(2) d(5) n overwrite_append_middle [of "content s @ pre" "snd ?p" "le_bytes n x" gap post]
    by simp
  then show ?thesis using t w d n by (auto simp: extends_def)
qed

lemma wf_field_encodable:
  "wf_field (ScalarField h raw) \<Longrightarrow> f_data_length h \<le> length raw"
  "wf_field (SmallDataField h d') \<Longrightarrow> f_data_length h \<le> length d'"
  by simp_all

lemma encode_MessageField_extends:
  assumes wf: "wf_storage s" and room: "m_storedLength s + length (wire_leaf h (wire_base m)) \<le> m_capacity s"
    and body: "\<And>s. wf_storage s \<Longrightarrow> m_storedLength s + length (wire_base m) \<le> m_capacity s \<Longrightarrow>
      \<exists>s'. encode_base m s = Inr (length (wire_base m), s') \<and> extends s s' (wire_base m)"
  shows "\<exists>s'. encode_field (MessageField h m) s = Inr (length (wire_leaf h (wire_base m)), s')
    \<and> extends s s' (wire_leaf h (wire_base m))"
proof -
  let ?n = "length (f_identifier h)"
  have r: "m_storedLength s + 6 + ?n + length (wire_base m) \<le> m_capacity s"
    using room by (simp add: MsgField_size_def)
  define s1 where "s1 = appendScalar 1 (unat (type_code (f_type h))) s"
  define s2 where "s2 = appendScalar 1 ?n s1"
  have e1: "extends s s1 [type_code (f_type h)]"
    using extends_scalar [OF wf, of 1 "unat (type_code (f_type h))"] r by (simp add: s1_def)
  have e2: "extends s1 s2 (le_bytes 1 ?n)"
    unfolding s2_def using extendsD [OF e1] r by (intro extends_scalar) simp_all
  have "m_storedLength s2 + 4 \<le> m_capacity s2" "wf_storage s2"
    using extendsD [OF e2] extendsD [OF e1] r by simp_all
  then obtain s3 gap where al: "allocate 4 s2 = ((m_block s2, m_storedLength s2), s3)"
    and e3: "extends s2 s3 gap" and gap: "length gap = 4"
    using extends_allocate [of s2 4] by blast
  define s4 where "s4 = append_bytes (f_identifier h) s3"
  have e4: "extends s3 s4 (f_identifier h)"
    unfolding s4_def using extendsD [OF e3] extendsD [OF e2] extendsD [OF e1] r gap
    by (intro extends_append) simp_all
  have "wf_storage s4" "m_storedLength s4 + length (wire_base m) \<le> m_capacity s4"
    using extendsD [OF e4] extendsD [OF e3] extendsD [OF e2] extendsD [OF e1] r gap by simp_all
  then obtain s5 where b: "encode_base m s4 = Inr (length (wire_base m), s5)"
    and e5: "extends s4 s5 (wire_base m)" using body by blast
  let ?pre = "[type_code (f_type h)] @ le_bytes 1 ?n"
  have "extends s s5 (?pre @ gap @ f_identifier h @ wire_base m)"
    using extends_trans [OF e1 extends_trans [OF e2 extends_trans [OF e3 extends_trans [OF e4 e5]]]]
    by simp
  from extends_backpatch [OF this gap, of "length (wire_base m)"]
  obtain t where t: "writeScalar (m_block s, m_storedLength s + length ?pre) 4 (length (wire_base m)) s5 = Inr t"
    "extends s t (wire_leaf h (wire_base m))"
    by (auto simp: wire_leaf_def)
  moreover have "(m_block s2, m_storedLength s2) = (m_block s, m_storedLength s + length ?pre)"
    using extendsD [OF e2] extendsD [OF e1] by simp
  moreover have "encode_field (MessageField h m) s =
      bind_outcome (encode_base m s4) (\<lambda>(data_length, s).
      bind_outcome (writeScalar (m_block s2, m_storedLength s2) 4 data_length s) (\<lambda>s.
      Inr (MsgField_size + ?n + data_length, s)))"
    using al [unfolded s2_def s1_def] by (simp add: Let_def s1_def s2_def s4_def)
  ultimately show ?thesis using b by (simp del: encode_field.simps)
qed

lemma encode_payload_extends:
  assumes "\<And>f s. f \<in> set fs \<Longrightarrow> wf_storage s \<Longrightarrow> m_storedLength s + length (wire_field f) \<le> m_capacity s \<Longrightarrow>
      \<exists>s'. encode_field f s = Inr (length (wire_field f), s') \<and> extends s s' (wire_field f)"
    and "wf_storage s" "m_storedLength s + length (wire_payload fs) \<le> m_capacity s"
  shows "\<exists>s'. encode_payload fs n s = Inr (n + length (wire_payload fs), s') \<and> extends s s' (wire_payload fs)"
  using assms
proof (induction fs arbitrary: n s)
  case Nil
  then show ?case by (simp add: extends_def)
next
  case (Cons f fs)
  have "m_storedLength s + length (wire_field f) \<le> m_capacity s" using Cons.prems(3) by simp
  then obtain s1 where f: "encode_field f s = Inr (length (wire_field f), s1)"
    and e: "extends s s1 (wire_field f)"
    using Cons.prems(1) [of f s] Cons.prems(2) by auto
  have "m_storedLength s1 + length (wire_payload fs) \<le> m_capacity s1"
    using extendsD [OF e] Cons.prems(3) by simp
  then obtain s2 where "encode_payload fs (n + length (wire_field f)) s1
      = Inr (n + length (wire_field f) + length (wire_payload fs), s2)" "extends s1 s2 (wire_payload fs)"
    using Cons.IH [of s1] Cons.prems(1) extendsD(1) [OF e] by fastforce
  with f extends_trans [OF e] show ?case by (auto simp: add.assoc)
qed

lemma encode_field_extends:
  "wf_field f \<Longrightarrow> wf_storage s \<Longrightarrow> m_storedLength s + length (wire_field f) \<le> m_capacity s \<Longrightarrow>
   \<exists>s'. encode_field f s = Inr (length (wire_field f), s') \<and> extends s s' (wire_field f)"
  and encode_base_extends:
  "wf_base m \<Longrightarrow> wf_storage s \<Longrightarrow> m_storedLength s + length (wire_base m) \<le> m_capacity s \<Longrightarrow>
   \<exists>s'. encode_base m s = Inr (length (wire_base m), s') \<and> extends s s' (wire_base m)"
proof (induction f and m arbitrary: s and s rule: field.induct message.induct)
  case (MessageField h m)
  then have "\<exists>s'. encode_field (MessageField h m) s = Inr (length (wire_leaf h (wire_base m)), s')
    \<and> extends s s' (wire_leaf h (wire_base m))"
    by (intro encode_MessageField_extends) simp_all
  then show ?case by (simp del: encode_field.simps length_wire_leaf)
next
  case (ScalarField h raw)
  then show ?case
    using Field_encode_extends [of s h "take (f_data_length h) raw"] by (auto simp del: length_wire_leaf)
next
  case (SmallDataField h d)
  then show ?case
    using Field_encode_extends [of s h "take (f_data_length h) d"] by (auto simp del: length_wire_leaf)
next
  case (LargeDataField h d)
  then show ?case using Field_encode_extends [of s h d] by (auto simp del: length_wire_leaf)
next
  case (DateTimeField h a b)
  then show ?case
    using Field_encode_extends [of s h "le_bytes 8 (unat a) @ le_bytes 8 (unat b)"]
    by (auto simp: date_time_bytes_def native_store_def simp del: length_wire_leaf le_bytes.simps)
next
  case (Message a fl sub pay keys)
  let ?s1 = "appendScalar 1 body_flag s"
  let ?s2 = "appendScalar 4 (length pay) ?s1"
  have r: "m_storedLength s + 5 + length (wire_payload pay) \<le> m_capacity s"
    using Message.prems(3) by simp
  have e1: "extends s ?s1 [2]"
    using extends_scalar [OF Message.prems(2), of 1 body_flag] r by (simp add: body_flag_def)
  have e2: "extends ?s1 ?s2 (le_bytes 4 (length pay))"
    using extendsD [OF e1] r by (intro extends_scalar) simp_all
  have e: "extends s ?s2 ([2] @ le_bytes 4 (length pay))" using extends_trans [OF e1 e2] .
  have wfs: "\<And>f. f \<in> set pay \<Longrightarrow> wf_field f"
  proof -
    have "wf_payload fs \<Longrightarrow> f \<in> set fs \<Longrightarrow> wf_field f" for f fs by (induction fs) auto
    then show "\<And>f. f \<in> set pay \<Longrightarrow> wf_field f" using Message.prems(1) by auto
  qed
  have "\<exists>s'. encode_payload pay 5 ?s2 = Inr (5 + length (wire_payload pay), s') \<and> extends ?s2 s' (wire_payload pay)"
    using Message.IH wfs extendsD [OF e] r by (intro encode_payload_extends) simp_all
  then obtain s' where p: "encode_payload pay 5 ?s2 = Inr (5 + length (wire_payload pay), s')"
    and e3: "extends ?s2 s' (wire_payload pay)" by blast
  have "length pay mod 2 ^ 32 = length pay" using Message.prems(1) by simp
  with p extends_trans [OF e e3] show ?case
    by (auto simp: BaseMessage_size_def MsgHeader_size_def)
qed

lemma length_wire_message:
  "length (wire_message m) = MsgAddressing_size + (length (subject_string m) + 1) + length (wire_base m)"
  by (simp add: wire_message_def Let_def MsgAddressing_size_def)

lemma encode_message_extends:
  assumes m: "wf_message m" and wf: "wf_storage s"
    and room: "m_storedLength s + length (wire_message m) \<le> m_capacity s"
  shows "\<exists>s'. encode_message m s = Inr (length (wire_message m), s') \<and> extends s s' (wire_message m)"
proof -
  let ?sub = "subject_string m" and ?b = "wire_base m"
  have r: "m_storedLength s + 17 + length ?sub + length ?b \<le> m_capacity s"
    using room by (simp add: length_wire_message MsgAddressing_size_def)
  define s1 where "s1 = appendScalar 1 addressing_flag s"
  have e1: "extends s s1 [1]"
    using extends_scalar [OF wf, of 1 addressing_flag] r by (simp add: s1_def addressing_flag_def)
  have "m_storedLength s1 + 8 \<le> m_capacity s1" "wf_storage s1"
    using extendsD [OF e1] r by simp_all
  then obtain s2 gap where al: "allocate 8 s1 = ((m_block s1, m_storedLength s1), s2)"
    and e2: "extends s1 s2 gap" and gap: "length gap = 8"
    using extends_allocate [of s1 8] by blast
  note d1 = extendsD [OF e1] and d2 = extendsD [OF e2]
  define s3 where "s3 = appendScalar 1 (unat (m_flags m)) s2"
  have "extends s2 s3 (le_bytes 1 (unat (m_flags m)))"
    unfolding s3_def using d2 d1 r gap by (intro extends_scalar) simp_all
  then have e3: "extends s2 s3 [m_flags m]" by simp
  note d3 = extendsD [OF e3]
  define s4 where "s4 = appendScalar 4 0 s3"
  have e4: "extends s3 s4 (le_bytes 4 0)"
    unfolding s4_def using d3 d2 d1 r gap by (intro extends_scalar) simp_all
  note d4 = extendsD [OF e4]
  define s5 where "s5 = appendScalar 2 (length ?sub + 1) s4"
  have e5: "extends s4 s5 (le_bytes 2 (length ?sub + 1))"
    unfolding s5_def using d4 d3 d2 d1 r gap by (intro extends_scalar) simp_all
  note d5 = extendsD [OF e5]
  define s6 where "s6 = append_bytes (?sub @ [0]) s5"
  have e6: "extends s5 s6 (?sub @ [0])"
    unfolding s6_def using d5 d4 d3 d2 d1 r gap by (intro extends_append) simp_all
  note d6 = extendsD [OF e6]
  have "wf_storage s6" "m_storedLength s6 + length ?b \<le> m_capacity s6" "wf_base m"
    using d6 d5 d4 d3 d2 d1 r gap m by (simp_all add: wf_message_def)
  then obtain s7 where b: "encode_base m s6 = Inr (length ?b, s7)" and e7: "extends s6 s7 ?b"
    using encode_base_extends by blast
  let ?rest = "[m_flags m] @ le_bytes 4 0 @ le_bytes 2 (length ?sub + 1) @ ?sub @ [0] @ ?b"
  have "extends s s7 ([1] @ gap @ ?rest)"
    using extends_trans [OF e1 extends_trans [OF e2 extends_trans [OF e3 extends_trans [OF e4
      extends_trans [OF e5 extends_trans [OF e6 e7]]]]]] by simp
  from extends_backpatch [OF this gap, of "length ?rest"]
  obtain t where t: "writeScalar (m_block s1, m_storedLength s1) 8 (length ?rest) s7 = Inr t"
    "extends s t (wire_message m)"
    using d1 by (auto simp: wire_message_def Let_def simp del: le_bytes.simps)
  have len: "MsgAddressing_size + (length ?sub + 1) + length ?b - msg_length_offset = length ?rest"
    by (simp add: MsgAddressing_size_def msg_length_offset_def)
  have "encode_message m s = bind_outcome (encode_base m s6) (\<lambda>(n, s).
      bind_outcome (writeScalar (m_block s1, m_storedLength s1) 8
        (MsgAddressing_size + (length ?sub + 1) + n - msg_length_offset) s) (\<lambda>s.
      Inr (MsgAddressing_size + (length ?sub + 1) + n, s)))"
    using al [unfolded s1_def]
    by (simp add: encode_message_def Let_def s1_def s3_def s4_def s5_def s6_def)
  then have "encode_message m s = Inr (length (wire_message m), t)"
    by (simp only: b bind_outcome.simps prod.case len t(1) length_wire_message)
  then show ?thesis using t(2) by blast
qed

section \<open>Reading from a view\<close>

text \<open>\<open>at s bs\<close>: the next bytes to be read, within the stored length, are \<open>bs\<close>.\<close>

definition at :: "byte_storage \<Rightarrow> byte list \<Rightarrow> bool" where
  "at s bs \<longleftrightarrow> m_read_ptr s + length bs \<le> m_storedLength s \<and> m_storedLength s \<le> length (m_bytes s)
     \<and> m_storedLength s < 2 ^ 64 \<and> take (length bs) (drop (m_read_ptr s) (m_bytes s)) = bs"

lemma advanceRead_simps [simp]:
  "m_read_ptr (advanceRead n s) = m_read_ptr s + n" "m_bytes (advanceRead n s) = m_bytes s"
  "m_storedLength (advanceRead n s) = m_storedLength s"
  "advanceRead k (advanceRead n s) = advanceRead (n + k) s" "advanceRead 0 s = s"
  by (simp_all add: advanceRead_def add.assoc)

lemma at_append [simp]: "at s (xs @ ys) \<longleftrightarrow> at s xs \<and> at (advanceRead (length xs) s) ys"
proof -
  have "take (length xs + length ys) d = xs @ ys \<longleftrightarrow>
    take (length xs) d = xs \<and> take (length ys) (drop (length xs) d) = ys"
    if "length xs + length ys \<le> length d" for d :: "byte list"
    using that by (simp add: take_add)
  from this [of "drop (m_read_ptr s) (m_bytes s)"] show ?thesis
    by (auto simp: at_def add.assoc add.commute)
qed

lemma at_Cons: "at s (x # xs) \<longleftrightarrow> at s [x] \<and> at (advanceRead 1 s) xs"
  using at_append [of s "[x]" xs] by simp

lemma at_Nil: "at s bs \<Longrightarrow> at s []"
  by (simp add: at_def)

lemma at_remaining: "at s bs \<Longrightarrow> length bs \<le> remainingReadLength s"
  by (auto simp: at_def storage_simps)

lemma at_peek_bytes: "at s bs \<Longrightarrow> length bs = n \<Longrightarrow> peek_bytes s 0 n = Inr bs"
  by (simp add: at_def peek_bytes_def)

lemma at_peek_bytes_off: "at (advanceRead k s) bs \<Longrightarrow> length bs = n \<Longrightarrow> peek_bytes s k n = Inr bs"
  by (simp add: at_def peek_bytes_def)

lemma at_readScalar:
  assumes "at s (le_bytes n x)" "x < 256 ^ n"
  shows "readScalar n s = Inr (x, advanceRead n s)"
  using at_peek_bytes [OF assms(1)] assms(2) by (simp add: readScalar_def peekScalar_def)

lemma at_readScalar_byte: "at s [b] \<Longrightarrow> readScalar 1 s = Inr (unat b, advanceRead 1 s)"
  using at_readScalar [of s 1 "unat b"] unsigned_less [of b] by simp

lemma at_peekScalar:
  assumes "at (advanceRead k s) (le_bytes n x)" "x < 256 ^ n"
  shows "peekScalar k n s = Inr x"
  using at_peek_bytes_off [OF assms(1)] assms(2) by (simp add: peekScalar_def)

section \<open>Decoding a single field\<close>

lemma at_wire_leaf:
  "at s (wire_leaf h d) \<longleftrightarrow> at s [type_code (f_type h)]
     \<and> at (advanceRead 1 s) (le_bytes 1 (length (f_identifier h)))
     \<and> at (advanceRead 2 s) (le_bytes 4 (length d))
     \<and> at (advanceRead 6 s) (f_identifier h)
     \<and> at (advanceRead (6 + length (f_identifier h)) s) d"
  by (simp only: wire_leaf_def at_append length_le_bytes list.size advanceRead_simps)
     (simp add: numeral_eq_Suc del: le_bytes.simps)

lemma Field_decode_at:
  assumes "at s (wire_leaf h d)" "wf_header h" "valid_type (f_type h)" "length d < 2 ^ 32"
  shows "Field_decode s = Inr (h\<lparr>f_data_length := length d\<rparr>, advanceRead (6 + length (f_identifier h)) s)"
proof -
  let ?n = "length (f_identifier h)"
  note a = assms(1) [unfolded at_wire_leaf]
  have n: "nul_free (f_identifier h)" "?n < 256" using assms(2) by (simp_all add: wf_header_def)
  have r0: "6 \<le> remainingReadLength s"
    using at_remaining [OF assms(1)] by (simp add: MsgField_size_def)
  have r1: "readScalar 1 s = Inr (unat (type_code (f_type h)), advanceRead 1 s)"
    using a at_readScalar_byte by blast
  have r2: "readScalar 1 (advanceRead 1 s) = Inr (?n, advanceRead 2 s)"
    using a n at_readScalar [of "advanceRead 1 s" 1 ?n] by (simp add: numeral_2_eq_2)
  have r3: "readScalar 4 (advanceRead 2 s) = Inr (length d, advanceRead 6 s)"
    using a assms(4) at_readScalar [of "advanceRead 2 s" 4 "length d"] by simp
  have r4: "?n \<le> remainingReadLength (advanceRead 6 s)"
    using a at_remaining by blast
  have r5: "length d \<le> remainingReadLength (advanceRead (6 + ?n) s)"
    using a at_remaining by blast
  have r6: "peek_bytes (advanceRead 6 s) 0 ?n = Inr (f_identifier h)"
    using a at_peek_bytes by blast
  show ?thesis
    using n assms(3) r0 r1 r2 r3 r4 r5 r6
    by (simp add: Field_decode_def MsgField_size_def Let_def del: One_nat_def)
qed

lemma peek_field_header_at:
  assumes "at s (wire_leaf h d)" "wf_header h" "valid_type (f_type h)" "length d < 2 ^ 32"
  shows "peek_field_header s = Inr (f_type h, length (f_identifier h), length d)"
proof -
  note a = assms(1) [unfolded at_wire_leaf]
  have "peekScalar 0 1 s = Inr (unat (type_code (f_type h)))"
    using a at_peekScalar [of 0 s 1 "unat (type_code (f_type h))"] unsigned_less [of "type_code (f_type h)"]
    by simp
  moreover have "peekScalar 1 1 s = Inr (length (f_identifier h))"
    using a assms(2) at_peekScalar [of 1 s 1 "length (f_identifier h)"] by (simp add: wf_header_def)
  moreover have "peekScalar 2 4 s = Inr (length d)"
    using a assms(4) at_peekScalar [of 2 s 4 "length d"] by simp
  ultimately show ?thesis
    using assms(3) by (simp add: peek_field_header_def del: One_nat_def)
qed

lemma wire_leaf_data: "at s (wire_leaf h d) \<Longrightarrow> peek_bytes (advanceRead (6 + length (f_identifier h)) s) 0 (length d) = Inr d"
  using at_peek_bytes by (simp add: at_wire_leaf)

lemma header_length_id [simp]: "f_data_length h = n \<Longrightarrow> h\<lparr>f_data_length := n\<rparr> = h"
  by (cases h) simp

text \<open>The four classes without nesting.\<close>

lemma overwrite_raw:
  assumes "length raw = 8" "n \<le> 8" "drop n raw = replicate (8 - n) 0"
  shows "overwrite 0 (take n raw) (replicate 8 (0::byte)) = raw"
  using assms append_take_drop_id [of n raw] by (simp add: overwrite_def min_def)

lemma decode_leaf_at:
  assumes f: "wf_field f" and a: "at s (wire_field f)" and leaf: "\<And>h m. f \<noteq> MessageField h m"
  shows "decode_field (Suc fuel) s = Inr (f, advanceRead (length (wire_field f)) s)"
proof (cases f)
  case (ScalarField h raw)
  let ?d = "take (f_data_length h) raw"
  have w: "wf_header h" "valid_type (f_type h)" "f_type h \<notin> {st_string, st_data, st_date_time, st_message}"
    "f_data_length h \<le> 8" "length ?d = f_data_length h" "length ?d < 2 ^ 32"
    "overwrite 0 ?d (replicate 8 0) = raw"
    using f ScalarField overwrite_raw [of raw "f_data_length h"] by auto
  have a': "at s (wire_leaf h ?d)" using a ScalarField by simp
  have "ScalarField_decode s = Inr (f, advanceRead (length (wire_field f)) s)"
    using Field_decode_at [OF a' w(1,2,6)] wire_leaf_data [OF a'] w ScalarField
    by (simp add: ScalarField_decode_def MsgField_size_def)
  then show ?thesis
    using peek_field_header_at [OF a' w(1,2,6)] w(3) by (cases "f_type h") auto
next
  case (SmallDataField h d)
  have w: "wf_header h" "valid_type (f_type h)" "length d < 2 ^ 32" "f_type h \<in> {st_string, st_data}"
    "length d = f_data_length h" "f_data_length h \<le> max_small_size"
    using f SmallDataField by (auto simp: valid_type_def max_small_size_def)
  have a': "at s (wire_leaf h d)" using a SmallDataField w by simp
  have "createDataField_decode (length d) s = Inr (f, advanceRead (length (wire_field f)) s)"
    using Field_decode_at [OF a' w(1,2,3)] wire_leaf_data [OF a'] w SmallDataField
    by (simp add: createDataField_decode_def SmallDataField_decode_def MsgField_size_def)
  then show ?thesis
    using peek_field_header_at [OF a' w(1,2,3)] w(4) by auto
next
  case (LargeDataField h d)
  have w: "wf_header h" "valid_type (f_type h)" "length d < 2 ^ 32" "f_type h \<in> {st_string, st_data}"
    "length d = f_data_length h" "max_small_size < f_data_length h"
    using f LargeDataField by (auto simp: valid_type_def)
  have a': "at s (wire_leaf h d)" using a LargeDataField by simp
  have "content (setData d (ByteStorage_alloc (\<lambda>_. 0) 512)) = d"
    using w(3) by (intro LargeDataField_content) simp_all
  then have "createDataField_decode (length d) s = Inr (f, advanceRead (length (wire_field f)) s)"
    using Field_decode_at [OF a' w(1,2,3)] wire_leaf_data [OF a'] w LargeDataField
    by (simp add: createDataField_decode_def LargeDataField_decode_def MsgField_size_def)
  then show ?thesis
    using peek_field_header_at [OF a' w(1,2,3)] w(4) by auto
next
  case (DateTimeField h x y)
  let ?d = "le_bytes 8 (unat x) @ le_bytes 8 (unat y)"
  have w: "wf_header h" "valid_type (f_type h)" "length ?d < 2 ^ 32" "f_type h = st_date_time"
    "f_data_length h = 16"
    using f DateTimeField by (auto simp: valid_type_def date_time_size_def simp del: le_bytes.simps)
  have a': "at s (wire_leaf h ?d)" using a DateTimeField by simp
  let ?s = "advanceRead (6 + length (f_identifier h)) s"
  have xy: "unat x < 256 ^ 8" "unat y < 256 ^ 8"
    using unsigned_less [of x] unsigned_less [of y] by simp_all
  have "at ?s ?d" using a' by (simp add: at_wire_leaf del: le_bytes.simps at_append)
  then have "readScalar 8 ?s = Inr (unat x, advanceRead 8 ?s)"
    "readScalar 8 (advanceRead 8 ?s) = Inr (unat y, advanceRead 16 ?s)"
    using at_readScalar [of ?s 8 "unat x"] at_readScalar [of "advanceRead 8 ?s" 8 "unat y"] xy
    by (simp_all del: le_bytes.simps)
  then have "DateTimeField_decode s = Inr (f, advanceRead (length (wire_field f)) s)"
    using Field_decode_at [OF a' w(1,2,3)] w(5) DateTimeField
    by (simp add: DateTimeField_decode_def MsgField_size_def del: le_bytes.simps)
  then show ?thesis
    using peek_field_header_at [OF a' w(1,2,3)] w(4) by simp
qed (use leaf in blast)

section \<open>Decoding messages\<close>

lemma wire_field_length: "6 \<le> length (wire_field f)"
  by (cases f) (simp_all add: MsgField_size_def)

lemma wf_payload_nth: "wf_payload fs \<Longrightarrow> f \<in> set fs \<Longrightarrow> wf_field f"
  by (induction fs) auto

lemma decode_fields_at:
  assumes "\<And>f s fuel. f \<in> set fs \<Longrightarrow> at s (wire_field f) \<Longrightarrow> 3 * length (wire_field f) \<le> fuel \<Longrightarrow>
      m_storedLength s > 0 \<Longrightarrow>
      decode_field fuel s = Inr (received_field f, advanceRead (length (wire_field f)) s)"
    and "at s (wire_payload fs)" "1 + 3 * length (wire_payload fs) \<le> fuel" "m_storedLength s > 0"
  shows "decode_fields fuel (length fs) b msg s =
    Inr (b \<or> fs \<noteq> [], fold push_field (received_payload fs) msg, advanceRead (length (wire_payload fs)) s)"
  using assms
proof (induction fs arbitrary: s b msg fuel)
  case Nil
  then obtain k where "fuel = Suc k" by (cases fuel) auto
  then show ?case by simp
next
  case (Cons f fs)
  obtain k where k: "fuel = Suc k" using Cons.prems(3) by (cases fuel) auto
  have at1: "at s (wire_field f)" and at2: "at (advanceRead (length (wire_field f)) s) (wire_payload fs)"
    using Cons.prems(2) by simp_all
  have "decode_field k s = Inr (received_field f, advanceRead (length (wire_field f)) s)"
    using Cons.prems(1) [OF _ at1, of k] Cons.prems(3,4) k by simp
  moreover have "decode_fields k (length fs) True (push_field (received_field f) msg) (advanceRead (length (wire_field f)) s)
      = Inr (True \<or> fs \<noteq> [], fold push_field (received_payload fs) (push_field (received_field f) msg),
          advanceRead (length (wire_payload fs)) (advanceRead (length (wire_field f)) s))"
    using Cons.prems wire_field_length [of f] k
    by (intro Cons.IH at2) (auto simp: at_def)
  ultimately show ?case using k by simp
qed

lemma wire_base_longer: "wf_base m \<Longrightarrow> 5 < length (wire_base m)"
proof (cases m)
  case (Message a fl sub pay keys)
  assume "wf_base m"
  with Message obtain f fs where "pay = f # fs" by (cases pay) auto
  with Message wire_field_length [of f] show ?thesis by (auto simp: Suc_le_eq)
qed

lemma decode_leaf_received:
  assumes "wf_field f" "at s (wire_field f)" "3 * length (wire_field f) \<le> fuel"
    and leaf: "\<And>h m. f \<noteq> MessageField h m"
  shows "decode_field fuel s = Inr (received_field f, advanceRead (length (wire_field f)) s)"
proof -
  obtain k where "fuel = Suc k"
    using assms(3) wire_field_length [of f] by (cases fuel) auto
  moreover have "received_field f = f" using leaf by (cases f) (simp_all, blast)
  ultimately show ?thesis using decode_leaf_at [OF assms(1,2) leaf, of k] by simp
qed

lemma decode_field_at:
  "wf_field f \<Longrightarrow> at s (wire_field f) \<Longrightarrow> 3 * length (wire_field f) \<le> fuel \<Longrightarrow> m_storedLength s > 0 \<Longrightarrow>
   decode_field fuel s = Inr (received_field f, advanceRead (length (wire_field f)) s)"
  and decode_base_at:
  "wf_base m \<Longrightarrow> at s (wire_base m) \<Longrightarrow> 3 * length (wire_base m) \<le> fuel \<Longrightarrow> m_storedLength s > 0 \<Longrightarrow>
   decode_base fuel msg s =
     Inr (True, fold push_field (received_payload (m_payload m)) msg, advanceRead (length (wire_base m)) s)"
proof (induction f and m arbitrary: s fuel and s fuel msg rule: field.induct message.induct)
  case (MessageField h m)
  have w: "wf_header h" "valid_type (f_type h)" "length (wire_base m) < 2 ^ 32" "f_type h = st_message"
    "f_data_length h = 0" "wf_base m"
    using MessageField.prems(1) by (auto simp: valid_type_def)
  have a: "at s (wire_leaf h (wire_base m))" using MessageField.prems(2) by simp
  obtain k where k: "fuel = Suc k" using MessageField.prems(3) by (cases fuel) (auto simp: MsgField_size_def)
  let ?s = "advanceRead (6 + length (f_identifier h)) s"
  have "at ?s (wire_base m)" using a by (simp add: at_wire_leaf)
  then have b: "decode_base k Message_new ?s = Inr (True,
      fold push_field (received_payload (m_payload m)) Message_new, advanceRead (length (wire_base m)) ?s)"
    using MessageField.prems(3,4) k w(6) by (intro MessageField.IH) (simp_all add: MsgField_size_def)
  have "received_base m = fold push_field (received_payload (m_payload m)) Message_new"
    by (cases m) simp
  then show ?case
    using Field_decode_at [OF a w(1,2,3)] peek_field_header_at [OF a w(1,2,3)] b k w(4,5)
    by (simp add: MsgField_size_def)
next
  case (Message a fl sub pay keys)
  obtain k where k: "fuel = Suc k" using Message.prems(3) by (cases fuel) auto
  have pay: "pay \<noteq> []" "length pay < 2 ^ 32" "wf_payload pay" using Message.prems(1) by simp_all
  have at1: "at s [2]" and at2: "at (advanceRead 1 s) (le_bytes 4 (length pay))"
    and at3: "at (advanceRead 5 s) (wire_payload pay)"
    using Message.prems(2) by (simp_all only: wire_base.simps at_append length_le_bytes list.size
        advanceRead_simps) simp_all
  have "5 < remainingReadLength s"
    by (rule less_le_trans [OF wire_base_longer [OF Message.prems(1)] at_remaining [OF Message.prems(2)]])
  moreover have "readScalar 1 s = Inr (2, advanceRead 1 s)"
    using at_readScalar_byte [OF at1] by simp
  moreover have "readScalar 4 (advanceRead 1 s) = Inr (length pay, advanceRead 5 s)"
    using at_readScalar [OF at2] pay(2) by simp
  moreover have "decode_fields k (length pay) False msg (advanceRead 5 s) =
      Inr (False \<or> pay \<noteq> [], fold push_field (received_payload pay) msg,
        advanceRead (length (wire_payload pay)) (advanceRead 5 s))"
    using Message.prems(3,4) k pay wf_payload_nth [OF pay(3)]
    by (intro decode_fields_at Message.IH at3) auto
  ultimately show ?case
    using k pay(1) Message.prems(4) by (simp add: MsgHeader_size_def body_flag_def)
next
  case (ScalarField h raw)
  show ?case by (rule decode_leaf_received [OF ScalarField(1-3)]) simp
next
  case (SmallDataField h d)
  show ?case by (rule decode_leaf_received [OF SmallDataField(1-3)]) simp
next
  case (LargeDataField h d)
  show ?case by (rule decode_leaf_received [OF LargeDataField(1-3)]) simp
next
  case (DateTimeField h a b)
  show ?case by (rule decode_leaf_received [OF DateTimeField(1-3)]) simp
qed

section \<open>The outermost message\<close>

lemma at_wire_message:
  assumes "at s (wire_message m)"
  shows "at s [1]"
    "at (advanceRead 1 s) (le_bytes 8 (length (wire_message m) - 9))"
    "at (advanceRead 9 s) [m_flags m]"
    "at (advanceRead 14 s) (le_bytes 2 (length (subject_string m) + 1))"
    "at (advanceRead 16 s) (subject_string m @ [0])"
    "at (advanceRead (17 + length (subject_string m)) s) (wire_base m)"
proof -
  let ?rest = "[m_flags m] @ le_bytes 4 0 @ le_bytes 2 (length (subject_string m) + 1)
     @ (subject_string m @ [0]) @ wire_base m"
  have "length (wire_message m) - 9 = length ?rest"
    by (simp add: length_wire_message MsgAddressing_size_def)
  then have "wire_message m = [1] @ le_bytes 8 (length (wire_message m) - 9) @ ?rest"
    by (simp add: wire_message_def Let_def del: le_bytes.simps)
  then have "at s ([1] @ le_bytes 8 (length (wire_message m) - 9) @ ?rest)"
    using assms by simp
  note all = this [unfolded at_append length_le_bytes advanceRead_simps]
  show "at s [1]"
    "at (advanceRead 1 s) (le_bytes 8 (length (wire_message m) - 9))"
    "at (advanceRead 9 s) [m_flags m]"
    "at (advanceRead 14 s) (le_bytes 2 (length (subject_string m) + 1))"
    "at (advanceRead 16 s) (subject_string m @ [0])"
    "at (advanceRead (17 + length (subject_string m)) s) (wire_base m)"
    using all by (simp_all del: le_bytes.simps)
qed

lemma have_complete_message_at:
  assumes a: "at s (wire_message m)" and m: "wf_message m"
  shows "have_complete_message s = Inr (CompleteMessage, length (wire_message m))"
proof -
  let ?L = "length (wire_message m)"
  have L: "16 \<le> ?L" "?L < 2 ^ 62"
    using m by (simp_all add: length_wire_message MsgAddressing_size_def wf_message_def)
  have "peekScalar 0 1 s = Inr 1"
    using at_peekScalar [of 0 s 1 1] at_wire_message(1) [OF a] by simp
  moreover have "peekScalar 1 8 s = Inr (?L - 9)"
    using at_peekScalar [OF at_wire_message(2) [OF a]] L by simp
  moreover have "unat (word_of_nat (?L - 9) + word_of_nat 9 :: size_t) = ?L"
  proof -
    have "(word_of_nat (?L - 9) + word_of_nat 9 :: size_t) = word_of_nat (?L - 9 + 9)"
      by (simp only: of_nat_add)
    also have "?L - 9 + 9 = ?L" using L by simp
    finally show ?thesis using L by simp
  qed
  moreover have "?L \<le> remainingReadLength s" by (rule at_remaining [OF a])
  moreover have "16 \<le> remainingReadLength s" using L(1) calculation(4) by (rule order_trans)
  ultimately show ?thesis
    by (simp add: have_complete_message_def MsgAddressing_size_def addressing_flag_def
        msg_length_offset_def Let_def del: One_nat_def)
qed

lemma addressing_details_at:
  assumes a: "at s (wire_message m)" and m: "wf_message m"
  shows "addressing_details s fl = Inr (CompleteMessage,
    \<lparr>a_subject = Some (m_read_ptr s + 16), a_subject_length = length (subject_string m) + 1,
     a_flags = m_flags m, a_msg_length = length (wire_message m)\<rparr>,
    advanceRead (17 + length (subject_string m)) s)"
proof -
  have "peekScalar 0 1 (advanceRead 9 s) = Inr (unat (m_flags m))"
    using at_peekScalar [of 0 "advanceRead 9 s" 1 "unat (m_flags m)"] at_wire_message(3) [OF a]
      unsigned_less [of "m_flags m"] by simp
  moreover have "peekScalar 0 2 (advanceRead 14 s) = Inr (length (subject_string m) + 1)"
    using at_peekScalar [of 0 "advanceRead 14 s" 2 "length (subject_string m) + 1"]
      at_wire_message(4) [OF a] m by (simp add: wf_message_def)
  ultimately show ?thesis
    using have_complete_message_at [OF a m]
    by (simp add: addressing_details_def Let_def del: One_nat_def)
qed

lemma decode_message_at:
  assumes a: "at s (wire_message m)" and m: "wf_message m" and ne: "m_storedLength s > 0"
  shows "decode_message msg s = Inr (True,
    fold push_field (received_payload (m_payload m))
      (Message (m_hasAddressing msg) (m_flags m) (overwrite 0 (subject_string m @ [0]) (m_subject msg))
        (m_payload msg) (m_keys msg)),
    advanceRead (length (wire_message m)) s)"
proof -
  let ?n = "length (subject_string m)"
  let ?s = "advanceRead (17 + ?n) s"
  have sub: "at (advanceRead 16 s) (subject_string m @ [0])" by (rule at_wire_message(5) [OF a])
  have len: "length (subject_string m @ [0]) = ?n + 1" by simp
  have c: "copy_subject ?s (m_read_ptr s + 16) (?n + 1) (m_subject msg)
      = Inr (overwrite 0 (subject_string m @ [0]) (m_subject msg))"
    using sub len by (simp add: at_def copy_subject_def del: at_append)
  have base: "at ?s (wire_base m)" by (rule at_wire_message(6) [OF a])
  have "length (wire_base m) \<le> length (m_bytes ?s)" using base by (simp add: at_def)
  then have b: "decode_base (decode_fuel ?s) msg' ?s = Inr (True,
      fold push_field (received_payload (m_payload m)) msg', advanceRead (length (wire_base m)) ?s)" for msg'
    using base m ne by (intro decode_base_at) (simp_all add: decode_fuel_def wf_message_def)
  show ?thesis
    using addressing_details_at [OF a m, of "m_flags msg"] c b
    by (simp add: decode_message_def length_wire_message MsgAddressing_size_def)
qed

section \<open>Every decode returns\<close>

definition unread :: "byte_storage \<Rightarrow> nat" where
  "unread s = length (m_bytes s) - m_read_ptr s"

text \<open>\<open>advanced s s' k\<close>: \<open>s'\<close> reads the same block, at least \<open>k\<close> bytes further on, inside it.\<close>

definition advanced :: "byte_storage \<Rightarrow> byte_storage \<Rightarrow> nat \<Rightarrow> bool" where
  "advanced s s' k \<longleftrightarrow> m_bytes s' = m_bytes s \<and> m_read_ptr s + k \<le> m_read_ptr s'
     \<and> m_read_ptr s' \<le> length (m_bytes s)"

lemma advanced_trans: "advanced s t j \<Longrightarrow> advanced t u k \<Longrightarrow> advanced s u (j + k)"
  by (auto simp: advanced_def)

lemma advanced_unread: "advanced s s' k \<Longrightarrow> unread s' + k \<le> unread s"
  by (auto simp: advanced_def unread_def)

lemma advanced_mono: "advanced s s' k \<Longrightarrow> j \<le> k \<Longrightarrow> advanced s s' j"
  by (auto simp: advanced_def)

lemma peek_bytes_advanced: "peek_bytes s 0 n = Inr bs \<Longrightarrow> advanced s (advanceRead n s) n"
  by (auto simp: peek_bytes_def advanced_def split: if_splits)

lemma readScalar_advanced: "readScalar n s = Inr (v, s') \<Longrightarrow> advanced s s' n"
  by (auto simp: readScalar_def peekScalar_def dest: peek_bytes_advanced)

lemma Field_decode_advanced:
  assumes "Field_decode s = Inr (h, s')"
  shows "advanced s s' 6"
proof -
  from assms obtain ty n d s1 s2 s3 bs where
    "readScalar 1 s = Inr (ty, s1)" "readScalar 1 s1 = Inr (n, s2)" "readScalar 4 s2 = Inr (d, s3)"
    "peek_bytes s3 0 n = Inr bs" "s' = advanceRead n s3"
    by (auto simp: Field_decode_def Let_def split: if_splits)
  then have "advanced s s' (1 + (1 + (4 + n)))"
    by (meson advanced_trans peek_bytes_advanced readScalar_advanced)
  then show ?thesis by (rule advanced_mono) simp
qed

lemma leaf_decode_advanced:
  "ScalarField_decode s = Inr (f, s') \<Longrightarrow> advanced s s' 6"
  "createDataField_decode n s = Inr (f, s') \<Longrightarrow> advanced s s' 6"
  "DateTimeField_decode s = Inr (f, s') \<Longrightarrow> advanced s s' 6"
proof -
  have tail: "Field_decode s = Inr (h, t) \<Longrightarrow> peek_bytes t 0 k = Inr bs \<Longrightarrow> advanced s (advanceRead k t) 6" for h t k bs
    using advanced_trans [OF Field_decode_advanced peek_bytes_advanced] advanced_mono
    by (meson le_add1)
  show "ScalarField_decode s = Inr (f, s') \<Longrightarrow> advanced s s' 6"
    by (auto simp: ScalarField_decode_def split: if_splits dest: tail)
  show "createDataField_decode n s = Inr (f, s') \<Longrightarrow> advanced s s' 6"
    by (auto simp: createDataField_decode_def SmallDataField_decode_def LargeDataField_decode_def
        split: if_splits dest: tail)
  show "advanced s s' 6" if "DateTimeField_decode s = Inr (f, s')"
  proof -
    from that obtain h t a t1 b where "Field_decode s = Inr (h, t)" "readScalar 8 t = Inr (a, t1)"
      "readScalar 8 t1 = Inr (b, s')"
      by (auto simp: DateTimeField_decode_def)
    then have "advanced s s' (6 + (8 + 8))"
      by (meson Field_decode_advanced advanced_trans readScalar_advanced)
    then show ?thesis by (rule advanced_mono) simp
  qed
qed

lemma decode_advanced:
  "decode_base fuel msg s = Inr (b, msg', s') \<Longrightarrow> m_read_ptr s \<le> length (m_bytes s) \<Longrightarrow> advanced s s' 0"
  "decode_fields fuel n b0 msg s = Inr (b, msg', s') \<Longrightarrow> m_read_ptr s \<le> length (m_bytes s) \<Longrightarrow> advanced s s' 0"
  "decode_field fuel s = Inr (f, s') \<Longrightarrow> advanced s s' 6"
proof (induction fuel msg s and fuel n b0 msg s and fuel s arbitrary: b msg' s' and b msg' s' and f s'
    rule: decode_base_decode_fields_decode_field.induct)
  case (2 fuel msg s)
  show ?case
  proof (cases "remainingReadLength s > MsgHeader_size")
    case True
    with "2.prems"(1) obtain s1 c s2 where
      r: "readScalar 1 s = Inr (body_flag, s1)" "readScalar 4 s1 = Inr (c, s2)"
      and d: "decode_fields fuel c False msg s2 = Inr (b, msg', s')"
      by (auto split: if_splits)
    have adv: "advanced s s2 (1 + 4)"
      using r by (meson advanced_trans readScalar_advanced)
    then have "m_read_ptr s2 \<le> length (m_bytes s2)" by (simp add: advanced_def)
    then have "advanced s2 s' 0" using "2.IH" True r d by (auto simp: body_flag_def)
    then show ?thesis using advanced_trans [OF adv] advanced_mono by blast
  next
    case False
    with "2.prems" show ?thesis by (auto simp: advanced_def)
  qed
next
  case (4 fuel n success msg s)
  show ?case
  proof (cases "n = 0")
    case True
    with "4.prems" show ?thesis by (auto simp: advanced_def)
  next
    case False
    with "4.prems"(1) obtain f s1 where d: "decode_field fuel s = Inr (f, s1)"
      "decode_fields fuel (n - 1) True (push_field f msg) s1 = Inr (b, msg', s')" by auto
    have adv: "advanced s s1 6" using "4.IH"(1) False d(1) by blast
    then have "m_read_ptr s1 \<le> length (m_bytes s1)" by (simp add: advanced_def)
    then have "advanced s1 s' 0" using "4.IH"(2) False d by blast
    then show ?thesis using advanced_trans [OF adv] advanced_mono by blast
  qed
next
  case (6 fuel s)
  from "6.prems" obtain ty i n where p: "peek_field_header s = Inr (ty, i, n)" by auto
  show ?case
  proof (cases "ty = st_message")
    case True
    with "6.prems" p obtain h s1 c m where d: "Field_decode s = Inr (h, s1)"
      "decode_base fuel Message_new s1 = Inr (c, m, s')" by auto
    have adv: "advanced s s1 6" by (rule Field_decode_advanced [OF d(1)])
    then have "m_read_ptr s1 \<le> length (m_bytes s1)" by (simp add: advanced_def)
    then have "advanced s1 s' 0" using "6.IH" p d True by blast
    then show ?thesis using advanced_trans [OF adv] by fastforce
  next
    case False
    with "6.prems" p show ?thesis by (cases ty) (auto intro: leaf_decode_advanced)
  qed
qed simp_all

lemma leaf_decode_fuel:
  "peek_bytes s k n \<noteq> Inl OutOfFuel" "readScalar n s \<noteq> Inl OutOfFuel" "Field_decode s \<noteq> Inl OutOfFuel"
  "peek_field_header s \<noteq> Inl OutOfFuel" "ScalarField_decode s \<noteq> Inl OutOfFuel"
  "createDataField_decode n s \<noteq> Inl OutOfFuel" "DateTimeField_decode s \<noteq> Inl OutOfFuel"
proof -
  show p: "peek_bytes s k n \<noteq> Inl OutOfFuel" for s k n by (simp add: peek_bytes_def)
  show r: "readScalar n s \<noteq> Inl OutOfFuel" for n s
    by (auto simp: readScalar_def peekScalar_def bind_outcome_Inl p)
  show f: "Field_decode s \<noteq> Inl OutOfFuel" for s
    by (auto simp: Field_decode_def Let_def bind_outcome_Inl p r split: if_splits)
  show "peek_field_header s \<noteq> Inl OutOfFuel"
    by (auto simp: peek_field_header_def peekScalar_def bind_outcome_Inl p)
  show "ScalarField_decode s \<noteq> Inl OutOfFuel"
    by (auto simp: ScalarField_decode_def bind_outcome_Inl p f split: if_splits)
  show "createDataField_decode n s \<noteq> Inl OutOfFuel"
    by (auto simp: createDataField_decode_def SmallDataField_decode_def LargeDataField_decode_def
        bind_outcome_Inl p f split: if_splits)
  show "DateTimeField_decode s \<noteq> Inl OutOfFuel"
    by (auto simp: DateTimeField_decode_def bind_outcome_Inl r f)
qed

lemma decode_enough_fuel:
  "3 * unread s + 3 \<le> fuel \<Longrightarrow> decode_base fuel msg s \<noteq> Inl OutOfFuel"
  "3 * unread s + 2 \<le> fuel \<Longrightarrow> decode_fields fuel n b0 msg s \<noteq> Inl OutOfFuel"
  "3 * unread s + 1 \<le> fuel \<Longrightarrow> decode_field fuel s \<noteq> Inl OutOfFuel"
proof (induction fuel msg s and fuel n b0 msg s and fuel s
    rule: decode_base_decode_fields_decode_field.induct)
  case (2 fuel msg s)
  have "decode_fields fuel c False msg s2 \<noteq> Inl OutOfFuel"
    if "MsgHeader_size < remainingReadLength s" "readScalar 1 s = Inr (body_flag, s1)"
      "readScalar 4 s1 = Inr (c, s2)" for s1 c s2
  proof -
    have "advanced s s2 (1 + 4)" using that by (meson advanced_trans readScalar_advanced)
    then have "unread s2 + 5 \<le> unread s" using advanced_unread by fastforce
    then show ?thesis using "2.IH" that "2.prems" by auto
  qed
  then show ?case
    by (auto simp: bind_outcome_Inl leaf_decode_fuel assert_that_def split: if_splits)
next
  case (4 fuel n success msg s)
  have "decode_fields fuel (n - 1) True (push_field f msg) s1 \<noteq> Inl OutOfFuel"
    if "n \<noteq> 0" "decode_field fuel s = Inr (f, s1)" for f s1
    using advanced_unread [OF decode_advanced(3) [OF that(2)]] "4.IH"(2) [OF that(1)] "4.prems" by auto
  moreover have "decode_field fuel s \<noteq> Inl OutOfFuel" if "n \<noteq> 0"
    using "4.IH"(1) [OF that] "4.prems" by simp
  ultimately show ?case by (auto simp: bind_outcome_Inl)
next
  case (6 fuel s)
  have "decode_base fuel Message_new s1 \<noteq> Inl OutOfFuel"
    if "peek_field_header s = Inr (st_message, i, n)" "Field_decode s = Inr (h, s1)" for i n h s1
    using advanced_unread [OF Field_decode_advanced [OF that(2)]] "6.IH" that "6.prems" by fastforce
  then show ?case
    by (auto simp: bind_outcome_Inl leaf_decode_fuel split: storage_type.splits)
qed simp_all

lemma decode_base_total: "decode_base (decode_fuel s) msg s \<noteq> Inl OutOfFuel"
  by (rule decode_enough_fuel(1)) (simp add: decode_fuel_def unread_def)

lemma decode_message_total: "decode_message msg s \<noteq> Inl OutOfFuel"
proof -
  have "have_complete_message s \<noteq> Inl OutOfFuel"
    by (auto simp: have_complete_message_def Let_def bind_outcome_Inl peekScalar_def leaf_decode_fuel
        split: if_splits)
  then have "addressing_details s fl \<noteq> Inl OutOfFuel" for fl
    by (auto simp: addressing_details_def Let_def bind_outcome_Inl peekScalar_def leaf_decode_fuel
        split: if_splits)
  then show ?thesis
    by (auto simp: decode_message_def bind_outcome_Inl copy_subject_def decode_base_total
        split: MessageDecodeStatus.splits option.splits if_splits)
qed

section \<open>Comparing a message with what the receiver gets\<close>

text \<open>Nested messages that carry no addressing of their own.\<close>

fun plain_field :: "field \<Rightarrow> bool"
  and plain_payload :: "field list \<Rightarrow> bool"
  and plain_base :: "message \<Rightarrow> bool" where
  "plain_field (MessageField h m) \<longleftrightarrow> m_flags m = 255 \<and> c_string (m_subject m) = [] \<and> plain_base m"
| "plain_field f \<longleftrightarrow> True"
| "plain_payload [] \<longleftrightarrow> True"
| "plain_payload (f # fs) \<longleftrightarrow> plain_field f \<and> plain_payload fs"
| "plain_base (Message a fl sub pay keys) \<longleftrightarrow> plain_payload pay"

lemma fold_push_field [simp]:
  "m_payload (fold push_field fs m) = m_payload m @ fs"
  "m_flags (fold push_field fs m) = m_flags m" "m_subject (fold push_field fs m) = m_subject m"
proof -
  have p: "m_payload (push_field f m) = m_payload m @ [f]" "m_flags (push_field f m) = m_flags m"
    "m_subject (push_field f m) = m_subject m" for f m
    by (cases m; simp add: push_field_def)+
  show "m_payload (fold push_field fs m) = m_payload m @ fs"
    "m_flags (fold push_field fs m) = m_flags m" "m_subject (fold push_field fs m) = m_subject m"
    by (induction fs arbitrary: m) (simp_all add: p)
qed

lemma received_equal:
  "plain_field f \<Longrightarrow> field_equal f (received_field f) = Inr True"
  "plain_base m \<Longrightarrow> payload_equal (m_payload m) (received_payload (m_payload m)) = Inr True"
proof (induction f and m rule: field.induct message.induct)
  case (MessageField h m)
  then obtain a fl sub pay keys where m: "m = Message a fl sub pay keys" by (cases m)
  with MessageField show ?case by (simp add: Message_new_def c_string_def)
next
  case (Message a fl sub pay keys)
  have "plain_payload fs \<Longrightarrow> (\<And>f. f \<in> set fs \<Longrightarrow> plain_field f \<Longrightarrow> field_equal f (received_field f) = Inr True)
     \<Longrightarrow> payload_equal fs (received_payload fs) = Inr True" for fs
    by (induction fs) auto
  with Message show ?case by simp
qed simp_all


section \<open>A small message for the concrete instances\<close>

definition demo_message :: message where
  "demo_message = Message True 255 (str_bytes ''A'' @ [0])
    [ScalarField \<lparr>f_identifier = str_bytes ''x'', f_type = st_boolean, f_data_length = 1\<rparr> [1, 0, 0, 0, 0, 0, 0, 0]]
    [(str_bytes ''x'', 0)]"

lemma demo_subject: "subject_string demo_message = str_bytes ''A''"
  by (simp add: demo_message_def subject_string_def c_string_def str_bytes_def)

lemma demo_length: "length (wire_message demo_message) = 31"
  by (simp add: length_wire_message demo_subject MsgAddressing_size_def)
    (simp add: demo_message_def str_bytes_def wire_leaf_def)

lemma demo_wf: "wf_message demo_message"
proof -
  have "replicate 7 (0::byte) = [0, 0, 0, 0, 0, 0, 0]" by (simp add: eval_nat_numeral)
  then have "wf_base demo_message"
    by (simp add: demo_message_def wf_header_def valid_type_def str_bytes_def)
  then show ?thesis
    unfolding wf_message_def demo_length demo_subject by (simp add: str_bytes_def)
qed

lemma demo_plain: "plain_base demo_message"
  by (simp add: demo_message_def)

end
