(* ===== verification/Message_Properties.thy ===== *)
theory Message_Properties
  imports Codec_Correct Messages
begin

text \<open>
  The properties of the byte storage, the message buffer, the message classes and the codec,
  each with a concrete instance where it has hypotheses.
\<close>

section \<open>Growth during encoding\<close>

text \<open>
  \<open>grown s t k\<close>: from \<open>s\<close> to \<open>t\<close> the storage took \<open>k\<close> bytes more, and if it still has the
  same block then they fitted.
\<close>

definition grown :: "byte_storage \<Rightarrow> byte_storage \<Rightarrow> nat \<Rightarrow> bool" where
  "grown s t k \<longleftrightarrow> m_storedLength t = m_storedLength s + k \<and> m_block s \<le> m_block t
     \<and> (m_block t = m_block s \<longrightarrow> m_capacity t = m_capacity s \<and> (0 < k \<longrightarrow> m_storedLength t \<le> m_capacity s))"

lemma grown_trans: "grown s t j \<Longrightarrow> grown t u k \<Longrightarrow> grown s u (j + k)"
  by (auto simp: grown_def)

lemma grown_allocate: "allocate n s = (p, t) \<Longrightarrow> grown s t n \<and> fst p = m_block t"
  by (auto simp: allocate_def Let_def grown_def storage_simps split: if_splits)

lemma grown_append: "grown s (append_bytes bs s) (length bs)"
proof -
  obtain p t where "allocate (length bs) s = (p, t)" by (cases "allocate (length bs) s")
  then show ?thesis using grown_allocate[of "length bs" s p t] by (auto simp: append_bytes_def grown_def)
qed

lemma grown_scalar: "grown s (appendScalar n x s) n"
  using grown_append[of s "le_bytes n x"] by (simp add: appendScalar_eq)

lemma grown_write: "grown s t k \<Longrightarrow> writeScalar p n x t = Inr u \<Longrightarrow> grown s u k"
  by (auto simp: writeScalar_def grown_def split: if_splits)

lemma grown_Field_encode: "Field_encode h d s = (n, t) \<Longrightarrow> grown s t (length (wire_leaf h d))"
proof -
  assume "Field_encode h d s = (n, t)"
  then have t: "t = append_bytes d (append_bytes (f_identifier h) (appendScalar 4 (length d)
      (appendScalar 1 (length (f_identifier h)) (appendScalar 1 (unat (type_code (f_type h))) s))))"
    by (simp add: Field_encode_def Let_def)
  have "grown s t (1 + 1 + 4 + length (f_identifier h) + length d)"
    unfolding t by (intro grown_trans[OF _ grown_append] grown_trans[OF _ grown_scalar] grown_scalar)
  then show ?thesis by (simp add: MsgField_size_def)
qed

lemma grown_encode:
  "wf_field f \<Longrightarrow> encode_field f s = Inr (n, t) \<Longrightarrow> grown s t (length (wire_field f))"
  "wf_base m \<Longrightarrow> encode_base m s = Inr (n, t) \<Longrightarrow> grown s t (length (wire_base m))"
proof (induction f and m arbitrary: s n t and s n t rule: field.induct message.induct)
  case (MessageField h m)
  define s3 where "s3 = append_bytes (f_identifier h) (snd (allocate 4 (appendScalar 1
      (length (f_identifier h)) (appendScalar 1 (unat (type_code (f_type h))) s))))"
  have "grown s s3 (1 + 1 + 4 + length (f_identifier h))"
    unfolding s3_def
    by (intro grown_trans[OF _ grown_append] grown_trans[OF _ conjunct1[OF grown_allocate[OF prod.collapse[symmetric]]]]
        grown_trans[OF _ grown_scalar] grown_scalar)
  moreover define ptr where "ptr = fst (allocate 4 (appendScalar 1
      (length (f_identifier h)) (appendScalar 1 (unat (type_code (f_type h))) s)))"
  moreover obtain k u where "encode_base m s3 = Inr (k, u)" "writeScalar ptr 4 k u = Inr t"
    using MessageField.prems(2) by (auto simp: Let_def s3_def ptr_def split_beta)
  moreover have "grown s3 u (length (wire_base m))"
    using MessageField.IH[of s3 k u] MessageField.prems(1) calculation by simp
  ultimately have "grown s t (1 + 1 + 4 + length (f_identifier h) + length (wire_base m))"
    using grown_write grown_trans by blast
  then show ?case by (simp add: MsgField_size_def)
next
  case (Message a fl sub pay keys)
  have "grown s t (length (wire_payload fs))"
    if "set fs \<subseteq> set pay" "wf_payload fs" "encode_payload fs k s = Inr (n, t)" for fs k s n t
    using that
  proof (induction fs arbitrary: k s)
    case Nil
    then show ?case by (simp add: grown_def)
  next
    case (Cons f fs)
    then obtain j u where u: "encode_field f s = Inr (j, u)" "encode_payload fs (k + j) u = Inr (n, t)"
      by auto
    then show ?case
      using Cons grown_trans[of s u "length (wire_field f)" t] Message.IH[of f s j u] by fastforce
  qed
  from this[of pay] show ?case
    using Message.prems grown_trans[OF grown_scalar grown_scalar] grown_trans
    by (fastforce simp: Let_def)
qed (auto dest: grown_Field_encode simp: date_time_bytes_def native_store_def split: if_splits)

section \<open>Properties of the codec\<close>

text \<open>
  C2 Round trip: a message within the limits of the format, encoded into a storage that is large
  enough, comes back from the decoder as an equal message: same subject, same flags, the same
  fields with the same names, types and values, nested messages included as far as they are
  on the wire, and the decoder stops exactly behind it.
\<close>

theorem codec_roundtrip:
  assumes m: "wf_message m" "plain_base m" and n: "length (wire_message m) \<le> n" "n \<le> 2 ^ 62"
  shows "\<exists>s v m'. encode_message m (ByteStorage_alloc a n) = Inr (length (wire_message m), s)
    \<and> ByteStorage_bytes a (m_bytes s) (m_storedLength s) TRANSIENT = Inr v
    \<and> decode_message Message_new v = Inr (True, m', advanceRead (length (wire_message m)) v)
    \<and> subject_string m' = subject_string m \<and> m_flags m' = m_flags m
    \<and> m_payload m' = received_payload (m_payload m) \<and> message_equal m m' = Inr True"
proof -
  let ?s0 = "ByteStorage_alloc a n"
  have wf: "wf_storage ?s0" using wf_storage_alloc[OF n(2)] .
  have room: "m_storedLength ?s0 + length (wire_message m) \<le> m_capacity ?s0"
    using n allocateStorage_capacity(1)[OF n(2)]
    by (simp add: ByteStorage_alloc_def Let_def allocateStorage_simps)
  obtain s where s: "encode_message m ?s0 = Inr (length (wire_message m), s)" "extends ?s0 s (wire_message m)"
    using encode_message_extends[OF m(1) wf room] by blast
  have c: "content s = wire_message m" "wf_storage s" "m_storedLength s = length (wire_message m)"
    using extendsD[OF s(2)] content_alloc[of a n] length_content[OF wf] length_content[OF extendsD(1)[OF s(2)]]
    by simp_all
  define v where "v = \<lparr>m_allocator = a, m_block = 0, m_bytes = m_bytes s, m_capacity = 0,
    m_storedLength = m_storedLength s, m_options = TRANSIENT, m_read_ptr = 0, m_mark_ptr = 0\<rparr>"
  have v: "ByteStorage_bytes a (m_bytes s) (m_storedLength s) TRANSIENT = Inr v"
    by (simp add: v_def ByteStorage_bytes_def Let_def TRANSIENT_def COPY_ON_CONSTRUCT_def)
  have at: "at v (wire_message m)" and pos: "0 < m_storedLength v"
    using c m(1) by (auto simp: at_def v_def content_def wf_storage_def wf_message_def length_wire_message)
  let ?m' = "fold push_field (received_payload (m_payload m))
      (Message (m_hasAddressing Message_new) (m_flags m) (overwrite 0 (subject_string m @ [0]) (m_subject Message_new))
        (m_payload Message_new) (m_keys Message_new))"
  have sub: "subject_string ?m' = subject_string m"
    by (simp add: subject_string_def overwrite_def)
  have "message_equal m ?m' = Inr True"
    using received_equal(2)[OF m(2)] sub by (cases m) (simp add: subject_string_def Message_new_def)
  moreover have "m_payload ?m' = received_payload (m_payload m)" "m_flags ?m' = m_flags m"
    by (simp_all add: Message_new_def)
  ultimately show ?thesis using s(1) v decode_message_at[OF at m(1) pos, of Message_new] sub by blast
qed

text \<open>
  C23 What the encoder writes, as a function of the message: when the storage has room, a
  well-formed message makes it append \<open>wire_message m\<close> (marker, length, flags, reserved
  word, subject with its NUL, then the body, all little-endian), and the returned length is theirs.
  The header of a field is its type in one byte, the length of its name in one byte and the length
  of its data in four, which is what the decoder reads; the comment in
  \<^verbatim>\<open>Field.h\<close> gives another layout.
\<close>

theorem encode_writes_wire_format:
  assumes "wf_message m" "wf_storage s" "m_storedLength s + length (wire_message m) \<le> m_capacity s"
  shows "\<exists>s'. encode_message m s = Inr (length (wire_message m), s') \<and> wf_storage s'
    \<and> content s' = content s @ wire_message m"
  using encode_message_extends[OF assms] extendsD by metis

text \<open>
  C24 The decoder terminates on every input: on no buffer, however malformed, does the recursion
  over nested messages and field counts exhaust a depth of three times the buffer length.
\<close>

theorem decoder_terminates: "decode_message msg s \<noteq> Inl OutOfFuel"
  by (rule decode_message_total)

text \<open>
  No message survives a reallocation: when the storage has room for the length field but not
  for the whole message, the encoder writes the length through a pointer into the block that
  was freed (or already did so for a nested message), so that no encoding finishes.
\<close>

theorem encode_growth_faults:
  assumes m: "wf_message m" and small: "m_storedLength s + 9 \<le> m_capacity s"
    and big: "m_capacity s < m_storedLength s + length (wire_message m)"
  shows "\<exists>e. encode_message m s = Inl e"
proof (rule ccontr)
  assume "\<nexists>e. encode_message m s = Inl e"
  then obtain n t where t: "encode_message m s = Inr (n, t)"
    by (cases "encode_message m s") auto
  define s1 where "s1 = snd (allocate 8 (appendScalar 1 addressing_flag s))"
  define s2 where "s2 = append_bytes (subject_string m @ [0]) (appendScalar 2 (length (subject_string m) + 1)
      (appendScalar 4 0 (appendScalar 1 (unat (m_flags m)) s1)))"
  have a1: "appendScalar 1 addressing_flag s = s\<lparr>m_storedLength := m_storedLength s + 1,
      m_bytes := overwrite (m_storedLength s) (le_bytes 1 addressing_flag) (m_bytes s)\<rparr>"
    using append_bytes_in_place[of s "le_bytes 1 addressing_flag"] small
    by (simp add: appendScalar_eq del: le_bytes.simps)
  define s0 where "s0 = appendScalar 1 addressing_flag s"
  have s0: "m_block s0 = m_block s" "m_capacity s0 = m_capacity s" "m_storedLength s0 = m_storedLength s + 1"
    unfolding s0_def a1 by simp_all
  have "allocate 8 s0 = ((m_block s0, m_storedLength s0), s0\<lparr>m_storedLength := m_storedLength s0 + 8\<rparr>)"
    using small s0 by (intro allocate_no_grow) simp
  then have al: "allocate 8 (appendScalar 1 addressing_flag s) = ((m_block s, m_storedLength s + 1), s1)"
    and s1: "m_block s1 = m_block s" "m_capacity s1 = m_capacity s" "m_storedLength s1 = m_storedLength s + 9"
    using s0 unfolding s1_def s0_def[symmetric] by simp_all
  have g2: "grown s1 s2 (1 + 4 + 2 + (length (subject_string m) + 1))"
  proof -
    have "grown s1 s2 (1 + 4 + 2 + length (subject_string m @ [0]))"
      unfolding s2_def by (intro grown_trans[OF _ grown_append] grown_trans[OF _ grown_scalar] grown_scalar)
    then show ?thesis by simp
  qed
  have wf: "wf_base m" using m by (simp add: wf_message_def)
  obtain k u where u: "encode_base m s2 = Inr (k, u)"
    "\<exists>x. writeScalar (m_block s, m_storedLength s + 1) 8 x u = Inr t"
    using t al by (auto simp: encode_message_def Let_def s2_def)
  then have "m_block u = m_block s" by (auto simp: writeScalar_def split: if_splits)
  moreover have "grown s1 u (length (wire_message m) - 9)"
    using grown_trans[OF g2 grown_encode(2)[OF wf u(1)]]
    by (simp add: length_wire_message MsgAddressing_size_def add.assoc)
  moreover have "9 < length (wire_message m)" by (simp add: length_wire_message MsgAddressing_size_def)
  ultimately show False using s1 big by (auto simp: grown_def)
qed

text \<open>
  A scalar field whose length on the wire exceeds the eight bytes of the object makes the
  decoder copy past their end: nothing checks the length against the type.
\<close>

theorem scalar_decode_overflow:
  assumes "at s (wire_leaf h d)" "wf_header h" "valid_type (f_type h)" "8 < length d" "length d < 2 ^ 32"
  shows "ScalarField_decode s = Inl BufferOverflow"
  using Field_decode_at[OF assms(1,2,3,5)] wire_leaf_data[OF assms(1)] assms(4)
  by (simp add: ScalarField_decode_def)


text \<open>
  The wire does not depend on the host: storing \<open>endianScalar x\<close> in the native order of either
  kind of host gives the little-endian bytes of \<open>x\<close>, and loading any bytes natively and
  applying \<open>endianScalar\<close> gives the value they have in little-endian order.
\<close>

theorem scalar_host_independent:
  "native_store e n (endianScalar e n x) = le_bytes n x
   \<and> endianScalar e (length bs) (native_load e bs) = le_value bs"
  using store_endianScalar load_endianScalar by blast

text \<open>
  The date-time field is the exception: it writes the native bytes of its two words, but its
  decoder converts, so that on a big-endian host the value 1 comes back as \<open>2 ^ 56\<close>.
\<close>

theorem date_time_big_endian:
  "endianScalar BigEndian 8 (native_load BigEndian (take 8 (date_time_bytes BigEndian 1 0))) = 2 ^ 56
   \<and> endianScalar LittleEndian 8 (native_load LittleEndian (take 8 (date_time_bytes LittleEndian 1 0))) = 1"
proof -
  have le: "le_bytes 8 1 = [1, 0, 0, 0, 0, 0, 0, 0]" by code_simp
  have "take 8 (date_time_bytes BigEndian 1 0) = [0, 0, 0, 0, 0, 0, 0, 1]"
    "take 8 (date_time_bytes LittleEndian 1 0) = [1, 0, 0, 0, 0, 0, 0, 0]"
    unfolding date_time_bytes_def native_store_def by (simp_all only: le unsigned_1 if_True if_False
        endianness.distinct simp_thms) simp_all
  then show ?thesis
    using load_endianScalar[of "[0, 0, 0, 0, 0, 0, 0, 1]" 8 BigEndian]
      load_endianScalar[of "[1, 0, 0, 0, 0, 0, 0, 0]" 8 LittleEndian] by simp
qed

section \<open>Properties of the storage and the buffer\<close>

text \<open>
  C36 The capacity a storage allocates for \<open>n\<close> bytes, from 1 up to \<open>2 ^
  32\<close> of them, is the least power of two that is at least \<open>n\<close>; the shifts of
  \<^verbatim>\<open>allocateStorage\<close> are exact there. For no bytes it is 0, which is no
  power of two. (The comment in the code has the next number larger than the one provided; a power
  of two is kept.)
\<close>

theorem capacity_least_power:
  assumes "n \<le> 2 ^ 32"
  shows "if n = 0 then m_capacity (allocateStorage n s) = 0
    else \<exists>k. m_capacity (allocateStorage n s) = 2 ^ k \<and> n \<le> 2 ^ k \<and> (\<forall>j. n \<le> 2 ^ j \<longrightarrow> k \<le> j)"
proof (cases "n = 0")
  case True
  then show ?thesis by (simp add: allocateStorage_simps next_pow2_def Let_def)
next
  case False
  then show ?thesis using next_pow2_least_power[of n] assms by (simp add: allocateStorage_simps)
qed

theorem capacity_least_power_witness:
  "(\<exists>k. m_capacity (allocateStorage 1025 (ByteStorage_alloc (\<lambda>_. 0) 1)) = 2 ^ k \<and> 1025 \<le> (2::nat) ^ k \<and> k \<le> 11)
    \<and> m_capacity (allocateStorage 0 (ByteStorage_alloc (\<lambda>_. 0) 1)) = 0"
proof -
  have "(1025::nat) \<le> 2 ^ 11" by simp
  then show ?thesis
    using capacity_least_power[of 1025 "ByteStorage_alloc (\<lambda>_. 0) 1"] capacity_least_power[of 0 "ByteStorage_alloc (\<lambda>_. 0) 1"] by auto
qed

text \<open>
  Appending keeps what is stored and adds the new bytes behind it, with or without a
  reallocation, and keeps the storage well-formed.
\<close>

theorem storage_append:
  assumes "wf_storage s" "m_capacity s + length bs \<le> 2 ^ 62"
  shows "wf_storage (append_bytes bs s) \<and> content (append_bytes bs s) = content s @ bs"
  using append_bytes_spec[OF assms] by blast

theorem storage_append_witness:
  "content (append_bytes [3, 4, 5] (append_bytes [1, 2] (ByteStorage_alloc (\<lambda>_. 0) 2))) = [1, 2, 3, 4, 5]"
proof -
  let ?s = "append_bytes [1, 2] (ByteStorage_alloc (\<lambda>_. 0) 2)"
  have c: "m_capacity (ByteStorage_alloc (\<lambda>_. 0) 2) = 2" "m_capacity ?s = 2" by code_simp+
  have s: "wf_storage ?s" "content ?s = [1, 2]"
    using storage_append[of "ByteStorage_alloc (\<lambda>_. 0) 2" "[1, 2]"] wf_storage_alloc[of 2 "\<lambda>_. 0"]
      content_alloc[of "\<lambda>_. 0" 2] c(1) by simp_all
  show ?thesis using storage_append[OF s(1), of "[3, 4, 5]"] s(2) c by simp
qed

text \<open>
  The receive buffer is a byte FIFO: bytes appended at the back and dropped from the front come
  out in order, whatever the buffer had consumed before.
\<close>

theorem buffer_fifo:
  assumes "wf_buffer b" "m_capacity (mb_storage b) + length d \<le> 2 ^ 62" "n \<le> length (visible b) + length d"
  shows "\<exists>b'. erase_front n (buffer_append d b) = Inr b' \<and> wf_buffer b' \<and> visible b' = drop n (visible b @ d)"
  by (rule mbuf.push_then_drop[OF assms])

theorem buffer_fifo_witness:
  "\<exists>b'. erase_front 1 (buffer_append [7, 8] (MessageBuffer_new (\<lambda>_. 0) 4)) = Inr b' \<and> visible b' = [8]"
proof -
  let ?b = "MessageBuffer_new (\<lambda>_. 0) 4"
  have b: "wf_buffer ?b" "visible ?b = []" using wf_buffer_new[of 4 "\<lambda>_. 0"] by auto
  have "m_capacity (mb_storage ?b) = 4" by code_simp
  then show ?thesis using buffer_fifo[OF b(1), of "[7, 8]" 1] b(2) by auto
qed

text \<open>
  \<^verbatim>\<open>MessageBuffer::allocate\<close>, whether it moves the unread bytes to the front, grows the block or
  neither, keeps the unread bytes and makes exactly the requested room behind them, at the
  place the returned pointer names.
\<close>

theorem buffer_allocate_room:
  assumes "wf_buffer b" "m_capacity (mb_storage b) + n \<le> 2 ^ 62" "buffer_allocate n b = (p, b')"
  shows "wf_buffer b' \<and> take (length (visible b)) (visible b') = visible b
    \<and> length (visible b') = length (visible b) + n
    \<and> p = (m_block (mb_storage b'), m_startIndex b' + length (visible b))"
  using buffer_allocate_spec[OF assms] by blast

theorem buffer_allocate_room_witness:
  "\<exists>p b'. buffer_allocate 3 (MessageBuffer_new (\<lambda>_. 0) 4) = (p, b') \<and> length (visible b') = 3"
proof -
  let ?b = "MessageBuffer_new (\<lambda>_. 0) 4"
  obtain p b' where al: "buffer_allocate 3 ?b = (p, b')" by (cases "buffer_allocate 3 ?b")
  have b: "wf_buffer ?b" "visible ?b = []" using wf_buffer_new[of 4 "\<lambda>_. 0"] by auto
  have "m_capacity (mb_storage ?b) = 4" by code_simp
  then show ?thesis using buffer_allocate_room[OF b(1) _ al] al b(2) by auto
qed


section \<open>Properties of messages\<close>

text \<open>
  A scalar that was added is read back: \<^verbatim>\<open>addScalarField\<close> with a new name succeeds, the getter of
  the same type returns the value, the assertion stops a getter of another type, and every
  other field is found as before; with a name that is taken it returns false and changes
  nothing. The index stays consistent.
\<close>

theorem add_get_scalar:
  assumes "index_exact m" "length (c_string name) < 256"
  shows "\<exists>ok m'. addScalarField name v m = Inr (ok, m') \<and> index_exact m'
    \<and> ok = (lookup_field m (c_string name) = None)
    \<and> (ok \<longrightarrow> (\<forall>t. getScalarField t (Some name) m' = (if t = scalar_type v then Inr (Some v) else Inl AssertFailed))
          \<and> (\<forall>k. k \<noteq> c_string name \<longrightarrow> lookup_field m' k = lookup_field m k))
    \<and> (\<not> ok \<longrightarrow> m' = m)"
proof -
  obtain f where f: "ScalarField_ctor name v = Inr f" "field_identifier f = c_string name"
    using assms(2) by (simp add: ScalarField_ctor_def Field_ctor_def field_identifier_def)
  have a: "addScalarField name v m = Inr (add_field f m)" using f(1) by (simp add: addScalarField_def)
  have inv: "index_exact (snd (add_field f m))" by (rule index_exact_add[OF assms(1)])
  show ?thesis
  proof (cases "lookup_field m (c_string name) = None")
    case True
    then have new: "fst (add_field f m)" "lookup_field (snd (add_field f m)) = (lookup_field m)(c_string name \<mapsto> f)"
      using msg.add_fresh[OF assms(1), of f] f(2) by auto
    have "getScalarField t (Some name) (snd (add_field f m)) =
        (if t = scalar_type v then Inr (Some v) else Inl AssertFailed)" for t
      using getScalarField_lookup[OF index_exact_ok[OF inv]] new(2) ScalarField_get_ctor[OF f(1), of t] by simp
    then show ?thesis using a new inv True
      by (intro exI[of _ True] exI[of _ "snd (add_field f m)"]) (simp add: prod_eq_iff)
  next
    case False
    then have "add_field f m = (False, m)" using msg.add_duplicate[OF assms(1), of f] f(2) by simp
    then show ?thesis using a False assms(1) by (intro exI[of _ False] exI[of _ m]) simp
  qed
qed

text \<open>
  A message built from fields with different names holds them all: each field is found under
  its name, whatever the order and whatever was added after it.
\<close>

theorem add_all_found:
  assumes "distinct (map field_identifier fs)" "f \<in> set fs"
  shows "lookup_field (fold (\<lambda>f m. snd (add_field f m)) fs Message_new) (field_identifier f) = Some f"
  using msg.add_all_lookup[OF index_exact_new assms(1) _ assms(2)]
  by (simp add: msg.add_all_def lookup_field_def Message_new_def)

text \<open>
  Strings, byte strings and times come back from their fields as they were put in, on either
  side of the 256 byte boundary between the two data field classes, and negative times too.
\<close>

theorem field_values_kept:
  assumes "length v < 2 ^ 60" "- (2 ^ 63) \<le> t" "t < 2 ^ 63" "length (c_string i) < 256"
  shows "\<exists>f g h. createDataField_string i v = Inr f \<and> DataField_get st_string f = Inr (c_string v @ [0])
    \<and> createDataField_data i v = Inr g \<and> DataField_get st_data g = Inr v
    \<and> DateTimeField_micros i t = Inr h \<and> DateTimeField_get h = Some t"
proof -
  obtain f where f: "createDataField_string i v = Inr f"
    using assms(4)
    by (cases "createDataField_string i v") (auto simp: createDataField_string_def
        SmallDataField_string_def LargeDataField_string_def Field_ctor_def split: if_splits)
  obtain g where g: "createDataField_data i v = Inr g"
    using assms(4)
    by (cases "createDataField_data i v") (auto simp: createDataField_data_def
        SmallDataField_data_def LargeDataField_data_def Field_ctor_def split: if_splits)
  obtain h where h: "DateTimeField_micros i t = Inr h"
    using assms(4) by (auto simp: DateTimeField_micros_def Field_ctor_def)
  show ?thesis
    using f g h DataField_get_string[OF f assms(1)] DataField_get_data[OF g assms(1)]
      DateTimeField_get_micros[OF h assms(2,3)] by blast
qed

text \<open>
  Removing the field that was added last leaves a consistent message in which exactly that name
  is gone.
\<close>

theorem remove_last_field:
  assumes "index_exact m" "find_key m n = Some (length (m_payload m) - 1)"
  shows "\<exists>m'. removeField (Some n) m = Inr (True, m') \<and> index_exact m'
    \<and> lookup_field m' = (lookup_field m)(c_string n := None)"
  by (rule removeField_last[OF assms])

text \<open>
  Removing any other field breaks the index: after adding \<^verbatim>\<open>a\<close>, \<^verbatim>\<open>b\<close> and \<^verbatim>\<open>c\<close> and removing \<^verbatim>\<open>a\<close>,
  asking for \<^verbatim>\<open>b\<close> returns the value of \<^verbatim>\<open>c\<close>, and asking for \<^verbatim>\<open>c\<close> reads past the end of the
  payload.
\<close>

theorem remove_shifts_fields:
  "bind_outcome (addScalarField (str_bytes ''a'') (SU8 1) Message_new) (\<lambda>(_, m).
   bind_outcome (addScalarField (str_bytes ''b'') (SU8 2) m) (\<lambda>(_, m).
   bind_outcome (addScalarField (str_bytes ''c'') (SU8 3) m) (\<lambda>(_, m).
   bind_outcome (removeField (Some (str_bytes ''a'')) m) (\<lambda>(removed, m').
   Inr (removed, getScalarField st_uint8 (Some (str_bytes ''b'')) m,
        getScalarField st_uint8 (Some (str_bytes ''b'')) m',
        getScalarField st_uint8 (Some (str_bytes ''c'')) m')))))
   = Inr (True, Inr (Some (SU8 2)), Inr (Some (SU8 3)), Inl OutOfBounds)"
  by code_simp

text \<open>
  Equality of messages looks at the left operand's fields only: a message equals every message
  with the same subject and flags that has further fields, and in the other direction the
  comparison reads past the end of the shorter payload.
\<close>

theorem message_equality_prefix:
  assumes "fs \<noteq> []"
  shows "message_equal (Message a fl sub pay keys) (Message a' fl sub (pay @ fs) keys') = Inr True
    \<and> message_equal (Message a' fl sub (pay @ fs) keys') (Message a fl sub pay keys) = Inl OutOfBounds"
proof -
  have "payload_equal (pay @ fs) pay = Inl OutOfBounds"
  proof (induction pay)
    case Nil
    then show ?case using assms by (cases fs) simp_all
  qed (simp add: field_equal_refl)
  then show ?thesis by (simp add: payload_equal_prefix)
qed


section \<open>Witnesses\<close>

theorem codec_roundtrip_witness:
  "\<exists>s v m'. encode_message demo_message (ByteStorage_alloc (\<lambda>_. 0) 64) = Inr (31, s)
    \<and> ByteStorage_bytes (\<lambda>_. 0) (m_bytes s) (m_storedLength s) TRANSIENT = Inr v
    \<and> decode_message Message_new v = Inr (True, m', advanceRead 31 v)
    \<and> subject_string m' = str_bytes ''A'' \<and> message_equal demo_message m' = Inr True"
  using codec_roundtrip[OF demo_wf demo_plain, of 64 "\<lambda>_. 0"] demo_length demo_subject by auto

theorem encode_writes_wire_format_witness:
  "\<exists>s. encode_message demo_message (ByteStorage_alloc (\<lambda>_. 0) 64) = Inr (31, s) \<and> content s = wire_message demo_message"
proof -
  have "wf_storage (ByteStorage_alloc (\<lambda>_. 0) 64)" by (rule wf_storage_alloc) simp
  moreover have "m_capacity (ByteStorage_alloc (\<lambda>_. 0) 64) = 64"
    "m_storedLength (ByteStorage_alloc (\<lambda>_. 0) 64) = 0" by code_simp+
  ultimately show ?thesis
    using encode_writes_wire_format[OF demo_wf, of "ByteStorage_alloc (\<lambda>_. 0) 64"] demo_length
      content_alloc[of "\<lambda>_. 0" 64] by auto
qed

theorem encode_growth_faults_witness:
  "\<exists>e. encode_message demo_message (ByteStorage_alloc (\<lambda>_. 0) 16) = Inl e"
proof -
  have "m_capacity (ByteStorage_alloc (\<lambda>_. 0) 16) = 16"
    "m_storedLength (ByteStorage_alloc (\<lambda>_. 0) 16) = 0" by code_simp+
  then show ?thesis
    using encode_growth_faults[OF demo_wf, of "ByteStorage_alloc (\<lambda>_. 0) 16"] demo_length by simp
qed

theorem scalar_decode_overflow_witness:
  "ScalarField_decode \<lparr>m_allocator = (\<lambda>_. 0), m_block = 0,
     m_bytes = wire_leaf \<lparr>f_identifier = str_bytes ''x'', f_type = st_uint8, f_data_length = 1\<rparr> (replicate 9 7),
     m_capacity = 0, m_storedLength = 16, m_options = 0, m_read_ptr = 0, m_mark_ptr = 0\<rparr> = Inl BufferOverflow"
proof -
  let ?h = "\<lparr>f_identifier = str_bytes ''x'', f_type = st_uint8, f_data_length = 1\<rparr>"
  have "length (wire_leaf ?h (replicate 9 7)) = 16" by (simp add: MsgField_size_def str_bytes_def)
  then have "at \<lparr>m_allocator = (\<lambda>_. 0), m_block = 0, m_bytes = wire_leaf ?h (replicate 9 7),
      m_capacity = 0, m_storedLength = 16, m_options = 0, m_read_ptr = 0, m_mark_ptr = 0\<rparr> (wire_leaf ?h (replicate 9 7))"
    by (simp add: at_def)
  then show ?thesis
    by (rule scalar_decode_overflow) (simp_all add: wf_header_def valid_type_def str_bytes_def)
qed

theorem add_get_scalar_witness:
  "\<exists>m'. addScalarField (str_bytes ''n'') (SI32 5) Message_new = Inr (True, m')
    \<and> getScalarField st_int32 (Some (str_bytes ''n'')) m' = Inr (Some (SI32 5))"
proof -
  have "length (c_string (str_bytes ''n'')) < 256" "lookup_field Message_new (c_string (str_bytes ''n'')) = None"
    by code_simp+
  then show ?thesis
    using add_get_scalar[OF index_exact_new, of "str_bytes ''n''" "SI32 5"] by auto
qed

definition demo_field :: "byte \<Rightarrow> byte \<Rightarrow> field" where
  "demo_field name value =
    ScalarField \<lparr>f_identifier = [name], f_type = st_uint8, f_data_length = 1\<rparr> [value, 0, 0, 0, 0, 0, 0, 0]"

theorem add_all_found_witness:
  "lookup_field (fold (\<lambda>f m. snd (add_field f m)) [demo_field 97 1, demo_field 98 2] Message_new) [97]
   = Some (demo_field 97 1)"
proof -
  have id: "field_identifier (demo_field n v) = [n]" for n v by (simp add: demo_field_def field_identifier_def)
  show ?thesis using add_all_found[of "[demo_field 97 1, demo_field 98 2]" "demo_field 97 1"]
    by (simp only: id list.map list.set) simp
qed

theorem field_values_kept_witness:
  "\<exists>f h. createDataField_string (str_bytes ''s'') (str_bytes ''hello'') = Inr f
    \<and> DataField_get st_string f = Inr (str_bytes ''hello'' @ [0])
    \<and> DateTimeField_micros (str_bytes ''s'') (- 1500000) = Inr h \<and> DateTimeField_get h = Some (- 1500000)"
proof -
  have c: "c_string (str_bytes ''hello'') = str_bytes ''hello''" by code_simp
  have "length (c_string (str_bytes ''s'')) < 256" "length (str_bytes ''hello'') < 2 ^ 60"
    by (simp_all add: str_bytes_def c_string_def)
  then show ?thesis using field_values_kept[of "str_bytes ''hello''" "- 1500000" "str_bytes ''s''"] c by auto
qed

theorem remove_last_field_witness:
  "\<exists>m m'. addScalarField (str_bytes ''a'') (SU8 1) Message_new = Inr (True, m)
    \<and> removeField (Some (str_bytes ''a'')) m = Inr (True, m') \<and> lookup_field m' (str_bytes ''a'') = None"
proof -
  let ?m = "Message True 255 [0] [ScalarField \<lparr>f_identifier = str_bytes ''a'', f_type = st_uint8, f_data_length = 1\<rparr>
      [1, 0, 0, 0, 0, 0, 0, 0]] [(str_bytes ''a'', 0)]"
  have add: "addScalarField (str_bytes ''a'') (SU8 1) Message_new = Inr (True, ?m)" by code_simp
  have ex: "index_exact ?m" by (auto simp: index_exact_def field_identifier_def)
  have k: "find_key ?m (str_bytes ''a'') = Some (length (m_payload ?m) - 1)" by code_simp
  have "c_string (str_bytes ''a'') = str_bytes ''a''" by code_simp
  then show ?thesis using add remove_last_field[OF ex k] by auto
qed

theorem message_equality_prefix_witness:
  "message_equal Message_new demo_message = Inr False
   \<and> message_equal (Message True 255 [0] [] []) (Message True 255 [0] (m_payload demo_message) []) = Inr True"
  using message_equality_prefix[of "m_payload demo_message" True 255 "[0]" "[]" "[]" True "[]"]
  by (simp add: demo_message_def Message_new_def c_string_def str_bytes_def)


section \<open>What the decoder accepts\<close>

text \<open>The key index is right in a message and in the messages nested in it.\<close>

fun deep_field :: "field \<Rightarrow> bool" and deep_index :: "message \<Rightarrow> bool" where
  "deep_field (MessageField h m) \<longleftrightarrow> deep_index m"
| "deep_field f \<longleftrightarrow> True"
| "deep_index (Message a fl sub pay keys) \<longleftrightarrow> index_ok (Message a fl sub pay keys) \<and> (\<forall>f \<in> set pay. deep_field f)"

lemma deep_index_push: "deep_index m \<Longrightarrow> deep_field f \<Longrightarrow> deep_index (push_field f m)"
  by (cases m) (auto simp: push_field_def index_ok_def key_insert_def nth_append less_Suc_eq split: option.splits if_splits)

lemma deep_index_header: "deep_index (Message a fl sub (m_payload m) (m_keys m)) \<longleftrightarrow> deep_index m"
  by (cases m) (simp add: index_ok_def)

lemma leaf_decode_deep:
  "ScalarField_decode s = Inr (f, s') \<Longrightarrow> deep_field f" "createDataField_decode n s = Inr (f, s') \<Longrightarrow> deep_field f"
  "DateTimeField_decode s = Inr (f, s') \<Longrightarrow> deep_field f"
  by (auto simp: ScalarField_decode_def createDataField_decode_def SmallDataField_decode_def LargeDataField_decode_def
      DateTimeField_decode_def split: if_splits)

lemma decode_deep:
  "decode_base fuel msg s = Inr (b, msg', s') \<Longrightarrow> deep_index msg \<Longrightarrow> deep_index msg'"
  "decode_fields fuel n b0 msg s = Inr (b, msg', s') \<Longrightarrow> deep_index msg \<Longrightarrow> deep_index msg'"
  "decode_field fuel s = Inr (f, s') \<Longrightarrow> deep_field f"
proof (induction fuel msg s and fuel n b0 msg s and fuel s arbitrary: b msg' s' and b msg' s' and f s'
    rule: decode_base_decode_fields_decode_field.induct)
  case (2 fuel msg s)
  then show ?case by (auto split: if_splits)
next
  case (4 fuel n b0 msg s)
  show ?case
  proof (cases "n = 0")
    case False
    then obtain f s1 where d: "decode_field fuel s = Inr (f, s1)"
        "decode_fields fuel (n - 1) True (push_field f msg) s1 = Inr (b, msg', s')"
      using "4.prems"(1) by auto
    have "deep_field f" using "4.IH"(1) False d(1) by blast
    then have "deep_index (push_field f msg)" by (rule deep_index_push [OF "4.prems"(2)])
    then show ?thesis using "4.IH"(2) False d by blast
  qed (use "4.prems" in simp)
next
  case (6 fuel s)
  have new: "deep_index Message_new" by (simp add: Message_new_def index_ok_def)
  from "6.prems" obtain ty k n where h: "peek_field_header s = Inr (ty, k, n)" by auto
  show ?case
  proof (cases "ty = st_message")
    case True
    then show ?thesis using "6.prems" "6.IH" h new by auto
  next
    case False
    then show ?thesis using "6.prems" h by (cases ty) (auto dest: leaf_decode_deep)
  qed
qed auto

text \<open>
  C25 Whatever bytes arrive, a message that the decoder returns is well-formed: in it and in every
  message nested in it, each key leads to a field of that name, so that asking for the type of
  a field never reads outside the payload.
\<close>

theorem decoded_message_well_formed:
  assumes "decode_message Message_new s = Inr (b, m, s')"
  shows "deep_index m \<and> storageType name m \<in> insert (Inl Terminate) (range Inr)"
proof -
  have new: "deep_index Message_new" by (simp add: Message_new_def index_ok_def)
  obtain st a s1 where a: "addressing_details s (m_flags Message_new) = Inr (st, a, s1)"
    using assms by (auto simp: decode_message_def)
  have d: "deep_index m"
  proof (cases st)
    case CompleteMessage
    then obtain sub where "decode_base (decode_fuel s1) (Message (m_hasAddressing Message_new) (a_flags a) sub
        (m_payload Message_new) (m_keys Message_new)) s1 = Inr (b, m, s')"
      using assms a by (auto simp: decode_message_def split: option.splits)
    then show ?thesis by (rule decode_deep(1)) (use new deep_index_header in blast)
  next
    case IncompleteMessage
    then show ?thesis using assms a new deep_index_header [of _ _ _ Message_new] by (auto simp: decode_message_def)
  qed (use assms a in \<open>simp add: decode_message_def\<close>)
  then have "index_ok m" by (cases m) simp
  then show ?thesis using d
    by (auto simp: storageType_def find_key_def payload_at_def dest: index_ok_less split: option.split)
qed

theorem decoded_message_well_formed_witness:
  "\<exists>s b m s'. decode_message Message_new s = Inr (b, m, s') \<and> m_payload m \<noteq> [] \<and> deep_index m"
proof -
  let ?s = "\<lparr>m_allocator = (\<lambda>_. 0), m_block = 0, m_bytes = wire_message demo_message, m_capacity = 0,
    m_storedLength = 31, m_options = 0, m_read_ptr = 0, m_mark_ptr = 0\<rparr> :: byte_storage"
  have "at ?s (wire_message demo_message)" by (simp add: at_def demo_length)
  from decode_message_at [OF this demo_wf, of Message_new]
  obtain m s' where d: "decode_message Message_new ?s = Inr (True, m, s')" "m_payload m \<noteq> []"
    by (auto simp: demo_message_def push_field_def)
  then show ?thesis using decoded_message_well_formed [OF d(1), of "[]"] by blast
qed

end
