(* ===== verification/Subscriptions.thy ===== *)
theory Subscriptions
  imports FP_Prelude
begin

text \<open>
  Subjects and subscriptions: the string hash (\<^verbatim>\<open>src/fastpath/utils/stringhash.h\<close>), the
  hashed subject of a message (\<^verbatim>\<open>src/fastpath/messages/subject.h\<close>) and the subscription
  pattern with its matcher (\<^verbatim>\<open>src/fastpath/messages/subscription.h\<close>). The template
  parameter \<open>H\<close> is the function argument \<open>H\<close> of the definitions: it maps the characters
  that are hashed to a \<^verbatim>\<open>size_t\<close>. The default, \<^verbatim>\<open>tf::string_hash\<close>, is \<open>string_hash\<close>. The
  lemmas relate the index loops to the reference splitting \<open>tokens\<close> and the hash-level
  matcher to a matcher on the strings.
\<close>

section \<open>The string hash\<close>

definition string_comparator :: "byte list \<Rightarrow> byte list \<Rightarrow> bool" where
  "string_comparator s1 s2 \<longleftrightarrow> c_string s1 = c_string s2"

text \<open>
  \<^verbatim>\<open>char\<close> is signed on the supported platforms: \<^verbatim>\<open>s[i] + (result * prime)\<close> extends the
  sign of \<^verbatim>\<open>s[i]\<close> to 64 bits, and the sum wraps.
\<close>

definition hash_step :: "size_t \<Rightarrow> byte \<Rightarrow> size_t" where
  "hash_step result c = scast c + result * 31"

fun string_hash_z :: "size_t \<Rightarrow> byte list \<Rightarrow> size_t" where
  "string_hash_z result [] = result"
| "string_hash_z result (c # cs) = (if c = 0 then result else string_hash_z (hash_step result c) cs)"

fun string_hash_n :: "size_t \<Rightarrow> byte list \<Rightarrow> nat \<Rightarrow> size_t" where
  "string_hash_n result s 0 = result"
| "string_hash_n result [] (Suc n) = result"
| "string_hash_n result (c # cs) (Suc n) = string_hash_n (hash_step result c) cs n"

definition string_hash :: "byte list \<Rightarrow> size_t" where
  "string_hash s = foldl hash_step 0 s"

section \<open>Subjects\<close>

record 'h subject =
  m_components :: "'h list"
  m_subject_hash :: 'h
  m_is_admin :: bool

abbreviation delimiter :: byte where
  "delimiter \<equiv> 46"

function hash_elements_loop ::
  "(byte list \<Rightarrow> 'h) \<Rightarrow> byte list \<Rightarrow> nat \<Rightarrow> nat \<Rightarrow> 'h list \<Rightarrow> 'h list" where
  "hash_elements_loop H subject i start_ptr out =
    (if i < length subject then
       (if subject ! i = delimiter
        then hash_elements_loop H subject (i + 1) (i + 1)
               (out @ [H (take (i - start_ptr) (drop start_ptr subject))])
        else hash_elements_loop H subject (i + 1) start_ptr out)
     else out @ [H (take (length subject - start_ptr) (drop start_ptr subject))])"
  by pat_completeness auto
termination
  by (relation "measure (\<lambda>(H, s, i, st, out). length s - i)") auto

declare hash_elements_loop.simps [simp del]

definition hash_elements :: "(byte list \<Rightarrow> 'h) \<Rightarrow> byte list \<Rightarrow> 'h list" where
  "hash_elements H subject = hash_elements_loop H subject 0 0 []"

definition admin_identifier :: "(byte list \<Rightarrow> 'h) \<Rightarrow> 'h" where
  "admin_identifier H = H (str_bytes ''_FP'')"

definition subject_new :: "(byte list \<Rightarrow> 'h) \<Rightarrow> byte list \<Rightarrow> 'h subject" where
  "subject_new H subject =
    (let components = hash_elements H (c_string subject)
     in \<lparr> m_components = components,
          m_subject_hash = H (c_string subject),
          m_is_admin = (hd components = admin_identifier H) \<rparr>)"

definition subject_equal :: "'h subject \<Rightarrow> 'h subject \<Rightarrow> bool" where
  "subject_equal a b \<longleftrightarrow> m_subject_hash a = m_subject_hash b"

section \<open>Subscriptions\<close>

datatype component_type = STANDARD | ELEMENT | COMPLETION

record 'h component =
  component_hash :: 'h
  ctype :: component_type

record 'h subscription =
  s_components :: "'h component list"
  s_contains_wildcard :: bool
  s_subject_hash :: 'h

abbreviation wildcard_completion :: byte where
  "wildcard_completion \<equiv> 62"

abbreviation wildcard_element :: byte where
  "wildcard_element \<equiv> 42"

text \<open>\<^verbatim>\<open>std::string::find_first_of\<close> for one character; \<open>None\<close> is \<^verbatim>\<open>npos\<close>.\<close>

fun find_first_of :: "byte list \<Rightarrow> byte \<Rightarrow> nat \<Rightarrow> nat option" where
  "find_first_of [] d start = None"
| "find_first_of (c # cs) d start =
    (if start = 0 \<and> c = d then Some 0 else map_option Suc (find_first_of cs d (start - 1)))"

lemma find_first_of_Some:
  "find_first_of s d start = Some e \<Longrightarrow> start \<le> e \<and> e < length s \<and> s ! e = d"
proof (induction s d start arbitrary: e rule: find_first_of.induct)
  case (2 c cs d start)
  show ?case
  proof (cases "start = 0 \<and> c = d")
    case False
    with 2 obtain e' where "e = Suc e'" "find_first_of cs d (start - 1) = Some e'"
      by (auto split: if_splits)
    with 2(1)[OF False] show ?thesis by auto
  qed (use 2 in auto)
qed simp

function split_loop :: "byte list \<Rightarrow> nat \<Rightarrow> byte list list \<Rightarrow> byte list list" where
  "split_loop subject start out =
    (case find_first_of subject delimiter start of
       None \<Rightarrow> out @ [drop start subject]
     | Some e \<Rightarrow> split_loop subject (e + 1) (out @ [take (e - start) (drop start subject)]))"
  by pat_completeness auto
termination
  by (relation "measure (\<lambda>(s, st, out). length s - st)") (auto dest: find_first_of_Some)

declare split_loop.simps [simp del]

definition split :: "byte list \<Rightarrow> byte list list" where
  "split subject = split_loop subject 0 []"

primrec contains_wildcard :: "byte list \<Rightarrow> bool" where
  "contains_wildcard [] = False"
| "contains_wildcard (c # cs) =
    (if c = wildcard_completion \<or> c = wildcard_element then True else contains_wildcard cs)"

text \<open>\<^verbatim>\<open>c[0]\<close> of an empty \<^verbatim>\<open>std::string\<close> is its terminating NUL.\<close>

definition component_type_of :: "byte list \<Rightarrow> component_type" where
  "component_type_of c =
    (let c0 = (case c of [] \<Rightarrow> 0 | b # _ \<Rightarrow> b)
     in if c0 = wildcard_completion then COMPLETION
        else if c0 = wildcard_element then ELEMENT
        else STANDARD)"

definition subscription_new :: "(byte list \<Rightarrow> 'h) \<Rightarrow> byte list \<Rightarrow> 'h subscription" where
  "subscription_new H arr =
    (let subject = c_string arr; w = contains_wildcard subject
     in \<lparr> s_components =
            (if w then map (\<lambda>c. \<lparr> component_hash = H c, ctype = component_type_of c \<rparr>) (split subject)
             else []),
          s_contains_wildcard = w,
          s_subject_hash = H subject \<rparr>)"

text \<open>The copy assignment appends the components to those the target already holds.\<close>

definition subscription_assign :: "'h subscription \<Rightarrow> 'h subscription \<Rightarrow> 'h subscription" where
  "subscription_assign self other =
    self\<lparr> s_components := s_components self @ s_components other,
          s_contains_wildcard := s_contains_wildcard other,
          s_subject_hash := s_subject_hash other \<rparr>"

text \<open>The \<^verbatim>\<open>find_if_not\<close> loop with the captured \<^verbatim>\<open>index\<close>.\<close>

fun all_components_match :: "'h component list \<Rightarrow> 'h list \<Rightarrow> nat \<Rightarrow> bool" where
  "all_components_match [] subj index = True"
| "all_components_match (c # cs) subj index =
    ((case ctype c of
        STANDARD \<Rightarrow> component_hash c = subj ! index
      | ELEMENT \<Rightarrow> True
      | COMPLETION \<Rightarrow> True)
     \<and> all_components_match cs subj (index + 1))"

definition matches :: "'h subscription \<Rightarrow> 'h subject \<Rightarrow> bool" where
  "matches sub subj =
    (if \<not> s_contains_wildcard sub then s_subject_hash sub = m_subject_hash subj
     else if length (m_components subj) \<ge> length (s_components sub)
     then all_components_match (s_components sub) (m_components subj) 0
     else False)"

definition subscription_equal :: "'h subscription \<Rightarrow> 'h subscription \<Rightarrow> bool" where
  "subscription_equal a b \<longleftrightarrow> s_subject_hash a = s_subject_hash b"

definition subscription_equal_str :: "size_t subscription \<Rightarrow> byte list \<Rightarrow> bool" where
  "subscription_equal_str a other \<longleftrightarrow> s_subject_hash a = string_hash_z 0 other"

section \<open>Specification: splitting and matching on strings\<close>

fun tokens :: "byte list \<Rightarrow> byte list list" where
  "tokens [] = [[]]"
| "tokens (c # cs) =
    (if c = delimiter then [] # tokens cs
     else (case tokens cs of t # ts \<Rightarrow> (c # t) # ts | [] \<Rightarrow> [[c]]))"

fun untokens :: "byte list list \<Rightarrow> byte list" where
  "untokens [] = []"
| "untokens [t] = t"
| "untokens (t # ts) = t @ delimiter # untokens ts"

definition component_spec :: "byte list \<Rightarrow> byte list \<Rightarrow> bool" where
  "component_spec pat sc \<longleftrightarrow> (component_type_of pat \<noteq> STANDARD \<or> pat = sc)"

definition pattern_spec :: "byte list \<Rightarrow> byte list \<Rightarrow> bool" where
  "pattern_spec pat subj =
    (if \<not> contains_wildcard pat then pat = subj
     else length (tokens pat) \<le> length (tokens subj)
          \<and> list_all2 component_spec (tokens pat) (take (length (tokens pat)) (tokens subj)))"


section \<open>Lemmas\<close>

lemma tokens_not_Nil [simp]: "tokens s \<noteq> []"
  by (induction s) (auto split: list.splits)

lemma tokens_no_delimiter: "delimiter \<notin> set s \<Longrightarrow> tokens s = [s]"
  by (induction s) auto

lemma tokens_append_delimiter: "tokens (a @ delimiter # b) = tokens a @ tokens b"
  by (induction a) (auto split: list.splits)

lemma untokens_Cons: "ts \<noteq> [] \<Longrightarrow> untokens (t # ts) = t @ delimiter # untokens ts"
  by (cases ts) auto

lemma untokens_cons_char: "untokens ((c # t) # ts) = c # untokens (t # ts)"
  by (cases ts) auto

lemma untokens_tokens: "untokens (tokens s) = s"
  by (induction s) (auto simp: untokens_Cons untokens_cons_char split: list.splits)

lemma tokens_untokens:
  assumes "ts \<noteq> []" "\<forall>t \<in> set ts. delimiter \<notin> set t"
  shows "tokens (untokens ts) = ts"
  using assms
proof (induction ts rule: untokens.induct)
  case (3 t u ts)
  then show ?case by (simp add: tokens_append_delimiter tokens_no_delimiter)
qed (auto simp: tokens_no_delimiter)

lemma tokens_inj: "tokens s = tokens t \<longleftrightarrow> s = t"
  by (metis untokens_tokens)

lemma drop_split_at:
  assumes "start \<le> i" "i < length s"
  shows "drop start s = take (i - start) (drop start s) @ s ! i # drop (i + 1) s"
proof -
  have "drop start s = take (i - start) (drop start s) @ drop (i - start) (drop start s)"
    by (rule append_take_drop_id [symmetric])
  also have "drop (i - start) (drop start s) = s ! i # drop (i + 1) s"
    using assms by (simp add: Cons_nth_drop_Suc)
  finally show ?thesis .
qed

lemma hash_elements_loop_tokens:
  assumes "start \<le> i" "i \<le> length s" "delimiter \<notin> set (take (i - start) (drop start s))"
  shows "hash_elements_loop H s i start out = out @ map H (tokens (drop start s))"
  using assms
proof (induction H s i start out rule: hash_elements_loop.induct)
  case (1 H s i start out)
  show ?case
  proof (cases "i < length s")
    case True
    note at = drop_split_at[OF 1(3) True]
    show ?thesis
    proof (cases "s ! i = delimiter")
      case d: True
      have "tokens (drop start s) = take (i - start) (drop start s) # tokens (drop (i + 1) s)"
        by (subst at) (simp only: d tokens_append_delimiter tokens_no_delimiter[OF 1(5)] append_Cons append_Nil)
      then show ?thesis
        using True d 1(1)[OF True d] by (subst hash_elements_loop.simps) simp
    next
      case d: False
      have "take (i + 1 - start) (drop start s) = take (i - start) (drop start s) @ [s ! i]"
        using 1(3) True by (simp add: Suc_diff_le take_Suc_conv_app_nth)
      then have "delimiter \<notin> set (take (i + 1 - start) (drop start s))"
        using d 1(5) by simp
      then show ?thesis
        using True d 1(2)[OF True d] 1(3) by (subst hash_elements_loop.simps) simp
    qed
  next
    case False
    then have "i = length s" using 1(4) by simp
    then show ?thesis using 1(5) by (subst hash_elements_loop.simps) (simp add: tokens_no_delimiter)
  qed
qed

lemma hash_elements_tokens: "hash_elements H s = map H (tokens s)"
  unfolding hash_elements_def by (subst hash_elements_loop_tokens) auto

lemma find_first_of_before:
  "find_first_of s d start = Some e \<Longrightarrow> d \<notin> set (take (e - start) (drop start s))"
proof (induction s d start arbitrary: e rule: find_first_of.induct)
  case (2 c cs d start)
  show ?case
  proof (cases "start = 0 \<and> c = d")
    case False
    with 2 obtain e' where e': "e = Suc e'" "find_first_of cs d (start - 1) = Some e'"
      by (auto split: if_splits)
    from 2(1)[OF False e'(2)] False show ?thesis
      using e' by (cases start) auto
  qed (use 2 in auto)
qed simp

lemma find_first_of_None:
  "find_first_of s d start = None \<Longrightarrow> d \<notin> set (drop start s)"
proof (induction s d start rule: find_first_of.induct)
  case (2 c cs d start)
  then show ?case by (cases start) (auto split: if_splits)
qed simp

lemma split_loop_tokens:
  "split_loop s start out = out @ tokens (drop start s)"
proof (induction s start out rule: split_loop.induct)
  case (1 s start out)
  show ?case
  proof (cases "find_first_of s delimiter start")
    case None
    then show ?thesis
      by (subst split_loop.simps) (simp add: tokens_no_delimiter find_first_of_None)
  next
    case (Some e)
    note e = find_first_of_Some[OF Some]
    have "tokens (drop start s) = take (e - start) (drop start s) # tokens (drop (e + 1) s)"
      using e drop_split_at[of start e s] tokens_no_delimiter[OF find_first_of_before[OF Some]]
      by (metis append_Cons append_Nil tokens_append_delimiter)
    then show ?thesis using 1[OF Some] Some by (subst split_loop.simps) simp
  qed
qed

lemma split_tokens: "split s = tokens s"
  by (simp add: split_def split_loop_tokens)

lemma string_hash_z_c_string: "string_hash_z r s = foldl hash_step r (c_string s)"
  by (induction r s rule: string_hash_z.induct) (auto simp: c_string_def)

lemma string_hash_n_take: "string_hash_n r s n = foldl hash_step r (take n s)"
  by (induction r s n rule: string_hash_n.induct) auto

lemma foldl_hash_step: "foldl hash_step r s = r * 31 ^ length s + string_hash s"
proof (induction s arbitrary: r)
  case (Cons c cs)
  have "foldl hash_step r (c # cs) = hash_step r c * 31 ^ length cs + string_hash cs"
    using Cons by simp
  moreover have "string_hash (c # cs) = scast c * 31 ^ length cs + string_hash cs"
    using Cons[of "scast c"] by (simp add: string_hash_def hash_step_def[of 0])
  ultimately show ?case by (simp add: hash_step_def[of r c] algebra_simps)
qed (simp add: string_hash_def)

lemma string_hash_append: "string_hash (s @ t) = string_hash s * 31 ^ length t + string_hash t"
  using foldl_hash_step[of "string_hash s" t] by (simp add: string_hash_def)

lemma all_components_match_iff:
  "all_components_match cs subj index \<longleftrightarrow>
    (\<forall>i < length cs. ctype (cs ! i) = STANDARD \<longrightarrow> component_hash (cs ! i) = subj ! (index + i))"
proof (induction cs subj index rule: all_components_match.induct)
  case (2 c cs subj index)
  have "(\<forall>i < length (c # cs). ctype ((c # cs) ! i) = STANDARD \<longrightarrow>
            component_hash ((c # cs) ! i) = subj ! (index + i))
        \<longleftrightarrow> (ctype c = STANDARD \<longrightarrow> component_hash c = subj ! index)
          \<and> (\<forall>i < length cs. ctype (cs ! i) = STANDARD \<longrightarrow>
               component_hash (cs ! i) = subj ! (index + 1 + i))"
    by (auto simp: less_Suc_eq_0_disj)
  with 2 show ?case by (cases "ctype c") auto
qed simp

lemma matches_wildcard_iff:
  assumes "contains_wildcard (c_string pat)"
  shows "matches (subscription_new H pat) (subject_new H s) \<longleftrightarrow>
    (let ps = tokens (c_string pat); ss = tokens (c_string s)
     in length ps \<le> length ss \<and>
        (\<forall>i < length ps. component_type_of (ps ! i) = STANDARD \<longrightarrow> H (ps ! i) = H (ss ! i)))"
  using assms
  by (auto simp: matches_def subscription_new_def subject_new_def Let_def split_tokens
      hash_elements_tokens all_components_match_iff)

lemma matches_plain_iff:
  assumes "\<not> contains_wildcard (c_string pat)"
  shows "matches (subscription_new H pat) (subject_new H s) \<longleftrightarrow> H (c_string pat) = H (c_string s)"
  using assms by (simp add: matches_def subscription_new_def subject_new_def Let_def)

lemma pattern_spec_wildcard:
  assumes "contains_wildcard pat"
  shows "pattern_spec pat subj \<longleftrightarrow>
    length (tokens pat) \<le> length (tokens subj) \<and>
    (\<forall>i < length (tokens pat). component_spec (tokens pat ! i) (tokens subj ! i))"
  using assms by (auto simp: pattern_spec_def list_all2_conv_all_nth)


section \<open>Properties\<close>

text \<open>
  C10 The matcher decides, by hashes, what \<open>pattern_spec\<close> says of the strings, for every hash
  that does not collide on the strings and components involved: a pattern without wildcard
  characters matches exactly itself; any other one matches the subjects that have at least as
  many components and agree with it on every component that does not start with a wildcard.
\<close>

theorem subscription_matches_spec:
  assumes "inj_on H ({c_string pat, c_string s} \<union> set (tokens (c_string pat)) \<union> set (tokens (c_string s)))"
  shows "matches (subscription_new H pat) (subject_new H s) \<longleftrightarrow> pattern_spec (c_string pat) (c_string s)"
proof (cases "contains_wildcard (c_string pat)")
  case True
  have eq: "H (tokens (c_string pat) ! i) = H (tokens (c_string s) ! i) \<longleftrightarrow>
      tokens (c_string pat) ! i = tokens (c_string s) ! i"
    if "i < length (tokens (c_string pat))" "length (tokens (c_string pat)) \<le> length (tokens (c_string s))" for i
    using that by (intro inj_on_eq_iff[OF assms]) auto
  show ?thesis
    unfolding matches_wildcard_iff[OF True] pattern_spec_wildcard[OF True] Let_def component_spec_def
    using eq by blast
next
  case False
  then show ?thesis
    using inj_on_eq_iff[OF assms, of "c_string pat" "c_string s"]
    by (simp add: matches_plain_iff pattern_spec_def)
qed

theorem subscription_matches_spec_witness:
  "matches (subscription_new string_hash (str_bytes ''A.*.C'')) (subject_new string_hash (str_bytes ''A.B.C''))
   \<and> \<not> matches (subscription_new string_hash (str_bytes ''A.*.C'')) (subject_new string_hash (str_bytes ''A.B.D''))"
proof -
  have "matches (subscription_new string_hash (str_bytes ''A.*.C'')) (subject_new string_hash (str_bytes ''A.B.C''))
      \<longleftrightarrow> pattern_spec (c_string (str_bytes ''A.*.C'')) (c_string (str_bytes ''A.B.C''))"
    by (rule subscription_matches_spec) code_simp
  moreover have "matches (subscription_new string_hash (str_bytes ''A.*.C'')) (subject_new string_hash (str_bytes ''A.B.D''))
      \<longleftrightarrow> pattern_spec (c_string (str_bytes ''A.*.C'')) (c_string (str_bytes ''A.B.D''))"
    by (rule subscription_matches_spec) code_simp
  moreover have "pattern_spec (c_string (str_bytes ''A.*.C'')) (c_string (str_bytes ''A.B.C''))" by code_simp
  moreover have "\<not> pattern_spec (c_string (str_bytes ''A.*.C'')) (c_string (str_bytes ''A.B.D''))" by code_simp
  ultimately show ?thesis by simp
qed

text \<open>
  Whatever the hash, a subscription with a wildcard is a prefix pattern: when it matches a
  subject it matches every subject that extends it by further components, so that a final
  \<^verbatim>\<open>*\<close> means the same as a final \<^verbatim>\<open>>\<close>.
\<close>

theorem wildcard_matches_extension:
  assumes "contains_wildcard (c_string pat)" "nul_free s"
    and "matches (subscription_new H pat) (subject_new H s)"
  shows "matches (subscription_new H pat) (subject_new H (s @ delimiter # t))"
proof -
  have c: "c_string (s @ delimiter # t) = s @ delimiter # c_string t"
    using assms(2) by (induction s) (auto simp: c_string_def)
  show ?thesis
    using assms(3) assms(2) unfolding matches_wildcard_iff[OF assms(1)] Let_def c tokens_append_delimiter
    by (auto simp: c_string_id nth_append)
qed

theorem wildcard_matches_extension_witness:
  "matches (subscription_new string_hash (str_bytes ''A.*'')) (subject_new string_hash (str_bytes ''A.B.C''))"
proof -
  have "matches (subscription_new string_hash (str_bytes ''A.*''))
      (subject_new string_hash (str_bytes ''A.B'' @ delimiter # str_bytes ''C''))"
    by (rule wildcard_matches_extension) code_simp+
  then show ?thesis by (simp add: str_bytes_def)
qed

text \<open>
  Both splitting loops cut a string at its dots: \<^verbatim>\<open>subject::hash_elements\<close> hashes the
  components \<^verbatim>\<open>subscription::split\<close> returns, in order, and joining them with dots gives the
  string back.
\<close>

theorem hash_elements_split:
  "hash_elements H s = map H (split s) \<and> untokens (split s) = s
   \<and> (\<forall>t. t \<in> set (split s) \<longrightarrow> delimiter \<notin> set t)"
proof -
  have "\<forall>t. t \<in> set (tokens s) \<longrightarrow> delimiter \<notin> set t"
    by (induction s) (auto split: list.splits)
  then show ?thesis by (simp add: hash_elements_tokens split_tokens untokens_tokens)
qed

theorem hash_elements_split_witness:
  "hash_elements string_hash (str_bytes ''A..B'') =
    [string_hash (str_bytes ''A''), string_hash [], string_hash (str_bytes ''B'')]"
proof -
  have "split (str_bytes ''A..B'') = [str_bytes ''A'', [], str_bytes ''B'']" by code_simp
  then show ?thesis using hash_elements_split[of string_hash "str_bytes ''A..B''"] by simp
qed

text \<open>
  Assigning to a subscription that already holds components leaves them in place: after
  \<^verbatim>\<open>a = b\<close> with \<^verbatim>\<open>a\<close> built from \<^verbatim>\<open>A.*\<close> and \<^verbatim>\<open>b\<close> from \<^verbatim>\<open>B.*\<close>, the two compare equal but
  \<^verbatim>\<open>a\<close> rejects a subject that \<^verbatim>\<open>b\<close> matches.
\<close>

theorem subscription_assign_keeps_components:
  "let a = subscription_new string_hash (str_bytes ''A.*'');
       b = subscription_new string_hash (str_bytes ''B.*'');
       a' = subscription_assign a b;
       s = subject_new string_hash (str_bytes ''B.X'')
   in subscription_equal a' b \<and> matches b s \<and> \<not> matches a' s"
  by code_simp

text \<open>
  The hash decides equality of subjects and exact subscriptions, and it collides: the
  subjects \<^verbatim>\<open>Aa\<close> and \<^verbatim>\<open>BB\<close> are equal to the library, in any context around them.
\<close>

theorem string_hash_collision:
  "string_hash (p @ str_bytes ''Aa'' @ q) = string_hash (p @ str_bytes ''BB'' @ q)"
proof -
  have "string_hash (str_bytes ''Aa'') = string_hash (str_bytes ''BB'')" by code_simp
  moreover have "length (str_bytes ''Aa'') = length (str_bytes ''BB'')" by (simp add: str_bytes_def)
  ultimately show ?thesis by (simp only: string_hash_append length_append)
qed

end
