(* ===== verification/Ring_Buffer.thy ===== *)
theory Ring_Buffer
  imports FP_Prelude
begin

text \<open>
  The bounded queues of \<^verbatim>\<open>src/fastpath/utils\<close>: the single-producer single-consumer ring
  (\<^verbatim>\<open>tfringbuffer.h\<close>) and the ring with per-cell sequence numbers
  (\<^verbatim>\<open>tfmultiringbuffer.h\<close>). The locale \<open>bounded_fifo\<close> is the contract their clients rely
  on: a FIFO of bounded capacity. Both rings are interpretations of it. A third section
  models the two threads of the first ring as an interleaving of their loads and stores and
  shows that no element is lost, duplicated or read before it is written.
\<close>

section \<open>The contract of a bounded queue\<close>

datatype 'a queue_op = Push 'a | Pop

locale bounded_fifo =
  fixes inv :: "'q \<Rightarrow> bool"
    and abs :: "'q \<Rightarrow> 'a list"
    and cap :: nat
    and push :: "'a \<Rightarrow> 'q \<Rightarrow> bool \<times> 'q"
    and pop :: "'q \<Rightarrow> 'a option \<times> 'q"
  assumes push_room: "inv q \<Longrightarrow> length (abs q) < cap \<Longrightarrow>
      fst (push x q) \<and> inv (snd (push x q)) \<and> abs (snd (push x q)) = abs q @ [x]"
    and push_full: "inv q \<Longrightarrow> cap \<le> length (abs q) \<Longrightarrow> push x q = (False, q)"
    and pop_empty: "inv q \<Longrightarrow> abs q = [] \<Longrightarrow> pop q = (None, q)"
    and pop_some: "inv q \<Longrightarrow> abs q = x # xs \<Longrightarrow>
      fst (pop q) = Some x \<and> inv (snd (pop q)) \<and> abs (snd (pop q)) = xs"
    and within_cap: "inv q \<Longrightarrow> length (abs q) \<le> cap"
begin

text \<open>
  A run of operations, with the elements that were accepted and those that were taken.
\<close>

fun run :: "'a queue_op list \<Rightarrow> 'q \<Rightarrow> 'a list \<times> 'a list \<times> 'q" where
  "run [] q = ([], [], q)"
| "run (Push x # ops) q =
    (let (ok, q') = push x q; (ins, outs, r) = run ops q'
     in (if ok then x # ins else ins, outs, r))"
| "run (Pop # ops) q =
    (let (v, q') = pop q; (ins, outs, r) = run ops q'
     in (ins, case v of None \<Rightarrow> outs | Some x \<Rightarrow> x # outs, r))"

lemma push_cases:
  assumes "inv q"
  obtains q' where "push x q = (True, q')" "length (abs q) < cap" "inv q'" "abs q' = abs q @ [x]"
    | "push x q = (False, q)" "length (abs q) = cap"
proof (cases "length (abs q) < cap")
  case True
  then show ?thesis using push_room[OF assms True, of x] that(1) by (cases "push x q") auto
next
  case False
  then show ?thesis using push_full[OF assms, of x] within_cap[OF assms] that(2) by auto
qed

lemma pop_cases:
  assumes "inv q"
  obtains q' x where "pop q = (Some x, q')" "abs q = x # abs q'" "inv q'"
    | "pop q = (None, q)" "abs q = []"
proof (cases "abs q")
  case Nil
  then show ?thesis using pop_empty[OF assms] that(2) by auto
next
  case (Cons x xs)
  then show ?thesis using pop_some[OF assms Cons] that(1) by (cases "pop q") auto
qed

lemma run_fifo:
  assumes "inv q" "run ops q = (ins, outs, r)"
  shows "inv r \<and> abs q @ ins = outs @ abs r \<and> length (abs r) \<le> cap"
  using assms
proof (induction ops q arbitrary: ins outs r rule: run.induct)
  case (1 q)
  then show ?case using within_cap by auto
next
  case (2 x ops q)
  obtain ins' outs' r' where rec: "run ops (snd (push x q)) = (ins', outs', r')"
    by (cases "run ops (snd (push x q))")
  have res: "ins = (if fst (push x q) then x # ins' else ins')" "outs = outs'" "r = r'"
    using 2(3) by (auto simp: split_beta Let_def rec)
  show ?case
  proof (rule push_cases[OF 2(2), of x])
    fix q' assume p: "push x q = (True, q')" "inv q'" "abs q' = abs q @ [x]"
    then show ?thesis using 2(1)[of "(True, q')" True q' ins' outs' r'] rec res by simp
  next
    assume p: "push x q = (False, q)"
    then show ?thesis using 2(1)[of "(False, q)" False q ins' outs' r'] 2(2) rec res by simp
  qed
next
  case (3 ops q)
  obtain ins' outs' r' where rec: "run ops (snd (pop q)) = (ins', outs', r')"
    by (cases "run ops (snd (pop q))")
  have res: "outs = (case fst (pop q) of None \<Rightarrow> outs' | Some x \<Rightarrow> x # outs')" "ins = ins'" "r = r'"
    using 3(3) by (auto simp: split_beta Let_def rec split: option.splits)
  show ?case
  proof (rule pop_cases[OF 3(2)])
    fix q' x assume p: "pop q = (Some x, q')" "abs q = x # abs q'" "inv q'"
    then show ?thesis using 3(1)[of "(Some x, q')" "Some x" q' ins' outs' r'] rec res by simp
  next
    assume p: "pop q = (None, q)"
    then show ?thesis using 3(1)[of "(None, q)" None q ins' outs' r'] 3(2) rec res by simp
  qed
qed

end

section \<open>The single-producer single-consumer ring\<close>

text \<open>
  \<^verbatim>\<open>m_buffer\<close> is raw storage for \<^verbatim>\<open>SIZE\<close> objects: a slot is \<open>None\<close> while no object lives
  in it. The size argument \<open>n\<close> is the template parameter \<^verbatim>\<open>SIZE\<close>. \<open>rb_push\<close> is the overload that
  moves, the one the queues of the library call.
\<close>

record 'a ringbuffer =
  rb_buffer :: "'a option list"
  rb_head :: nat
  rb_tail :: nat

definition rb_next :: "nat \<Rightarrow> nat \<Rightarrow> nat" where
  "rb_next n current = (current + 1) mod n"

definition rb_new :: "nat \<Rightarrow> 'a ringbuffer" where
  "rb_new n = \<lparr>rb_buffer = replicate n None, rb_head = 0, rb_tail = 0\<rparr>"

definition rb_push :: "nat \<Rightarrow> 'a \<Rightarrow> 'a ringbuffer \<Rightarrow> bool \<times> 'a ringbuffer" where
  "rb_push n x q =
    (let head = rb_head q; nextHead = rb_next n head
     in if nextHead = rb_tail q then (False, q)
        else (True, q\<lparr>rb_buffer := (rb_buffer q)[head := Some x], rb_head := nextHead\<rparr>))"

text \<open>
  The overload that copies assigns to the slot, \<^verbatim>\<open>m_buffer[head] = object\<close>, where the other one
  constructs: a fault when no object lives there, unless \<^verbatim>\<open>T\<close> is \<open>trivial\<close>, a type whose assignment
  needs no object on its left.
\<close>

definition rb_push_copy :: "bool \<Rightarrow> nat \<Rightarrow> 'a \<Rightarrow> 'a ringbuffer \<Rightarrow> (bool \<times> 'a ringbuffer) outcome" where
  "rb_push_copy trivial n x q =
    (let head = rb_head q; nextHead = rb_next n head
     in if nextHead = rb_tail q then Inr (False, q)
        else if \<not> trivial \<and> rb_buffer q ! head = None then Inl UseAfterFree
        else Inr (True, q\<lparr>rb_buffer := (rb_buffer q)[head := Some x], rb_head := nextHead\<rparr>))"

definition rb_pop :: "nat \<Rightarrow> 'a ringbuffer \<Rightarrow> 'a option \<times> 'a ringbuffer" where
  "rb_pop n q =
    (let tail = rb_tail q
     in if tail = rb_head q then (None, q)
        else (rb_buffer q ! tail,
              q\<lparr>rb_buffer := (rb_buffer q)[tail := None], rb_tail := rb_next n tail\<rparr>))"

definition rb_size :: "nat \<Rightarrow> 'a ringbuffer \<Rightarrow> nat" where
  "rb_size n q = (if rb_head q \<ge> rb_tail q then rb_head q - rb_tail q
                  else rb_head q + n - rb_tail q)"

definition rb_inv :: "nat \<Rightarrow> 'a ringbuffer \<Rightarrow> bool" where
  "rb_inv n q \<longleftrightarrow> 0 < n \<and> length (rb_buffer q) = n \<and> rb_head q < n \<and> rb_tail q < n
     \<and> (\<forall>i < rb_size n q. rb_buffer q ! ((rb_tail q + i) mod n) \<noteq> None)"

definition rb_abs :: "nat \<Rightarrow> 'a ringbuffer \<Rightarrow> 'a list" where
  "rb_abs n q = map (\<lambda>i. the (rb_buffer q ! ((rb_tail q + i) mod n))) [0..<rb_size n q]"

lemma mod_offset_le:
  fixes a i j n :: nat
  assumes "i \<le> j" "(a + i) mod n = (a + j) mod n" "j < n"
  shows "i = j"
proof -
  have "n dvd (a + j) - (a + i)" using assms(1,2) by (metis mod_eq_dvd_iff_nat add_le_cancel_left)
  then have "n dvd j - i" by simp
  then show ?thesis using assms by (auto dest: dvd_imp_le)
qed

lemma mod_offset_inj:
  fixes a i j n :: nat
  assumes "(a + i) mod n = (a + j) mod n" "i < n" "j < n"
  shows "i = j"
  using mod_offset_le[of i j a n] mod_offset_le[of j i a n] assms by (cases "i \<le> j") auto

lemma rb_size_less: "rb_head q < n \<Longrightarrow> rb_tail q < n \<Longrightarrow> rb_size n q < n"
  by (auto simp: rb_size_def)

lemma rb_head_eq:
  assumes "rb_head q < n" "rb_tail q < n"
  shows "(rb_tail q + rb_size n q) mod n = rb_head q"
  using assms by (auto simp: rb_size_def)

lemma rb_next_lt: "0 < n \<Longrightarrow> rb_next n c < n"
  by (simp add: rb_next_def)

lemma rb_size_unique:
  assumes "rb_head q < n" "rb_tail q < n" "(rb_tail q + k) mod n = rb_head q" "k < n"
  shows "rb_size n q = k"
  using mod_offset_inj[of "rb_tail q" "rb_size n q" n k] rb_head_eq[OF assms(1,2)]
    rb_size_less[OF assms(1,2)] assms by simp

lemma rb_full_iff:
  assumes "rb_head q < n" "rb_tail q < n"
  shows "rb_next n (rb_head q) = rb_tail q \<longleftrightarrow> rb_size n q = n - 1"
proof -
  have next_eq: "rb_next n (rb_head q) = (rb_tail q + (rb_size n q + 1)) mod n"
    by (subst rb_head_eq[OF assms, symmetric]) (simp add: rb_next_def mod_simps)
  show ?thesis
  proof
    assume "rb_size n q = n - 1"
    then show "rb_next n (rb_head q) = rb_tail q" using next_eq assms by simp
  next
    assume "rb_next n (rb_head q) = rb_tail q"
    then have "(rb_tail q + (rb_size n q + 1)) mod n = (rb_tail q + 0) mod n"
      using next_eq assms by simp
    then show "rb_size n q = n - 1"
      using mod_offset_inj[of "rb_tail q" "rb_size n q + 1" n 0] rb_size_less[OF assms] by fastforce
  qed
qed

lemma rb_empty_iff:
  assumes "rb_head q < n" "rb_tail q < n"
  shows "rb_tail q = rb_head q \<longleftrightarrow> rb_size n q = 0"
  using assms by (auto simp: rb_size_def split: if_splits)

lemma rb_push_room:
  assumes inv: "rb_inv n q" and room: "rb_size n q < n - 1"
    and q'_def: "q' = snd (rb_push n x q)"
  shows "fst (rb_push n x q) \<and> rb_inv n q' \<and> rb_abs n q' = rb_abs n q @ [x]"
proof -
  have b: "rb_head q < n" "rb_tail q < n" "length (rb_buffer q) = n" "0 < n"
    using inv by (auto simp: rb_inv_def)
  have ne: "rb_next n (rb_head q) \<noteq> rb_tail q" using rb_full_iff[OF b(1,2)] room by simp
  then have q': "q' = q\<lparr>rb_buffer := (rb_buffer q)[rb_head q := Some x], rb_head := rb_next n (rb_head q)\<rparr>"
    by (simp add: q'_def rb_push_def Let_def)
  have hd: "rb_head q = (rb_tail q + rb_size n q) mod n" using rb_head_eq[OF b(1,2)] by simp
  have "(rb_tail q + (rb_size n q + 1)) mod n = rb_next n (rb_head q)"
    by (subst rb_head_eq[OF b(1,2), symmetric]) (simp add: rb_next_def mod_simps)
  then have sz: "rb_size n q' = rb_size n q + 1"
    using rb_size_unique[of q' n "rb_size n q + 1"] b room q' rb_next_lt[of n] by simp
  have old: "rb_buffer q' ! ((rb_tail q + i) mod n) = rb_buffer q ! ((rb_tail q + i) mod n)"
    if "i < rb_size n q" for i
  proof -
    have "(rb_tail q + i) mod n \<noteq> rb_head q"
      using mod_offset_inj[of "rb_tail q" i n "rb_size n q"] hd that room by force
    then show ?thesis by (simp add: q')
  qed
  have new: "rb_buffer q' ! ((rb_tail q + rb_size n q) mod n) = Some x"
    using b hd[symmetric] by (simp add: q')
  have t: "rb_tail q' = rb_tail q" by (simp add: q')
  have "rb_inv n q'"
    unfolding rb_inv_def t sz using inv old new b rb_next_lt[of n "rb_head q"]
    by (auto simp: rb_inv_def less_Suc_eq q')
  moreover have "rb_abs n q' = rb_abs n q @ [x]"
    unfolding rb_abs_def t sz using old new by simp
  ultimately show ?thesis using ne by (simp add: rb_push_def Let_def)
qed

lemma rb_pop_some:
  assumes inv: "rb_inv n q" and some: "0 < rb_size n q"
    and q'_def: "q' = snd (rb_pop n q)"
  shows "\<exists>x. fst (rb_pop n q) = Some x \<and> rb_inv n q' \<and> rb_abs n q = x # rb_abs n q'"
proof -
  have b: "rb_head q < n" "rb_tail q < n" "length (rb_buffer q) = n" "0 < n"
    using inv by (auto simp: rb_inv_def)
  have ne: "rb_tail q \<noteq> rb_head q" using rb_empty_iff[OF b(1,2)] some by simp
  then have q': "q' = q\<lparr>rb_buffer := (rb_buffer q)[rb_tail q := None], rb_tail := rb_next n (rb_tail q)\<rparr>"
    by (simp add: q'_def rb_pop_def Let_def)
  have shift: "(rb_tail q' + i) mod n = (rb_tail q + Suc i) mod n" for i
    by (simp add: q' rb_next_def mod_simps)
  have "(rb_tail q' + (rb_size n q - 1)) mod n = rb_head q'"
    using shift[of "rb_size n q - 1"] some rb_head_eq[OF b(1,2)] by (simp add: q')
  then have sz: "rb_size n q = Suc (rb_size n q')"
    using rb_size_unique[of q' n "rb_size n q - 1"] b some rb_size_less[OF b(1,2)] q' rb_next_lt[of n]
    by simp
  have old: "rb_buffer q' ! ((rb_tail q' + i) mod n) = rb_buffer q ! ((rb_tail q + Suc i) mod n)"
    if "i < rb_size n q'" for i
  proof -
    have "(rb_tail q + Suc i) mod n \<noteq> (rb_tail q + 0) mod n"
      using mod_offset_inj[of "rb_tail q" "Suc i" n 0] that sz rb_size_less[OF b(1,2)] by fastforce
    then have "(rb_tail q + Suc i) mod n \<noteq> rb_tail q" using b by simp
    then show ?thesis unfolding shift by (simp add: q')
  qed
  obtain x where x: "rb_buffer q ! rb_tail q = Some x"
    using inv some b by (auto simp: rb_inv_def)
  have "rb_inv n q'"
    unfolding rb_inv_def using inv old b rb_next_lt[of n "rb_tail q"] sz
    by (auto simp: rb_inv_def q' Suc_less_eq2)
  moreover have "rb_abs n q = x # rb_abs n q'"
    unfolding rb_abs_def sz upt_conv_Cons[OF zero_less_Suc] list.map
    using x b old by (simp add: map_Suc_upt[symmetric] del: upt_Suc)
  ultimately show ?thesis using ne x by (simp add: rb_pop_def Let_def)
qed

lemma length_rb_abs [simp]: "length (rb_abs n q) = rb_size n q"
  by (simp add: rb_abs_def)

interpretation rb: bounded_fifo "rb_inv n" "rb_abs n" "n - 1" "rb_push n" "rb_pop n" for n
proof (unfold_locales, goal_cases)
  case (1 q x)
  then show ?case using rb_push_room[OF 1(1) _ refl, of x] by simp
next
  case (2 q x)
  then have "rb_head q < n" "rb_tail q < n" by (auto simp: rb_inv_def)
  then show ?case using 2 rb_full_iff[of q n] rb_size_less[of q n]
    by (simp add: rb_push_def Let_def)
next
  case (3 q)
  then have "rb_size n q = 0" using length_rb_abs[of n q] by simp
  with 3 show ?case using rb_empty_iff[of q n] by (simp add: rb_pop_def Let_def rb_inv_def)
next
  case (4 q x xs)
  then have "0 < rb_size n q" using length_rb_abs[of n q] by simp
  then show ?case using rb_pop_some[OF 4(1) _ refl] 4(2) by auto
next
  case (5 q)
  then have "rb_size n q < n" by (intro rb_size_less) (auto simp: rb_inv_def)
  then show ?case by simp
qed

lemma rb_inv_new: "0 < n \<Longrightarrow> rb_inv n (rb_new n) \<and> rb_abs n (rb_new n) = []"
  by (simp add: rb_inv_def rb_new_def rb_abs_def rb_size_def)


section \<open>Two threads on the ring\<close>

text \<open>
  The producer runs \<^verbatim>\<open>push\<close> and the consumer \<^verbatim>\<open>pop\<close>, over and over, and their loads and
  stores interleave. The program counters name the point before each shared access: for the
  producer the load of \<^verbatim>\<open>m_tail\<close>, the construction of the object (the assignment to it in the
  overload that copies, where \<open>copies\<close> says whether the program calls it) and the store of
  \<^verbatim>\<open>m_head\<close>; for the consumer the load of \<^verbatim>\<open>m_head\<close>, the move out of the slot with the
  destructor call, and the store of \<^verbatim>\<open>m_tail\<close>. Each thread is the only writer of its own
  index, so that its relaxed load of it is no separate step; the acquire/release pairs make
  the remaining accesses interleave. \<open>pushed\<close> and \<open>popped\<close> record the calls that
  returned true, in order. A slot that is read while no object lives in it leads to
  \<open>CBroken\<close>, one that is assigned to, for a type that is not \<open>trivial\<close>, to \<open>PBroken\<close>.
\<close>

datatype 'a producer_pc = PIdle | PLoadTail bool nat 'a | PConstruct nat 'a | PAssign nat 'a | PStoreHead nat 'a | PBroken
datatype 'a consumer_pc = CIdle | CLoadHead nat | CMove nat | CStoreTail nat 'a | CBroken

record 'a spsc =
  ring :: "'a ringbuffer"
  ppc :: "'a producer_pc"
  cpc :: "'a consumer_pc"
  pushed :: "'a list"
  popped :: "'a list"

definition spsc_init :: "nat \<Rightarrow> 'a spsc" where
  "spsc_init n = \<lparr>ring = rb_new n, ppc = PIdle, cpc = CIdle, pushed = [], popped = []\<rparr>"

inductive spsc_step :: "bool \<Rightarrow> bool \<Rightarrow> nat \<Rightarrow> 'a spsc \<Rightarrow> 'a spsc \<Rightarrow> bool" for copies trivial n where
  push_call: "ppc s = PIdle \<Longrightarrow> (copy \<longrightarrow> copies) \<Longrightarrow>
    spsc_step copies trivial n s (s\<lparr>ppc := PLoadTail copy (rb_head (ring s)) x\<rparr>)"
| push_full: "ppc s = PLoadTail copy h x \<Longrightarrow> rb_next n h = rb_tail (ring s) \<Longrightarrow>
    spsc_step copies trivial n s (s\<lparr>ppc := PIdle\<rparr>)"
| push_room: "ppc s = PLoadTail copy h x \<Longrightarrow> rb_next n h \<noteq> rb_tail (ring s) \<Longrightarrow>
    spsc_step copies trivial n s (s\<lparr>ppc := if copy then PAssign h x else PConstruct h x\<rparr>)"
| push_construct: "ppc s = PConstruct h x \<Longrightarrow>
    spsc_step copies trivial n s (s\<lparr>ring := (ring s)\<lparr>rb_buffer := (rb_buffer (ring s))[h := Some x]\<rparr>,
                     ppc := PStoreHead h x\<rparr>)"
| push_assign: "ppc s = PAssign h x \<Longrightarrow> trivial \<or> rb_buffer (ring s) ! h \<noteq> None \<Longrightarrow>
    spsc_step copies trivial n s (s\<lparr>ring := (ring s)\<lparr>rb_buffer := (rb_buffer (ring s))[h := Some x]\<rparr>,
                     ppc := PStoreHead h x\<rparr>)"
| push_broken: "ppc s = PAssign h x \<Longrightarrow> \<not> trivial \<Longrightarrow> rb_buffer (ring s) ! h = None \<Longrightarrow>
    spsc_step copies trivial n s (s\<lparr>ppc := PBroken\<rparr>)"
| push_store: "ppc s = PStoreHead h x \<Longrightarrow>
    spsc_step copies trivial n s (s\<lparr>ring := (ring s)\<lparr>rb_head := rb_next n h\<rparr>, ppc := PIdle,
                     pushed := pushed s @ [x]\<rparr>)"
| pop_call: "cpc s = CIdle \<Longrightarrow> spsc_step copies trivial n s (s\<lparr>cpc := CLoadHead (rb_tail (ring s))\<rparr>)"
| pop_empty: "cpc s = CLoadHead t \<Longrightarrow> t = rb_head (ring s) \<Longrightarrow> spsc_step copies trivial n s (s\<lparr>cpc := CIdle\<rparr>)"
| pop_some: "cpc s = CLoadHead t \<Longrightarrow> t \<noteq> rb_head (ring s) \<Longrightarrow> spsc_step copies trivial n s (s\<lparr>cpc := CMove t\<rparr>)"
| pop_move: "cpc s = CMove t \<Longrightarrow> rb_buffer (ring s) ! t = Some x \<Longrightarrow>
    spsc_step copies trivial n s (s\<lparr>ring := (ring s)\<lparr>rb_buffer := (rb_buffer (ring s))[t := None]\<rparr>,
                     cpc := CStoreTail t x\<rparr>)"
| pop_broken: "cpc s = CMove t \<Longrightarrow> rb_buffer (ring s) ! t = None \<Longrightarrow>
    spsc_step copies trivial n s (s\<lparr>cpc := CBroken\<rparr>)"
| pop_store: "cpc s = CStoreTail t x \<Longrightarrow>
    spsc_step copies trivial n s (s\<lparr>ring := (ring s)\<lparr>rb_tail := rb_next n t\<rparr>, cpc := CIdle,
                     popped := popped s @ [x]\<rparr>)"

inductive spsc_reach :: "bool \<Rightarrow> bool \<Rightarrow> nat \<Rightarrow> 'a spsc \<Rightarrow> bool" for copies trivial n where
  spsc_reach_init: "spsc_reach copies trivial n (spsc_init n)"
| spsc_reach_step: "spsc_reach copies trivial n s \<Longrightarrow> spsc_step copies trivial n s t \<Longrightarrow> spsc_reach copies trivial n t"

text \<open>
  The invariant: the indices are the numbers of completed calls modulo the size, the calls
  in flight hold the current index of their thread, and the slots between the two indices
  hold the elements pushed and not yet popped.
\<close>

definition taking :: "'a spsc \<Rightarrow> nat" where
  "taking s = (case cpc s of CStoreTail _ _ \<Rightarrow> 1 | _ \<Rightarrow> 0)"

definition spsc_ring_inv :: "nat \<Rightarrow> 'a spsc \<Rightarrow> bool" where
  "spsc_ring_inv n s \<longleftrightarrow>
     length (rb_buffer (ring s)) = n
     \<and> rb_head (ring s) = length (pushed s) mod n \<and> rb_tail (ring s) = length (popped s) mod n
     \<and> length (popped s) + taking s \<le> length (pushed s) \<and> length (pushed s) < length (popped s) + n
     \<and> (\<forall>k. length (popped s) + taking s \<le> k \<longrightarrow> k < length (pushed s) \<longrightarrow>
          rb_buffer (ring s) ! (k mod n) = Some (pushed s ! k))
     \<and> popped s = take (length (popped s)) (pushed s)"

fun producer_inv :: "bool \<Rightarrow> bool \<Rightarrow> nat \<Rightarrow> 'a spsc \<Rightarrow> 'a producer_pc \<Rightarrow> bool" where
  "producer_inv copies trivial n s PIdle = True"
| "producer_inv copies trivial n s (PLoadTail copy h x) = (h = rb_head (ring s) \<and> (copy \<longrightarrow> copies))"
| "producer_inv copies trivial n s (PConstruct h x) =
     (h = rb_head (ring s) \<and> length (pushed s) + 1 < length (popped s) + n)"
| "producer_inv copies trivial n s (PAssign h x) =
     (copies \<and> h = rb_head (ring s) \<and> length (pushed s) + 1 < length (popped s) + n)"
| "producer_inv copies trivial n s PBroken = (copies \<and> \<not> trivial)"
| "producer_inv copies trivial n s (PStoreHead h x) =
     (h = rb_head (ring s) \<and> length (pushed s) + 1 < length (popped s) + n
      \<and> rb_buffer (ring s) ! h = Some x)"

fun consumer_inv :: "'a spsc \<Rightarrow> 'a consumer_pc \<Rightarrow> bool" where
  "consumer_inv s CIdle = True"
| "consumer_inv s (CLoadHead t) = (t = rb_tail (ring s))"
| "consumer_inv s (CMove t) = (t = rb_tail (ring s) \<and> length (popped s) < length (pushed s))"
| "consumer_inv s (CStoreTail t x) =
     (t = rb_tail (ring s) \<and> length (popped s) < length (pushed s) \<and> x = pushed s ! length (popped s))"
| "consumer_inv s CBroken = False"

definition spsc_inv :: "bool \<Rightarrow> bool \<Rightarrow> nat \<Rightarrow> 'a spsc \<Rightarrow> bool" where
  "spsc_inv copies trivial n s \<longleftrightarrow> spsc_ring_inv n s \<and> producer_inv copies trivial n s (ppc s) \<and> consumer_inv s (cpc s)"

lemma counters_full_iff:
  fixes a b n :: nat
  assumes "a \<le> b" "b < a + n"
  shows "Suc b mod n = a mod n \<longleftrightarrow> b + 1 = a + n"
proof
  assume "Suc b mod n = a mod n"
  then have "(a + 0) mod n = (a + (Suc b - a)) mod n" using assms by simp
  then have "Suc b - a \<ge> n" using mod_offset_le[of 0 "Suc b - a" a n] assms by fastforce
  then show "b + 1 = a + n" using assms by simp
qed (use assms in auto)

lemma counters_empty_iff:
  fixes a b n :: nat
  assumes "a \<le> b" "b < a + n"
  shows "a mod n = b mod n \<longleftrightarrow> a = b"
proof
  assume "a mod n = b mod n"
  moreover have "b - a < n" using assms by simp
  ultimately have "0 = b - a" using mod_offset_le[of 0 "b - a" a n] assms(1) by simp
  then show "a = b" using assms(1) by simp
qed simp

lemma spsc_init_inv: "0 < n \<Longrightarrow> spsc_inv copies trivial n (spsc_init n)"
  by (simp add: spsc_inv_def spsc_ring_inv_def spsc_init_def rb_new_def taking_def)


lemma consumer_inv_frame [simp]: "consumer_inv (s\<lparr>ppc := p\<rparr>) c = consumer_inv s c"
  by (cases c) auto

lemma producer_inv_frame [simp]: "producer_inv copies trivial n (s\<lparr>cpc := c\<rparr>) p = producer_inv copies trivial n s p"
  by (cases p) auto

lemma slot_of_other:
  fixes k c p n :: nat
  assumes "p \<le> k" "k < c" "c < p + n"
  shows "k mod n \<noteq> c mod n"
  using counters_empty_iff[of k c n] assms by simp

lemma slots_update_other:
  fixes a b n h :: nat
  assumes "\<forall>k. a \<le> k \<longrightarrow> k < b \<longrightarrow> xs ! (k mod n) = f k"
    and "\<And>k. a \<le> k \<Longrightarrow> k < b \<Longrightarrow> k mod n \<noteq> h"
  shows "\<forall>k. a \<le> k \<longrightarrow> k < b \<longrightarrow> xs[h := v] ! (k mod n) = f k"
  using assms by (metis nth_list_update_neq)

text \<open>The object is in the slot, by construction or by assignment.\<close>

lemma slot_filled_inv:
  assumes "spsc_inv copies trivial n s" "0 < n" "ppc s = PConstruct h x \<or> ppc s = PAssign h x"
  shows "spsc_inv copies trivial n (s\<lparr>ring := (ring s)\<lparr>rb_buffer := (rb_buffer (ring s))[h := Some x]\<rparr>, ppc := PStoreHead h x\<rparr>)"
    (is "spsc_inv _ _ n ?t")
proof -
  have r: "spsc_ring_inv n s" and p: "h = rb_head (ring s)" "length (pushed s) + 1 < length (popped s) + n"
    and c: "consumer_inv s (cpc s)"
    using assms by (auto simp: spsc_inv_def)
  have hd: "h = length (pushed s) mod n" using r p by (simp add: spsc_ring_inv_def)
  have other: "k mod n \<noteq> h" if "length (popped s) + taking s \<le> k" "k < length (pushed s)" for k
    using slot_of_other[of "length (popped s)" k "length (pushed s)" n] that p hd by simp
  have "spsc_ring_inv n ?t"
    using r slots_update_other[where xs = "rb_buffer (ring s)" and f = "\<lambda>k. Some (pushed s ! k)"
        and v = "Some x", OF _ other]
    unfolding spsc_ring_inv_def taking_def by simp
  moreover have "consumer_inv ?t (cpc ?t)"
    using c by (cases "cpc s") auto
  moreover have "producer_inv copies trivial n ?t (ppc ?t)"
    using p r \<open>0 < n\<close> by (simp add: spsc_ring_inv_def)
  ultimately show ?thesis by (auto simp: spsc_inv_def)
qed

lemma spsc_step_inv:
  assumes "spsc_step copies trivial n s t" "spsc_inv copies trivial n s" "0 < n"
  shows "spsc_inv copies trivial n t"
  using assms(1)
proof cases
  case (push_room copy h x)
  have "rb_next n h = Suc (length (pushed s)) mod n"
    using assms(2) push_room by (simp add: spsc_inv_def spsc_ring_inv_def rb_next_def mod_Suc_eq)
  then have "length (pushed s) + 1 \<noteq> length (popped s) + n"
    using push_room assms(2) counters_full_iff[of "length (popped s)" "length (pushed s)" n]
    by (auto simp: spsc_inv_def spsc_ring_inv_def)
  then show ?thesis
    using push_room assms(2) by (auto simp: spsc_inv_def spsc_ring_inv_def taking_def)
next
  case (push_construct h x)
  then show ?thesis using slot_filled_inv[of copies trivial n s h x] assms by simp
next
  case (push_assign h x)
  then show ?thesis using slot_filled_inv[of copies trivial n s h x] assms by simp
next
  case (push_store h x)
  have r: "spsc_ring_inv n s" and p: "h = rb_head (ring s)" "length (pushed s) + 1 < length (popped s) + n"
      "rb_buffer (ring s) ! h = Some x"
    and c: "consumer_inv s (cpc s)"
    using assms(2) push_store by (auto simp: spsc_inv_def)
  have "spsc_ring_inv n t"
    using r p push_store unfolding spsc_ring_inv_def taking_def
    by (auto simp: rb_next_def mod_Suc_eq nth_append less_Suc_eq)
  moreover have "consumer_inv t (cpc t)"
    using c push_store by (cases "cpc s") (auto simp: nth_append)
  ultimately show ?thesis using push_store by (simp add: spsc_inv_def)
next
  case (pop_some u)
  have "length (popped s) \<noteq> length (pushed s)"
    using pop_some assms(2) by (auto simp: spsc_inv_def spsc_ring_inv_def)
  then show ?thesis
    using pop_some assms(2) by (auto simp: spsc_inv_def spsc_ring_inv_def taking_def)
next
  case (pop_move u x)
  have r: "spsc_ring_inv n s" and c: "u = rb_tail (ring s)" "length (popped s) < length (pushed s)"
    and p: "producer_inv copies trivial n s (ppc s)" and tk: "taking s = 0" "taking t = 1"
    using assms(2) pop_move by (auto simp: spsc_inv_def taking_def)
  have u: "u = length (popped s) mod n" using r c by (simp add: spsc_ring_inv_def)
  have x: "x = pushed s ! length (popped s)"
    using r c pop_move tk u by (auto simp: spsc_ring_inv_def)
  have other: "k mod n \<noteq> u" if "Suc (length (popped s)) \<le> k" "k < length (pushed s)" for k
  proof -
    have "length (pushed s) < length (popped s) + n" using r by (simp add: spsc_ring_inv_def)
    then show ?thesis
      using slot_of_other[of "length (popped s)" "length (popped s)" k n] that u by auto
  qed
  have hd: "rb_head (ring s) \<noteq> u"
    using r c u counters_empty_iff[of "length (popped s)" "length (pushed s)" n]
    by (auto simp: spsc_ring_inv_def)
  have "\<forall>k. Suc (length (popped s)) \<le> k \<longrightarrow> k < length (pushed s) \<longrightarrow>
      (rb_buffer (ring s))[u := None] ! (k mod n) = Some (pushed s ! k)"
    by (rule slots_update_other) (use r tk other in \<open>auto simp: spsc_ring_inv_def\<close>)
  then have "spsc_ring_inv n t"
    using r c pop_move tk unfolding spsc_ring_inv_def by simp
  moreover have "producer_inv copies trivial n t (ppc t)"
    using p pop_move hd by (cases "ppc s") auto
  ultimately show ?thesis using c x pop_move by (simp add: spsc_inv_def)
next
  case (pop_broken u)
  then show ?thesis using assms(2) by (auto simp: spsc_inv_def spsc_ring_inv_def taking_def)
next
  case (pop_store u x)
  have r: "spsc_ring_inv n s" and c: "u = rb_tail (ring s)" "length (popped s) < length (pushed s)"
      "x = pushed s ! length (popped s)"
    and p: "producer_inv copies trivial n s (ppc s)" and tk: "taking s = 1" "taking t = 0"
    using assms(2) pop_store by (auto simp: spsc_inv_def taking_def)
  have "take (Suc (length (popped s))) (pushed s) = popped s @ [x]"
    using r c by (simp add: take_Suc_conv_app_nth spsc_ring_inv_def)
  then have "spsc_ring_inv n t"
    using r c pop_store tk unfolding spsc_ring_inv_def by (auto simp: rb_next_def mod_Suc_eq)
  moreover have "producer_inv copies trivial n t (ppc t)"
    using p pop_store by (cases "ppc s") auto
  ultimately show ?thesis using pop_store by (simp add: spsc_inv_def)
qed (use assms in \<open>auto simp: spsc_inv_def spsc_ring_inv_def taking_def\<close>)

lemma spsc_reach_inv: "spsc_reach copies trivial n s \<Longrightarrow> 0 < n \<Longrightarrow> spsc_inv copies trivial n s"
  by (induction rule: spsc_reach.induct) (auto intro: spsc_init_inv spsc_step_inv)


section \<open>Properties\<close>

text \<open>
  Called by one thread, the ring is a FIFO that holds at most \<^verbatim>\<open>SIZE - 1\<close> elements: after
  any sequence of calls on a new ring, the elements whose \<^verbatim>\<open>push\<close> returned true are, in
  order, those \<^verbatim>\<open>pop\<close> delivered followed by those still stored, and \<^verbatim>\<open>size()\<close> counts
  the latter.
\<close>

theorem ring_fifo:
  assumes "0 < n" "rb.run n ops (rb_new n) = (accepted, delivered, q)"
  shows "accepted = delivered @ rb_abs n q \<and> rb_size n q = length accepted - length delivered
    \<and> rb_size n q \<le> n - 1"
proof -
  have "rb_abs n (rb_new n) @ accepted = delivered @ rb_abs n q \<and> length (rb_abs n q) \<le> n - 1"
    using rb.run_fifo[OF _ assms(2)] rb_inv_new[OF assms(1)] by blast
  then have "accepted = delivered @ rb_abs n q \<and> rb_size n q \<le> n - 1"
    using rb_inv_new[OF assms(1)] by (metis append_Nil length_rb_abs)
  then show ?thesis by simp
qed

theorem ring_fifo_witness:
  "\<exists>q. rb.run 3 [Push 7, Push 8, Push 9, Pop] (rb_new 3) = ([7, 8], [7], q)
     \<and> [7, 8 :: nat] = [7] @ rb_abs 3 q \<and> rb_size 3 q = 1"
proof -
  let ?q = "\<lparr>rb_buffer = [None, Some 8, None], rb_head = 2, rb_tail = 1\<rparr>"
  have new: "rb_new 3 = \<lparr>rb_buffer = [None, None, None], rb_head = 0, rb_tail = 0\<rparr>"
    by (simp add: rb_new_def numeral_3_eq_3)
  have run: "rb.run 3 [Push 7, Push 8, Push 9, Pop] (rb_new 3) = ([7, 8], [7 :: nat], ?q)"
    unfolding new by (simp add: rb_push_def rb_pop_def rb_next_def)
  show ?thesis using run ring_fifo[OF _ run] by (intro exI[of _ ?q]) simp
qed

text \<open>
  C12 With the producer and the consumer interleaved in any way, the elements delivered are a prefix
  of the elements accepted, in order, at most \<^verbatim>\<open>SIZE - 1\<close> elements are in
  flight, \<^verbatim>\<open>pop\<close> never moves out of a slot that holds no object, and a
  \<^verbatim>\<open>push\<close> assigns to such a slot only in a program that calls the overload
  \<^verbatim>\<open>push(const T &)\<close> for a type that needs an object there. The queues of
  the library call the other overload.
\<close>

theorem spsc_safe:
  assumes "0 < n" "spsc_reach copies trivial n s"
  shows "(\<exists>rest. pushed s = popped s @ rest \<and> length rest \<le> n - 1) \<and> cpc s \<noteq> CBroken
    \<and> (ppc s = PBroken \<longrightarrow> copies \<and> \<not> trivial)"
proof -
  have inv: "spsc_inv copies trivial n s" using spsc_reach_inv assms by blast
  then have "popped s = take (length (popped s)) (pushed s)" "length (pushed s) < length (popped s) + n"
    by (auto simp: spsc_inv_def spsc_ring_inv_def)
  then have "pushed s = popped s @ drop (length (popped s)) (pushed s)
      \<and> length (drop (length (popped s)) (pushed s)) \<le> n - 1"
    using append_take_drop_id[of "length (popped s)" "pushed s"] by auto
  then show ?thesis using inv by (auto simp: spsc_inv_def)
qed

theorem spsc_safe_witness:
  "\<exists>s. spsc_reach False False 2 s \<and> pushed s = [True] \<and> popped s = [] \<and> cpc s = CMove 0
     \<and> (\<exists>rest. pushed s = popped s @ rest \<and> length rest \<le> 1) \<and> cpc s \<noteq> CBroken \<and> ppc s \<noteq> PBroken"
proof -
  define st where "st = (\<lambda>buf hd p c ins. \<lparr>ring = \<lparr>rb_buffer = buf, rb_head = hd, rb_tail = 0\<rparr>,
     ppc = p, cpc = c, pushed = ins, popped = []\<rparr> :: bool spsc)"
  let ?reach = "spsc_reach False False 2 :: bool spsc \<Rightarrow> bool"
  have s0: "?reach (st [None, None] 0 PIdle CIdle [])"
    using spsc_reach_init[of False False 2] by (simp add: spsc_init_def rb_new_def st_def numeral_2_eq_2)
  have s1: "?reach (st [None, None] 0 (PLoadTail False 0 True) CIdle [])"
    using spsc_reach_step[OF s0 push_call[where x = True and copy = False]] by (simp add: st_def)
  have s2: "?reach (st [None, None] 0 (PConstruct 0 True) CIdle [])"
    using spsc_reach_step[OF s1 push_room[where copy = False and x = True]] by (simp add: st_def rb_next_def)
  have s3: "?reach (st [Some True, None] 0 (PStoreHead 0 True) CIdle [])"
    using spsc_reach_step[OF s2 push_construct] by (simp add: st_def)
  have s4: "?reach (st [Some True, None] 1 PIdle CIdle [True])"
    using spsc_reach_step[OF s3 push_store] by (simp add: st_def rb_next_def)
  have s5: "?reach (st [Some True, None] 1 PIdle (CLoadHead 0) [True])"
    using spsc_reach_step[OF s4 pop_call] by (simp add: st_def)
  have s6: "?reach (st [Some True, None] 1 PIdle (CMove 0) [True])"
    using spsc_reach_step[OF s5 pop_some] by (simp add: st_def)
  show ?thesis using s6 spsc_safe[OF _ s6]
    by (intro exI[of _ "st [Some True, None] 1 PIdle (CMove 0) [True]"]) (simp add: st_def)
qed

text \<open>
  For a trivial type the two overloads do the same; for any other type the first copying push on
  a new ring assigns to an object that does not exist.
\<close>

theorem copying_push_faults:
  assumes "1 < n"
  shows "rb_push_copy True n x q = Inr (rb_push n x q) \<and> rb_push_copy False n x (rb_new n) = Inl UseAfterFree"
  using assms by (simp add: rb_push_copy_def rb_push_def rb_new_def rb_next_def Let_def)

theorem copying_push_faults_witness:
  "rb_push_copy True 2 True (rb_new 2) = Inr (rb_push 2 True (rb_new 2)) \<and> rb_push_copy False 2 True (rb_new 2) = Inl UseAfterFree"
  using copying_push_faults[of 2 True "rb_new 2"] by simp

end
