(* ===== verification/Multi_Ring.thy ===== *)
theory Multi_Ring
  imports Ring_Buffer
begin

text \<open>
  The ring with one sequence number per cell (\<^verbatim>\<open>src/fastpath/utils/tfmultiringbuffer.h\<close>),
  called by one thread at a time. Positions and sequence numbers are 64-bit words that wrap;
  the signed difference decides between room, full and retry. \<^verbatim>\<open>compare_exchange_weak\<close> may
  fail although the value is the expected one: the argument \<open>cas\<close> lists the outcomes of the
  successive attempts, and a loop whose list runs out has not finished (\<open>OutOfFuel\<close>). The
  theory shows that as soon as one attempt succeeds the ring is a FIFO of capacity
  \<^verbatim>\<open>SIZE\<close>, across the wrap-around of the positions.
\<close>

record 'a cell_t =
  m_sequence :: size_t
  m_data :: 'a

record 'a multiringbuffer =
  mr_buffer :: "'a cell_t list"
  mr_head :: size_t
  mr_tail :: size_t

text \<open>The template parameter \<^verbatim>\<open>SIZE\<close> is \<open>2 ^ k\<close> (a \<^verbatim>\<open>static_assert\<close> of the class).\<close>

definition buffer_mask :: "nat \<Rightarrow> size_t" where
  "buffer_mask k = 2 ^ k - 1"

definition mr_new :: "nat \<Rightarrow> 'a \<Rightarrow> 'a multiringbuffer" where
  "mr_new k raw =
    \<lparr>mr_buffer = map (\<lambda>i. \<lparr>m_sequence = word_of_nat i, m_data = raw\<rparr>) [0..<2 ^ k],
     mr_head = 0, mr_tail = 0\<rparr>"

definition cell_index :: "nat \<Rightarrow> size_t \<Rightarrow> nat" where
  "cell_index k pos = unat (pos AND buffer_mask k)"

fun mr_push_loop :: "nat \<Rightarrow> bool list \<Rightarrow> size_t \<Rightarrow> 'a \<Rightarrow> 'a multiringbuffer \<Rightarrow>
    (bool \<times> 'a multiringbuffer) outcome" where
  "mr_push_loop k [] pos x q = Inl OutOfFuel"
| "mr_push_loop k (ok # cas) pos x q =
    (let i = cell_index k pos;
         seq = m_sequence (mr_buffer q ! i);
         dif = sint (seq - pos)
     in if dif = 0 then
          (if mr_head q = pos \<and> ok
           then Inr (True, q\<lparr>mr_head := pos + 1,
                             mr_buffer := (mr_buffer q)[i := \<lparr>m_sequence = pos + 1, m_data = x\<rparr>]\<rparr>)
           else mr_push_loop k cas (mr_head q) x q)
        else if dif < 0 then Inr (False, q)
        else mr_push_loop k cas (mr_head q) x q)"

definition mr_push :: "nat \<Rightarrow> bool list \<Rightarrow> 'a \<Rightarrow> 'a multiringbuffer \<Rightarrow>
    (bool \<times> 'a multiringbuffer) outcome" where
  "mr_push k cas x q = mr_push_loop k cas (mr_head q) x q"

fun mr_pop_loop :: "nat \<Rightarrow> bool list \<Rightarrow> size_t \<Rightarrow> 'a multiringbuffer \<Rightarrow>
    ('a option \<times> 'a multiringbuffer) outcome" where
  "mr_pop_loop k [] pos q = Inl OutOfFuel"
| "mr_pop_loop k (ok # cas) pos q =
    (let i = cell_index k pos;
         seq = m_sequence (mr_buffer q ! i);
         dif = sint (seq - (pos + 1))
     in if dif = 0 then
          (if mr_tail q = pos \<and> ok
           then Inr (Some (m_data (mr_buffer q ! i)),
                     q\<lparr>mr_tail := pos + 1,
                       mr_buffer := (mr_buffer q)[i := (mr_buffer q ! i)\<lparr>m_sequence := pos + buffer_mask k + 1\<rparr>]\<rparr>)
           else mr_pop_loop k cas (mr_tail q) q)
        else if dif < 0 then Inr (None, q)
        else mr_pop_loop k cas (mr_tail q) q)"

definition mr_pop :: "nat \<Rightarrow> bool list \<Rightarrow> 'a multiringbuffer \<Rightarrow>
    ('a option \<times> 'a multiringbuffer) outcome" where
  "mr_pop k cas q = mr_pop_loop k cas (mr_tail q) q"

section \<open>Invariant and contents\<close>

definition mr_count :: "'a multiringbuffer \<Rightarrow> nat" where
  "mr_count q = unat (mr_head q - mr_tail q)"

definition mr_cell :: "nat \<Rightarrow> 'a multiringbuffer \<Rightarrow> nat \<Rightarrow> 'a cell_t" where
  "mr_cell k q i = mr_buffer q ! cell_index k (mr_tail q + word_of_nat i)"

definition mr_inv :: "nat \<Rightarrow> 'a multiringbuffer \<Rightarrow> bool" where
  "mr_inv k q \<longleftrightarrow> 0 < k \<and> k < 63 \<and> length (mr_buffer q) = 2 ^ k \<and> mr_count q \<le> 2 ^ k
     \<and> (\<forall>i < 2 ^ k. m_sequence (mr_cell k q i) =
          mr_tail q + word_of_nat i + (if i < mr_count q then 1 else 0))"

definition mr_abs :: "nat \<Rightarrow> 'a multiringbuffer \<Rightarrow> 'a list" where
  "mr_abs k q = map (\<lambda>i. m_data (mr_cell k q i)) [0..<mr_count q]"

lemma cell_index_mod: "k \<le> 64 \<Longrightarrow> cell_index k pos = unat pos mod 2 ^ k"
proof -
  assume "k \<le> 64"
  have "pos AND buffer_mask k = take_bit k pos"
    by (simp add: buffer_mask_def take_bit_eq_mask mask_eq_exp_minus_1)
  then have "cell_index k pos = take_bit k (unat pos)"
    by (simp only: cell_index_def unsigned_take_bit_eq)
  then show ?thesis by (simp only: take_bit_eq_mod)
qed

lemma cell_index_less [simp]: "k \<le> 64 \<Longrightarrow> cell_index k pos < 2 ^ k"
  by (simp add: cell_index_mod)

lemma cell_index_add:
  assumes "k \<le> 64"
  shows "cell_index k (pos + word_of_nat i) = (unat pos + i) mod 2 ^ k"
proof -
  have d: "(2::nat) ^ k dvd 2 ^ 64" using assms by (rule le_imp_power_dvd)
  have "unat (pos + word_of_nat i) = (unat pos + i) mod 2 ^ 64"
    by (simp add: unat_word_ariths unat_of_nat mod_simps)
  then show ?thesis using d assms by (simp add: cell_index_mod mod_mod_cancel)
qed

lemma cell_index_inj:
  assumes "k \<le> 64" "i < 2 ^ k" "j < 2 ^ k"
    and "cell_index k (pos + word_of_nat i) = cell_index k (pos + word_of_nat j)"
  shows "i = j"
  using assms mod_offset_inj[of "unat pos" i "2 ^ k" j] by (simp add: cell_index_add)


lemma mr_head_count: "mr_head q = mr_tail q + word_of_nat (mr_count q)"
  by (simp add: mr_count_def)

lemma size_lt_word: "k < 63 \<Longrightarrow> (2::nat) ^ k < 2 ^ 63"
  by (rule power_strict_increasing) simp_all

lemma sint_neg_small:
  assumes "0 < m" "m < 2 ^ 63"
  shows "sint (- word_of_nat m :: size_t) < 0"
proof -
  have "- word_of_nat m = (word_of_int (- int m) :: size_t)" by simp
  then have "sint (- word_of_nat m :: size_t) = signed_take_bit 63 (- int m)"
    by (simp only: sint_sbintrunc') simp
  also have "\<dots> = - int m"
    using assms by (intro signed_take_bit_int_eq_self) auto
  finally show ?thesis using assms by simp
qed

lemma mr_push_room_loop:
  assumes "mr_inv k q" "mr_count q < 2 ^ k" "True \<in> set cas"
  shows "mr_push_loop k cas (mr_head q) x q =
    Inr (True, q\<lparr>mr_head := mr_head q + 1,
                 mr_buffer := (mr_buffer q)[cell_index k (mr_head q) :=
                   \<lparr>m_sequence = mr_head q + 1, m_data = x\<rparr>]\<rparr>)"
proof -
  have "m_sequence (mr_buffer q ! cell_index k (mr_head q)) = mr_head q"
    using assms(1,2) unfolding mr_inv_def mr_cell_def by (subst (1 2) mr_head_count) simp
  then show ?thesis
    using assms(3) by (induction cas) (auto simp: Let_def)
qed

lemma mr_push_full:
  assumes "mr_inv k q" "mr_count q = 2 ^ k" "cas \<noteq> []"
  shows "mr_push k cas x q = Inr (False, q)"
proof -
  have k: "0 < k" "k < 63" using assms(1) by (auto simp: mr_inv_def)
  have "cell_index k (mr_head q) = (unat (mr_tail q) + 2 ^ k) mod 2 ^ k"
    using k by (simp only: mr_head_count[of q] assms(2) cell_index_add)
  then have idx: "cell_index k (mr_head q) = cell_index k (mr_tail q)"
    using k by (simp add: cell_index_mod)
  have seq: "m_sequence (mr_buffer q ! cell_index k (mr_head q)) = mr_tail q + 1"
  proof -
    have "m_sequence (mr_cell k q 0) = mr_tail q + 1" using assms(1,2) by (simp add: mr_inv_def)
    then show ?thesis using idx by (simp add: mr_cell_def)
  qed
  have m: "(1::nat) < 2 ^ k" "2 ^ k - 1 < (2::nat) ^ 63"
    using k size_lt_word[of k] one_less_power[of "2::nat" k] by simp_all
  have "mr_tail q + 1 - mr_head q = - word_of_nat (2 ^ k - 1)"
    unfolding mr_head_count[of q] assms(2) using m(1) by (simp only: of_nat_diff less_imp_le) simp
  then have "sint (mr_tail q + 1 - mr_head q) < 0"
    using sint_neg_small[of "2 ^ k - 1"] m by (simp only: zero_less_diff)
  with seq assms(3) show ?thesis by (cases cas) (auto simp: mr_push_def Let_def)
qed

lemma mr_pop_empty:
  assumes "mr_inv k q" "mr_count q = 0" "cas \<noteq> []"
  shows "mr_pop k cas q = Inr (None, q)"
proof -
  have "m_sequence (mr_cell k q 0) = mr_tail q"
    using assms(1,2) by (simp add: mr_inv_def)
  then have seq: "m_sequence (mr_buffer q ! cell_index k (mr_tail q)) = mr_tail q"
    by (simp add: mr_cell_def)
  have "mr_tail q - (mr_tail q + 1) = - word_of_nat 1" by simp
  then have "sint (mr_tail q - (mr_tail q + 1)) < 0"
    using sint_neg_small[of 1] by simp
  with seq assms(3) show ?thesis by (cases cas) (auto simp: mr_pop_def Let_def)
qed

lemma mr_pop_some_loop:
  assumes "mr_inv k q" "0 < mr_count q" "True \<in> set cas"
  shows "mr_pop_loop k cas (mr_tail q) q =
    (let i = cell_index k (mr_tail q)
     in Inr (Some (m_data (mr_buffer q ! i)),
          q\<lparr>mr_tail := mr_tail q + 1,
            mr_buffer := (mr_buffer q)[i := (mr_buffer q ! i)\<lparr>m_sequence := mr_tail q + buffer_mask k + 1\<rparr>]\<rparr>))"
proof -
  have "m_sequence (mr_cell k q 0) = mr_tail q + 1"
    using assms(1,2) by (simp add: mr_inv_def)
  then have "m_sequence (mr_buffer q ! cell_index k (mr_tail q)) = mr_tail q + 1"
    by (simp add: mr_cell_def)
  then show ?thesis
    using assms(3) by (induction cas) (auto simp: Let_def)
qed


lemma cell_index_distinct:
  assumes "mr_inv k q" "i < 2 ^ k" "j < 2 ^ k" "i \<noteq> j"
  shows "cell_index k (mr_tail q + word_of_nat i) \<noteq> cell_index k (mr_tail q + word_of_nat j)"
  using assms cell_index_inj[of k i j "mr_tail q"] by (auto simp: mr_inv_def)

lemma mr_push_room:
  assumes inv: "mr_inv k q" and room: "mr_count q < 2 ^ k" and cas: "True \<in> set cas"
  shows "\<exists>q'. mr_push k cas x q = Inr (True, q') \<and> mr_inv k q' \<and> mr_abs k q' = mr_abs k q @ [x]"
proof -
  define i where "i = cell_index k (mr_head q)"
  define q' where "q' = q\<lparr>mr_head := mr_head q + 1,
      mr_buffer := (mr_buffer q)[i := \<lparr>m_sequence = mr_head q + 1, m_data = x\<rparr>]\<rparr>"
  have k: "0 < k" "k < 63" "length (mr_buffer q) = 2 ^ k" using inv by (auto simp: mr_inv_def)
  have i_eq: "i = cell_index k (mr_tail q + word_of_nat (mr_count q))"
    by (simp only: i_def mr_head_count[of q])
  have t: "mr_tail q' = mr_tail q" by (simp add: q'_def)
  have c: "mr_count q' = mr_count q + 1"
  proof -
    have "mr_head q' - mr_tail q' = word_of_nat (mr_count q + 1)"
      by (simp add: q'_def mr_head_count[of q])
    moreover have "mr_count q + 1 < 2 ^ 64" using room size_lt_word[OF k(2)] by simp
    ultimately show ?thesis by (simp only: mr_count_def[of q'] unat_of_nat64)
  qed
  have new: "mr_cell k q' (mr_count q) = \<lparr>m_sequence = mr_head q + 1, m_data = x\<rparr>"
    using k by (simp add: mr_cell_def t i_eq[symmetric]) (simp add: q'_def i_def)
  have old: "mr_cell k q' j = mr_cell k q j" if "j < 2 ^ k" "j \<noteq> mr_count q" for j
    using cell_index_distinct[OF inv that(1) room that(2)]
    by (simp add: mr_cell_def t i_eq[symmetric]) (simp add: q'_def)
  have "m_sequence (mr_cell k q' j) = mr_tail q' + word_of_nat j + (if j < mr_count q' then 1 else 0)"
    if "j < 2 ^ k" for j
  proof (cases "j = mr_count q")
    case True
    then show ?thesis using new t c by (simp add: mr_head_count[of q])
  next
    case False
    then show ?thesis using old[OF that False] inv that t c by (auto simp: mr_inv_def)
  qed
  then have "mr_inv k q'"
    using k room c by (simp add: mr_inv_def) (simp add: q'_def)
  moreover have "mr_abs k q' = mr_abs k q @ [x]"
    using old new room by (simp add: mr_abs_def c)
  moreover have "mr_push k cas x q = Inr (True, q')"
    unfolding mr_push_def q'_def i_def by (rule mr_push_room_loop[OF inv room cas])
  ultimately show ?thesis by blast
qed

lemma mr_pop_some:
  assumes inv: "mr_inv k q" and some: "0 < mr_count q" and cas: "True \<in> set cas"
  shows "\<exists>x q'. mr_pop k cas q = Inr (Some x, q') \<and> mr_inv k q' \<and> mr_abs k q = x # mr_abs k q'"
proof -
  define i where "i = cell_index k (mr_tail q)"
  define c where "c = (mr_buffer q ! i)\<lparr>m_sequence := mr_tail q + buffer_mask k + 1\<rparr>"
  define q' where "q' = q\<lparr>mr_tail := mr_tail q + 1, mr_buffer := (mr_buffer q)[i := c]\<rparr>"
  have k: "0 < k" "k < 63" "length (mr_buffer q) = 2 ^ k" "mr_count q \<le> 2 ^ k"
    using inv by (auto simp: mr_inv_def)
  have n: "mr_count q = Suc (mr_count q')"
  proof -
    have "mr_head q' - mr_tail q' = word_of_nat (mr_count q - 1)"
      using some by (simp add: q'_def mr_head_count[of q] of_nat_diff)
    moreover have "mr_count q - 1 < 2 ^ 64" using k size_lt_word[OF k(2)] by simp
    ultimately have "mr_count q' = mr_count q - 1" by (simp only: mr_count_def[of q'] unat_of_nat64)
    then show ?thesis using some by simp
  qed
  have shift: "mr_tail q' + word_of_nat j = mr_tail q + word_of_nat (Suc j)" for j
    by (simp add: q'_def)
  have old: "mr_cell k q' j = mr_cell k q (Suc j)" if "Suc j < 2 ^ k" for j
  proof -
    have "cell_index k (mr_tail q + word_of_nat (Suc j)) \<noteq> i"
      using cell_index_distinct[OF inv that, of 0] by (simp add: i_def)
    then show ?thesis by (simp only: mr_cell_def shift) (simp add: q'_def)
  qed
  have wrap: "cell_index k (mr_tail q + word_of_nat (2 ^ k)) = i"
  proof -
    have "cell_index k (mr_tail q + word_of_nat (2 ^ k)) = (unat (mr_tail q) + 2 ^ k) mod 2 ^ k"
      using k by (intro cell_index_add) simp
    then show ?thesis using k by (simp add: i_def cell_index_mod)
  qed
  have last: "mr_cell k q' (2 ^ k - 1) = c"
  proof -
    have "Suc (2 ^ k - 1) = 2 ^ k" by simp
    then have "mr_cell k q' (2 ^ k - 1) = mr_buffer q' ! i"
      by (simp only: mr_cell_def shift wrap)
    then show ?thesis using k by (simp add: q'_def i_def)
  qed
  have "m_sequence (mr_cell k q' j) = mr_tail q' + word_of_nat j + (if j < mr_count q' then 1 else 0)"
    if j: "j < 2 ^ k" for j
  proof (cases "j = 2 ^ k - 1")
    case True
    have "m_sequence c = mr_tail q' + word_of_nat (2 ^ k - 1)"
      by (simp add: c_def q'_def buffer_mask_def of_nat_diff)
    then show ?thesis using True last n k by simp
  next
    case False
    then have "Suc j < 2 ^ k" using j by simp
    then show ?thesis using old[of j] inv n unfolding shift by (auto simp: mr_inv_def)
  qed
  then have "mr_inv k q'"
    using k n by (simp add: mr_inv_def) (simp add: q'_def)
  moreover have "mr_abs k q = m_data (mr_buffer q ! i) # mr_abs k q'"
  proof -
    have "mr_abs k q = m_data (mr_cell k q 0) # map (\<lambda>j. m_data (mr_cell k q (Suc j))) [0..<mr_count q']"
      unfolding mr_abs_def n upt_conv_Cons[OF zero_less_Suc] list.map
      by (simp add: map_Suc_upt[symmetric] del: upt_Suc)
    moreover have "map (\<lambda>j. m_data (mr_cell k q (Suc j))) [0..<mr_count q'] = mr_abs k q'"
      unfolding mr_abs_def using old n k by (intro map_cong) auto
    ultimately show ?thesis by (simp add: mr_cell_def i_def)
  qed
  moreover have "mr_pop k cas q = Inr (Some (m_data (mr_buffer q ! i)), q')"
    unfolding mr_pop_def q'_def c_def i_def
    by (subst mr_pop_some_loop[OF inv some cas]) (simp add: Let_def)
  ultimately show ?thesis by blast
qed

lemma mr_inv_new: "0 < k \<Longrightarrow> k < 63 \<Longrightarrow> mr_inv k (mr_new k raw) \<and> mr_abs k (mr_new k raw) = []"
proof -
  assume k: "0 < k" "k < 63"
  have "mr_cell k (mr_new k raw) i = \<lparr>m_sequence = word_of_nat i, m_data = raw\<rparr>" if "i < 2 ^ k" for i
    using k that cell_index_add[of k 0 i] by (simp add: mr_cell_def mr_new_def)
  then show ?thesis using k by (simp add: mr_inv_def mr_abs_def mr_count_def) (simp add: mr_new_def)
qed


text \<open>
  With attempts that end in a success, the calls return, and the ring implements the
  contract of a bounded queue.
\<close>

definition mr_push_with :: "nat \<Rightarrow> bool list \<Rightarrow> 'a \<Rightarrow> 'a multiringbuffer \<Rightarrow> bool \<times> 'a multiringbuffer" where
  "mr_push_with k cas x q = (case mr_push k (cas @ [True]) x q of Inr r \<Rightarrow> r | Inl _ \<Rightarrow> (False, q))"

definition mr_pop_with :: "nat \<Rightarrow> bool list \<Rightarrow> 'a multiringbuffer \<Rightarrow> 'a option \<times> 'a multiringbuffer" where
  "mr_pop_with k cas q = (case mr_pop k (cas @ [True]) q of Inr r \<Rightarrow> r | Inl _ \<Rightarrow> (None, q))"

lemma length_mr_abs [simp]: "length (mr_abs k q) = mr_count q"
  by (simp add: mr_abs_def)

interpretation mr: bounded_fifo "mr_inv k" "mr_abs k" "2 ^ k" "mr_push_with k cas" "mr_pop_with k cas"
  for k cas
proof (unfold_locales, goal_cases)
  case (1 q x)
  then show ?case using mr_push_room[OF 1(1), of "cas @ [True]" x] by (auto simp: mr_push_with_def)
next
  case (2 q x)
  then have "mr_count q = 2 ^ k" by (simp add: mr_inv_def)
  then show ?case using mr_push_full[OF 2(1), of "cas @ [True]" x] by (simp add: mr_push_with_def)
next
  case (3 q)
  then have "mr_count q = 0" using length_mr_abs[of k q] by simp
  then show ?case using mr_pop_empty[OF 3(1), of "cas @ [True]"] by (simp add: mr_pop_with_def)
next
  case (4 q x xs)
  then have "0 < mr_count q" using length_mr_abs[of k q] by simp
  then show ?case using mr_pop_some[OF 4(1), of "cas @ [True]"] 4(2) by (auto simp: mr_pop_with_def)
next
  case (5 q)
  then show ?case by (simp add: mr_inv_def)
qed


section \<open>Properties\<close>

text \<open>
  The sequence-number ring: however often \<^verbatim>\<open>compare_exchange_weak\<close> fails spuriously, once an
  attempt succeeds \<^verbatim>\<open>push\<close> returns, stores the element exactly when fewer than \<^verbatim>\<open>SIZE\<close>
  elements are stored, and reports a full ring otherwise, wherever the 64-bit positions are.
\<close>

theorem mr_push_spec:
  assumes "mr_inv k q" "True \<in> set cas"
  shows "\<exists>ok q'. mr_push k cas x q = Inr (ok, q') \<and> mr_inv k q' \<and> ok = (length (mr_abs k q) < 2 ^ k)
     \<and> mr_abs k q' = (if ok then mr_abs k q @ [x] else mr_abs k q)"
proof (cases "mr_count q < 2 ^ k")
  case True
  then show ?thesis using mr_push_room[OF assms(1) True assms(2), of x] by auto
next
  case False
  then have "mr_count q = 2 ^ k" using assms(1) by (simp add: mr_inv_def)
  moreover have "cas \<noteq> []" using assms(2) by auto
  ultimately show ?thesis using mr_push_full[OF assms(1), of cas x] assms(1)
    by (intro exI[of _ False] exI[of _ q]) simp
qed

theorem mr_push_spec_witness:
  "\<exists>ok q'. mr_push 1 [False, True] (5::nat) (mr_new 1 0) = Inr (ok, q') \<and> ok \<and> mr_abs 1 q' = [5]"
proof -
  have new: "mr_inv 1 (mr_new 1 (0::nat))" "mr_abs 1 (mr_new 1 (0::nat)) = []"
    using mr_inv_new[of 1 "0::nat"] by auto
  show ?thesis using mr_push_spec[OF new(1), of "[False, True]" 5] new(2) by (auto simp del: length_mr_abs One_nat_def)
qed

text \<open>
  Over any sequence of calls on a new ring of \<^verbatim>\<open>SIZE = 2 ^ k\<close> cells the elements accepted
  are those delivered followed by those stored, and at most \<^verbatim>\<open>SIZE\<close> are stored.
\<close>

theorem multi_ring_fifo:
  assumes "0 < k" "k < 63" "mr.run k cas ops (mr_new k raw) = (accepted, delivered, q)"
  shows "accepted = delivered @ mr_abs k q \<and> length (mr_abs k q) \<le> 2 ^ k"
proof -
  have "mr_abs k (mr_new k raw) @ accepted = delivered @ mr_abs k q \<and> length (mr_abs k q) \<le> 2 ^ k"
    using mr.run_fifo[OF _ assms(3)] mr_inv_new[OF assms(1,2), of raw] by blast
  then show ?thesis using mr_inv_new[OF assms(1,2), of raw] by simp
qed

theorem multi_ring_fifo_witness:
  "\<exists>q. mr.run 1 [] [Push 7, Push 8, Push 9, Pop] (mr_new 1 0) = ([7, 8], [7 :: nat], q)
     \<and> [7, 8] = [7] @ mr_abs 1 q"
proof -
  let ?q = "\<lparr>mr_buffer = [\<lparr>m_sequence = 2, m_data = 7\<rparr>, \<lparr>m_sequence = 2, m_data = 8\<rparr>],
    mr_head = 2, mr_tail = 1\<rparr>"
  have run: "mr.run 1 [] [Push 7, Push 8, Push 9, Pop] (mr_new 1 0) = ([7, 8], [7 :: nat], ?q)"
    by (simp add: mr_push_with_def mr_pop_with_def mr_push_def mr_pop_def mr_new_def Let_def
        cell_index_def buffer_mask_def numeral_2_eq_2)
  show ?thesis using run multi_ring_fifo[OF _ _ run] by (intro exI[of _ ?q]) simp
qed

end
