(* ===== verification/Object_Pool.thy ===== *)
theory Object_Pool
  imports FP_Prelude
begin

text \<open>
  The object pool (\<^verbatim>\<open>src/fastpath/utils/tfpool.h\<close>), which hands out messages, wrappers and
  events. Objects are named by numbers; \<open>p_objects\<close> is the heap that holds their
  contents and \<open>p_next\<close> the name the next \<^verbatim>\<open>new T()\<close> gets. Every operation runs with the
  pool's lock held, so that a call is one step. The class has a general version and one for
  \<^verbatim>\<open>reusable\<close> objects, which prepares an object when it is handed out and checks the number
  of free objects when it is returned. The theory shows that an object is never handed out
  while someone else has it, as long as no object is returned twice, and what happens when
  one is.
\<close>

record 'a pool =
  p_poolSize :: nat
  p_freeAllocations :: "nat list"
  p_objectCache :: "nat list"
  p_objects :: "nat \<Rightarrow> 'a"
  p_next :: nat

text \<open>\<^verbatim>\<open>k\<close> times \<^verbatim>\<open>m_objectCache.emplace_back(new T())\<close>.\<close>

fun emplace_new :: "'a \<Rightarrow> nat \<Rightarrow> 'a pool \<Rightarrow> 'a pool" where
  "emplace_new fresh 0 p = p"
| "emplace_new fresh (Suc k) p =
    emplace_new fresh k (p\<lparr>p_objectCache := p_objectCache p @ [p_next p],
                            p_objects := (p_objects p)(p_next p := fresh),
                            p_next := p_next p + 1\<rparr>)"

definition pool_new :: "'a \<Rightarrow> nat \<Rightarrow> 'a pool" where
  "pool_new fresh poolSize =
    (let p = emplace_new fresh poolSize
               \<lparr>p_poolSize = poolSize, p_freeAllocations = [], p_objectCache = [],
                p_objects = (\<lambda>_. fresh), p_next = 0\<rparr>
     in p\<lparr>p_freeAllocations := p_objectCache p\<rparr>)"

definition pool_grow :: "'a \<Rightarrow> 'a pool \<Rightarrow> 'a pool" where
  "pool_grow fresh p =
    (let newPoolSize = p_poolSize p * 2;
         q = emplace_new fresh (newPoolSize - p_poolSize p) p
     in q\<lparr>p_freeAllocations := p_freeAllocations q @ drop (p_poolSize p) (p_objectCache q),
          p_poolSize := newPoolSize\<rparr>)"

definition pool_allocate :: "'a \<Rightarrow> 'a pool \<Rightarrow> (nat \<times> 'a pool) outcome" where
  "pool_allocate fresh p =
    (let p = (if p_freeAllocations p = [] then pool_grow fresh p else p)
     in if p_freeAllocations p = [] then Inl OutOfBounds
        else Inr (last (p_freeAllocations p), p\<lparr>p_freeAllocations := butlast (p_freeAllocations p)\<rparr>))"

text \<open>The version for \<^verbatim>\<open>reusable\<close> objects calls \<^verbatim>\<open>prepareForReuse\<close> (the argument \<open>prepare\<close>).\<close>

definition reusable_allocate :: "('a \<Rightarrow> 'a) \<Rightarrow> 'a \<Rightarrow> 'a pool \<Rightarrow> (nat \<times> 'a pool) outcome" where
  "reusable_allocate prepare fresh p =
    bind_outcome (pool_allocate fresh p) (\<lambda>(x, p).
    Inr (x, p\<lparr>p_objects := (p_objects p)(x := prepare (p_objects p x))\<rparr>))"

text \<open>What an object holds when it is handed out: one that \<^verbatim>\<open>allocate\<close> creates is new.\<close>

definition content_of :: "'a \<Rightarrow> 'a pool \<Rightarrow> nat \<Rightarrow> 'a" where
  "content_of fresh p x = (if x < p_next p then p_objects p x else fresh)"

text \<open>\<open>None\<close> is the null pointer; \<open>chk\<close> says whether \<^verbatim>\<open>CHECK_DOUBLE_FREE\<close> is defined.\<close>

definition pool_release :: "bool \<Rightarrow> nat option \<Rightarrow> 'a pool \<Rightarrow> 'a pool outcome" where
  "pool_release chk x p =
    (case x of
       None \<Rightarrow> Inr p
     | Some x \<Rightarrow>
         bind_outcome (assert_that (chk \<longrightarrow> x \<notin> set (p_freeAllocations p))) (\<lambda>_.
         Inr (p\<lparr>p_freeAllocations := p_freeAllocations p @ [x]\<rparr>)))"

definition reusable_release :: "bool \<Rightarrow> nat option \<Rightarrow> 'a pool \<Rightarrow> 'a pool outcome" where
  "reusable_release chk x p =
    (case x of
       None \<Rightarrow> Inr p
     | Some x \<Rightarrow>
         bind_outcome (assert_that (chk \<longrightarrow> x \<notin> set (p_freeAllocations p))) (\<lambda>_.
         bind_outcome (assert_that (length (p_freeAllocations p) < p_poolSize p)) (\<lambda>_.
         Inr (p\<lparr>p_freeAllocations := p_freeAllocations p @ [x]\<rparr>))))"

definition is_from_pool :: "nat \<Rightarrow> 'a pool \<Rightarrow> bool" where
  "is_from_pool x p \<longleftrightarrow> x \<in> set (p_objectCache p)"

text \<open>The pair of counts whose quotient \<^verbatim>\<open>utilisation()\<close> returns.\<close>

definition utilisation :: "'a pool \<Rightarrow> nat \<times> nat" where
  "utilisation p = (length (p_freeAllocations p), p_poolSize p)"

text \<open>The objects the destructor deletes.\<close>

definition pool_destroy :: "'a pool \<Rightarrow> nat list outcome" where
  "pool_destroy p =
    bind_outcome (assert_that (length (p_freeAllocations p) = length (p_objectCache p))) (\<lambda>_.
    Inr (p_objectCache p))"

section \<open>Invariant\<close>

text \<open>
  \<open>pool_inv p out\<close>: the free objects and the objects \<open>out\<close> that clients hold are
  together the objects of the pool, each exactly once.
\<close>

definition pool_inv :: "'a pool \<Rightarrow> nat list \<Rightarrow> bool" where
  "pool_inv p out \<longleftrightarrow>
     distinct (p_freeAllocations p @ out)
     \<and> set (p_freeAllocations p @ out) = set (p_objectCache p)
     \<and> distinct (p_objectCache p)
     \<and> length (p_objectCache p) = p_poolSize p
     \<and> (\<forall>x \<in> set (p_objectCache p). x < p_next p)"

lemma emplace_new_fields:
  "p_poolSize (emplace_new f k p) = p_poolSize p"
  "p_freeAllocations (emplace_new f k p) = p_freeAllocations p"
  "p_objectCache (emplace_new f k p) = p_objectCache p @ [p_next p..<p_next p + k]"
  "p_next (emplace_new f k p) = p_next p + k"
  by (induction f k p rule: emplace_new.induct) (simp_all add: upt_conv_Cons del: upt_Suc)

lemma emplace_new_objects:
  "x < p_next p \<Longrightarrow> p_objects (emplace_new f k p) x = p_objects p x"
  by (induction f k p rule: emplace_new.induct) auto

lemma emplace_new_fresh:
  "p_next p \<le> x \<Longrightarrow> x < p_next p + k \<Longrightarrow> p_objects (emplace_new f k p) x = f"
proof (induction f k p rule: emplace_new.induct)
  case (2 f k p)
  then show ?case by (cases "x = p_next p") (auto simp: emplace_new_objects)
qed simp

lemma pool_inv_new: "pool_inv (pool_new f n) []"
  by (simp add: pool_inv_def pool_new_def Let_def emplace_new_fields)

lemma pool_grow_inv:
  assumes "pool_inv p out"
  shows "pool_inv (pool_grow f p) out"
proof -
  have "\<forall>x \<in> set (p_freeAllocations p) \<union> set out. x < p_next p"
    using assms by (auto simp: pool_inv_def)
  then have "\<And>x. x \<in> set (p_freeAllocations p) \<or> x \<in> set out \<Longrightarrow> \<not> p_next p \<le> x"
    by (meson UnI1 UnI2 not_le)
  then show ?thesis
    using assms by (auto simp: pool_inv_def pool_grow_def Let_def emplace_new_fields mult_2_right)
qed

lemma pool_grow_nonempty:
  assumes "pool_inv p out" "0 < p_poolSize p"
  shows "p_freeAllocations (pool_grow f p) \<noteq> []"
  using assms by (simp add: pool_inv_def pool_grow_def Let_def emplace_new_fields)

lemma pool_allocate_inv:
  assumes "pool_inv p out" "0 < p_poolSize p"
  shows "\<exists>x q. pool_allocate f p = Inr (x, q) \<and> pool_inv q (x # out) \<and> x \<notin> set out \<and> 0 < p_poolSize q"
proof -
  define g where "g = (if p_freeAllocations p = [] then pool_grow f p else p)"
  have inv: "pool_inv g out" and ne: "p_freeAllocations g \<noteq> []" and sz: "0 < p_poolSize g"
    using assms pool_grow_inv[OF assms(1), of f] pool_grow_nonempty[OF assms, of f]
    by (auto simp: g_def pool_grow_def Let_def)
  obtain fs x where fs: "p_freeAllocations g = fs @ [x]" using ne by (metis rev_exhaust)
  have "pool_allocate f p = Inr (x, g\<lparr>p_freeAllocations := fs\<rparr>)"
    using fs by (simp add: pool_allocate_def Let_def g_def[symmetric])
  moreover have "pool_inv (g\<lparr>p_freeAllocations := fs\<rparr>) (x # out)" "x \<notin> set out"
    using inv fs by (auto simp: pool_inv_def)
  ultimately show ?thesis using sz by auto
qed

lemma pool_release_inv:
  assumes "pool_inv p out" "x \<in> set out"
  shows "\<exists>q. pool_release chk (Some x) p = Inr q \<and> pool_inv q (remove1 x out) \<and> p_poolSize q = p_poolSize p"
  using assms by (auto simp: pool_release_def pool_inv_def set_remove1_eq)

lemma pool_inv_length:
  assumes "pool_inv p out"
  shows "length (p_freeAllocations p) + length out = p_poolSize p"
  using assms distinct_card[of "p_freeAllocations p @ out"] distinct_card[of "p_objectCache p"]
  by (simp add: pool_inv_def)

lemma reusable_release_eq:
  assumes "pool_inv p out" "x \<in> set out"
  shows "reusable_release chk (Some x) p = pool_release chk (Some x) p"
proof -
  have "length (p_freeAllocations p) < p_poolSize p"
    using pool_inv_length[OF assms(1)] assms(2) by (cases out) auto
  then show ?thesis
    by (simp add: reusable_release_def pool_release_def)
qed


section \<open>Clients\<close>

text \<open>
  What clients can make of a pool of \<^verbatim>\<open>reusable\<close> objects: they obtain objects and return
  objects they hold, once each. The list holds the objects that are out.
\<close>

inductive pool_reach :: "('a \<Rightarrow> 'a) \<Rightarrow> 'a \<Rightarrow> nat \<Rightarrow> 'a pool \<Rightarrow> nat list \<Rightarrow> bool"
  for prepare fresh n where
  reach_new: "pool_reach prepare fresh n (pool_new fresh n) []"
| reach_allocate: "pool_reach prepare fresh n p out \<Longrightarrow> reusable_allocate prepare fresh p = Inr (x, q) \<Longrightarrow>
    pool_reach prepare fresh n q (x # out)"
| reach_release: "pool_reach prepare fresh n p out \<Longrightarrow> x \<in> set out \<Longrightarrow>
    reusable_release chk (Some x) p = Inr q \<Longrightarrow> pool_reach prepare fresh n q (remove1 x out)"

lemma reusable_allocate_inv:
  assumes "pool_inv p out" "0 < p_poolSize p"
  shows "\<exists>x q. reusable_allocate prepare f p = Inr (x, q) \<and> pool_inv q (x # out) \<and> x \<notin> set out
    \<and> 0 < p_poolSize q \<and> p_objects q x = prepare (content_of f p x)"
proof -
  obtain x r where r: "pool_allocate f p = Inr (x, r)" "pool_inv r (x # out)" "x \<notin> set out" "0 < p_poolSize r"
    using pool_allocate_inv[OF assms, of f] by blast
  have "p_objects r x = content_of f p x"
  proof (cases "x < p_next p")
    case True
    then show ?thesis using r(1)
      by (auto simp: content_of_def pool_allocate_def Let_def pool_grow_def emplace_new_objects split: if_splits)
  next
    case False
    have "x < p_next r" using r(2) by (auto simp: pool_inv_def)
    moreover have "p_freeAllocations p = []"
      using False r(1) assms(1) by (auto simp: pool_inv_def pool_allocate_def Let_def split: if_splits dest!: last_in_set)
    ultimately show ?thesis using False r(1)
      by (auto simp: content_of_def pool_allocate_def Let_def pool_grow_def emplace_new_fields emplace_new_fresh split: if_splits)
  qed
  moreover have "pool_inv (r\<lparr>p_objects := (p_objects r)(x := prepare (p_objects r x))\<rparr>) (x # out)"
    using r(2) by (simp add: pool_inv_def)
  ultimately show ?thesis using r by (simp add: reusable_allocate_def)
qed

lemma pool_reach_inv:
  assumes "pool_reach prepare fresh n p out" "0 < n"
  shows "pool_inv p out \<and> 0 < p_poolSize p"
  using assms
proof (induction rule: pool_reach.induct)
  case reach_new
  then show ?case using pool_inv_new by (auto simp: pool_new_def Let_def emplace_new_fields)
next
  case (reach_allocate p out x q)
  then show ?case using reusable_allocate_inv[of p out prepare fresh] by force
next
  case (reach_release p out x chk q)
  then have "reusable_release chk (Some x) p = pool_release chk (Some x) p"
    by (intro reusable_release_eq) auto
  then show ?case using reach_release pool_release_inv[of p out x chk] by auto
qed

section \<open>Properties\<close>

text \<open>
  C26 In every state clients can reach, of a pool created with at least one object and by returning
  only what they hold, \<^verbatim>\<open>allocate\<close> succeeds and hands out an object of the
  pool that nobody holds, one that was there before or one it has just created, prepared for reuse
  either way; returning a held object passes the checks of \<^verbatim>\<open>release\<close>; and
  the destructor's check passes exactly when everything has been returned.
\<close>

theorem pool_exclusive:
  assumes "pool_reach prepare fresh n p out" "0 < n"
  shows "(\<exists>x q. reusable_allocate prepare fresh p = Inr (x, q) \<and> x \<notin> set out \<and> is_from_pool x q
            \<and> p_objects q x = prepare (content_of fresh p x))
    \<and> (\<forall>x \<in> set out. \<exists>q. reusable_release True (Some x) p = Inr q)
    \<and> (pool_destroy p = Inr (p_objectCache p) \<longleftrightarrow> out = [])"
proof -
  have inv: "pool_inv p out" "0 < p_poolSize p" using pool_reach_inv[OF assms] by auto
  obtain x q where q: "reusable_allocate prepare fresh p = Inr (x, q)" "pool_inv q (x # out)" "x \<notin> set out"
    "p_objects q x = prepare (content_of fresh p x)"
    using reusable_allocate_inv[OF inv] by blast
  have "is_from_pool x q" using q(2) by (auto simp: pool_inv_def is_from_pool_def)
  moreover have "\<exists>q. reusable_release True (Some x) p = Inr q" if "x \<in> set out" for x
    using pool_release_inv[OF inv(1) that, of True] reusable_release_eq[OF inv(1) that, of True] by auto
  moreover have "pool_destroy p = Inr (p_objectCache p) \<longleftrightarrow> out = []"
    using pool_inv_length[OF inv(1)] inv(1) by (auto simp: pool_destroy_def pool_inv_def)
  ultimately show ?thesis using q by blast
qed

theorem pool_exclusive_witness:
  "\<exists>q r. pool_reach Suc (5::nat) 1 q [0] \<and> pool_reach Suc 5 1 r []
     \<and> (\<exists>x q'. reusable_allocate Suc 5 q = Inr (x, q') \<and> x \<noteq> 0 \<and> p_objects q' x = Suc (content_of 5 q x))
     \<and> (\<exists>x r'. reusable_allocate Suc 5 r = Inr (x, r') \<and> p_objects r' x = Suc (content_of 5 r x) \<and> content_of 5 r 0 = 6)"
proof -
  obtain q where a: "reusable_allocate Suc (5::nat) (pool_new 5 1) = Inr (0, q)" and c: "p_objects q 0 = 6" "p_next q = 1"
    by (simp add: reusable_allocate_def pool_allocate_def pool_new_def Let_def)
  have q: "pool_reach Suc (5::nat) 1 q [0]"
    by (rule reach_allocate[OF reach_new a])
  obtain r where b: "reusable_release True (Some 0) q = Inr r"
    using pool_exclusive[OF q] by auto
  have r: "pool_reach Suc (5::nat) 1 r []"
    using reach_release[OF q _ b] by simp
  have "content_of 5 r 0 = 6"
    using b c by (auto simp: content_of_def reusable_release_def assert_that_def split: if_splits)
  then show ?thesis using q r pool_exclusive[OF q] pool_exclusive[OF r] by fastforce
qed

text \<open>
  A client that returns an object twice makes the pool hand it out twice: with another
  object out, neither check of a build without \<^verbatim>\<open>CHECK_DOUBLE_FREE\<close> notices, and the next two
  calls of \<^verbatim>\<open>allocate\<close> return the same object.
\<close>

theorem double_release_aliases:
  "\<exists>p1 p2 p3 p4 a b.
     reusable_allocate id (0::nat) (pool_new 0 2) = Inr (a, p1) \<and> reusable_allocate id 0 p1 = Inr (b, p2)
     \<and> bind_outcome (reusable_release False (Some a) p2) (reusable_release False (Some a)) = Inr p3
     \<and> (\<exists>c p5. reusable_allocate id 0 p3 = Inr (c, p4) \<and> reusable_allocate id 0 p4 = Inr (c, p5))"
  by (simp add: reusable_allocate_def reusable_release_def pool_allocate_def pool_new_def Let_def
      numeral_2_eq_2)

end
