(* ===== verification/RW_Lock.thy ===== *)
theory RW_Lock
  imports FP_Prelude
begin

text \<open>
  The reader-writer spin lock (\<^verbatim>\<open>src/fastpath/utils/rwlock.h\<close>); its holder classes are in
  \<open>Lock_Holders\<close>. \<open>m_bits\<close> is the 32-bit word of the class: bit 0 the
  writer, bit 1 the upgradable reader, the rest the number of readers. Each atomic
  read-modify-write is a function on the word; the spinning calls repeat a \<^verbatim>\<open>try\<close> call, so
  that a failed attempt is a step that leaves the caller where it was. The threads run as a
  step relation, one atomic operation at a time, with the calls that consist of two of
  them (backing out of a failed read attempt, the two downgrades of a writer) split; the
  invariant gives mutual exclusion for fewer than \<open>2 ^ 28\<close> threads.
\<close>

abbreviation READER :: u32 where "READER \<equiv> 4"
abbreviation UPGRADED :: u32 where "UPGRADED \<equiv> 2"
abbreviation WRITER :: u32 where "WRITER \<equiv> 1"

section \<open>The atomic operations\<close>

definition try_lock :: "u32 \<Rightarrow> bool \<times> u32" where
  "try_lock bits = (if bits = 0 then (True, WRITER) else (False, bits))"

definition unlock :: "u32 \<Rightarrow> u32" where
  "unlock bits = bits AND NOT (WRITER OR UPGRADED)"

text \<open>
  \<^verbatim>\<open>try_lock_shared\<close> is the increment, which decides the result, and on failure the
  decrement \<open>backout_shared\<close> as a second atomic operation.
\<close>

definition try_lock_shared :: "u32 \<Rightarrow> bool \<times> u32" where
  "try_lock_shared bits = (bits AND (WRITER OR UPGRADED) = 0, bits + READER)"

definition backout_shared :: "u32 \<Rightarrow> u32" where
  "backout_shared bits = bits + (- READER)"

definition unlock_shared :: "u32 \<Rightarrow> u32" where
  "unlock_shared bits = bits + (- READER)"

definition try_lock_upgrade :: "u32 \<Rightarrow> bool \<times> u32" where
  "try_lock_upgrade bits = (bits AND (UPGRADED OR WRITER) = 0, bits OR UPGRADED)"

definition unlock_upgrade :: "u32 \<Rightarrow> u32" where
  "unlock_upgrade bits = bits + (- UPGRADED)"

definition try_unlock_upgrade_and_lock :: "u32 \<Rightarrow> bool \<times> u32" where
  "try_unlock_upgrade_and_lock bits = (if bits = UPGRADED then (True, WRITER) else (False, bits))"

definition unlock_upgrade_and_lock_shared :: "u32 \<Rightarrow> u32" where
  "unlock_upgrade_and_lock_shared bits = bits + (READER - UPGRADED)"

text \<open>The two downgrades of a writer: first operation, second operation.\<close>

definition unlock_and_lock_shared_1 :: "u32 \<Rightarrow> u32" where
  "unlock_and_lock_shared_1 bits = bits + READER"

definition unlock_and_lock_shared_2 :: "u32 \<Rightarrow> u32" where
  "unlock_and_lock_shared_2 bits = unlock bits"

definition unlock_and_lock_upgrade_1 :: "u32 \<Rightarrow> u32" where
  "unlock_and_lock_upgrade_1 bits = bits OR UPGRADED"

definition unlock_and_lock_upgrade_2 :: "u32 \<Rightarrow> u32" where
  "unlock_and_lock_upgrade_2 bits = bits + (- WRITER)"

text \<open>
  The spinning calls, without interference: \<open>lock\<close> gives the word after the first
  successful attempt of at most \<open>fuel\<close>, or \<open>None\<close> when all fail.
\<close>

fun spin :: "(u32 \<Rightarrow> bool \<times> u32) \<Rightarrow> (u32 \<Rightarrow> u32) \<Rightarrow> nat \<Rightarrow> u32 \<Rightarrow> u32 option" where
  "spin attempt undo 0 bits = None"
| "spin attempt undo (Suc fuel) bits =
    (let (ok, bits') = attempt bits in if ok then Some bits' else spin attempt undo fuel (undo bits'))"

definition lock :: "nat \<Rightarrow> u32 \<Rightarrow> u32 option" where
  "lock = spin try_lock id"

definition lock_shared :: "nat \<Rightarrow> u32 \<Rightarrow> u32 option" where
  "lock_shared = spin try_lock_shared backout_shared"

definition lock_upgrade :: "nat \<Rightarrow> u32 \<Rightarrow> u32 option" where
  "lock_upgrade = spin try_lock_upgrade id"

definition unlock_upgrade_and_lock :: "nat \<Rightarrow> u32 \<Rightarrow> u32 option" where
  "unlock_upgrade_and_lock = spin try_unlock_upgrade_and_lock id"

section \<open>Threads\<close>

datatype role =
    Idle        \<comment> \<open>outside\<close>
  | Backout     \<comment> \<open>failed read attempt, about to take the increment back\<close>
  | Reader
  | Upgrader
  | Writer
  | ToShared    \<comment> \<open>writer between the two operations of \<open>unlock_and_lock_shared\<close>\<close>
  | ToUpgrade   \<comment> \<open>writer between the two operations of \<open>unlock_and_lock_upgrade\<close>\<close>

record locked =
  m_bits :: u32
  roles :: "role list"

definition set_role :: "nat \<Rightarrow> role \<Rightarrow> u32 \<Rightarrow> locked \<Rightarrow> locked" where
  "set_role i r bits s = s\<lparr>m_bits := bits, roles := (roles s)[i := r]\<rparr>"

text \<open>One atomic operation of thread \<open>i\<close>, by the role it has; the caller follows the protocol.\<close>

inductive lock_step :: "locked \<Rightarrow> locked \<Rightarrow> bool" where
  "i < length (roles s) \<Longrightarrow> roles s ! i = Idle \<Longrightarrow> try_lock (m_bits s) = (ok, b) \<Longrightarrow>
     lock_step s (set_role i (if ok then Writer else Idle) b s)"
| "i < length (roles s) \<Longrightarrow> roles s ! i = Idle \<Longrightarrow> try_lock_shared (m_bits s) = (ok, b) \<Longrightarrow>
     lock_step s (set_role i (if ok then Reader else Backout) b s)"
| "i < length (roles s) \<Longrightarrow> roles s ! i = Backout \<Longrightarrow>
     lock_step s (set_role i Idle (backout_shared (m_bits s)) s)"
| "i < length (roles s) \<Longrightarrow> roles s ! i = Idle \<Longrightarrow> try_lock_upgrade (m_bits s) = (ok, b) \<Longrightarrow>
     lock_step s (set_role i (if ok then Upgrader else Idle) b s)"
| "i < length (roles s) \<Longrightarrow> roles s ! i = Upgrader \<Longrightarrow> try_unlock_upgrade_and_lock (m_bits s) = (ok, b) \<Longrightarrow>
     lock_step s (set_role i (if ok then Writer else Upgrader) b s)"
| "i < length (roles s) \<Longrightarrow> roles s ! i = Reader \<Longrightarrow>
     lock_step s (set_role i Idle (unlock_shared (m_bits s)) s)"
| "i < length (roles s) \<Longrightarrow> roles s ! i = Upgrader \<Longrightarrow>
     lock_step s (set_role i Idle (unlock_upgrade (m_bits s)) s)"
| "i < length (roles s) \<Longrightarrow> roles s ! i = Upgrader \<Longrightarrow>
     lock_step s (set_role i Reader (unlock_upgrade_and_lock_shared (m_bits s)) s)"
| "i < length (roles s) \<Longrightarrow> roles s ! i = Writer \<Longrightarrow>
     lock_step s (set_role i Idle (unlock (m_bits s)) s)"
| "i < length (roles s) \<Longrightarrow> roles s ! i = Writer \<Longrightarrow>
     lock_step s (set_role i ToShared (unlock_and_lock_shared_1 (m_bits s)) s)"
| "i < length (roles s) \<Longrightarrow> roles s ! i = ToShared \<Longrightarrow>
     lock_step s (set_role i Reader (unlock_and_lock_shared_2 (m_bits s)) s)"
| "i < length (roles s) \<Longrightarrow> roles s ! i = Writer \<Longrightarrow>
     lock_step s (set_role i ToUpgrade (unlock_and_lock_upgrade_1 (m_bits s)) s)"
| "i < length (roles s) \<Longrightarrow> roles s ! i = ToUpgrade \<Longrightarrow>
     lock_step s (set_role i Upgrader (unlock_and_lock_upgrade_2 (m_bits s)) s)"

inductive lock_reach :: "nat \<Rightarrow> locked \<Rightarrow> bool" for n where
  lock_reach_init: "lock_reach n \<lparr>m_bits = 0, roles = replicate n Idle\<rparr>"
| lock_reach_step: "lock_reach n s \<Longrightarrow> lock_step s t \<Longrightarrow> lock_reach n t"

section \<open>The word as a number\<close>

text \<open>\<open>low\<close> is the pair of flag bits, \<open>high\<close> the number of readers.\<close>

definition low :: "u32 \<Rightarrow> nat" where "low b = unat b mod 4"
definition high :: "u32 \<Rightarrow> nat" where "high b = unat b div 4"

lemma bits_number: "unat b = 4 * high b + low b"
  by (simp add: low_def high_def)

lemma low_less: "low b < 4"
  by (simp add: low_def)

lemma high_less: "high b < 2 ^ 30"
proof -
  have "unat b < 2 ^ LENGTH(32)" by (rule unsigned_less)
  then show ?thesis by (simp add: high_def)
qed

lemma bits_of_number:
  assumes "unat b = 4 * h + l" "l < 4"
  shows "high b = h \<and> low b = l"
  using assms by (simp add: low_def high_def)

lemma and_flags_zero_iff: "b AND 3 = 0 \<longleftrightarrow> low b = 0"
proof -
  have "b AND 3 = take_bit 2 b" by (simp add: take_bit_eq_mask mask_numeral)
  then have "unat (b AND 3) = take_bit 2 (unat b)" by (simp only: unsigned_take_bit_eq)
  then have "unat (b AND 3) = low b" by (simp add: take_bit_eq_mod low_def)
  then show ?thesis using unat_eq_0 by metis
qed

lemma unat_add_reader:
  assumes "high b + 1 < 2 ^ 30"
  shows "unat (b + 4) = 4 * (high b + 1) + low b"
  using assms bits_number[of b] low_less[of b] by (subst unat_word_ariths) simp

lemma unat_sub:
  assumes "k \<le> unat b" "k < 2 ^ 32"
  shows "unat (b + - word_of_nat k :: u32) = unat b - k"
proof -
  have "unat (word_of_nat k :: u32) = k" using assms(2) by (simp add: unat_of_nat)
  then show ?thesis using unat_sub[of "word_of_nat k" b] assms(1) by (simp add: word_le_nat_alt)
qed

lemma unat_or_upgraded: "unat (b OR 2) = 4 * high b + (if low b < 2 then low b + 2 else low b)"
proof -
  have or: "unat (b OR 2) = unat b + (if bit b 1 then 0 else 2)"
  proof -
    have "unat (b OR 2) = unat b OR 2" by (simp add: unsigned_or_eq)
    also have "\<dots> = set_bit 1 (unat b)" by (simp add: set_bit_eq_or)
    also have "\<dots> = unat b + (if bit (unat b) 1 then 0 else 2)"
      by (simp add: set_bit_eq)
    finally show ?thesis by (simp add: bit_unsigned_iff)
  qed
  have "bit b 1 \<longleftrightarrow> bit (unat b) 1" by (simp add: bit_unsigned_iff)
  then have "bit b 1 \<longleftrightarrow> odd (unat b div 2)" by (simp only: bit_iff_odd) simp
  moreover have "unat b div 2 = 2 * high b + low b div 2"
    using bits_number[of b] by simp
  ultimately have "bit b 1 \<longleftrightarrow> odd (low b div 2)" by simp
  moreover have "low b = 0 \<or> low b = 1 \<or> low b = 2 \<or> low b = 3" using low_less[of b] by linarith
  ultimately show ?thesis using or bits_number[of b] by auto
qed

lemma unat_clear_flags: "unat (b AND NOT 3) = 4 * high b"
proof -
  have "b AND NOT 3 = b AND NOT (mask 2)" by (simp add: mask_numeral)
  moreover have "b AND NOT (mask 2) = push_bit 2 (drop_bit 2 b)"
  proof (rule bit_eqI)
    fix n
    have "Suc (Suc (n - 2)) = n" if "2 \<le> n" using that by simp
    then show "bit (b AND NOT (mask 2)) n = bit (push_bit 2 (drop_bit 2 b)) n"
      by (cases "2 \<le> n") (auto simp: bit_simps)
  qed
  moreover have "unat (push_bit 2 (drop_bit 2 b)) = 4 * unat (drop_bit 2 b)"
  proof -
    have d: "unat (drop_bit 2 b) = high b"
      by (simp add: unat_drop_bit_eq drop_bit_eq_div high_def unat_div)
    have "push_bit 2 (drop_bit 2 b) = 4 * drop_bit 2 b" by (simp add: push_bit_eq_mult)
    then show ?thesis using d high_less[of b] by (simp add: unat_word_ariths)
  qed
  ultimately show ?thesis by (simp add: unat_drop_bit_eq drop_bit_eq_div high_def unat_div)
qed


lemma clear_flags: "high (unlock b) = high b \<and> low (unlock b) = 0"
  using bits_of_number[of "unlock b" "high b" 0] unat_clear_flags[of b] by (simp add: unlock_def)

lemma or_upgraded: "high (b OR 2) = high b \<and> low (b OR 2) = (if low b < 2 then low b + 2 else low b)"
  using bits_of_number[OF unat_or_upgraded, of b] low_less[of b] by auto

lemma add_reader: "high b + 1 < 2 ^ 30 \<Longrightarrow> high (b + 4) = high b + 1 \<and> low (b + 4) = low b"
  using bits_of_number[OF unat_add_reader] low_less[of b] by blast

lemma sub_flag:
  assumes "k \<le> low b"
  shows "high (b + - word_of_nat k) = high b \<and> low (b + - word_of_nat k) = low b - k"
proof -
  have "unat (b + - word_of_nat k) = 4 * high b + (low b - k)"
    using unat_sub[of k b] assms bits_number[of b] low_less[of b] by simp
  then show ?thesis using bits_of_number low_less[of b] by (metis less_imp_diff_less)
qed

lemma sub_reader: "0 < high b \<Longrightarrow> high (b + - 4) = high b - 1 \<and> low (b + - 4) = low b"
proof -
  assume "0 < high b"
  then have "unat (b + - 4) = 4 * (high b - 1) + low b"
    using unat_sub[of 4 b] bits_number[of b] by simp
  then show ?thesis using bits_of_number low_less by blast
qed

lemma add_reader_sub_upgraded:
  assumes "2 \<le> low b" "high b + 1 < 2 ^ 30"
  shows "high (b + (4 - 2)) = high b + 1 \<and> low (b + (4 - 2)) = low b - 2"
proof -
  have "b + (4 - 2) = b + 4 + - word_of_nat 2" by simp
  then show ?thesis using sub_flag[of 2 "b + 4"] add_reader[OF assms(2)] assms(1) by metis
qed

lemma bits_zero: "b = 0 \<longleftrightarrow> high b = 0 \<and> low b = 0"
  using bits_number[of b] by (metis unat_eq_0 add_is_0 mult_is_0 zero_neq_numeral)

lemma high_low_consts [simp]: "high 1 = 0" "low 1 = 1" "high 2 = 0" "low 2 = 2"
  by (simp_all add: high_def low_def)

section \<open>The invariant\<close>

fun rd :: "role \<Rightarrow> nat" where
  "rd Backout = 1" | "rd Reader = 1" | "rd ToShared = 1" | "rd _ = 0"
fun fl :: "role \<Rightarrow> nat" where
  "fl Writer = 1" | "fl ToShared = 1" | "fl Upgrader = 2" | "fl ToUpgrade = 3" | "fl _ = 0"
fun ex :: "role \<Rightarrow> nat" where
  "ex Writer = 1" | "ex ToShared = 1" | "ex Upgrader = 1" | "ex ToUpgrade = 1" | "ex _ = 0"
fun wr :: "role \<Rightarrow> nat" where
  "wr Writer = 1" | "wr ToShared = 1" | "wr ToUpgrade = 1" | "wr _ = 0"
fun dr :: "role \<Rightarrow> nat" where
  "dr Reader = 1" | "dr _ = 0"

definition total :: "(role \<Rightarrow> nat) \<Rightarrow> role list \<Rightarrow> nat" where
  "total f rs = sum_list (map f rs)"

lemma total_le: "(\<And>r. f r \<le> c * g r) \<Longrightarrow> total f rs \<le> c * total g rs"
  by (induction rs) (simp_all add: total_def add_mono distrib_left)

lemma total_rest:
  assumes "i < length rs"
  shows "total f rs = f (rs ! i) + total f (rs[i := Idle]) - f Idle"
    and "f Idle = 0 \<Longrightarrow> total f (rs[i := r]) = f r + total f (rs[i := Idle])"
proof -
  have *: "total f (rs[i := r]) + f (rs ! i) = total f rs + f r" for r
    using assms by (induction rs arbitrary: i) (auto simp: total_def nth_Cons split: nat.splits)
  show "total f rs = f (rs ! i) + total f (rs[i := Idle]) - f Idle" using *[of Idle] by simp
  show "total f (rs[i := r]) = f r + total f (rs[i := Idle])" if "f Idle = 0"
    using *[of r] *[of Idle] that by simp
qed

definition counts_ok :: "u32 \<Rightarrow> role list \<Rightarrow> bool" where
  "counts_ok b rs \<longleftrightarrow>
     high b = total rd rs
     \<and> (low b = total fl rs \<or> total fl rs = 1 \<and> low b = 3)
     \<and> total ex rs \<le> 1 \<and> (0 < total wr rs \<longrightarrow> total dr rs = 0)"

definition lock_inv :: "locked \<Rightarrow> bool" where
  "lock_inv s \<longleftrightarrow> counts_ok (m_bits s) (roles s) \<and> length (roles s) < 2 ^ 28"

text \<open>How the counts of the other threads are related, whatever they do.\<close>

lemma total_relations:
  "total ex rs \<le> total fl rs" "total fl rs \<le> 3 * total ex rs" "total wr rs \<le> total ex rs"
  "total dr rs \<le> total rd rs" "total rd rs \<le> length rs"
proof -
  have r: "ex r \<le> 1 * fl r" "fl r \<le> 3 * ex r" "wr r \<le> 1 * ex r" "dr r \<le> 1 * rd r" for r
    by (cases r; simp)+
  show "total ex rs \<le> total fl rs" using total_le[of ex 1 fl rs] r(1) by simp
  show "total fl rs \<le> 3 * total ex rs" using total_le[of fl 3 ex rs] r(2) by simp
  show "total wr rs \<le> total ex rs" using total_le[of wr 1 ex rs] r(3) by simp
  show "total dr rs \<le> total rd rs" using total_le[of dr 1 rd rs] r(4) by simp
  show "total rd rs \<le> length rs"
  proof (induction rs)
    case (Cons r rs)
    have "rd r \<le> 1" by (cases r) auto
    then show ?case using Cons by (simp add: total_def)
  qed (simp add: total_def)
qed

lemma counts_ok_replace:
  assumes "i < length rs"
  shows "counts_ok b (rs[i := r]) \<longleftrightarrow>
     high b = rd r + total rd (rs[i := Idle])
     \<and> (low b = fl r + total fl (rs[i := Idle]) \<or> fl r + total fl (rs[i := Idle]) = 1 \<and> low b = 3)
     \<and> ex r + total ex (rs[i := Idle]) \<le> 1
     \<and> (0 < wr r + total wr (rs[i := Idle]) \<longrightarrow> dr r + total dr (rs[i := Idle]) = 0)"
proof -
  have t: "total f (rs[i := r]) = f r + total f (rs[i := Idle])" if "f Idle = 0" for f
    using total_rest(2)[where f = f, OF assms] that by blast
  show ?thesis
    unfolding counts_ok_def t[of rd, simplified] t[of fl, simplified] t[of ex, simplified]
      t[of wr, simplified] t[of dr, simplified] by (rule refl)
qed

lemma counts_ok_at:
  assumes "i < length rs" "rs ! i = r"
  shows "counts_ok b rs \<longleftrightarrow> counts_ok b (rs[i := r])"
  using assms list_update_id[of rs i] by simp

text \<open>
  One lemma for all operations: the word and the role of thread \<open>i\<close> change together, the
  other threads stay; \<open>R F E W D\<close> stand for their counts.
\<close>

lemma counts_ok_step:
  assumes "counts_ok b rs" "i < length rs" "rs ! i = r" "length rs < 2 ^ 28"
    and "\<And>R F E W D. \<lbrakk>E \<le> F; F \<le> 3 * E; W \<le> E; D \<le> R; R + 1 < 2 ^ 29;
        high b = rd r + R \<and> (low b = fl r + F \<or> fl r + F = 1 \<and> low b = 3) \<and> ex r + E \<le> 1
        \<and> (0 < wr r + W \<longrightarrow> dr r + D = 0)\<rbrakk> \<Longrightarrow>
      high b' = rd r' + R \<and> (low b' = fl r' + F \<or> fl r' + F = 1 \<and> low b' = 3)
      \<and> ex r' + E \<le> 1 \<and> (0 < wr r' + W \<longrightarrow> dr r' + D = 0)"
  shows "counts_ok b' (rs[i := r'])"
proof -
  let ?o = "rs[i := Idle]"
  note old = assms(1)[unfolded counts_ok_at[OF assms(2,3)] counts_ok_replace[OF assms(2)]]
  have "total rd ?o + 1 < 2 ^ 29" using total_relations(5)[of ?o] assms(4) by simp
  then show ?thesis
    unfolding counts_ok_replace[OF assms(2)]
    by (rule assms(5)[OF total_relations(1-4)[of ?o] _ old])
qed

named_theorems lock_bits

lemmas [lock_bits] = try_lock_def backout_shared_def unlock_shared_def try_lock_upgrade_def
  unlock_upgrade_def try_unlock_upgrade_and_lock_def unlock_upgrade_and_lock_shared_def
  unlock_and_lock_shared_1_def unlock_and_lock_shared_2_def unlock_and_lock_upgrade_1_def
  unlock_and_lock_upgrade_2_def try_lock_shared_def

lemma lock_ops_counts:
  assumes ok: "counts_ok b rs" and i: "i < length rs" and n: "length rs < 2 ^ 28"
  shows "rs ! i = Idle \<Longrightarrow> counts_ok (snd (try_lock b)) (rs[i := if fst (try_lock b) then Writer else Idle])"
    and "rs ! i = Idle \<Longrightarrow>
      counts_ok (snd (try_lock_shared b)) (rs[i := if fst (try_lock_shared b) then Reader else Backout])"
    and "rs ! i = Idle \<Longrightarrow>
      counts_ok (snd (try_lock_upgrade b)) (rs[i := if fst (try_lock_upgrade b) then Upgrader else Idle])"
    and "rs ! i = Backout \<Longrightarrow> counts_ok (backout_shared b) (rs[i := Idle])"
    and "rs ! i = Reader \<Longrightarrow> counts_ok (unlock_shared b) (rs[i := Idle])"
    and "rs ! i = Upgrader \<Longrightarrow> counts_ok (unlock_upgrade b) (rs[i := Idle])"
    and "rs ! i = Upgrader \<Longrightarrow> counts_ok (unlock_upgrade_and_lock_shared b) (rs[i := Reader])"
    and "rs ! i = Upgrader \<Longrightarrow>
      counts_ok (snd (try_unlock_upgrade_and_lock b))
        (rs[i := if fst (try_unlock_upgrade_and_lock b) then Writer else Upgrader])"
    and "rs ! i = Writer \<Longrightarrow> counts_ok (unlock b) (rs[i := Idle])"
    and "rs ! i = Writer \<Longrightarrow> counts_ok (unlock_and_lock_shared_1 b) (rs[i := ToShared])"
    and "rs ! i = ToShared \<Longrightarrow> counts_ok (unlock_and_lock_shared_2 b) (rs[i := Reader])"
    and "rs ! i = Writer \<Longrightarrow> counts_ok (unlock_and_lock_upgrade_1 b) (rs[i := ToUpgrade])"
    and "rs ! i = ToUpgrade \<Longrightarrow> counts_ok (unlock_and_lock_upgrade_2 b) (rs[i := Upgrader])"
proof -
  note step = counts_ok_step[OF ok i _ n]
  show "counts_ok (snd (try_lock b)) (rs[i := if fst (try_lock b) then Writer else Idle])" if "rs ! i = Idle"
    by (rule step[OF that]) (use bits_zero[of b] in \<open>auto simp: lock_bits\<close>)
  show "counts_ok (backout_shared b) (rs[i := Idle])" if "rs ! i = Backout"
    by (rule step[OF that]) (use sub_reader[of b] in \<open>simp add: lock_bits\<close>)
  show "counts_ok (unlock_shared b) (rs[i := Idle])" if "rs ! i = Reader"
    by (rule step[OF that]) (use sub_reader[of b] in \<open>simp add: lock_bits\<close>)
  show "counts_ok (unlock b) (rs[i := Idle])" if "rs ! i = Writer"
    by (rule step[OF that]) (use clear_flags[of b] in auto)
  show "counts_ok (unlock_and_lock_shared_1 b) (rs[i := ToShared])" if "rs ! i = Writer"
    by (rule step[OF that]) (use add_reader[of b] in \<open>auto simp: lock_bits\<close>)
  show "counts_ok (unlock_and_lock_shared_2 b) (rs[i := Reader])" if "rs ! i = ToShared"
    by (rule step[OF that]) (use clear_flags[of b] in \<open>auto simp: lock_bits\<close>)
  show "counts_ok (snd (try_lock_shared b)) (rs[i := if fst (try_lock_shared b) then Reader else Backout])"
    if "rs ! i = Idle"
    by (rule step[OF that])
      (use add_reader[of b] and_flags_zero_iff[of b] in \<open>auto simp: lock_bits\<close>)
  show "counts_ok (snd (try_lock_upgrade b)) (rs[i := if fst (try_lock_upgrade b) then Upgrader else Idle])"
    if "rs ! i = Idle"
    by (rule step[OF that])
      (use or_upgraded[of b] and_flags_zero_iff[of b] low_less[of b] in \<open>auto simp: lock_bits split: if_splits\<close>)
  show "counts_ok (unlock_upgrade b) (rs[i := Idle])" if "rs ! i = Upgrader"
    by (rule step[OF that]) (use sub_flag[of 2 b] in \<open>auto simp: lock_bits\<close>)
  show "counts_ok (unlock_upgrade_and_lock_shared b) (rs[i := Reader])" if "rs ! i = Upgrader"
    by (rule step[OF that]) (use add_reader_sub_upgraded[of b] in \<open>auto simp: lock_bits\<close>)
  show "counts_ok (snd (try_unlock_upgrade_and_lock b))
      (rs[i := if fst (try_unlock_upgrade_and_lock b) then Writer else Upgrader])" if "rs ! i = Upgrader"
    by (rule step[OF that]) (auto simp: lock_bits)
  show "counts_ok (unlock_and_lock_upgrade_1 b) (rs[i := ToUpgrade])" if "rs ! i = Writer"
    by (rule step[OF that]) (use or_upgraded[of b] in \<open>auto simp: lock_bits\<close>)
  show "counts_ok (unlock_and_lock_upgrade_2 b) (rs[i := Upgrader])" if "rs ! i = ToUpgrade"
    by (rule step[OF that]) (use sub_flag[of 1 b] in \<open>auto simp: lock_bits\<close>)
qed

lemma lock_step_inv:
  assumes "lock_step s t" "lock_inv s"
  shows "lock_inv t"
proof -
  have ok: "counts_ok (m_bits s) (roles s)" and n: "length (roles s) < 2 ^ 28"
    using assms(2) by (auto simp: lock_inv_def)
  have inv: "lock_inv (set_role i r b s)" if "counts_ok b ((roles s)[i := r])" for i r b
    using that n by (simp add: lock_inv_def set_role_def)
  note ops = lock_ops_counts[OF ok _ n]
  from assms(1) show ?thesis
  proof cases
    case (1 i okay b)
    then show ?thesis using ops(1)[of i] inv by simp
  next
    case (2 i okay b)
    then show ?thesis using ops(2)[of i] inv by simp
  next
    case (3 i)
    then show ?thesis using ops(4)[of i] inv by simp
  next
    case (4 i okay b)
    then show ?thesis using ops(3)[of i] inv by simp
  next
    case (5 i okay b)
    then show ?thesis using ops(8)[of i] inv by simp
  next
    case (6 i)
    then show ?thesis using ops(5)[of i] inv by simp
  next
    case (7 i)
    then show ?thesis using ops(6)[of i] inv by simp
  next
    case (8 i)
    then show ?thesis using ops(7)[of i] inv by simp
  next
    case (9 i)
    then show ?thesis using ops(9)[of i] inv by simp
  next
    case (10 i)
    then show ?thesis using ops(10)[of i] inv by simp
  next
    case (11 i)
    then show ?thesis using ops(11)[of i] inv by simp
  next
    case (12 i)
    then show ?thesis using ops(12)[of i] inv by simp
  next
    case (13 i)
    then show ?thesis using ops(13)[of i] inv by simp
  qed
qed

lemma lock_reach_inv:
  assumes "lock_reach n s" "n < 2 ^ 28"
  shows "lock_inv s"
  using assms
proof (induction rule: lock_reach.induct)
  case lock_reach_init
  have "total f (replicate n Idle) = n * f Idle" for f by (simp add: total_def sum_list_replicate)
  then show ?case using lock_reach_init by (simp add: lock_inv_def counts_ok_def high_def low_def)
qed (auto intro: lock_step_inv)

lemma total_two:
  assumes "i < length rs" "j < length rs" "i \<noteq> j"
  shows "f (rs ! i) + f (rs ! j) \<le> total f rs"
proof -
  have "total f rs = (\<Sum>k<length rs. f (rs ! k))"
    by (simp add: total_def sum_list_sum_nth atLeast0LessThan)
  also have "\<dots> \<ge> (\<Sum>k\<in>{i, j}. f (rs ! k))"
    using assms by (intro sum_mono2) auto
  finally show ?thesis using assms(3) by simp
qed

definition writing :: "role \<Rightarrow> bool" where
  "writing r \<longleftrightarrow> r \<in> {Writer, ToShared, ToUpgrade}"

section \<open>Properties\<close>

text \<open>
  C11 Mutual exclusion: in every interleaving of fewer than \<open>2 ^ 28\<close> threads that use
  the lock, while a thread is a writer no other thread is a writer, a reader or an upgradable
  reader, and there is never more than one upgradable reader.
\<close>

theorem rwlock_exclusion:
  assumes "lock_reach n s" "n < 2 ^ 28" "i < length (roles s)" "j < length (roles s)" "i \<noteq> j"
  shows "(writing (roles s ! i) \<longrightarrow> \<not> writing (roles s ! j) \<and> roles s ! j \<notin> {Reader, Upgrader})
    \<and> (roles s ! i = Upgrader \<longrightarrow> roles s ! j \<noteq> Upgrader)"
proof -
  have c: "total ex (roles s) \<le> 1" "0 < total wr (roles s) \<longrightarrow> total dr (roles s) = 0"
    using lock_reach_inv[OF assms(1,2)] by (auto simp: lock_inv_def counts_ok_def)
  note t = total_two[OF assms(3-5)]
  have "ex (roles s ! i) + ex (roles s ! j) \<le> 1" using t[of ex] c(1) by linarith
  moreover have "wr (roles s ! i) = 0 \<or> dr (roles s ! j) = 0" using t[of wr] t[of dr] c(2) by linarith
  ultimately show ?thesis by (auto simp: writing_def)
qed

text \<open>
  The flag bits do not get stuck: whenever no thread is inside the lock or backing out, the
  word is 0 again, so that every kind of attempt succeeds.
\<close>

theorem rwlock_released:
  assumes "lock_reach n s" "n < 2 ^ 28" "set (roles s) \<subseteq> {Idle}"
  shows "m_bits s = 0 \<and> fst (try_lock (m_bits s)) \<and> fst (try_lock_shared (m_bits s))
    \<and> fst (try_lock_upgrade (m_bits s))"
proof -
  have "total f (roles s) = 0" if "f Idle = 0" for f
    using assms(3) that by (induction "roles s") (auto simp: total_def)
  then have "m_bits s = 0"
    using lock_reach_inv[OF assms(1,2)] by (simp add: lock_inv_def counts_ok_def bits_zero)
  then show ?thesis by (simp add: lock_bits)
qed


lemma one_writer_reachable: "lock_reach 2 \<lparr>m_bits = 1, roles = [Writer, Idle]\<rparr>"
proof -
  have "lock_step \<lparr>m_bits = 0, roles = replicate 2 Idle\<rparr>
      (set_role 0 (if True then Writer else Idle) 1 \<lparr>m_bits = 0, roles = replicate 2 Idle\<rparr>)"
    by (rule lock_step.intros(1)) (auto simp: try_lock_def)
  then show ?thesis
    using lock_reach_step[OF lock_reach_init] by (simp add: set_role_def numeral_2_eq_2)
qed

lemma writer_left_reachable: "lock_reach 2 \<lparr>m_bits = 0, roles = [Idle, Idle]\<rparr>"
proof -
  have "lock_step \<lparr>m_bits = 1, roles = [Writer, Idle]\<rparr>
      (set_role 0 Idle (unlock 1) \<lparr>m_bits = 1, roles = [Writer, Idle]\<rparr>)"
    using lock_step.intros(9)[of 0 "\<lparr>m_bits = 1, roles = [Writer, Idle]\<rparr>"] by simp
  then show ?thesis
    using lock_reach_step[OF one_writer_reachable] by (simp add: set_role_def unlock_def)
qed

theorem rwlock_exclusion_witness:
  "\<exists>s. lock_reach 2 s \<and> writing (roles s ! 0) \<and> \<not> writing (roles s ! 1) \<and> roles s ! 1 \<notin> {Reader, Upgrader}"
  using rwlock_exclusion[OF one_writer_reachable, of 0 1] one_writer_reachable
  by (intro exI[of _ "\<lparr>m_bits = 1, roles = [Writer, Idle]\<rparr>"]) (simp add: writing_def)

theorem rwlock_released_witness:
  "\<exists>s. lock_reach 2 s \<and> roles s = [Idle, Idle] \<and> fst (try_lock_upgrade (m_bits s))"
  using rwlock_released[OF writer_left_reachable] writer_left_reachable
  by (intro exI[of _ "\<lparr>m_bits = 0, roles = [Idle, Idle]\<rparr>"]) simp

end
