(* ===== verification/Sockets.thy ===== *)
theory Sockets
  imports FP_Prelude
begin

text \<open>
  The socket base class (\<^verbatim>\<open>src/fastpath/transport/socket/Socket.cpp\<close>). The operating system
  is part of the state: the results its next calls of \<^verbatim>\<open>recv\<close>, \<^verbatim>\<open>send\<close> and \<^verbatim>\<open>close\<close> will
  return are listed in the record, and so are the bytes it has accepted. When a list runs
  out, \<^verbatim>\<open>recv\<close> has no data (\<^verbatim>\<open>EAGAIN\<close>), \<^verbatim>\<open>send\<close> accepts everything and \<^verbatim>\<open>close\<close> succeeds.
\<close>

datatype recv_result = RecvData "byte list" | RecvEof | RecvAgain | RecvError

datatype ReadResult = MoreData | NoData | Closed

record socket =
  m_socket :: int
  m_connected :: bool
  m_has_handler :: bool                \<comment> \<open>\<open>m_handler\<close> is set\<close>
  sk_notified :: "bool list"           \<comment> \<open>the calls of \<open>m_handler\<close>\<close>
  sk_incoming :: "recv_result list"    \<comment> \<open>what \<open>::recv\<close> will return\<close>
  sk_sends :: "int list"               \<comment> \<open>what \<open>::send\<close> and \<open>writev\<close> will return\<close>
  sk_closes :: "bool list"             \<comment> \<open>whether \<open>::close\<close> will succeed\<close>
  sk_sent :: "byte list"               \<comment> \<open>bytes the system has accepted\<close>

definition socket_new :: "int \<Rightarrow> bool \<Rightarrow> socket" where
  "socket_new fd connected =
    \<lparr>m_socket = fd, m_connected = connected, m_has_handler = False, sk_notified = [],
     sk_incoming = [], sk_sends = [], sk_closes = [], sk_sent = []\<rparr>"

definition socket_move :: "socket \<Rightarrow> socket \<times> socket" where
  "socket_move other = (other, other\<lparr>m_connected := False, m_has_handler := False\<rparr>)"

definition setConnectionStateHandler :: "bool \<Rightarrow> socket \<Rightarrow> socket" where
  "setConnectionStateHandler h s = s\<lparr>m_has_handler := h\<rparr>"

definition setSocket :: "int \<Rightarrow> bool \<Rightarrow> socket \<Rightarrow> socket" where
  "setSocket fd connected s = s\<lparr>m_socket := fd, m_connected := connected\<rparr>"

definition disconnect :: "socket \<Rightarrow> bool \<times> socket" where
  "disconnect s =
    (if m_connected s then
       let ok = (case sk_closes s of [] \<Rightarrow> True | c # _ \<Rightarrow> c);
           s = s\<lparr>sk_closes := tl (sk_closes s)\<rparr>
       in if ok then (True, s\<lparr>m_connected := False,
                             sk_notified := sk_notified s @ (if m_has_handler s then [False] else [])\<rparr>)
          else (False, s)
     else (False, s))"

text \<open>
  \<^verbatim>\<open>send(data, length)\<close>: \<open>arr\<close> is the array the data points into and \<open>off\<close> the index it
  points to. The system may read all of the \<open>len\<close> bytes it is offered. The recursive call of
  the source passes \<^verbatim>\<open>&data[length]\<close>. The recursion takes one result per call.
\<close>

fun send_loop :: "int list \<Rightarrow> byte list \<Rightarrow> nat \<Rightarrow> nat \<Rightarrow> socket \<Rightarrow> (bool \<times> socket) outcome" where
  "send_loop results arr off len s =
    (if m_connected s then
       (if off + len > length arr then Inl OutOfBounds
        else case results of
          [] \<Rightarrow> Inr (True, s\<lparr>sk_sends := [], sk_sent := sk_sent s @ take len (drop off arr)\<rparr>)
        | result # results \<Rightarrow>
            if result = int len
            then Inr (True, s\<lparr>sk_sends := results, sk_sent := sk_sent s @ take len (drop off arr)\<rparr>)
            else if result \<ge> 0
            then send_loop results arr (off + len) (len - nat result)
                   (s\<lparr>sk_sent := sk_sent s @ take (nat result) (drop off arr)\<rparr>)
            else Inr (False, snd (disconnect (s\<lparr>sk_sends := results\<rparr>))))
     else Inr (False, snd (disconnect s)))"

declare send_loop.simps [simp del]

definition socket_send :: "byte list \<Rightarrow> socket \<Rightarrow> (bool \<times> socket) outcome" where
  "socket_send data s = send_loop (sk_sends s) data 0 (length data) s"

text \<open>
  The gathering \<^verbatim>\<open>send(vec, count)\<close>: after one \<^verbatim>\<open>writev\<close> the loop walks over the elements
  that were consumed; \<open>consume_vec\<close> gives the elements left, or a fault when it walks past
  the end of the array. A negative result is converted to \<^verbatim>\<open>size_t\<close>.
\<close>

fun consume_vec :: "nat \<Rightarrow> byte list list \<Rightarrow> byte list list outcome" where
  "consume_vec bytes_to_consume vec =
    (if bytes_to_consume > 0 then
       (case vec of
          [] \<Rightarrow> Inl OutOfBounds
        | v # vs \<Rightarrow>
            if bytes_to_consume \<ge> length v then consume_vec (bytes_to_consume - length v) vs
            else Inr (drop bytes_to_consume v # vs))
     else Inr vec)"

definition send_vec :: "byte list list \<Rightarrow> socket \<Rightarrow> (bool \<times> byte list list \<times> socket) outcome" where
  "send_vec vec s =
    (if m_connected s then
       (let result = (case sk_sends s of [] \<Rightarrow> int (length (concat vec)) | r # _ \<Rightarrow> r);
            s = s\<lparr>sk_sends := tl (sk_sends s),
                  sk_sent := sk_sent s @ take (nat result) (concat vec)\<rparr>
        in if result \<noteq> 0
           then bind_outcome (consume_vec (unat (word_of_int result :: size_t)) vec) (\<lambda>rest.
                Inr (True, rest, s))
           else Inr (False, vec, snd (disconnect s)))
     else Inr (False, vec, snd (disconnect s)))"

text \<open>
  \<^verbatim>\<open>read(data, maxLength, length)\<close>: the result and the bytes stored through \<^verbatim>\<open>data\<close>. What
  \<^verbatim>\<open>recv\<close> returns is at most \<^verbatim>\<open>maxLength\<close> bytes; the rest stays queued.
\<close>

definition socket_read :: "nat \<Rightarrow> socket \<Rightarrow> ReadResult \<times> byte list \<times> socket" where
  "socket_read maxLength s =
    (case sk_incoming s of
       [] \<Rightarrow> (NoData, [], s)
     | RecvAgain # rest \<Rightarrow> (NoData, [], s\<lparr>sk_incoming := rest\<rparr>)
     | RecvEof # rest \<Rightarrow> (Closed, [], snd (disconnect (s\<lparr>sk_incoming := rest\<rparr>)))
     | RecvError # rest \<Rightarrow> (Closed, [], snd (disconnect (s\<lparr>sk_incoming := rest\<rparr>)))
     | RecvData d # rest \<Rightarrow>
         (if d = [] then (Closed, [], snd (disconnect (s\<lparr>sk_incoming := rest\<rparr>)))
          else if length d \<le> maxLength then (MoreData, d, s\<lparr>sk_incoming := rest\<rparr>)
          else (MoreData, take maxLength d,
                s\<lparr>sk_incoming := RecvData (drop maxLength d) # rest\<rparr>)))"

text \<open>\<^verbatim>\<open>read(std::string &)\<close> appends what one read of 1024 bytes returned.\<close>

definition read_string :: "byte list \<Rightarrow> socket \<Rightarrow> ReadResult \<times> byte list \<times> socket" where
  "read_string data s =
    (let (r, d, s) = socket_read 1024 s in (r, if r = MoreData then data @ d else data, s))"

lemma disconnect_simps [event_simps]:
  "sk_incoming (snd (disconnect s)) = sk_incoming s" "sk_sent (snd (disconnect s)) = sk_sent s"
  by (simp_all add: disconnect_def Let_def)

lemma send_loop_incoming: "send_loop results arr off len s = Inr (ok, s') \<Longrightarrow> sk_incoming s' = sk_incoming s"
proof (induction results arr off len s arbitrary: ok s' rule: send_loop.induct)
  case (1 results arr off len s)
  then show ?case
    by (subst (asm) (2) send_loop.simps)
      (auto simp: event_simps split: if_splits list.splits)
qed

lemma consume_vec_too_much: "length (concat vec) < n \<Longrightarrow> consume_vec n vec = Inl OutOfBounds"
proof (induction n vec rule: consume_vec.induct)
  case (1 n vec)
  then show ?case by (cases vec) auto
qed

lemma consume_vec_enough:
  "n \<le> length (concat vec) \<Longrightarrow> \<exists>rest. consume_vec n vec = Inr rest \<and> concat rest = drop n (concat vec)"
proof (induction n vec rule: consume_vec.induct)
  case (1 n vec)
  show ?case
  proof (cases "0 < n")
    case True
    then obtain v vs where v: "vec = v # vs" using 1(2) by (cases vec) auto
    show ?thesis
    proof (cases "length v \<le> n")
      case le: True
      then have "\<exists>rest. consume_vec (n - length v) vs = Inr rest \<and> concat rest = drop (n - length v) (concat vs)"
        using 1(1)[OF True v] 1(2) v by simp
      then show ?thesis using True le v by simp
    qed (use True v in simp)
  qed simp
qed

declare consume_vec.simps [simp del]

section \<open>Properties\<close>

text \<open>
  A \<^verbatim>\<open>send\<close> the system takes in one go puts exactly the data on the wire and reports success;
  one it refuses puts nothing on the wire, reports failure and disconnects when the close
  succeeds.
\<close>

theorem send_whole:
  assumes "m_connected s" "sk_sends s = r # rs" "r = int (length data) \<or> r < 0"
  shows "socket_send data s =
    (if r = int (length data)
     then Inr (True, s\<lparr>sk_sends := rs, sk_sent := sk_sent s @ data\<rparr>)
     else Inr (False, snd (disconnect (s\<lparr>sk_sends := rs\<rparr>))))"
  using assms by (auto simp: socket_send_def send_loop.simps)

text \<open>
  After a partial \<^verbatim>\<open>send\<close> the recursive call starts at the end of the data instead of behind
  the bytes that were sent: the rest of the data is not sent and the array is left.
\<close>

theorem send_partial_out_of_bounds:
  assumes "m_connected s" "sk_sends s = r # rs" "0 \<le> r" "r < int (length data)"
  shows "socket_send data s = Inl OutOfBounds"
  using assms
  by (simp add: socket_send_def send_loop.simps[of "r # rs"] send_loop.simps[of rs]) arith

text \<open>
  \<^verbatim>\<open>send(vec, count)\<close> treats a failed \<^verbatim>\<open>writev\<close> (result -1) as \<open>2 ^ 64 - 1\<close> bytes written and
  walks past the end of the vector, whatever it holds.
\<close>

theorem send_vec_failure:
  assumes "m_connected s" "sk_sends s = - 1 # rs" "length (concat vec) < 2 ^ 64 - 1"
  shows "send_vec vec s = Inl OutOfBounds"
proof -
  have "unat (word_of_int (- 1) :: size_t) = 2 ^ 64 - 1"
    by (simp add: unsigned_minus_1_eq_mask mask_eq_exp_minus_1)
  then show ?thesis using assms consume_vec_too_much[of vec "2 ^ 64 - 1"]
    by (simp only: send_vec_def Let_def) simp
qed

text \<open>
  When \<^verbatim>\<open>writev\<close> takes only some of the bytes, \<^verbatim>\<open>send(vec, count)\<close> reports success although
  the rest, still described by the vector, has not been sent.
\<close>

theorem send_vec_partial:
  assumes "m_connected s" "sk_sends s = int n # rs" "0 < n" "n < length (concat vec)" "n < 2 ^ 64"
  shows "\<exists>rest s'. send_vec vec s = Inr (True, rest, s') \<and> sk_sent s' = sk_sent s @ take n (concat vec)
    \<and> concat rest = drop n (concat vec) \<and> concat rest \<noteq> []"
proof -
  have "unat (word_of_int (int n) :: size_t) = n" using assms(5) by simp
  moreover obtain rest where "consume_vec n vec = Inr rest" "concat rest = drop n (concat vec)"
    using consume_vec_enough[of n vec] assms(4) by auto
  moreover have "drop n (concat vec) \<noteq> []" using assms(4) by simp
  ultimately show ?thesis using assms
    by (simp add: send_vec_def Let_def del: concat_eq_Nil_conv drop_eq_Nil)
qed

section \<open>Witnesses\<close>

abbreviation demo_socket :: "int list \<Rightarrow> socket" where
  "demo_socket results \<equiv> (socket_new 3 True)\<lparr>sk_sends := results\<rparr>"

theorem send_whole_witness:
  "socket_send [1, 2, 3] (demo_socket [3]) = Inr (True, (demo_socket [])\<lparr>sk_sent := [1, 2, 3]\<rparr>)
   \<and> (\<exists>s. socket_send [1, 2, 3] (demo_socket [- 1]) = Inr (False, s) \<and> \<not> m_connected s)"
  using send_whole[of "demo_socket [3]" 3 "[]" "[1, 2, 3]"] send_whole[of "demo_socket [- 1]" "- 1" "[]" "[1, 2, 3]"]
  by (simp add: socket_new_def disconnect_def)

theorem send_partial_out_of_bounds_witness:
  "socket_send [1, 2, 3] (demo_socket [2]) = Inl OutOfBounds"
  by (rule send_partial_out_of_bounds[of _ 2 "[]"]) (simp_all add: socket_new_def)

theorem send_vec_failure_witness: "send_vec [[1], [2, 3]] (demo_socket [- 1]) = Inl OutOfBounds"
  by (rule send_vec_failure[of _ "[]"]) (simp_all add: socket_new_def)

theorem send_vec_partial_witness:
  "\<exists>rest s. send_vec [[1], [2, 3]] (demo_socket [2]) = Inr (True, rest, s) \<and> concat rest = [3]"
  using send_vec_partial[of "demo_socket [2]" 2 "[]" "[[1], [2, 3]]"] by (auto simp: socket_new_def)

end
