(* ===== verification/Framing.thy ===== *)
theory Framing
  imports Codec_Correct Message_Buffer Sockets
begin

text \<open>
  What the two receivers of the program share, the router's connection to a peer
  (\<^verbatim>\<open>tcp_peer_connection.cpp\<close>) and the client's transport (\<^verbatim>\<open>TCPTransport.cpp\<close>): a byte stream
  is the wire formats of whole messages followed by the beginning of one more, it arrives cut
  into reads, and what a read brings is put behind the unread bytes of a message buffer.
  The locale \<open>stream_receiver\<close> states what one round of a receiver does and derives what the
  whole loop does; it is interpreted on both.
\<close>

abbreviation MTU_SIZE :: nat where "MTU_SIZE \<equiv> 1500"

section \<open>Streams of messages\<close>

text \<open>The message the decoder hands over for a message that was sent.\<close>

definition delivered :: "message \<Rightarrow> message" where
  "delivered m =
    fold push_field (received_payload (m_payload m))
      (Message (m_hasAddressing Message_new) (m_flags m)
        (overwrite 0 (subject_string m @ [0]) (m_subject Message_new)) (m_payload Message_new) (m_keys Message_new))"

abbreviation wires :: "message list \<Rightarrow> byte list" where
  "wires ms \<equiv> concat (map wire_message ms)"

text \<open>A rest that is the beginning of a message and not all of it.\<close>

definition incomplete :: "byte list \<Rightarrow> bool" where
  "incomplete x \<longleftrightarrow> (\<exists>m y. wf_message m \<and> wire_message m = x @ y \<and> y \<noteq> [])"

lemma wire_message_pos: "0 < length (wire_message m)"
  by (simp add: length_wire_message)

lemma wire_message_head:
  "\<exists>rest. wire_message m = [1] @ le_bytes 8 (length (wire_message m) - 9) @ rest"
proof -
  let ?rest = "[m_flags m] @ le_bytes 4 0 @ le_bytes 2 (length (subject_string m) + 1)
     @ (subject_string m @ [0]) @ wire_base m"
  have "length (wire_message m) - 9 = length ?rest"
    by (simp add: length_wire_message MsgAddressing_size_def)
  then have "wire_message m = [1] @ le_bytes 8 (length (wire_message m) - 9) @ ?rest"
    by (simp add: wire_message_def Let_def del: le_bytes.simps)
  then show ?thesis by blast
qed

lemma incomplete_prefix: "incomplete (x @ y) \<Longrightarrow> incomplete x"
  unfolding incomplete_def by (metis append.assoc append_is_Nil_conv)

lemma stream_split:
  assumes "a @ b = wires ms @ x" "incomplete x" "\<forall>m \<in> set ms. wf_message m"
  shows "\<exists>ms1 ms2 y. ms = ms1 @ ms2 \<and> a = wires ms1 @ y \<and> y @ b = wires ms2 @ x \<and> incomplete y"
  using assms
proof (induction ms arbitrary: a)
  case Nil
  then show ?case using incomplete_prefix[of a b] by auto
next
  case (Cons m ms)
  have "a @ b = wire_message m @ (wires ms @ x)" using Cons.prems(1) by simp
  then consider us where "a = wire_message m @ us" "us @ b = wires ms @ x"
    | us where "wire_message m = a @ us" "b = us @ wires ms @ x" "us \<noteq> []"
    unfolding append_eq_append_conv2 by (metis append_Nil append_Nil2)
  then show ?case
  proof cases
    case 1
    obtain ms1 ms2 y where "ms = ms1 @ ms2" "us = wires ms1 @ y" "y @ b = wires ms2 @ x" "incomplete y"
      using Cons.IH[OF 1(2)] Cons.prems by auto
    then show ?thesis using 1(1) by (intro exI[of _ "m # ms1"] exI[of _ ms2] exI[of _ y]) simp
  next
    case 2
    then have "incomplete a" using Cons.prems(3) by (auto simp: incomplete_def)
    then show ?thesis using Cons.prems(1) by (intro exI[of _ "[]"] exI[of _ "m # ms"] exI[of _ a]) simp
  qed
qed

lemma incomplete_no_message:
  assumes "incomplete (wire_message m @ z)" "wf_message m"
  shows False
proof -
  obtain m' y where m': "wf_message m'" "wire_message m' = (wire_message m @ z) @ y" "y \<noteq> []"
    using assms(1) by (auto simp: incomplete_def)
  obtain a where a: "wire_message m = [1] @ le_bytes 8 (length (wire_message m) - 9) @ a"
    using wire_message_head by blast
  obtain a' where a': "wire_message m' = [1] @ le_bytes 8 (length (wire_message m') - 9) @ a'"
    using wire_message_head by blast
  have "take 8 (drop 1 (wire_message m')) = take 8 (drop 1 (wire_message m))"
    by (subst m'(2), subst (1 2) a) (simp del: le_bytes.simps)
  then have "le_bytes 8 (length (wire_message m') - 9) = le_bytes 8 (length (wire_message m) - 9)"
    by (subst (asm) a', subst (asm) a) (simp del: le_bytes.simps)
  then have "le_value (le_bytes 8 (length (wire_message m') - 9)) = le_value (le_bytes 8 (length (wire_message m) - 9))"
    by simp
  moreover have "length (wire_message n) - 9 < 256 ^ 8" "9 \<le> length (wire_message n)" if "wf_message n" for n
    using that by (simp_all add: length_wire_message MsgAddressing_size_def wf_message_def)
  ultimately have "length (wire_message m') = length (wire_message m)"
    using m'(1) assms(2) by (metis le_add_diff_inverse le_value_le_bytes_id)
  then show False using m'(2,3) by simp
qed

section \<open>Views of the buffer\<close>

text \<open>\<open>holds s bs\<close>: the unread part of the view is \<open>bs\<close>.\<close>

definition holds :: "byte_storage \<Rightarrow> byte list \<Rightarrow> bool" where
  "holds s bs \<longleftrightarrow> at s bs \<and> m_read_ptr s + length bs = m_storedLength s"

lemma mark_simps [simp]:
  "m_read_ptr (mark s) = m_read_ptr s" "m_bytes (mark s) = m_bytes s" "m_storedLength (mark s) = m_storedLength s"
  "m_mark_ptr (mark s) = m_read_ptr s" "at (mark s) bs = at s bs" "holds (mark s) bs = holds s bs"
  by (simp_all add: mark_def at_def holds_def)

lemma resetRead_advance [simp]: "resetRead (advanceRead n (mark s)) = mark s"
  by (simp add: resetRead_def advanceRead_def mark_def)

lemma resetRead_mark [simp]: "resetRead (mark s) = mark s"
  by (simp add: resetRead_def mark_def)

lemma holds_advance: "holds s (xs @ ys) \<Longrightarrow> holds (advanceRead (length xs) s) ys"
  by (auto simp: holds_def)

lemma holds_prefix: "holds s (xs @ ys) \<Longrightarrow> at s xs"
  by (simp add: holds_def)

lemma have_complete_head:
  assumes "at s ([1] @ le_bytes 8 (n - 9))" "9 \<le> n" "n < 2 ^ 62" "16 \<le> remainingReadLength s"
    and "remainingReadLength s < n"
  shows "have_complete_message s = Inr (IncompleteMessage, n)"
proof -
  have a: "at s [1]" "at (advanceRead 1 s) (le_bytes 8 (n - 9))"
    using assms(1) unfolding at_append by auto
  have "peekScalar 0 1 s = Inr 1" using at_peekScalar[of 0 s 1 1] a(1) by simp
  moreover have "peekScalar 1 8 s = Inr (n - 9)"
    using at_peekScalar[OF a(2)] assms(3) by simp
  moreover have "unat (word_of_nat (n - 9) + word_of_nat 9 :: size_t) = n"
  proof -
    have "(word_of_nat (n - 9) + word_of_nat 9 :: size_t) = word_of_nat (n - 9 + 9)"
      by (simp only: of_nat_add)
    also have "n - 9 + 9 = n" using assms(2) by simp
    finally show ?thesis using assms(3) by simp
  qed
  ultimately show ?thesis using assms(4,5)
    by (simp add: have_complete_message_def MsgAddressing_size_def addressing_flag_def
        msg_length_offset_def Let_def del: One_nat_def)
qed

lemma incomplete_status:
  assumes h: "holds s x" and i: "incomplete x"
  shows "\<exists>n. have_complete_message s = Inr (IncompleteMessage, n)"
proof -
  obtain m y where m: "wf_message m" "wire_message m = x @ y" "y \<noteq> []"
    using i by (auto simp: incomplete_def)
  let ?L = "length (wire_message m)"
  have rem: "remainingReadLength s = length x" and ax: "at s x"
    using h by (auto simp: holds_def at_def storage_simps)
  have L: "9 \<le> ?L" "?L < 2 ^ 62"
    using m(1) by (simp_all add: length_wire_message MsgAddressing_size_def wf_message_def)
  show ?thesis
  proof (cases "length x < 16")
    case True
    then show ?thesis using rem by (simp add: have_complete_message_def MsgAddressing_size_def)
  next
    case False
    obtain rest where "wire_message m = ([1] @ le_bytes 8 (?L - 9)) @ rest"
      using wire_message_head[of m] by auto
    then have "x @ y = ([1] @ le_bytes 8 (?L - 9)) @ rest" by (subst m(2)[symmetric])
    moreover have "length ([1] @ le_bytes 8 (?L - 9)) \<le> length x"
      using False by (simp del: le_bytes.simps)
    ultimately obtain x' where x: "x = ([1] @ le_bytes 8 (?L - 9)) @ x'"
      by (metis append_eq_append_conv_if append_eq_conv_conj)
    have "at s ([1] @ le_bytes 8 (?L - 9))" using ax unfolding x at_append by blast
    then show ?thesis
      using have_complete_head[OF _ L] False rem m(2,3) by (metis length_append length_greater_0_conv
          less_add_same_cancel1 not_less)
  qed
qed

section \<open>Reading into the buffer\<close>

abbreviation capacity :: "message_buffer \<Rightarrow> nat" where
  "capacity b \<equiv> m_capacity (mb_storage b)"

lemma next_pow2_upper: "0 < n \<Longrightarrow> n \<le> 2 ^ 31 \<Longrightarrow> unat (next_pow2 (word_of_nat n)) \<le> 2 ^ 31"
proof -
  assume n: "0 < n" "n \<le> 2 ^ 31"
  then obtain k where "unat (next_pow2 (word_of_nat n)) = 2 ^ k" "\<forall>j. n \<le> 2 ^ j \<longrightarrow> k \<le> j"
    using next_pow2_least_power[of n] by auto
  moreover have "k \<le> 31" using calculation n by blast
  ultimately show ?thesis using power_increasing[of k 31 "2::nat"] by simp
qed

lemma erase_capacity:
  "erase_front n b = Inr b' \<Longrightarrow> capacity b' = capacity b"
  "erase_back n b = Inr b' \<Longrightarrow> capacity b' = capacity b"
  by (auto simp: erase_front_def erase_back_def clear_storage_def truncate_storage_def split: if_splits)

lemma allocate_capacity:
  assumes "m_capacity s \<le> 2 ^ 31" "m_storedLength s \<le> 2 ^ 30"
  shows "m_capacity (snd (allocate MTU_SIZE s)) \<le> 2 ^ 31"
proof (cases "m_storedLength s + MTU_SIZE > m_capacity s")
  case True
  then have "m_capacity s + MTU_SIZE \<le> 2 ^ 31" using assms(2) by simp
  then show ?thesis
    using True next_pow2_upper[of "m_capacity s + MTU_SIZE"]
    by (simp add: allocate_def Let_def allocateStorage_def)
qed (use assms in \<open>simp add: allocate_def Let_def\<close>)

lemma buffer_allocate_capacity:
  assumes "wf_buffer b" "capacity b \<le> 2 ^ 31" "length (visible b) \<le> 2 ^ 30"
  shows "capacity (snd (buffer_allocate MTU_SIZE b)) \<le> 2 ^ 31"
proof -
  let ?st = "mb_storage b"
  have v: "m_storedLength ?st - m_startIndex b \<le> 2 ^ 30"
    using assms(1,3) length_content[of ?st] by (simp add: visible_def wf_buffer_def)
  show ?thesis
  proof (cases "m_startIndex b \<noteq> 0 \<and> m_storedLength ?st + MTU_SIZE > m_capacity ?st")
    case True
    then show ?thesis
      using allocate_capacity[of "truncate_storage (m_storedLength ?st - m_startIndex b)
        (?st\<lparr>m_bytes := overwrite 0 (take (m_storedLength ?st - m_startIndex b)
           (drop (m_startIndex b) (m_bytes ?st))) (m_bytes ?st)\<rparr>)"] assms(2) v
      by (simp add: buffer_allocate_def Let_def truncate_storage_def split_beta)
  next
    case False
    then show ?thesis
    proof (cases "m_storedLength ?st + MTU_SIZE > m_capacity ?st")
      case True
      then show ?thesis using False v assms(2) allocate_capacity[of ?st]
        by (simp add: buffer_allocate_def Let_def split_beta)
    next
      case f2: False
      then show ?thesis using False assms(2)
        by (simp add: buffer_allocate_def Let_def split_beta allocate_no_grow)
    qed
  qed
qed

lemma overwrite_visible:
  assumes "wf_buffer b" "p = m_startIndex b + n" "n + length d \<le> length (visible b)"
  defines "b' \<equiv> b\<lparr>mb_storage := (mb_storage b)\<lparr>m_bytes := overwrite p d (m_bytes (mb_storage b))\<rparr>\<rparr>"
  shows "wf_buffer b'" "visible b' = overwrite n d (visible b)" "capacity b' = capacity b"
proof -
  let ?st = "mb_storage b"
  have wf: "wf_storage ?st" "m_startIndex b \<le> m_storedLength ?st" using assms(1) by (auto simp: wf_buffer_def)
  have lv: "length (visible b) = m_storedLength ?st - m_startIndex b"
    using wf length_content[OF wf(1)] by (simp add: visible_def)
  have fits: "p + length d \<le> m_storedLength ?st" using assms(2,3) lv wf(2) by simp
  then have len: "length (overwrite p d (m_bytes ?st)) = length (m_bytes ?st)"
    using wf(1) by (intro length_overwrite) (simp add: wf_storage_def)
  then show "wf_buffer b'" using wf by (simp add: b'_def wf_buffer_def wf_storage_def)
  show "capacity b' = capacity b" by (simp add: b'_def)
  have "content (mb_storage b') = overwrite p d (content ?st)"
    using fits wf(1) overwrite_take[of p d "m_storedLength ?st" "m_bytes ?st"]
    by (simp add: b'_def content_def wf_storage_def)
  moreover have "drop (m_startIndex b) (overwrite (m_startIndex b + n) d c) = overwrite n d (drop (m_startIndex b) c)"
    if "m_startIndex b + n \<le> length c" for c :: "byte list"
    using that by (simp add: overwrite_def drop_append take_drop min_def) (simp add: add.commute add.left_commute)
  moreover have "m_startIndex b + n \<le> length (content ?st)"
    using length_content[OF wf(1)] fits assms(2) by simp
  ultimately show "visible b' = overwrite n d (visible b)"
    using assms(2) by (simp add: visible_def b'_def)
qed

definition io_ok :: "message_buffer \<Rightarrow> nat \<Rightarrow> bool" where
  "io_ok b n \<longleftrightarrow> wf_buffer b \<and> capacity b \<le> 2 ^ 31 \<and> length (visible b) + n \<le> 2 ^ 30"

lemma view_holds:
  assumes "wf_buffer b" "length (visible b) \<le> 2 ^ 30"
  shows "\<exists>v. byteStorage b = Inr v \<and> m_read_ptr v = 0 \<and> holds v (visible b)"
proof -
  obtain v where "byteStorage b = Inr v" "content v = visible b" "m_storedLength v = length (visible b)"
    "m_read_ptr v = 0" "m_storedLength v \<le> length (m_bytes v)"
    using byteStorage_spec[OF assms(1)] by blast
  then show ?thesis using assms(2) by (auto simp: holds_def at_def content_def)
qed

text \<open>The buffer after \<open>d\<close> was read into the space \<open>buffer_allocate\<close> hands out.\<close>

definition filled :: "byte list \<Rightarrow> message_buffer \<Rightarrow> message_buffer" where
  "filled d b0 =
    (let (ptr, b) = buffer_allocate MTU_SIZE b0
     in b\<lparr>mb_storage := (mb_storage b)\<lparr>m_bytes := overwrite (snd ptr) d (m_bytes (mb_storage b))\<rparr>\<rparr>)"

lemma fill_spec:
  assumes wf: "wf_buffer b0" and cap: "capacity b0 \<le> 2 ^ 31" and vis: "length (visible b0) \<le> 2 ^ 30"
    and d: "length d \<le> MTU_SIZE"
  shows "\<exists>b. erase_back (MTU_SIZE - length d) (filled d b0) = Inr b \<and> wf_buffer b
    \<and> visible b = visible b0 @ d \<and> capacity b \<le> 2 ^ 31"
proof -
  let ?v = "visible b0"
  obtain ptr b1 where al: "buffer_allocate MTU_SIZE b0 = (ptr, b1)" by (cases "buffer_allocate MTU_SIZE b0")
  have "capacity b0 + MTU_SIZE \<le> 2 ^ 62" using cap by simp
  note b1 = buffer_allocate_spec[OF wf this al]
  have cap1: "capacity b1 \<le> 2 ^ 31" using buffer_allocate_capacity[OF wf cap vis] al by simp
  have fd: "filled d b0 = b1\<lparr>mb_storage := (mb_storage b1)\<lparr>m_bytes := overwrite (snd ptr) d (m_bytes (mb_storage b1))\<rparr>\<rparr>"
    by (simp add: filled_def al)
  have b2: "wf_buffer (filled d b0)" "visible (filled d b0) = overwrite (length ?v) d (visible b1)"
    "capacity (filled d b0) \<le> 2 ^ 31"
    using overwrite_visible[of b1 "snd ptr" "length ?v" d] b1 d cap1 by (simp_all add: fd)
  have len2: "length (visible (filled d b0)) = length ?v + MTU_SIZE"
    using b1(3) d by (simp add: b2(2))
  have "MTU_SIZE - length d \<le> length (visible (filled d b0))" using len2 by linarith
  then obtain b3 where b3: "erase_back (MTU_SIZE - length d) (filled d b0) = Inr b3" "wf_buffer b3"
    "visible b3 = take (length (visible (filled d b0)) - (MTU_SIZE - length d)) (visible (filled d b0))"
    using erase_back_spec[OF b2(1)] by blast
  have "visible b3 = take (length ?v + length d) (overwrite (length ?v) d (visible b1))"
    using b3(3) len2 d b2(2) by simp
  also have "\<dots> = take (length ?v) (visible b1) @ d"
    using b1(3) d by (intro take_overwrite_end) simp
  finally have "visible b3 = ?v @ d" using b1(2) by simp
  moreover have "capacity b3 \<le> 2 ^ 31" using erase_capacity(2)[OF b3(1)] b2(3) by simp
  ultimately show ?thesis using b3(1,2) by blast
qed

text \<open>Reads of the sizes one call of \<^verbatim>\<open>recv\<close> can return.\<close>

definition chunked :: "byte list list \<Rightarrow> bool" where
  "chunked cs \<longleftrightarrow> (\<forall>c \<in> set cs. c \<noteq> [] \<and> length c \<le> MTU_SIZE)"

section \<open>A receiver of a stream\<close>

text \<open>
  \<open>state b inc r\<close> is the receiver with the buffer \<open>b\<close>, the input \<open>inc\<close> still to come and the rest
  \<open>r\<close> of its state; \<open>deliver ms r\<close> is the effect the messages \<open>ms\<close> shall have, one round reads
  once and \<open>loop\<close> repeats rounds until there is nothing to read. What a round promises: it
  delivers the messages that are complete and keeps the rest, and stops when there is no input.
\<close>

locale stream_receiver =
  fixes state :: "message_buffer \<Rightarrow> recv_result list \<Rightarrow> 'r \<Rightarrow> 's"
    and deliver :: "message list \<Rightarrow> 'r \<Rightarrow> 'r outcome"
    and round :: "nat \<Rightarrow> 's \<Rightarrow> (bool \<times> 's) outcome"
    and loop :: "nat \<Rightarrow> nat \<Rightarrow> 's \<Rightarrow> 's outcome"
    and good :: "'r \<Rightarrow> bool"
  assumes deliver_Nil: "deliver [] r = Inr r"
    and deliver_append: "deliver (ms1 @ ms2) r = bind_outcome (deliver ms1 r) (deliver ms2)"
    and deliver_good: "good r \<Longrightarrow> deliver ms r = Inr r' \<Longrightarrow> good r'"
    and loop_Suc: "loop (Suc rounds) fuel s =
          bind_outcome (round fuel s) (\<lambda>(done, s). if done then Inr s else loop rounds fuel s)"
    and round_chunk: "good r \<Longrightarrow> io_ok b (length c) \<Longrightarrow> c \<noteq> [] \<Longrightarrow> length c \<le> MTU_SIZE
          \<Longrightarrow> visible b @ c = wires ms @ x \<Longrightarrow> incomplete x \<Longrightarrow> \<forall>m \<in> set ms. wf_message m \<Longrightarrow> length ms < fuel
          \<Longrightarrow> \<exists>b'. wf_buffer b' \<and> capacity b' \<le> 2 ^ 31 \<and> visible b' = x
            \<and> round fuel (state b (RecvData c # inc) r) =
              bind_outcome (deliver ms r) (\<lambda>r'. Inr (False, state b' inc r'))"
    and round_idle: "good r \<Longrightarrow> io_ok b 0
          \<Longrightarrow> \<exists>b'. wf_buffer b' \<and> visible b' = visible b \<and> round fuel (state b [] r) = Inr (True, state b' [] r)"
begin

lemma no_message_in_incomplete:
  assumes "incomplete y" "y = wires ms @ x" "\<forall>m \<in> set ms. wf_message m"
  shows "ms = []"
proof (rule ccontr)
  assume "ms \<noteq> []"
  then obtain m ms' where "ms = m # ms'" by (cases ms) auto
  then show False using incomplete_no_message [of m "wires ms' @ x"] assms by simp
qed

text \<open>
  However the stream is cut, the loop has the effect of the messages and keeps the rest; it
  needs one round more than there are reads and more fuel than there are messages.
\<close>

lemma loop_chunks:
  assumes "good r" "chunked cs" "io_ok b (length (concat cs))" "incomplete (visible b)"
    and "visible b @ concat cs = wires ms @ x" "incomplete x" "\<forall>m \<in> set ms. wf_message m"
    and "length ms < fuel" "length cs < rounds"
  shows "case deliver ms r of
      Inl e \<Rightarrow> loop rounds fuel (state b (map RecvData cs) r) = Inl e
    | Inr r' \<Rightarrow> \<exists>b'. wf_buffer b' \<and> visible b' = x
        \<and> loop rounds fuel (state b (map RecvData cs) r) = Inr (state b' [] r')"
  using assms
proof (induction cs arbitrary: r b ms rounds)
  case Nil
  obtain k where k: "rounds = Suc k" using Nil.prems by (cases rounds) auto
  have "ms = []" using no_message_in_incomplete Nil.prems(4,5,7) by simp
  then show ?case
    using round_idle [OF Nil.prems(1), of b fuel] Nil.prems(3,5) k by (auto simp: loop_Suc deliver_Nil)
next
  case (Cons c cs)
  obtain k where k: "rounds = Suc k" "length cs < k" using Cons.prems by (cases rounds) auto
  have "(visible b @ c) @ concat cs = wires ms @ x" using Cons.prems(5) by simp
  then obtain ms1 ms2 y where split: "ms = ms1 @ ms2" "visible b @ c = wires ms1 @ y"
    "y @ concat cs = wires ms2 @ x" "incomplete y"
    using stream_split [OF _ Cons.prems(6,7)] by blast
  have c: "c \<noteq> []" "length c \<le> MTU_SIZE" "io_ok b (length c)" "chunked cs"
    using Cons.prems(2,3) by (auto simp: chunked_def io_ok_def)
  obtain b1 where b1: "wf_buffer b1" "capacity b1 \<le> 2 ^ 31" "visible b1 = y"
    "round fuel (state b (RecvData c # map RecvData cs) r) =
      bind_outcome (deliver ms1 r) (\<lambda>r'. Inr (False, state b1 (map RecvData cs) r'))"
    using round_chunk [OF Cons.prems(1) c(3,1,2) split(2,4), of fuel "map RecvData cs"]
      Cons.prems(7,8) split(1) by auto
  have len: "length y + length (concat cs) \<le> 2 ^ 30"
  proof -
    have "length y \<le> length (visible b @ c)" using split(2) by simp
    then show ?thesis using Cons.prems(3) by (simp add: io_ok_def)
  qed
  show ?case
  proof (cases "deliver ms1 r")
    case (Inl e)
    then show ?thesis using b1(4) k(1) split(1) by (simp add: deliver_append loop_Suc)
  next
    case (Inr r')
    from Cons.IH [OF deliver_good [OF Cons.prems(1) Inr] c(4), of b1 ms2 k]
    have "case deliver ms2 r' of
        Inl e \<Rightarrow> loop k fuel (state b1 (map RecvData cs) r') = Inl e
      | Inr r'' \<Rightarrow> \<exists>b'. wf_buffer b' \<and> visible b' = x
          \<and> loop k fuel (state b1 (map RecvData cs) r') = Inr (state b' [] r'')"
      using b1 len split Cons.prems(6-8) k by (simp add: io_ok_def)
    moreover have "loop rounds fuel (state b (map RecvData (c # cs)) r) =
        loop k fuel (state b1 (map RecvData cs) r')"
      using b1(4) Inr k(1) by (simp add: loop_Suc)
    ultimately show ?thesis using Inr split(1) by (simp only: deliver_append bind_outcome.simps)
  qed
qed

end

end
