(* ===== verification/Router.thy ===== *)
theory Router
  imports Framing Messages Subscriptions Sockets
begin

text \<open>
  The router (\<^verbatim>\<open>src/fastpath/router\<close>): the peer connections with their subscriptions
  (\<^verbatim>\<open>peer_connection.cpp\<close>), the framing of the byte stream of a TCP peer
  (\<^verbatim>\<open>tcp_peer_connection.cpp\<close>) and the dispatch to the interested peers
  (\<^verbatim>\<open>bootstrap.cpp\<close>). The state is the list of connections of \<^verbatim>\<open>bootstrap\<close>; a connection is
  named by its address, a number. \<open>data_handler\<close> runs the handler the event loop calls when
  a socket is readable, with \<open>fuel\<close> bounding the number of messages taken from one view of
  the buffer. The handler is \<^verbatim>\<open>noexcept\<close>: an exception that leaves it ends the program
  (\<open>Terminate\<close>).
\<close>

record peer_connection =
  tp_id :: nat
  tp_subscriptions :: "size_t subscription list"

record tcp_peer = peer_connection +
  tp_socket :: socket
  tp_buffer :: message_buffer

type_synonym router = "tcp_peer list"

section \<open>peer\_connection\<close>

definition tcp_peer_new :: "(nat \<Rightarrow> byte) \<Rightarrow> nat \<Rightarrow> socket \<Rightarrow> tcp_peer" where
  "tcp_peer_new a ident sock =
    \<lparr>tp_id = ident, tp_subscriptions = [], tp_socket = sock, tp_buffer = MessageBuffer_new a 4500\<rparr>"

definition add_subscription :: "byte list \<Rightarrow> 'a peer_connection_scheme \<Rightarrow> 'a peer_connection_scheme" where
  "add_subscription subject p =
    p\<lparr>tp_subscriptions := tp_subscriptions p @ [subscription_new string_hash subject]\<rparr>"

fun erase_first :: "('a \<Rightarrow> bool) \<Rightarrow> 'a list \<Rightarrow> 'a list" where
  "erase_first P [] = []"
| "erase_first P (x # xs) = (if P x then xs else x # erase_first P xs)"

definition remove_subscription :: "byte list \<Rightarrow> 'a peer_connection_scheme \<Rightarrow> 'a peer_connection_scheme" where
  "remove_subscription subject p =
    p\<lparr>tp_subscriptions := erase_first (\<lambda>s. subscription_equal_str s subject) (tp_subscriptions p)\<rparr>"

definition is_interested :: "size_t subject \<Rightarrow> 'a peer_connection_scheme \<Rightarrow> bool" where
  "is_interested subject p \<longleftrightarrow> list_ex (\<lambda>s. matches s subject) (tp_subscriptions p)"

definition RegisterObserver :: "size_t subject" where
  "RegisterObserver = subject_new string_hash (str_bytes ''_FP.REGISTER.OBSERVER'')"

definition UnregisterObserver :: "size_t subject" where
  "UnregisterObserver = subject_new string_hash (str_bytes ''_FP.UNREGISTER.OBSERVER'')"

text \<open>
  The second branch of the source tests \<^verbatim>\<open>RegisterObserver()\<close> again. \<^verbatim>\<open>getDataField\<close> leaves
  \<^verbatim>\<open>data\<close> null when there is no such field; the length of a string field includes its NUL.
\<close>

definition handle_admin_message ::
  "size_t subject \<Rightarrow> message \<Rightarrow> 'a peer_connection_scheme \<Rightarrow> 'a peer_connection_scheme outcome" where
  "handle_admin_message subject msg p =
    (if subject_equal subject RegisterObserver then
       bind_outcome (getDataField (Some (str_bytes ''subject'')) msg) (\<lambda>r.
       case r of
         None \<Rightarrow> Inr p
       | Some data \<Rightarrow> if length data = 0 then Inr p else Inr (add_subscription data p))
     else if subject_equal subject RegisterObserver then
       bind_outcome (getDataField (Some (str_bytes ''subject'')) msg) (\<lambda>r.
       case r of
         None \<Rightarrow> Inl OutOfBounds
       | Some data \<Rightarrow> Inr (remove_subscription data p))
     else Inr p)"

text \<open>\<^verbatim>\<open>sendBuffer\<close> sends the bytes of the message's storage; its result is not used by the caller.\<close>

definition sendBuffer :: "byte list \<Rightarrow> tcp_peer \<Rightarrow> tcp_peer outcome" where
  "sendBuffer bytes p =
    bind_outcome (socket_send bytes (tp_socket p)) (\<lambda>(ok, sock). Inr (p\<lparr>tp_socket := sock\<rparr>))"

section \<open>bootstrap\<close>

fun message_handler :: "size_t subject \<Rightarrow> byte list \<Rightarrow> router \<Rightarrow> router outcome" where
  "message_handler subject bytes [] = Inr []"
| "message_handler subject bytes (p # ps) =
    bind_outcome (if is_interested subject p then sendBuffer bytes p else Inr p) (\<lambda>p'.
    bind_outcome (message_handler subject bytes ps) (\<lambda>ps'. Inr (p' # ps')))"

definition peer_connection_handler :: "tcp_peer \<Rightarrow> router \<Rightarrow> router" where
  "peer_connection_handler p r = r @ [p]"

definition disconnection_handler :: "nat \<Rightarrow> router \<Rightarrow> router" where
  "disconnection_handler this r = erase_first (\<lambda>p. tp_id p = this) r"

section \<open>tcp\_peer\_connection\<close>

definition peer_of :: "nat \<Rightarrow> router \<Rightarrow> tcp_peer outcome" where
  "peer_of this r = (case find (\<lambda>p. tp_id p = this) r of None \<Rightarrow> Inl UseAfterFree | Some p \<Rightarrow> Inr p)"

definition set_peer :: "tcp_peer \<Rightarrow> router \<Rightarrow> router" where
  "set_peer p' r = map (\<lambda>p. if tp_id p = tp_id p' then p' else p) r"

text \<open>The C string at an offset of a block: \<^verbatim>\<open>strlen\<close> leaves the block when there is no NUL.\<close>

definition string_at :: "byte_storage \<Rightarrow> nat \<Rightarrow> byte list outcome" where
  "string_at s off =
    (if 0 \<in> set (drop off (m_bytes s)) then Inr (c_string (drop off (m_bytes s))) else Inl OutOfBounds)"

text \<open>An \<^verbatim>\<open>fp::exception\<close> inside a \<^verbatim>\<open>noexcept\<close> function.\<close>

definition noexcept :: "'a outcome \<Rightarrow> 'a outcome" where
  "noexcept m = (case m of Inl (FpException e) \<Rightarrow> Inl Terminate | _ \<Rightarrow> m)"

definition process_admin ::
  "nat \<Rightarrow> size_t subject \<Rightarrow> byte_storage \<Rightarrow> router \<Rightarrow> (MessageDecodeStatus \<times> router) outcome" where
  "process_admin this subject msgData r =
    bind_outcome (noexcept (decode_message Message_new msgData)) (\<lambda>(ok, msg, _).
    if ok then
      bind_outcome (peer_of this r) (\<lambda>p.
      bind_outcome (handle_admin_message subject msg p) (\<lambda>p'.
      Inr (CompleteMessage, set_peer p' r)))
    else Inr (CorruptMessage, r))"

definition process_buffer ::
  "nat \<Rightarrow> byte_storage \<Rightarrow> router \<Rightarrow> (MessageDecodeStatus \<times> byte_storage \<times> router) outcome" where
  "process_buffer this buffer r =
    (let buffer = mark buffer
     in bind_outcome (addressing_details buffer 0) (\<lambda>(status, a, buffer).
        if status = CompleteMessage then
          let buffer = resetRead buffer
          in case a_subject a of
               None \<Rightarrow> Inr (CorruptMessage, buffer, r)
             | Some off \<Rightarrow>
                 if a_subject_length a > 0 then
                   bind_outcome (string_at buffer off) (\<lambda>str.
                   let subject = subject_new string_hash str
                   in bind_outcome (segment (a_msg_length a) buffer) (\<lambda>(msgData, buffer).
                      bind_outcome
                        (if m_is_admin subject then process_admin this subject msgData r
                         else bind_outcome (message_handler subject (content msgData) r)
                                (\<lambda>r'. Inr (CompleteMessage, r')))
                        (\<lambda>(status, r'). Inr (status, mark buffer, r'))))
                 else Inr (CorruptMessage, buffer, r)
        else Inr (status, resetRead buffer, r)))"

fun process_all ::
  "nat \<Rightarrow> nat \<Rightarrow> byte_storage \<Rightarrow> router \<Rightarrow> (MessageDecodeStatus \<times> byte_storage \<times> router) outcome" where
  "process_all 0 this buffer r = Inl OutOfFuel"
| "process_all (Suc fuel) this buffer r =
    bind_outcome (process_buffer this buffer r) (\<lambda>(status, buffer, r).
    if status = CompleteMessage then process_all fuel this buffer r else Inr (status, buffer, r))"

text \<open>
  One round of the reading loop: read into the buffer, cut off what was not filled. The
  result says whether the loop goes on.
\<close>

definition read_into :: "tcp_peer \<Rightarrow> (ReadResult \<times> tcp_peer) outcome" where
  "read_into p =
    (let (ptr, b) = buffer_allocate MTU_SIZE (tp_buffer p);
         (result, d, sock) = socket_read MTU_SIZE (tp_socket p);
         b = b\<lparr>mb_storage := (mb_storage b)\<lparr>m_bytes := overwrite (snd ptr) d (m_bytes (mb_storage b))\<rparr>\<rparr>
     in bind_outcome (erase_back (MTU_SIZE - length d) b) (\<lambda>b.
        Inr (result, p\<lparr>tp_buffer := b, tp_socket := sock\<rparr>)))"

definition data_round :: "nat \<Rightarrow> nat \<Rightarrow> router \<Rightarrow> (bool \<times> router) outcome" where
  "data_round fuel this r =
    bind_outcome (peer_of this r) (\<lambda>p.
    bind_outcome (read_into p) (\<lambda>(result, p).
    let r = set_peer p r
    in case result of
         NoData \<Rightarrow> Inr (True, r)
       | Closed \<Rightarrow> Inr (True, disconnection_handler this r)
       | MoreData \<Rightarrow>
           bind_outcome (byteStorage (tp_buffer p)) (\<lambda>storage.
           bind_outcome (process_all fuel this storage r) (\<lambda>(status, storage, r).
           case status of
             CompleteMessage \<Rightarrow> Inr (False, r)
           | IncompleteMessage \<Rightarrow>
               bind_outcome (peer_of this r) (\<lambda>p.
               bind_outcome (erase_front (bytesRead storage) (tp_buffer p)) (\<lambda>b.
               Inr (False, set_peer (p\<lparr>tp_buffer := b\<rparr>) r)))
           | CorruptMessage \<Rightarrow>
               bind_outcome (peer_of this r) (\<lambda>p.
               Inr (True, disconnection_handler this
                            (set_peer (p\<lparr>tp_socket := snd (disconnect (tp_socket p))\<rparr>) r)))))))"

fun data_handler :: "nat \<Rightarrow> nat \<Rightarrow> nat \<Rightarrow> router \<Rightarrow> router outcome" where
  "data_handler 0 fuel this r = Inl OutOfFuel"
| "data_handler (Suc rounds) fuel this r =
    bind_outcome (data_round fuel this r) (\<lambda>(complete, r).
    if complete then Inr r else data_handler rounds fuel this r)"

end
