(* ===== verification/Router_Correct.thy ===== *)
theory Router_Correct
  imports Router
begin

text \<open>
  Correctness of the router's framing: however the operating system cuts the byte stream of a
  peer into reads, \<open>data_handler\<close> processes the messages the peer sent, in order and each
  once, and keeps the incomplete rest. \<open>router_receive\<close> is the specification of the effect
  of one message, \<open>receive_all\<close> of a list of them.
\<close>

section \<open>Specification\<close>

definition router_receive :: "nat \<Rightarrow> message \<Rightarrow> router \<Rightarrow> router outcome" where
  "router_receive this m r =
    (let subject = subject_new string_hash (subject_string m)
     in if m_is_admin subject
        then bind_outcome (peer_of this r) (\<lambda>p.
             bind_outcome (handle_admin_message subject (delivered m) p) (\<lambda>p'. Inr (set_peer p' r)))
        else message_handler subject (wire_message m) r)"

fun receive_all :: "nat \<Rightarrow> message list \<Rightarrow> router \<Rightarrow> router outcome" where
  "receive_all this [] r = Inr r"
| "receive_all this (m # ms) r = bind_outcome (router_receive this m r) (receive_all this ms)"

section \<open>One message\<close>

lemma subject_string_nul_free [simp]: "nul_free (subject_string m)"
  by (simp add: subject_string_def)

lemma string_at_message:
  assumes "at s (wire_message m)"
  shows "string_at s (m_read_ptr s + 16) = Inr (subject_string m)"
proof -
  have "take (length (subject_string m @ [0])) (drop (m_read_ptr s + 16) (m_bytes s)) = subject_string m @ [0]"
    using at_wire_message(5)[OF assms] by (simp add: at_def)
  then obtain rest where d: "drop (m_read_ptr s + 16) (m_bytes s) = (subject_string m @ [0]) @ rest"
    by (metis append_take_drop_id)
  show ?thesis unfolding string_at_def d by (simp add: c_string_append_nul)
qed

lemma segment_message:
  assumes "at s bs" "length bs = n"
  shows "\<exists>seg. segment n s = Inr (seg, advanceRead n s) \<and> at seg bs \<and> content seg = bs \<and> m_storedLength seg = n"
proof -
  let ?seg = "\<lparr>m_allocator = m_allocator s, m_block = 0, m_bytes = drop (m_read_ptr s) (m_bytes s),
    m_capacity = 0, m_storedLength = n, m_options = TRANSIENT, m_read_ptr = 0, m_mark_ptr = 0\<rparr>"
  have t: "TRANSIENT AND COPY_ON_CONSTRUCT \<noteq> COPY_ON_CONSTRUCT"
    by (simp add: TRANSIENT_def COPY_ON_CONSTRUCT_def)
  have "n \<le> remainingReadLength s" using at_remaining[OF assms(1)] assms(2) by simp
  then have "segment n s = Inr (?seg, advanceRead n s)"
    using t by (simp add: segment_def ByteStorage_bytes_def Let_def)
  moreover have "at ?seg bs" "content ?seg = bs"
    using assms by (auto simp: at_def content_def)
  ultimately show ?thesis by (intro exI[of _ ?seg]) simp
qed

lemma process_admin_message:
  assumes "at seg (wire_message m)" "wf_message m" "0 < m_storedLength seg"
  shows "process_admin this subject seg r =
    bind_outcome (peer_of this r) (\<lambda>p.
    bind_outcome (handle_admin_message subject (delivered m) p) (\<lambda>p'. Inr (CompleteMessage, set_peer p' r)))"
  using decode_message_at[OF assms, of Message_new]
  by (simp add: process_admin_def noexcept_def delivered_def)

lemma process_buffer_message:
  assumes a: "at s (wire_message m)" and m: "wf_message m"
  shows "process_buffer this s r =
    bind_outcome (router_receive this m r) (\<lambda>r'.
      Inr (CompleteMessage, mark (advanceRead (length (wire_message m)) (mark s)), r'))"
proof -
  have am: "at (mark s) (wire_message m)" using a by simp
  obtain seg where seg: "segment (length (wire_message m)) (mark s) = Inr (seg, advanceRead (length (wire_message m)) (mark s))"
    "at seg (wire_message m)" "content seg = wire_message m" "m_storedLength seg = length (wire_message m)"
    using segment_message[OF am refl] by blast
  note adm = process_admin_message[OF seg(2) m] 
  have str: "string_at (mark s) (m_read_ptr s + 16) = Inr (subject_string m)"
    using string_at_message[OF am] by simp
  have cs: "c_string (subject_string m) = subject_string m" by (simp add: c_string_id)
  show ?thesis
    using addressing_details_at[OF am m, of 0] seg str wire_message_pos[of m] adm
    by (simp add: process_buffer_def router_receive_def Let_def bind_outcome_assoc)
qed


section \<open>The incomplete rest\<close>

lemma process_buffer_incomplete:
  assumes "holds s x" "incomplete x"
  shows "process_buffer this s r = Inr (IncompleteMessage, mark s, r)"
proof -
  obtain n where "have_complete_message (mark s) = Inr (IncompleteMessage, n)"
    using incomplete_status[of "mark s" x] assms by auto
  then show ?thesis by (simp add: process_buffer_def addressing_details_def Let_def)
qed

section \<open>All complete messages of a view\<close>

lemma process_all_messages:
  assumes "holds s (wires ms @ x)" "incomplete x" "\<forall>m \<in> set ms. wf_message m" "length ms < fuel"
  shows "\<exists>s'. m_read_ptr s' = m_read_ptr s + length (wires ms)
    \<and> process_all fuel this s r = bind_outcome (receive_all this ms r) (\<lambda>r'. Inr (IncompleteMessage, s', r'))"
  using assms
proof (induction ms arbitrary: s r fuel)
  case Nil
  then obtain k where "fuel = Suc k" by (cases fuel) auto
  then show ?case using process_buffer_incomplete[of s x this r] Nil by auto
next
  case (Cons m ms)
  then obtain k where k: "fuel = Suc k" "length ms < k" by (cases fuel) auto
  let ?n = "length (wire_message m)"
  let ?t = "mark (advanceRead ?n (mark s))"
  have h: "holds s (wire_message m @ wires ms @ x)" using Cons.prems(1) by simp
  have t: "holds ?t (wires ms @ x)"
    using holds_advance[of "mark s" "wire_message m" "wires ms @ x"] h by simp
  have pb: "process_buffer this s r =
      bind_outcome (router_receive this m r) (\<lambda>r'. Inr (CompleteMessage, ?t, r'))"
    using holds_prefix[OF h] Cons.prems(3) by (intro process_buffer_message) auto
  have ih: "\<exists>s'. m_read_ptr s' = m_read_ptr ?t + length (wires ms) \<and> process_all k this ?t r' =
      bind_outcome (receive_all this ms r') (\<lambda>r''. Inr (IncompleteMessage, s', r''))" for r'
    using Cons.IH[OF t] Cons.prems k by simp
  show ?case
  proof (cases "router_receive this m r")
    case (Inl e)
    then show ?thesis using pb k(1)
      by (intro exI[of _ "s\<lparr>m_read_ptr := m_read_ptr s + length (wires (m # ms))\<rparr>"]) simp
  next
    case (Inr r')
    obtain s' where "m_read_ptr s' = m_read_ptr ?t + length (wires ms)" "process_all k this ?t r' =
      bind_outcome (receive_all this ms r') (\<lambda>r''. Inr (IncompleteMessage, s', r''))"
      using ih[of r'] by blast
    then show ?thesis using pb k(1) Inr by (intro exI[of _ s']) (simp add: add.assoc)
  qed
qed

section \<open>Reading into the buffer\<close>

lemma read_into_spec:
  assumes wf: "wf_buffer (tp_buffer p)" and cap: "capacity (tp_buffer p) \<le> 2 ^ 31"
    and vis: "length (visible (tp_buffer p)) \<le> 2 ^ 30"
    and rd: "socket_read MTU_SIZE (tp_socket p) = (res, d, sock)" and d: "length d \<le> MTU_SIZE"
  shows "\<exists>b. read_into p = Inr (res, p\<lparr>tp_buffer := b, tp_socket := sock\<rparr>) \<and> wf_buffer b
    \<and> visible b = visible (tp_buffer p) @ d \<and> capacity b \<le> 2 ^ 31"
  using fill_spec [OF wf cap vis d] rd by (auto simp: read_into_def filled_def split_beta)

section \<open>The effect of a message does not depend on the input side\<close>

text \<open>\<open>with_io this b inc r\<close>: the buffer and the pending input of connection \<open>this\<close> replaced.\<close>

definition io_peer :: "message_buffer \<Rightarrow> recv_result list \<Rightarrow> tcp_peer \<Rightarrow> tcp_peer" where
  "io_peer b inc p = p\<lparr>tp_buffer := b, tp_socket := (tp_socket p)\<lparr>sk_incoming := inc\<rparr>\<rparr>"

definition with_io :: "nat \<Rightarrow> message_buffer \<Rightarrow> recv_result list \<Rightarrow> router \<Rightarrow> router" where
  "with_io this b inc r = map (\<lambda>p. if tp_id p = this then io_peer b inc p else p) r"

primrec map_outcome :: "('a \<Rightarrow> 'b) \<Rightarrow> 'a outcome \<Rightarrow> 'b outcome" where
  "map_outcome f (Inl e) = Inl e"
| "map_outcome f (Inr a) = Inr (f a)"

lemma bind_map_outcome:
  "bind_outcome (map_outcome f m) g = bind_outcome m (\<lambda>a. g (f a))"
  "map_outcome f (bind_outcome m h) = bind_outcome m (\<lambda>a. map_outcome f (h a))"
  by (cases m; simp)+

lemma io_peer_simps [simp]:
  "tp_id (io_peer b inc p) = tp_id p" "tp_buffer (io_peer b inc p) = b"
  "tp_subscriptions (io_peer b inc p) = tp_subscriptions p"
  "sk_incoming (tp_socket (io_peer b inc p)) = inc"
  "io_peer b' inc' (io_peer b inc p) = io_peer b' inc' p"
  by (simp_all add: io_peer_def)

lemma disconnect_incoming:
  "disconnect (s\<lparr>sk_incoming := x\<rparr>) = (fst (disconnect s), (snd (disconnect s))\<lparr>sk_incoming := x\<rparr>)"
  by (simp add: disconnect_def Let_def)

lemma send_loop_commute:
  "send_loop results arr off len (s\<lparr>sk_incoming := x\<rparr>) =
    map_outcome (\<lambda>(ok, s'). (ok, s'\<lparr>sk_incoming := x\<rparr>)) (send_loop results arr off len s)"
proof (induction results arr off len s rule: send_loop.induct)
  case (1 results arr off len s)
  show ?case
  proof (cases "m_connected s \<and> off + len \<le> length arr")
    case conn: True
    show ?thesis
    proof (cases results)
      case (Cons r rs)
      show ?thesis
      proof (cases "r \<noteq> int len \<and> 0 \<le> r")
        case True
        have swap: "s\<lparr>sk_incoming := x, sk_sent := y\<rparr> = s\<lparr>sk_sent := y, sk_incoming := x\<rparr>" for y by simp
        from True show ?thesis using 1[of r rs] conn Cons
          by (subst (1 2) send_loop.simps) (simp add: swap)
      next
        case False
        have swap: "s\<lparr>sk_incoming := x, sk_sends := rs\<rparr> = s\<lparr>sk_sends := rs, sk_incoming := x\<rparr>" by simp
        have "disconnect (s\<lparr>sk_incoming := x, sk_sends := rs\<rparr>) =
            (fst (disconnect (s\<lparr>sk_sends := rs\<rparr>)), (snd (disconnect (s\<lparr>sk_sends := rs\<rparr>)))\<lparr>sk_incoming := x\<rparr>)"
          unfolding swap by (rule disconnect_incoming)
        then show ?thesis using False conn Cons by (subst (1 2) send_loop.simps) auto
      qed
    qed (use conn in \<open>subst (1 2) send_loop.simps, simp\<close>)
  next
    case False
    then show ?thesis using disconnect_incoming[where s = s and x = x] by (subst (1 2) send_loop.simps) auto
  qed
qed

lemma sendBuffer_commute: "sendBuffer bytes (io_peer b inc p) = map_outcome (io_peer b inc) (sendBuffer bytes p)"
proof -
  have "socket_send bytes ((tp_socket p)\<lparr>sk_incoming := inc\<rparr>) =
    map_outcome (\<lambda>(ok, s'). (ok, s'\<lparr>sk_incoming := inc\<rparr>)) (socket_send bytes (tp_socket p))"
    by (simp add: socket_send_def send_loop_commute)
  then show ?thesis
    by (cases "socket_send bytes (tp_socket p)") (auto simp: sendBuffer_def io_peer_def)
qed

lemma is_interested_io [simp]: "is_interested subject (io_peer b inc p) = is_interested subject p"
  by (simp add: is_interested_def)

lemma sendBuffer_id: "sendBuffer bytes p = Inr p' \<Longrightarrow> tp_id p' = tp_id p \<and> tp_buffer p' = tp_buffer p"
  by (auto simp: sendBuffer_def)

lemma message_handler_commute:
  "message_handler subject bytes (with_io this b inc r) =
    map_outcome (with_io this b inc) (message_handler subject bytes r)"
proof (induction r)
  case (Cons p r)
  let ?f = "\<lambda>p. if is_interested subject p then sendBuffer bytes p else Inr p"
  let ?g = "\<lambda>p. if tp_id p = this then io_peer b inc p else p"
  have head: "?f (?g p) = map_outcome ?g (?f p)"
    using sendBuffer_id[of bytes p] by (cases "sendBuffer bytes p") (auto simp: sendBuffer_commute)
  show ?case
  proof (cases "?f p")
    case (Inl e)
    then show ?thesis using head by (simp add: with_io_def split: if_splits)
  next
    case (Inr p')
    then have "?f (?g p) = Inr (?g p')" using head by simp
    then show ?thesis using Inr Cons by (cases "message_handler subject bytes r") (simp_all add: with_io_def)
  qed
qed (simp add: with_io_def)


lemma peer_of_io: "peer_of this (with_io this b inc r) = map_outcome (io_peer b inc) (peer_of this r)"
  by (induction r) (auto simp: peer_of_def with_io_def)

lemma peer_of_id: "peer_of this r = Inr p \<Longrightarrow> tp_id p = this \<and> p \<in> set r"
  by (auto simp: peer_of_def find_Some_iff split: option.splits)

lemma handle_admin_commute:
  "handle_admin_message subject msg (io_peer b inc p) =
    map_outcome (io_peer b inc) (handle_admin_message subject msg p)"
proof -
  have "add_subscription d (io_peer b inc p) = io_peer b inc (add_subscription d p)" for d
    by (simp add: add_subscription_def io_peer_def)
  then show ?thesis
    by (cases "getDataField (Some (str_bytes ''subject'')) msg")
      (auto simp: handle_admin_message_def split: option.splits)
qed

lemma handle_admin_id: "handle_admin_message subject msg p = Inr p' \<Longrightarrow> tp_id p' = tp_id p"
  by (auto simp: handle_admin_message_def add_subscription_def remove_subscription_def
      split: if_splits option.splits)

lemma set_peer_io:
  "tp_id p = this \<Longrightarrow> set_peer (io_peer b inc p) (with_io this b' inc' r) = with_io this b inc (set_peer p r)"
  by (simp add: set_peer_def with_io_def)

lemma router_receive_commute:
  "router_receive this m (with_io this b inc r) = map_outcome (with_io this b inc) (router_receive this m r)"
proof (cases "m_is_admin (subject_new string_hash (subject_string m))")
  case True
  show ?thesis
  proof (cases "peer_of this r")
    case (Inr p)
    note id = peer_of_id[OF Inr]
    show ?thesis
    proof (cases "handle_admin_message (subject_new string_hash (subject_string m)) (delivered m) p")
      case (Inr p')
      then show ?thesis
        using \<open>peer_of this r = Inr p\<close> True id handle_admin_id[OF Inr] set_peer_io[of p' this b inc b inc r]
        by (simp add: router_receive_def Let_def peer_of_io handle_admin_commute)
    qed (use Inr True in \<open>simp add: router_receive_def Let_def peer_of_io handle_admin_commute\<close>)
  qed (use True in \<open>simp add: router_receive_def Let_def peer_of_io\<close>)
qed (simp add: router_receive_def Let_def message_handler_commute)

lemma receive_all_commute:
  "receive_all this ms (with_io this b inc r) = map_outcome (with_io this b inc) (receive_all this ms r)"
proof (induction ms arbitrary: r)
  case (Cons m ms)
  then show ?case
    by (cases "router_receive this m r") (simp_all add: router_receive_commute)
qed simp

lemma receive_all_append:
  "receive_all this (ms @ ms') r = bind_outcome (receive_all this ms r) (receive_all this ms')"
proof (induction ms arbitrary: r)
  case (Cons m ms)
  then show ?case by (cases "router_receive this m r") simp_all
qed simp

text \<open>The connections stay the same.\<close>

lemma message_handler_ids: "message_handler subject bytes r = Inr r' \<Longrightarrow> map tp_id r' = map tp_id r"
  by (induction r arbitrary: r') (auto dest: sendBuffer_id split: if_splits)

lemma set_peer_ids [simp]: "map tp_id (set_peer p r) = map tp_id r"
  by (simp add: set_peer_def)

lemma with_io_ids [simp]: "map tp_id (with_io this b inc r) = map tp_id r"
  by (simp add: with_io_def)

lemma router_receive_ids: "router_receive this m r = Inr r' \<Longrightarrow> map tp_id r' = map tp_id r"
  by (auto simp: router_receive_def Let_def simp del: map_eq_conv dest: message_handler_ids split: if_splits)

lemma receive_all_ids: "receive_all this ms r = Inr r' \<Longrightarrow> map tp_id r' = map tp_id r"
  by (induction ms arbitrary: r) (auto dest: router_receive_ids)

lemma peer_of_exists: "this \<in> set (map tp_id r) \<Longrightarrow> \<exists>p. peer_of this r = Inr p"
  by (auto simp: peer_of_def find_None_iff split: option.splits)

lemma set_peer_self:
  assumes "distinct (map tp_id r)" "peer_of this r = Inr p"
  shows "set_peer p r = r"
proof -
  have inj: "inj_on tp_id (set r)" using assms(1) by (simp add: distinct_map)
  have p: "p \<in> set r" using peer_of_id[OF assms(2)] by simp
  have "(if tp_id q = tp_id p then p else q) = q" if "q \<in> set r" for q
    using inj_onD[OF inj _ that p] by auto
  then show ?thesis unfolding set_peer_def by (rule map_idI)
qed

section \<open>One round and the whole handler\<close>

lemma data_round_chunk:
  assumes ids: "distinct (map tp_id r)" "this \<in> set (map tp_id r)"
    and ok: "io_ok b (length c)" and c: "c \<noteq> []" "length c \<le> MTU_SIZE"
    and vis: "visible b @ c = wires ms @ x" and x: "incomplete x" and ms: "\<forall>m \<in> set ms. wf_message m"
    and fuel: "length ms < fuel"
  shows "\<exists>b'. wf_buffer b' \<and> capacity b' \<le> 2 ^ 31 \<and> visible b' = x
    \<and> data_round fuel this (with_io this b (RecvData c # inc) r) =
      bind_outcome (receive_all this ms r) (\<lambda>r'. Inr (False, with_io this b' inc r'))"
proof -
  obtain p where p: "peer_of this r = Inr p" using peer_of_exists[OF ids(2)] by blast
  have idp: "tp_id p = this" using peer_of_id[OF p] by simp
  let ?p = "io_peer b (RecvData c # inc) p"
  have rd: "socket_read MTU_SIZE (tp_socket ?p) = (MoreData, c, (tp_socket p)\<lparr>sk_incoming := inc\<rparr>)"
    using c by (simp add: socket_read_def io_peer_def)
  obtain b1 where b1: "read_into ?p = Inr (MoreData, ?p\<lparr>tp_buffer := b1, tp_socket := (tp_socket p)\<lparr>sk_incoming := inc\<rparr>\<rparr>)"
    "wf_buffer b1" "visible b1 = visible b @ c" "capacity b1 \<le> 2 ^ 31"
    using read_into_spec[OF _ _ _ rd c(2)] ok by (auto simp: io_ok_def)
  have p1: "?p\<lparr>tp_buffer := b1, tp_socket := (tp_socket p)\<lparr>sk_incoming := inc\<rparr>\<rparr> = io_peer b1 inc p"
    by (simp add: io_peer_def)
  have r1: "set_peer (io_peer b1 inc p) (with_io this b (RecvData c # inc) r) = with_io this b1 inc r"
    using set_peer_io[OF idp] set_peer_self[OF ids(1) p] by simp
  obtain v where v: "byteStorage b1 = Inr v" "m_read_ptr v = 0" "holds v (wires ms @ x)"
  proof -
    have "length (visible b1) \<le> 2 ^ 30" using ok b1(3) by (simp add: io_ok_def)
    from view_holds[OF b1(2) this] that vis b1(3) show ?thesis by metis
  qed
  obtain v' where v': "m_read_ptr v' = length (wires ms)" "process_all fuel this v (with_io this b1 inc r) =
      bind_outcome (receive_all this ms (with_io this b1 inc r)) (\<lambda>r'. Inr (IncompleteMessage, v', r'))"
    using process_all_messages[OF v(3) x ms fuel] v(2) by (metis add_0)
  obtain b2 where b2: "erase_front (length (wires ms)) b1 = Inr b2" "wf_buffer b2" "visible b2 = x"
    using erase_front_spec[OF b1(2), of "length (wires ms)"] b1(3) vis by auto
  have cap2: "capacity b2 \<le> 2 ^ 31" using erase_capacity(1)[OF b2(1)] b1(4) by simp
  have "data_round fuel this (with_io this b (RecvData c # inc) r) =
      bind_outcome (receive_all this ms r) (\<lambda>r'. Inr (False, with_io this b2 inc r'))"
  proof (cases "receive_all this ms r")
    case (Inl e)
    then show ?thesis using p b1(1) p1 r1 v(1) v'(2)
      by (simp add: data_round_def peer_of_io receive_all_commute Let_def)
  next
    case (Inr r')
    have ids': "distinct (map tp_id r')" "this \<in> set (map tp_id r')"
      using receive_all_ids[OF Inr] ids by simp_all
    obtain q where q: "peer_of this r' = Inr q" using peer_of_exists[OF ids'(2)] by blast
    have "set_peer (io_peer b2 inc q) (with_io this b1 inc r') = with_io this b2 inc r'"
      using set_peer_io[of q this] peer_of_id[OF q] set_peer_self[OF ids'(1) q] by simp
    moreover have "(io_peer b1 inc q)\<lparr>tp_buffer := b2\<rparr> = io_peer b2 inc q" by (simp add: io_peer_def)
    ultimately show ?thesis using p b1(1) p1 r1 v(1) v' Inr q b2(1)
      by (simp add: data_round_def peer_of_io receive_all_commute Let_def bytesRead_def)
  qed
  then show ?thesis using b2 cap2 by blast
qed


lemma data_round_idle:
  assumes ids: "distinct (map tp_id r)" "this \<in> set (map tp_id r)" and ok: "io_ok b 0"
  shows "\<exists>b'. wf_buffer b' \<and> visible b' = visible b
    \<and> data_round fuel this (with_io this b [] r) = Inr (True, with_io this b' [] r)"
proof -
  obtain p where p: "peer_of this r = Inr p" using peer_of_exists[OF ids(2)] by blast
  let ?p = "io_peer b [] p"
  have rd: "socket_read MTU_SIZE (tp_socket ?p) = (NoData, [], tp_socket ?p)"
    by (simp add: socket_read_def)
  obtain b1 where b1: "read_into ?p = Inr (NoData, ?p\<lparr>tp_buffer := b1, tp_socket := tp_socket ?p\<rparr>)"
    "wf_buffer b1" "visible b1 = visible b"
    using read_into_spec[OF _ _ _ rd] ok by (auto simp: io_ok_def)
  have p1: "?p\<lparr>tp_buffer := b1, tp_socket := tp_socket ?p\<rparr> = io_peer b1 [] p" by (simp add: io_peer_def)
  have "set_peer (io_peer b1 [] p) (with_io this b [] r) = with_io this b1 [] r"
    using set_peer_io[of p this] peer_of_id[OF p] set_peer_self[OF ids(1) p] by simp
  then show ?thesis using p b1[unfolded p1] by (intro exI[of _ b1]) (simp add: data_round_def peer_of_io)
qed

text \<open>The handler is a receiver whose effect for the messages is that of the router.\<close>

definition known :: "nat \<Rightarrow> router \<Rightarrow> bool" where
  "known this r \<longleftrightarrow> distinct (map tp_id r) \<and> this \<in> set (map tp_id r)"

interpretation rx: stream_receiver "with_io this" "receive_all this" "\<lambda>fuel. data_round fuel this"
  "\<lambda>rounds fuel. data_handler rounds fuel this" "known this" for this
proof unfold_locales
  show "receive_all this (ms1 @ ms2) r = bind_outcome (receive_all this ms1 r) (receive_all this ms2)" for ms1 ms2 r
    by (rule receive_all_append)
  show "known this r'" if "known this r" "receive_all this ms r = Inr r'" for ms r r'
    using that receive_all_ids [OF that(2)] by (simp add: known_def)
  show "\<exists>b'. wf_buffer b' \<and> capacity b' \<le> 2 ^ 31 \<and> visible b' = x
      \<and> data_round fuel this (with_io this b (RecvData c # inc) r) =
        bind_outcome (receive_all this ms r) (\<lambda>r'. Inr (False, with_io this b' inc r'))"
    if "known this r" "io_ok b (length c)" "c \<noteq> []" "length c \<le> MTU_SIZE" "visible b @ c = wires ms @ x"
      "incomplete x" "\<forall>m \<in> set ms. wf_message m" "length ms < fuel" for r b c ms x fuel inc
    using data_round_chunk that unfolding known_def by blast
  show "\<exists>b'. wf_buffer b' \<and> visible b' = visible b
      \<and> data_round fuel this (with_io this b [] r) = Inr (True, with_io this b' [] r)"
    if "known this r" "io_ok b 0" for r b fuel
    using data_round_idle that unfolding known_def by blast
qed simp_all

section \<open>Dispatch to the interested peers\<close>

text \<open>A socket that is connected and accepts whatever it is given.\<close>

definition healthy :: "tcp_peer \<Rightarrow> bool" where
  "healthy p \<longleftrightarrow> m_connected (tp_socket p) \<and> sk_sends (tp_socket p) = []"

definition give :: "byte list \<Rightarrow> tcp_peer \<Rightarrow> tcp_peer" where
  "give bytes p = p\<lparr>tp_socket := (tp_socket p)\<lparr>sk_sent := sk_sent (tp_socket p) @ bytes\<rparr>\<rparr>"

lemma give_simps [simp]:
  "healthy (give bytes p) = healthy p" "is_interested subj (give bytes p) = is_interested subj p"
  "give [] p = p" "give b (give a p) = give (a @ b) p" "tp_id (give bytes p) = tp_id p"
  by (simp_all add: give_def healthy_def is_interested_def)

lemma sendBuffer_healthy: "healthy p \<Longrightarrow> sendBuffer bytes p = Inr (give bytes p)"
  by (simp add: sendBuffer_def socket_send_def send_loop.simps healthy_def give_def)

lemma message_handler_healthy:
  "list_all healthy r \<Longrightarrow>
   message_handler subj bytes r = Inr (map (\<lambda>p. if is_interested subj p then give bytes p else p) r)"
  by (induction r) (simp_all add: sendBuffer_healthy)

text \<open>The messages of a list a peer wants, as bytes.\<close>

definition wanted :: "message list \<Rightarrow> tcp_peer \<Rightarrow> byte list" where
  "wanted ms p = wires (filter (\<lambda>m. is_interested (subject_new string_hash (subject_string m)) p) ms)"

lemma receive_all_healthy:
  assumes "list_all healthy r" "\<forall>m \<in> set ms. \<not> m_is_admin (subject_new string_hash (subject_string m))"
  shows "receive_all this ms r = Inr (map (\<lambda>p. give (wanted ms p) p) r)"
  using assms
proof (induction ms arbitrary: r)
  case Nil
  then show ?case by (simp add: wanted_def)
next
  case (Cons m ms)
  let ?subj = "subject_new string_hash (subject_string m)"
  let ?r = "map (\<lambda>p. if is_interested ?subj p then give (wire_message m) p else p) r"
  have "router_receive this m r = Inr ?r"
    using Cons.prems by (simp add: router_receive_def Let_def message_handler_healthy)
  moreover have "list_all healthy ?r"
    using Cons.prems(1) by (auto simp: list_all_iff)
  moreover have "wanted ms (give a p) = wanted ms p" for a p by (simp add: wanted_def)
  ultimately show ?case
    using Cons by (auto simp: wanted_def)
qed

section \<open>Properties\<close>

text \<open>
  C6 Reassembly: let a peer send well-formed messages \<open>ms\<close> and the beginning
  \<open>x\<close> of a further one, cut into reads of any size the system likes (up to the 1500
  bytes one call takes), on top of what its buffer held before. Then the handler does what
  processing the messages one after the other does, returns with exactly \<open>x\<close> left in
  the buffer, and needs no more rounds than there are reads and no more fuel than there are
  messages.
\<close>

theorem router_reassembly:
  assumes "distinct (map tp_id r)" "this \<in> set (map tp_id r)"
    and "\<forall>c \<in> set cs. c \<noteq> [] \<and> length c \<le> 1500"
    and "wf_buffer b" "m_capacity (mb_storage b) \<le> 2 ^ 31" "length (visible b) + length (concat cs) \<le> 2 ^ 30"
    and "incomplete (visible b)" "visible b @ concat cs = wires ms @ x" "incomplete x"
    and "\<forall>m \<in> set ms. wf_message m" "length ms < fuel" "length cs < rounds"
    and "receive_all this ms r = Inr r'"
  shows "\<exists>b'. wf_buffer b' \<and> visible b' = x
    \<and> data_handler rounds fuel this (with_io this b (map RecvData cs) r) = Inr (with_io this b' [] r')"
  using rx.loop_chunks [of this r cs b ms x fuel rounds] assms by (simp add: chunked_def io_ok_def known_def)

lemma data_handler_delivers:
  assumes "distinct (map tp_id r)" "this \<in> set (map tp_id r)" "list_all healthy r"
    and "\<forall>c \<in> set cs. c \<noteq> [] \<and> length c \<le> 1500" "length (concat cs) \<le> 2 ^ 30"
    and "concat cs = wires ms"
    and "\<forall>m \<in> set ms. wf_message m \<and> \<not> m_is_admin (subject_new string_hash (subject_string m))"
    and "ms \<noteq> []" "length ms < fuel" "length cs < rounds"
  shows "\<exists>b'. visible b' = []
    \<and> data_handler rounds fuel this (with_io this (MessageBuffer_new a 4500) (map RecvData cs) r) =
      Inr (with_io this b' [] (map (\<lambda>p. give (wanted ms p) p) r))"
proof -
  let ?b = "MessageBuffer_new a 4500"
  have b: "wf_buffer ?b" "visible ?b = []" using wf_buffer_new[of 4500 a] by auto
  have "unat (next_pow2 (word_of_nat 4500)) \<le> 2 ^ 31" by (rule next_pow2_upper) simp_all
  then have cap: "m_capacity (mb_storage ?b) \<le> 2 ^ 31"
    by (simp add: MessageBuffer_new_def ByteStorage_alloc_def Let_def allocateStorage_def)
  obtain m where "m \<in> set ms" using assms(8) by (cases ms) auto
  then have inc: "incomplete []"
    using assms(7) wire_message_pos[of m] unfolding incomplete_def by (metis append_Nil length_greater_0_conv)
  have rec: "receive_all this ms r = Inr (map (\<lambda>p. give (wanted ms p) p) r)"
    using receive_all_healthy[OF assms(3)] assms(7) by blast
  show ?thesis
    using rx.loop_chunks [of this r cs ?b ms "[]" fuel rounds] b cap inc assms rec
    by (auto simp: chunked_def io_ok_def known_def)
qed

text \<open>
  C5 Publish and subscribe, end to end: when the peer \<open>this\<close> sends ordinary messages
  through any cutting into reads and every connection accepts what it is sent, each connected peer
  receives exactly the bytes of the messages it has a matching subscription for, in order, and
  nothing else.
\<close>

theorem router_delivers_to_subscribers:
  assumes "distinct (map tp_id r)" "this \<in> set (map tp_id r)" "list_all healthy r"
    and "\<forall>c \<in> set cs. c \<noteq> [] \<and> length c \<le> 1500" "length (concat cs) \<le> 2 ^ 30"
    and "concat cs = wires ms"
    and "\<forall>m \<in> set ms. wf_message m \<and> \<not> m_is_admin (subject_new string_hash (subject_string m))"
    and "ms \<noteq> []" "length ms < fuel" "length cs < rounds"
  shows "\<exists>b'. visible b' = []
    \<and> data_handler rounds fuel this (with_io this (MessageBuffer_new a 4500) (map RecvData cs) r) =
      Inr (with_io this b' [] (map (\<lambda>p. give (wanted ms p) p) r))"
  by (rule data_handler_delivers [OF assms])

text \<open>
  Registering: an admin message on \<^verbatim>\<open>_FP.REGISTER.OBSERVER\<close> with a non-empty \<^verbatim>\<open>subject\<close> field
  makes the peer interested in what it was interested in before and in what the new
  subscription matches.
\<close>

theorem register_adds_subscription:
  assumes "getDataField (Some (str_bytes ''subject'')) msg = Inr (Some data)" "data \<noteq> []"
  shows "\<exists>p'. handle_admin_message RegisterObserver msg p = Inr p'
    \<and> (\<forall>s. is_interested s p' \<longleftrightarrow> is_interested s p \<or> matches (subscription_new string_hash data) s)"
  using assms by (auto simp: handle_admin_message_def subject_equal_def add_subscription_def is_interested_def)

text \<open>
  Unregistering does nothing: the handler tests for the registration subject twice, so that a
  message on \<^verbatim>\<open>_FP.UNREGISTER.OBSERVER\<close> leaves every subscription in place.
\<close>

theorem unregister_ignored: "handle_admin_message UnregisterObserver msg p = Inr p"
proof -
  have "\<not> subject_equal UnregisterObserver RegisterObserver" by code_simp
  then show ?thesis by (simp add: handle_admin_message_def)
qed


section \<open>A length that wraps: the handler does not return\<close>

lemma wrapped_length: "unat (word_of_nat (2 ^ 64 - 9) + word_of_nat 9 :: size_t) = 0"
  by simp

definition hanging_frame :: "byte \<Rightarrow> byte list \<Rightarrow> byte list" where
  "hanging_frame flags str =
    [1] @ le_bytes 8 (2 ^ 64 - 9) @ [flags] @ le_bytes 4 0 @ le_bytes 2 (length str + 1) @ (str @ [0])"

lemma hanging_frame_at:
  assumes "at s (hanging_frame flags str)"
  shows "at s [1]" "at (advanceRead 1 s) (le_bytes 8 (2 ^ 64 - 9))" "at (advanceRead 9 s) [flags]"
    "at (advanceRead 14 s) (le_bytes 2 (length str + 1))" "at (advanceRead 16 s) (str @ [0])"
proof -
  note all = assms[unfolded hanging_frame_def at_append length_le_bytes advanceRead_simps]
  show "at s [1]" "at (advanceRead 1 s) (le_bytes 8 (2 ^ 64 - 9))" "at (advanceRead 9 s) [flags]"
    "at (advanceRead 14 s) (le_bytes 2 (length str + 1))" "at (advanceRead 16 s) (str @ [0])"
    using all by (simp_all del: le_bytes.simps)
qed

lemma hanging_addressing:
  assumes "at s (hanging_frame flags str)" "length str + 1 < 2 ^ 16"
  shows "\<exists>t. addressing_details s 0 = Inr (CompleteMessage,
      \<lparr>a_subject = Some (m_read_ptr s + 16), a_subject_length = length str + 1, a_flags = flags, a_msg_length = 0\<rparr>,
      advanceRead t s)"
proof -
  note h = hanging_frame_at[OF assms(1)]
  have rem: "16 \<le> remainingReadLength s"
    using at_remaining[OF assms(1)] by (simp add: hanging_frame_def del: le_bytes.simps)
  have "peekScalar 0 1 s = Inr 1" using at_peekScalar[of 0 s 1 1] h(1) by simp
  moreover have "peekScalar 1 8 s = Inr (2 ^ 64 - 9)"
    using at_peekScalar[OF h(2)] by simp
  ultimately have complete: "have_complete_message s = Inr (CompleteMessage, 0)"
    using rem wrapped_length
    by (simp add: have_complete_message_def MsgAddressing_size_def addressing_flag_def
        msg_length_offset_def Let_def del: One_nat_def)
  have f: "peekScalar 0 1 (advanceRead 9 s) = Inr (unat flags)"
    using at_peekScalar[of 0 "advanceRead 9 s" 1 "unat flags"] h(3) unsigned_less[of flags] by simp
  have n: "peekScalar 0 2 (advanceRead 14 s) = Inr (length str + 1)"
    using at_peekScalar[of 0 "advanceRead 14 s" 2 "length str + 1"] h(4) assms(2) by simp
  show ?thesis
    using complete f n by (intro exI[of _ "17 + length str"]) (simp add: addressing_details_def Let_def)
qed


lemma message_handler_none:
  "list_all (\<lambda>p. \<not> is_interested subj p) r \<Longrightarrow> message_handler subj bytes r = Inr r"
  by (induction r) auto

text \<open>
  C37 A peer can stop the router for good: \<^verbatim>\<open>have_complete_message\<close> adds the
  header size to the length field in 64 bits, so that the length \<open>2 ^ 64 - 9\<close> becomes
  0, the message counts as complete, no byte of it is consumed, and the loop over the messages of
  the buffer meets the same message again: no number of iterations is enough, whatever follows in
  the buffer.
\<close>

theorem wrapped_length_hangs:
  assumes "at s (hanging_frame flags str)" "nul_free str" "length str + 1 < 2 ^ 16"
    and "\<not> m_is_admin (subject_new string_hash str)"
    and "list_all (\<lambda>p. \<not> is_interested (subject_new string_hash str) p) r"
  shows "process_all fuel this s r = Inl OutOfFuel"
  using assms(1)
proof (induction fuel arbitrary: s)
  case (Suc fuel)
  have am: "at (mark s) (hanging_frame flags str)" using Suc.prems by simp
  obtain t where ad: "addressing_details (mark s) 0 = Inr (CompleteMessage,
      \<lparr>a_subject = Some (m_read_ptr s + 16), a_subject_length = length str + 1, a_flags = flags, a_msg_length = 0\<rparr>,
      advanceRead t (mark s))"
    using hanging_addressing[OF am assms(3)] by auto
  have "take (length (str @ [0])) (drop (m_read_ptr s + 16) (m_bytes s)) = str @ [0]"
    using hanging_frame_at(5)[OF Suc.prems] by (simp add: at_def)
  then obtain rest where d: "drop (m_read_ptr s + 16) (m_bytes s) = (str @ [0]) @ rest"
    by (metis append_take_drop_id)
  have str: "string_at (mark s) (m_read_ptr s + 16) = Inr str"
    unfolding string_at_def by (simp add: d c_string_append_nul assms(2))
  obtain seg where seg: "segment 0 (mark s) = Inr (seg, mark s)"
    using segment_message[of "mark s" "[]" 0] at_Nil[OF am] by auto
  have "process_buffer this s r = Inr (CompleteMessage, mark (mark s), r)"
    using ad str seg assms(4) message_handler_none[OF assms(5)]
    by (simp add: process_buffer_def Let_def)
  then show ?case using Suc.IH[of "mark (mark s)"] Suc.prems by simp
qed simp

section \<open>Witnesses\<close>

definition demo_router :: router where
  "demo_router =
    [tcp_peer_new (\<lambda>_. 0) 0 (socket_new 3 True),
     add_subscription (str_bytes ''A'') (tcp_peer_new (\<lambda>_. 0) 1 (socket_new 4 True))]"

lemma demo_message_ok:
  "wf_message demo_message" "\<not> m_is_admin (subject_new string_hash (subject_string demo_message))"
  by (rule demo_wf) code_simp

lemma demo_wanted:
  "wanted [demo_message] (demo_router ! 0) = []"
  "wanted [demo_message] (demo_router ! 1) = wire_message demo_message"
proof -
  have "matches (subscription_new string_hash (str_bytes ''A'')) (subject_new string_hash (str_bytes ''A''))"
    by code_simp
  then show "wanted [demo_message] (demo_router ! 0) = []"
    "wanted [demo_message] (demo_router ! 1) = wire_message demo_message"
    by (simp_all add: wanted_def demo_router_def is_interested_def tcp_peer_new_def add_subscription_def demo_subject)
qed

lemma demo_router_ok:
  "distinct (map tp_id demo_router)" "map tp_id demo_router = [0, 1]" "list_all healthy demo_router"
  by (simp_all add: demo_router_def tcp_peer_new_def add_subscription_def healthy_def socket_new_def)


theorem router_delivers_to_subscribers_witness:
  "\<exists>b r. data_handler 3 2 0 (with_io 0 (MessageBuffer_new (\<lambda>_. 0) 4500)
        (map RecvData [take 5 (wire_message demo_message), drop 5 (wire_message demo_message)]) demo_router)
      = Inr (with_io 0 b [] r)
    \<and> visible b = [] \<and> r ! 0 = demo_router ! 0 \<and> r ! 1 = give (wire_message demo_message) (demo_router ! 1)"
proof -
  let ?cs = "[take 5 (wire_message demo_message), drop 5 (wire_message demo_message)]"
  let ?r = "map (\<lambda>p. give (wanted [demo_message] p) p) demo_router"
  have ne: "wire_message demo_message \<noteq> []" using demo_length by auto
  have "\<exists>b'. visible b' = [] \<and> data_handler 3 2 0 (with_io 0 (MessageBuffer_new (\<lambda>_. 0) 4500)
      (map RecvData ?cs) demo_router) = Inr (with_io 0 b' [] ?r)"
    by (rule router_delivers_to_subscribers)
      (use demo_router_ok demo_message_ok demo_length ne in simp_all)
  then obtain b' where "visible b' = []" "data_handler 3 2 0 (with_io 0 (MessageBuffer_new (\<lambda>_. 0) 4500)
      (map RecvData ?cs) demo_router) = Inr (with_io 0 b' [] ?r)" by blast
  moreover have "length demo_router = 2" by (simp add: demo_router_def)
  ultimately show ?thesis using demo_wanted by (intro exI[of _ b'] exI[of _ ?r]) (simp add: nth_map)
qed

theorem router_reassembly_witness:
  "\<exists>b. data_handler 2 2 0 (with_io 0 (MessageBuffer_new (\<lambda>_. 0) 4500)
        [RecvData (wire_message demo_message @ [1])] demo_router)
      = Inr (with_io 0 b [] (map (\<lambda>p. give (wanted [demo_message] p) p) demo_router))
    \<and> visible b = [1]"
proof -
  let ?b = "MessageBuffer_new (\<lambda>_. 0) 4500"
  have b: "wf_buffer ?b" "visible ?b = []" using wf_buffer_new[of 4500 "\<lambda>_. 0"] by auto
  have "unat (next_pow2 (word_of_nat 4500)) \<le> 2 ^ 31" by (rule next_pow2_upper) simp_all
  then have cap: "m_capacity (mb_storage ?b) \<le> 2 ^ 31"
    by (simp add: MessageBuffer_new_def ByteStorage_alloc_def Let_def allocateStorage_def)
  obtain rest where "wire_message demo_message = [1] @ le_bytes 8 (length (wire_message demo_message) - 9) @ rest"
    using wire_message_head by blast
  then have inc: "incomplete [1]" "incomplete []"
    using demo_message_ok(1) unfolding incomplete_def by (auto simp del: le_bytes.simps) (metis append_Cons append_Nil
        append_is_Nil_conv length_0_conv length_le_bytes list.distinct(1) zero_neq_numeral)+
  have rec: "receive_all 0 [demo_message] demo_router =
      Inr (map (\<lambda>p. give (wanted [demo_message] p) p) demo_router)"
    by (rule receive_all_healthy) (use demo_router_ok demo_message_ok in simp_all)
  show ?thesis
    using router_reassembly[of demo_router 0 "[wire_message demo_message @ [1]]" ?b "[demo_message]" "[1]" 2 2, OF _ _ _ _ cap _ _ _ _ _ _ _ rec]
      b inc demo_router_ok demo_message_ok(1) demo_length by auto
qed

theorem register_adds_subscription_witness:
  "\<exists>p'. handle_admin_message RegisterObserver
      (Message True 255 [0] [SmallDataField \<lparr>f_identifier = str_bytes ''subject'', f_type = st_string,
          f_data_length = 2\<rparr> (str_bytes ''A'' @ [0])] [(str_bytes ''subject'', 0)])
      (tcp_peer_new (\<lambda>_. 0) 7 (socket_new 3 True)) = Inr p'
    \<and> is_interested (subject_new string_hash (str_bytes ''A'')) p'"
proof -
  have m: "matches (subscription_new string_hash (str_bytes ''A'' @ [0])) (subject_new string_hash (str_bytes ''A''))"
    by code_simp
  have g: "getDataField (Some (str_bytes ''subject'')) (Message True 255 [0] [SmallDataField
      \<lparr>f_identifier = str_bytes ''subject'', f_type = st_string, f_data_length = 2\<rparr> (str_bytes ''A'' @ [0])]
      [(str_bytes ''subject'', 0)]) = Inr (Some (str_bytes ''A'' @ [0]))"
    by code_simp
  show ?thesis using register_adds_subscription[OF g] m by fastforce
qed

theorem wrapped_length_hangs_witness:
  "\<exists>s. content s = hanging_frame 0 (str_bytes ''A'') \<and> process_all 1000 0 s [] = Inl OutOfFuel"
proof -
  let ?f = "hanging_frame 0 (str_bytes ''A'')"
  let ?s = "\<lparr>m_allocator = (\<lambda>_. 0), m_block = 0, m_bytes = ?f, m_capacity = 0, m_storedLength = length ?f,
    m_options = 0, m_read_ptr = 0, m_mark_ptr = 0\<rparr>"
  have a: "at ?s ?f" by (simp add: at_def hanging_frame_def str_bytes_def)
  have n: "\<not> m_is_admin (subject_new string_hash (str_bytes ''A''))" by code_simp
  have "process_all 1000 0 ?s [] = Inl OutOfFuel"
    by (rule wrapped_length_hangs[OF a _ _ n]) (simp_all add: str_bytes_def)
  then show ?thesis by (intro exI[of _ ?s]) (simp add: content_def)
qed

end
