(* ===== verification/Url.thy ===== *)
theory Url
  imports FP_Prelude
begin

text \<open>
  The URL parser of the transports (\<^verbatim>\<open>src/fastpath/transport/URL.cpp\<close>). An iterator is the
  rest of the string it points at, \<^verbatim>\<open>end()\<close> the empty list. The exceptions are
  \<^verbatim>\<open>std::invalid_argument\<close>; they are represented by their text. \<^verbatim>\<open>std::find\<close> called with a
  begin behind its end reads past the end of the string.
\<close>

section \<open>The parser\<close>

definition is_separator :: "char \<Rightarrow> bool" where
  "is_separator v \<longleftrightarrow> v = CHR ''/'' \<or> v = CHR '':'' \<or> v = CHR ''?''"

definition lower_char :: "char \<Rightarrow> char" where
  "lower_char c =
    (let n = of_char c :: nat in if 65 \<le> n \<and> n \<le> 90 then char_of (n + 32) else c)"

text \<open>\<^verbatim>\<open>std::search\<close>: what is in front of the first occurrence, and the occurrence.\<close>

fun search_for :: "string \<Rightarrow> string \<Rightarrow> string \<times> string" where
  "search_for pat [] = ([], [])"
| "search_for pat (c # s) =
    (if take (length pat) (c # s) = pat then ([], c # s)
     else (let (before, found) = search_for pat s in (c # before, found)))"

definition find_separator :: "string \<Rightarrow> string \<times> string" where
  "find_separator s = (takeWhile (\<lambda>c. \<not> is_separator c) s, dropWhile (\<lambda>c. \<not> is_separator c) s)"

record url =
  u_protocol :: string
  u_host :: string
  u_port :: string
  u_path :: string
  u_query :: "(string \<times> string) list"

function parse_query :: "string \<Rightarrow> (string \<times> string) list \<Rightarrow> (string \<times> string) list outcome" where
  "parse_query [] q = Inr q"
| "parse_query (c # pos) q =
    (let item = takeWhile (\<lambda>x. x \<noteq> CHR ''&'') pos;
         new_query = dropWhile (\<lambda>x. x \<noteq> CHR ''&'') pos
     in case item of
          [] \<Rightarrow> Inl OutOfBounds
        | k # ks \<Rightarrow>
            let key = k # takeWhile (\<lambda>x. x \<noteq> CHR ''='') ks;
                key_end = dropWhile (\<lambda>x. x \<noteq> CHR ''='') ks;
                value = (if key_end \<noteq> [] then tl key_end else [])
            in parse_query new_query (emplace key value q))"
  by pat_completeness auto
termination
  by (relation "measure (\<lambda>(s, q). length s)")
    (auto simp: less_Suc_eq_le length_dropWhile_le)

function parse_rest :: "string \<Rightarrow> url \<Rightarrow> url outcome" where
  "parse_rest [] u = Inr u"
| "parse_rest (c # pos) u =
    (if c = CHR '':'' then
       (let (port, port_end) = find_separator pos
        in parse_rest port_end (u\<lparr>u_port := u_port u @ port\<rparr>))
     else if c = CHR ''/'' then
       (let path = takeWhile (\<lambda>x. x \<noteq> CHR ''?'') pos;
            path_end = dropWhile (\<lambda>x. x \<noteq> CHR ''?'') pos
        in parse_rest path_end (u\<lparr>u_path := u_path u @ path\<rparr>))
     else if c = CHR ''?'' then
       bind_outcome (parse_query (c # pos) (u_query u)) (\<lambda>q. Inr (u\<lparr>u_query := q\<rparr>))
     else Inl (FpException ''Invalid URL''))"
  by pat_completeness auto
termination
  by (relation "measure (\<lambda>(s, u). length s)")
    (auto simp: less_Suc_eq_le length_dropWhile_le find_separator_def)

definition url_parse :: "string \<Rightarrow> url outcome" where
  "url_parse url_s =
    (let (prot, prot_i) = search_for ''://'' url_s
     in if prot_i = [] then Inl (FpException ''Invalid URL - no protocol'')
        else let (host, host_end) = find_separator (drop 3 prot_i)
             in parse_rest host_end
                  \<lparr>u_protocol = map lower_char prot, u_host = map lower_char host,
                   u_port = [], u_path = [], u_query = []\<rparr>)"

text \<open>\<^verbatim>\<open>operator==\<close>; two \<^verbatim>\<open>unordered_map\<close>s are equal when they hold the same pairs.\<close>

definition url_equal :: "url \<Rightarrow> url \<Rightarrow> bool" where
  "url_equal a b \<longleftrightarrow>
     u_protocol a = u_protocol b \<and> u_host a = u_host b \<and> u_port a = u_port b
     \<and> u_path a = u_path b \<and> set (u_query a) = set (u_query b)"

text \<open>\<^verbatim>\<open>make_realm_connection\<close>: which transport a URL selects.\<close>

datatype transport_kind = TCP | SHM

definition make_realm_connection :: "string \<Rightarrow> (transport_kind \<times> url) outcome" where
  "make_realm_connection connection_url =
    bind_outcome (url_parse connection_url) (\<lambda>u.
    if u_protocol u = ''tcp'' then Inr (TCP, u)
    else if u_protocol u = ''shm'' then Inr (SHM, u)
    else Inl (FpException ''Unsupported protocol''))"

section \<open>Printing\<close>

text \<open>The URLs the parser is meant for, written from their parts.\<close>

definition print_item :: "string \<times> string \<Rightarrow> string" where
  "print_item kv = fst kv @ ''='' @ snd kv"

fun print_items :: "char \<Rightarrow> (string \<times> string) list \<Rightarrow> string" where
  "print_items sep [] = []"
| "print_items sep (kv # q) = sep # print_item kv @ print_items (CHR ''&'') q"

definition print_url :: "url \<Rightarrow> string" where
  "print_url u =
     u_protocol u @ ''://'' @ u_host u @ (if u_port u = [] then [] else CHR '':'' # u_port u)
     @ (if u_path u = [] then [] else CHR ''/'' # u_path u) @ print_items (CHR ''?'') (u_query u)"

definition wf_item :: "string \<times> string \<Rightarrow> bool" where
  "wf_item kv \<longleftrightarrow> fst kv \<noteq> [] \<and> CHR ''='' \<notin> set (fst kv) \<and> CHR ''&'' \<notin> set (fst kv @ snd kv)"

definition wf_url :: "url \<Rightarrow> bool" where
  "wf_url u \<longleftrightarrow>
     (\<forall>c \<in> set (u_protocol u). c \<noteq> CHR '':'' \<and> lower_char c = c)
     \<and> (\<forall>c \<in> set (u_host u). \<not> is_separator c \<and> lower_char c = c)
     \<and> (\<forall>c \<in> set (u_port u). \<not> is_separator c) \<and> CHR ''?'' \<notin> set (u_path u)
     \<and> (\<forall>kv \<in> set (u_query u). wf_item kv) \<and> distinct (map fst (u_query u))"

section \<open>Lemmas\<close>

lemma search_for_protocol:
  "CHR '':'' \<notin> set p \<Longrightarrow> search_for ''://'' (p @ ''://'' @ s) = (p, ''://'' @ s)"
  by (induction p) auto

lemma takeWhile_stop: "\<forall>c \<in> set s. P c \<Longrightarrow> rest = [] \<or> \<not> P (hd rest) \<Longrightarrow> takeWhile P (s @ rest) = s"
  by (induction s) (cases rest; auto)+

lemma dropWhile_stop: "\<forall>c \<in> set s. P c \<Longrightarrow> rest = [] \<or> \<not> P (hd rest) \<Longrightarrow> dropWhile P (s @ rest) = rest"
  by (induction s) (cases rest; auto)+

lemma find_separator_stop:
  "\<forall>c \<in> set s. \<not> is_separator c \<Longrightarrow> rest = [] \<or> is_separator (hd rest)
   \<Longrightarrow> find_separator (s @ rest) = (s, rest)"
  by (cases rest) (auto simp: find_separator_def)

lemma map_lower [simp]: "\<forall>c \<in> set s. lower_char c = c \<Longrightarrow> map lower_char s = s"
  by (induction s) auto

lemma hd_print_items: "print_items sep q = [] \<or> hd (print_items sep q) = sep"
  by (cases q) auto

lemma parse_query_items:
  "\<forall>kv \<in> set q. wf_item kv \<Longrightarrow> distinct (map fst (acc @ q))
   \<Longrightarrow> parse_query (print_items sep q) acc = Inr (acc @ q)"
proof (induction q arbitrary: sep acc)
  case (Cons kv q)
  obtain k v where kv: "kv = (k, v)" by (cases kv)
  obtain c ks where k: "k = c # ks" using Cons.prems kv by (cases k) (auto simp: wf_item_def)
  define tail where "tail = print_items (CHR ''&'') q"
  have amp: "tail = [] \<or> \<not> hd tail \<noteq> CHR ''&''"
    using hd_print_items [of "CHR ''&''" q] by (simp add: tail_def)
  have noamp: "\<forall>x \<in> set (k @ ''='' @ v). x \<noteq> CHR ''&''"
    and noeq: "\<forall>x \<in> set ks. x \<noteq> CHR ''=''"
    using Cons.prems kv k by (auto simp: wf_item_def)
  have item: "takeWhile (\<lambda>x. x \<noteq> CHR ''&'') ((k @ ''='' @ v) @ tail) = k @ ''='' @ v"
    and nextq: "dropWhile (\<lambda>x. x \<noteq> CHR ''&'') ((k @ ''='' @ v) @ tail) = tail"
    using takeWhile_stop [OF noamp amp] dropWhile_stop [OF noamp amp] by simp_all
  have key: "takeWhile (\<lambda>x. x \<noteq> CHR ''='') (ks @ ''='' @ v) = ks"
    and keyend: "dropWhile (\<lambda>x. x \<noteq> CHR ''='') (ks @ ''='' @ v) = ''='' @ v"
    using takeWhile_stop [OF noeq, of "''='' @ v"] dropWhile_stop [OF noeq, of "''='' @ v"]
    by simp_all
  have "parse_query (print_items sep (kv # q)) acc = parse_query tail (emplace k v acc)"
    using item nextq key keyend by (simp add: kv k print_item_def tail_def)
  also have "emplace k v acc = acc @ [kv]"
    using Cons.prems kv by (auto intro!: emplace_fresh)
  also have "parse_query tail (acc @ [kv]) = Inr ((acc @ [kv]) @ q)"
    unfolding tail_def using Cons.prems by (intro Cons.IH) auto
  finally show ?case by simp
qed simp

lemma parse_query_trailing:
  "\<forall>kv \<in> set q. wf_item kv \<Longrightarrow>
   parse_query (print_items sep q @ [CHR ''&'']) acc = Inl OutOfBounds"
proof (induction q arbitrary: sep acc)
  case (Cons kv q)
  obtain k v where kv: "kv = (k, v)" by (cases kv)
  obtain c ks where k: "k = c # ks" using Cons.prems kv by (cases k) (auto simp: wf_item_def)
  define tail where "tail = print_items (CHR ''&'') q @ [CHR ''&'']"
  have amp: "tail = [] \<or> \<not> hd tail \<noteq> CHR ''&''"
    using hd_print_items [of "CHR ''&''" q] by (auto simp: tail_def hd_append)
  have noamp: "\<forall>x \<in> set (k @ ''='' @ v). x \<noteq> CHR ''&''"
    using Cons.prems kv by (auto simp: wf_item_def)
  have "takeWhile (\<lambda>x. x \<noteq> CHR ''&'') ((k @ ''='' @ v) @ tail) = k @ ''='' @ v"
    and "dropWhile (\<lambda>x. x \<noteq> CHR ''&'') ((k @ ''='' @ v) @ tail) = tail"
    using takeWhile_stop [OF noamp amp] dropWhile_stop [OF noamp amp] by simp_all
  then have "\<exists>acc'. parse_query (print_items sep (kv # q) @ [CHR ''&'']) acc = parse_query tail acc'"
    by (auto simp: kv k print_item_def tail_def Let_def)
  then show ?case using Cons by (auto simp: tail_def)
qed simp

lemma parse_rest_query:
  "\<forall>kv \<in> set q. wf_item kv \<Longrightarrow> distinct (map fst q) \<Longrightarrow> u_query u = []
   \<Longrightarrow> parse_rest (print_items (CHR ''?'') q) u = Inr (u\<lparr>u_query := q\<rparr>)"
  using parse_query_items [of q "[]" "CHR ''?''"] by (cases q) auto

lemma parse_rest_path:
  assumes "CHR ''?'' \<notin> set p" "rest = [] \<or> hd rest = CHR ''?''"
  shows "parse_rest ((if p = [] then [] else CHR ''/'' # p) @ rest) u
       = parse_rest rest (u\<lparr>u_path := u_path u @ p\<rparr>)"
proof -
  have "takeWhile (\<lambda>x. x \<noteq> CHR ''?'') (p @ rest) = p" "dropWhile (\<lambda>x. x \<noteq> CHR ''?'') (p @ rest) = rest"
    using assms by (auto intro!: takeWhile_stop dropWhile_stop)
  then show ?thesis by simp
qed

lemma parse_rest_port:
  assumes "\<forall>c \<in> set p. \<not> is_separator c" "rest = [] \<or> is_separator (hd rest)"
  shows "parse_rest ((if p = [] then [] else CHR '':'' # p) @ rest) u
       = parse_rest rest (u\<lparr>u_port := u_port u @ p\<rparr>)"
  using find_separator_stop [OF assms] by simp

lemma wf_url_tail:
  assumes "wf_url u" "rest = (if u_port u = [] then [] else CHR '':'' # u_port u)
     @ (if u_path u = [] then [] else CHR ''/'' # u_path u) @ q"
    "q = [] \<or> hd q = CHR ''?''" "v = \<lparr>u_protocol = u_protocol u, u_host = u_host u, u_port = [], u_path = [], u_query = []\<rparr>"
  shows "url_parse (u_protocol u @ ''://'' @ u_host u @ rest)
       = parse_rest q (v\<lparr>u_port := u_port u, u_path := u_path u\<rparr>)"
proof -
  have wf: "CHR '':'' \<notin> set (u_protocol u)" "\<forall>c \<in> set (u_protocol u). lower_char c = c"
    "\<forall>c \<in> set (u_host u). \<not> is_separator c" "\<forall>c \<in> set (u_host u). lower_char c = c"
    "\<forall>c \<in> set (u_port u). \<not> is_separator c" "CHR ''?'' \<notin> set (u_path u)"
    using assms(1) by (auto simp: wf_url_def)
  have q: "q = [] \<or> is_separator (hd q)" using assms(3) by (auto simp: is_separator_def)
  then have mid: "(if u_path u = [] then [] else CHR ''/'' # u_path u) @ q = []
      \<or> is_separator (hd ((if u_path u = [] then [] else CHR ''/'' # u_path u) @ q))"
    by (auto simp: is_separator_def)
  then have rest: "rest = [] \<or> is_separator (hd rest)"
    using assms(2) by (auto simp: is_separator_def)
  have "url_parse (u_protocol u @ ''://'' @ u_host u @ rest) = parse_rest rest v"
    using search_for_protocol [OF wf(1), of "u_host u @ rest"] find_separator_stop [OF wf(3) rest] wf(2,4)
    by (simp add: url_parse_def assms(4))
  also have "\<dots> = parse_rest ((if u_path u = [] then [] else CHR ''/'' # u_path u) @ q)
                    (v\<lparr>u_port := u_port u\<rparr>)"
    unfolding assms(2) using parse_rest_port [OF wf(5) mid, of v] by (simp add: assms(4))
  also have "\<dots> = parse_rest q (v\<lparr>u_port := u_port u, u_path := u_path u\<rparr>)"
    using parse_rest_path [OF wf(6) assms(3), of "v\<lparr>u_port := u_port u\<rparr>"] by (simp add: assms(4))
  finally show ?thesis .
qed

section \<open>Properties\<close>

text \<open>
  C33 A URL written from its parts is parsed into those parts: protocol, host, optional port,
  optional path and any number of query items with different keys, each of them possibly
  empty where the syntax allows it. Protocol and host are lower-case, as the parser makes them, and
  no part has a character that would end it.
\<close>

theorem url_roundtrip:
  assumes "wf_url u"
  shows "url_parse (print_url u) = Inr u"
proof -
  have "parse_rest (print_items (CHR ''?'') (u_query u))
      (\<lparr>u_protocol = u_protocol u, u_host = u_host u, u_port = [], u_path = [], u_query = []\<rparr>
         \<lparr>u_port := u_port u, u_path := u_path u\<rparr>) = Inr u"
    using assms by (subst parse_rest_query) (auto simp: wf_url_def)
  then show ?thesis
    unfolding print_url_def using hd_print_items
    by (subst wf_url_tail [OF assms refl _ refl]) auto
qed

theorem url_roundtrip_witness:
  "url_parse ''tcp://localhost:1234/realm/a?id=7&x='' =
     Inr \<lparr>u_protocol = ''tcp'', u_host = ''localhost'', u_port = ''1234'', u_path = ''realm/a'',
          u_query = [(''id'', ''7''), (''x'', [])]\<rparr>"
proof -
  define u where "u = \<lparr>u_protocol = ''tcp'', u_host = ''localhost'', u_port = ''1234'',
    u_path = ''realm/a'', u_query = [(''id'', ''7''), (''x'', [])]\<rparr>"
  have "wf_url u" unfolding u_def by code_simp
  from url_roundtrip [OF this] show ?thesis
    by (simp add: u_def print_url_def print_item_def)
qed

text \<open>
  A question mark with nothing behind it, or an ampersand at the end of the query, makes
  the parser search from behind the end of the string: the iterator is advanced past the end
  before it is compared with it.
\<close>

theorem url_empty_item_faults:
  assumes "wf_url u"
  shows "url_parse (print_url u @ (if u_query u = [] then ''?'' else ''&'')) = Inl OutOfBounds"
proof -
  define v where "v = \<lparr>u_protocol = u_protocol u, u_host = u_host u, u_port = [], u_path = [], u_query = []\<rparr>"
  define q where "q = print_items (CHR ''?'') (u_query u) @ (if u_query u = [] then ''?'' else ''&'')"
  have hd: "q = [] \<or> hd q = CHR ''?''"
    using hd_print_items [of "CHR ''?''" "u_query u"] by (cases "u_query u") (auto simp: q_def)
  have items: "\<forall>kv \<in> set (u_query u). wf_item kv" using assms by (simp add: wf_url_def)
  have query: "parse_query q [] = Inl OutOfBounds"
  proof (cases "u_query u = []")
    case True
    then show ?thesis by (simp add: q_def)
  next
    case False
    then show ?thesis using parse_query_trailing [OF items] by (simp only: q_def if_False)
  qed
  then obtain pos where pos: "q = CHR ''?'' # pos" using hd by (cases q) auto
  have "parse_rest q (v\<lparr>u_port := u_port u, u_path := u_path u\<rparr>) = Inl OutOfBounds"
    using query unfolding pos by (simp add: v_def del: parse_query.simps)
  then show ?thesis
    using wf_url_tail [OF assms refl hd v_def] by (simp add: print_url_def q_def)
qed

theorem url_empty_item_faults_witness: "url_parse ''shm://realm?'' = Inl OutOfBounds"
proof -
  define u where "u = \<lparr>u_protocol = ''shm'', u_host = ''realm'', u_port = [], u_path = [], u_query = []\<rparr>"
  have "wf_url u" unfolding u_def by code_simp
  from url_empty_item_faults [OF this] show ?thesis
    by (simp add: u_def print_url_def)
qed

end
