(* ===== verification/Poll_Manager.thy ===== *)
theory Poll_Manager
  imports FP_Prelude
begin

text \<open>
  The poll loop on Linux (\<^verbatim>\<open>src/fastpath/event/PollManager.h\<close> and
  \<^verbatim>\<open>src/fastpath/event/arch/linux/PollManager.cpp\<close>). The kernel is outside the sources:
  whether \<^verbatim>\<open>epoll_ctl\<close> accepts a request is asked of the function \<open>ep_answer\<close>, which sees
  the interest list, and what \<^verbatim>\<open>epoll_wait\<close> and the read of a \<^verbatim>\<open>signalfd_siginfo\<close> return are
  arguments of \<open>poll_run\<close>. A request that is accepted changes the interest list as
  documented. File descriptors and identifiers are \<^verbatim>\<open>int\<close>; the \<^verbatim>\<open>data\<close> union of an
  \<^verbatim>\<open>epoll_event\<close> is its 64-bit word, \<^verbatim>\<open>data.fd\<close> the low half of it.
\<close>

section \<open>Elements and the kernel\<close>

datatype errno = EEXIST | ENOENT | EBADF | EINTR | EOTHER

datatype ctl_op = EPOLL_CTL_ADD | EPOLL_CTL_DEL

record epoll_event =
  ev_events :: u32
  ev_data :: "64 word"

type_synonym interest = "(int \<times> epoll_event) list"

abbreviation EPOLLIN :: u32 where "EPOLLIN \<equiv> 1"
abbreviation EPOLLOUT :: u32 where "EPOLLOUT \<equiv> 4"
abbreviation EPOLLET :: u32 where "EPOLLET \<equiv> 0x80000000"

text \<open>\<^verbatim>\<open>EventType\<close>: a set of the flags \<^verbatim>\<open>READ\<close> and \<^verbatim>\<open>WRITE\<close>.\<close>

abbreviation ev_NONE :: u32 where "ev_NONE \<equiv> 0"
abbreviation ev_READ :: u32 where "ev_READ \<equiv> 1"
abbreviation ev_WRITE :: u32 where "ev_WRITE \<equiv> 2"

definition TimerIdentifier :: "64 word" where
  "TimerIdentifier = push_bit 33 1"

definition SignalIdentifier :: "64 word" where
  "SignalIdentifier = push_bit 33 2"

datatype poll_element =
    IOElement (pe_identifier: int) (pe_filter: u32)
  | TimerElement (pe_identifier: int)
  | SignalElement (pe_identifier: int) (pe_signal: int)

record poll =
  m_events :: int
  m_err_count :: nat
  ep_interest :: interest
  ep_answer :: "ctl_op \<Rightarrow> int \<Rightarrow> interest \<Rightarrow> errno option"

definition poll_new :: "(ctl_op \<Rightarrow> int \<Rightarrow> interest \<Rightarrow> errno option) \<Rightarrow> poll" where
  "poll_new answer = \<lparr>m_events = 0, m_err_count = 0, ep_interest = [], ep_answer = answer\<rparr>"

definition epoll_ctl :: "ctl_op \<Rightarrow> int \<Rightarrow> epoll_event \<Rightarrow> poll \<Rightarrow> errno option \<times> poll" where
  "epoll_ctl op fd ev p =
    (case ep_answer p op fd (ep_interest p) of
       Some e \<Rightarrow> (Some e, p)
     | None \<Rightarrow> (None, case op of
         EPOLL_CTL_ADD \<Rightarrow> p\<lparr>ep_interest := ep_interest p @ [(fd, ev)]\<rparr>
       | EPOLL_CTL_DEL \<Rightarrow> p\<lparr>ep_interest := filter (\<lambda>x. fst x \<noteq> fd) (ep_interest p)\<rparr>))"

section \<open>EventPoll\<close>

text \<open>\<^verbatim>\<open>ev.data.fd = fd\<close> after \<^verbatim>\<open>memset\<close>, and reading \<^verbatim>\<open>ev.data.fd\<close>.\<close>

definition data_of_fd :: "int \<Rightarrow> 64 word" where
  "data_of_fd fd = ucast (word_of_int fd :: u32)"

definition fd_of_data :: "64 word \<Rightarrow> int" where
  "fd_of_data d = sint (ucast d :: u32)"

text \<open>The msk both IO operations compute from the filter, without \<^verbatim>\<open>EPOLLET\<close>.\<close>

definition io_mask :: "u32 \<Rightarrow> u32" where
  "io_mask flt = (if flt AND ev_READ = ev_READ then EPOLLIN else 0)
                 OR (if flt AND ev_WRITE = ev_WRITE then EPOLLOUT else 0)"

definition poll_add_timer :: "int \<Rightarrow> poll \<Rightarrow> bool \<times> poll" where
  "poll_add_timer fd p =
    (let (r, p) = epoll_ctl EPOLL_CTL_ADD fd
           \<lparr>ev_events = EPOLLIN, ev_data = word_of_int fd OR TimerIdentifier\<rparr> p
     in if r \<noteq> None then (False, p) else (True, p\<lparr>m_events := m_events p + 1\<rparr>))"

definition poll_update_timer :: "int \<Rightarrow> poll \<Rightarrow> bool \<times> poll" where
  "poll_update_timer fd p = (True, p)"

definition poll_remove_timer :: "int \<Rightarrow> poll \<Rightarrow> bool \<times> poll" where
  "poll_remove_timer fd p =
    (let (r, p) = epoll_ctl EPOLL_CTL_DEL fd \<lparr>ev_events = EPOLLIN, ev_data = data_of_fd fd\<rparr> p
     in if r \<noteq> None then (False, p) else (True, p\<lparr>m_events := m_events p - 1\<rparr>))"

definition poll_add_io :: "int \<Rightarrow> u32 \<Rightarrow> poll \<Rightarrow> bool \<times> poll" where
  "poll_add_io fd flt p =
    (let (r, p) = epoll_ctl EPOLL_CTL_ADD fd
           \<lparr>ev_events = EPOLLET OR io_mask flt, ev_data = data_of_fd fd\<rparr> p
     in if r \<noteq> None then (False, p) else (True, p\<lparr>m_events := m_events p + 1\<rparr>))"

definition poll_remove_io :: "int \<Rightarrow> u32 \<Rightarrow> poll \<Rightarrow> bool \<times> poll" where
  "poll_remove_io fd flt p =
    (let (r, p) = epoll_ctl EPOLL_CTL_DEL fd \<lparr>ev_events = io_mask flt, ev_data = data_of_fd fd\<rparr> p
     in if r \<noteq> None \<and> r \<noteq> Some EBADF then (False, p) else (True, p\<lparr>m_events := m_events p - 1\<rparr>))"

definition poll_add_signal :: "int \<Rightarrow> int \<Rightarrow> poll \<Rightarrow> bool \<times> poll" where
  "poll_add_signal fd signo p =
    (let (r, p) = epoll_ctl EPOLL_CTL_ADD fd
           \<lparr>ev_events = EPOLLIN, ev_data = word_of_int fd OR SignalIdentifier\<rparr> p
     in if r \<noteq> None then (False, p) else (True, p\<lparr>m_events := m_events p + 1\<rparr>))"

definition poll_remove_signal :: "int \<Rightarrow> int \<Rightarrow> poll \<Rightarrow> bool \<times> poll" where
  "poll_remove_signal fd signo p =
    (let (r, p) = epoll_ctl EPOLL_CTL_DEL fd \<lparr>ev_events = EPOLLIN, ev_data = data_of_fd fd\<rparr> p
     in if r \<noteq> None then (False, p) else (True, p\<lparr>m_events := m_events p - 1\<rparr>))"

text \<open>
  \<^verbatim>\<open>run\<close>: the callbacks it makes, in order. The array \<^verbatim>\<open>epoll_wait\<close> fills is local, so that
  nothing a callback does changes the callbacks that follow. \<open>siginfo fd\<close> is the signal number
  a read of the descriptor delivers.
\<close>

datatype wait_result = WaitEvents "epoll_event list" | WaitError errno

definition run_filter :: "u32 \<Rightarrow> u32" where
  "run_filter msk = (if msk AND EPOLLIN = EPOLLIN then ev_READ else 0)
                     OR (if msk AND EPOLLOUT = EPOLLOUT then ev_WRITE else 0)"

definition poll_dispatch :: "(int \<Rightarrow> int) \<Rightarrow> epoll_event \<Rightarrow> poll_element option" where
  "poll_dispatch siginfo ev =
    (if ev_data ev AND TimerIdentifier = TimerIdentifier then Some (TimerElement (fd_of_data (ev_data ev)))
     else if ev_data ev AND SignalIdentifier = SignalIdentifier
     then Some (SignalElement (fd_of_data (ev_data ev)) (siginfo (fd_of_data (ev_data ev))))
     else if run_filter (ev_events ev) \<noteq> ev_NONE
     then Some (IOElement (fd_of_data (ev_data ev)) (run_filter (ev_events ev)))
     else None)"

definition poll_run :: "wait_result \<Rightarrow> (int \<Rightarrow> int) \<Rightarrow> poll \<Rightarrow> int \<times> poll_element list \<times> poll" where
  "poll_run wait siginfo p =
    (if m_events p \<noteq> 0 then
       (case wait of
          WaitEvents evs \<Rightarrow>
            if evs \<noteq> [] then (0, List.map_filter (poll_dispatch siginfo) evs, p\<lparr>m_err_count := 0\<rparr>)
            else (0, [], p)
        | WaitError e \<Rightarrow>
            if e = EINTR \<and> m_err_count p < 10 then (0, [], p\<lparr>m_err_count := m_err_count p + 1\<rparr>)
            else (-1, [], p))
     else (0, [], p))"

section \<open>Lemmas\<close>

text \<open>What the manual of \<^verbatim>\<open>epoll_ctl\<close> says of descriptors that are, or are not, in the list.\<close>

definition epoll_documented :: "(ctl_op \<Rightarrow> int \<Rightarrow> interest \<Rightarrow> errno option) \<Rightarrow> bool" where
  "epoll_documented answer \<longleftrightarrow>
     (\<forall>fd l. fd \<in> fst ` set l \<longrightarrow> answer EPOLL_CTL_ADD fd l = Some EEXIST)
     \<and> (\<forall>fd l. fd \<notin> fst ` set l \<longrightarrow> answer EPOLL_CTL_DEL fd l \<noteq> None)"

definition epoll_accepts :: "ctl_op \<Rightarrow> int \<Rightarrow> interest \<Rightarrow> errno option" where
  "epoll_accepts op fd l =
    (case op of EPOLL_CTL_ADD \<Rightarrow> if fd \<in> fst ` set l then Some EEXIST else None
     | EPOLL_CTL_DEL \<Rightarrow> if fd \<in> fst ` set l then None else Some ENOENT)"

lemma epoll_accepts_documented [simp]: "epoll_documented epoll_accepts"
  by (auto simp: epoll_documented_def epoll_accepts_def)

lemma fd_bits:
  assumes "0 \<le> fd" "fd < 2 ^ 31"
  shows "bit (word_of_int fd :: 64 word) n \<Longrightarrow> n < 31"
proof -
  assume "bit (word_of_int fd :: 64 word) n"
  then have "bit fd n" by (simp add: bit_word_of_int_iff)
  moreover have "fd = take_bit 31 fd" using assms by (simp add: take_bit_int_eq_self)
  ultimately show "n < 31" by (metis bit_take_bit_iff)
qed

lemma fd_of_word:
  assumes "0 \<le> fd" "fd < 2 ^ 31"
  shows "sint (word_of_int fd :: u32) = fd"
  using assms by (simp add: sint_sbintrunc' signed_take_bit_int_eq_self)

lemma data_of_fd_eq:
  assumes "0 \<le> fd" "fd < 2 ^ 31"
  shows "data_of_fd fd = word_of_int fd"
proof -
  have "uint (word_of_int fd :: u32) = fd"
    using assms by (simp add: uint_word_of_int_eq take_bit_int_eq_self)
  then show ?thesis by (simp add: data_of_fd_def ucast_eq)
qed

lemma fd_of_data_tagged:
  assumes "0 \<le> fd" "fd < 2 ^ 31" "\<And>n. bit t n \<Longrightarrow> 32 \<le> n"
  shows "fd_of_data (word_of_int fd OR t) = fd"
proof -
  have "ucast (word_of_int fd OR t :: 64 word) = (word_of_int fd :: u32)"
    using assms(3) by (intro bit_word_eqI) (auto simp: bit_simps dest: leD)
  then show ?thesis using fd_of_word [OF assms(1,2)] by (simp add: fd_of_data_def)
qed

lemma bit_TimerIdentifier: "bit TimerIdentifier n \<longleftrightarrow> n = 33"
  by (simp only: TimerIdentifier_def bit_push_bit_iff bit_1_iff possible_bit_word) auto

lemma bit_SignalIdentifier: "bit SignalIdentifier n \<longleftrightarrow> n = 34"
proof -
  have "SignalIdentifier = push_bit 34 1" by (simp add: SignalIdentifier_def)
  then have "bit SignalIdentifier n \<longleftrightarrow> bit (push_bit 34 1 :: 64 word) n" by (rule arg_cong)
  also have "\<dots> \<longleftrightarrow> n = 34" by (simp only: bit_push_bit_iff bit_1_iff possible_bit_word) auto
  finally show ?thesis .
qed

lemma tag_test:
  assumes "\<And>n. bit t n \<longleftrightarrow> n = k" "k < LENGTH('a)"
  shows "(d AND t = t) \<longleftrightarrow> bit (d :: 'a :: len word) k"
proof
  assume "d AND t = t"
  then show "bit d k" using assms by (metis bit_and_iff)
next
  assume "bit d k"
  then show "d AND t = t" using assms by (intro bit_word_eqI) (auto simp: bit_and_iff)
qed

lemmas timer_test = tag_test [OF bit_TimerIdentifier, simplified]
lemmas signal_test = tag_test [OF bit_SignalIdentifier, simplified]

lemma dispatch_timer:
  assumes "0 \<le> fd" "fd < 2 ^ 31"
  shows "poll_dispatch siginfo \<lparr>ev_events = m, ev_data = word_of_int fd OR TimerIdentifier\<rparr>
       = Some (TimerElement fd)"
  using fd_of_data_tagged [OF assms, of TimerIdentifier]
  by (simp add: poll_dispatch_def timer_test bit_or_iff bit_TimerIdentifier)

lemma fd_high_bits:
  assumes "0 \<le> fd" "fd < 2 ^ 31" "31 \<le> n"
  shows "\<not> bit (word_of_int fd :: 64 word) n"
  using fd_bits [OF assms(1,2)] assms(3) by (meson leD)

lemma dispatch_signal:
  assumes "0 \<le> fd" "fd < 2 ^ 31"
  shows "poll_dispatch siginfo \<lparr>ev_events = m, ev_data = word_of_int fd OR SignalIdentifier\<rparr>
       = Some (SignalElement fd (siginfo fd))"
  using fd_of_data_tagged [OF assms, of SignalIdentifier] fd_high_bits [OF assms, of 33]
  by (simp add: poll_dispatch_def timer_test signal_test bit_or_iff bit_TimerIdentifier bit_SignalIdentifier)

lemma dispatch_io:
  assumes "0 \<le> fd" "fd < 2 ^ 31"
  shows "poll_dispatch siginfo \<lparr>ev_events = m, ev_data = data_of_fd fd\<rparr>
       = (if run_filter m \<noteq> ev_NONE then Some (IOElement fd (run_filter m)) else None)"
proof -
  have "fd_of_data (word_of_int fd) = fd"
    using fd_of_data_tagged [OF assms, of 0] by simp
  then show ?thesis
    using fd_high_bits [OF assms, of 33] fd_high_bits [OF assms, of 34]
    by (simp add: poll_dispatch_def timer_test signal_test data_of_fd_eq [OF assms])
qed

text \<open>An element as the kernel stores it, and the callback it stands for.\<close>

fun poll_add :: "poll_element \<Rightarrow> poll \<Rightarrow> bool \<times> poll" where
  "poll_add (IOElement fd flt) p = poll_add_io fd flt p"
| "poll_add (TimerElement fd) p = poll_add_timer fd p"
| "poll_add (SignalElement fd signo) p = poll_add_signal fd signo p"

fun poll_remove :: "poll_element \<Rightarrow> poll \<Rightarrow> bool \<times> poll" where
  "poll_remove (IOElement fd flt) p = poll_remove_io fd flt p"
| "poll_remove (TimerElement fd) p = poll_remove_timer fd p"
| "poll_remove (SignalElement fd signo) p = poll_remove_signal fd signo p"

definition ready_flags :: "bool \<Rightarrow> bool \<Rightarrow> u32" where
  "ready_flags readable writable =
    (if readable then if writable then 3 else ev_READ else if writable then ev_WRITE else ev_NONE)"

text \<open>In the masks of \<^verbatim>\<open>epoll\<close> bit 0 stands for readable, bit 2 for writable and bit 31 for edge triggering.\<close>

fun callback_for :: "(int \<Rightarrow> int) \<Rightarrow> u32 \<Rightarrow> poll_element \<Rightarrow> poll_element option" where
  "callback_for siginfo m (IOElement fd flt) =
     (if bit m 0 \<or> bit m 2 then Some (IOElement fd (ready_flags (bit m 0) (bit m 2))) else None)"
| "callback_for siginfo m (TimerElement fd) = Some (TimerElement fd)"
| "callback_for siginfo m (SignalElement fd signo) = Some (SignalElement fd (siginfo fd))"

fun asked_for :: "poll_element \<Rightarrow> u32 \<Rightarrow> bool" where
  "asked_for (IOElement fd flt) m \<longleftrightarrow> (\<forall>n. bit m n \<longleftrightarrow> n = 31 \<or> n = 0 \<and> bit flt 0 \<or> n = 2 \<and> bit flt 1)"
| "asked_for (TimerElement fd) m \<longleftrightarrow> (\<forall>n. bit m n \<longleftrightarrow> n = 0)"
| "asked_for (SignalElement fd signo) m \<longleftrightarrow> (\<forall>n. bit m n \<longleftrightarrow> n = 0)"

lemma flag_bits:
  "bit (1 :: u32) n \<longleftrightarrow> n = 0" "bit (2 :: u32) n \<longleftrightarrow> n = 1" "bit (4 :: u32) n \<longleftrightarrow> n = 2" "bit (0x80000000 :: u32) n \<longleftrightarrow> n = 31"
proof -
  have "bit (push_bit k 1 :: u32) n \<longleftrightarrow> n = k" if "k < 32" for k
    using that by (simp only: bit_push_bit_iff bit_1_iff possible_bit_word len_num1 len_bit0) auto
  from this [of 0] this [of 1] this [of 2] this [of 31]
  show "bit (1 :: u32) n \<longleftrightarrow> n = 0" "bit (2 :: u32) n \<longleftrightarrow> n = 1" "bit (4 :: u32) n \<longleftrightarrow> n = 2" "bit (0x80000000 :: u32) n \<longleftrightarrow> n = 31"
    by simp_all
qed

lemma flag_tests:
  "m AND 1 = (1 :: u32) \<longleftrightarrow> bit m 0" "m AND 2 = (2 :: u32) \<longleftrightarrow> bit m 1" "m AND 4 = (4 :: u32) \<longleftrightarrow> bit m 2"
  by (rule tag_test, rule flag_bits, simp)+

lemma run_filter_ready: "run_filter m = ready_flags (bit m 0) (bit m 2)"
  unfolding run_filter_def flag_tests by (simp add: ready_flags_def)

lemma ready_flags_none: "ready_flags r w = ev_NONE \<longleftrightarrow> \<not> r \<and> \<not> w"
  by (simp add: ready_flags_def)

lemma io_mask_asked: "asked_for (IOElement fd flt) (EPOLLET OR io_mask flt)"
proof -
  have "bit (if b then 1 else 0 :: u32) n \<longleftrightarrow> b \<and> n = 0" "bit (if b then 4 else 0 :: u32) n \<longleftrightarrow> b \<and> n = 2" for b n
    using flag_bits(1,3) [of n] by simp_all
  then show ?thesis unfolding io_mask_def flag_tests asked_for.simps bit_or_iff flag_bits by blast
qed

lemma poll_add_new:
  assumes "poll_add e p = (True, p')"
  shows "m_events p' = m_events p + 1 \<and> ep_answer p' = ep_answer p
    \<and> (\<exists>ev. ep_interest p' = ep_interest p @ [(pe_identifier e, ev)] \<and> asked_for e (ev_events ev)
        \<and> (0 \<le> pe_identifier e \<and> pe_identifier e < 2 ^ 31 \<longrightarrow>
            (\<forall>m siginfo. poll_dispatch siginfo (ev\<lparr>ev_events := m\<rparr>) = callback_for siginfo m e)))"
proof (cases e)
  case (IOElement fd flt)
  then show ?thesis using assms io_mask_asked [of fd flt]
    by (auto simp: poll_add_io_def epoll_ctl_def dispatch_io run_filter_ready ready_flags_none
        simp del: asked_for.simps split: option.splits)
next
  case (TimerElement fd)
  then show ?thesis using assms
    by (auto simp: poll_add_timer_def epoll_ctl_def dispatch_timer flag_bits split: option.splits)
next
  case (SignalElement fd signo)
  then show ?thesis using assms
    by (auto simp: poll_add_signal_def epoll_ctl_def dispatch_signal flag_bits split: option.splits)
qed

section \<open>Properties\<close>

text \<open>
  C35 The tag bits sort the events of one \<^verbatim>\<open>epoll\<close> set back into the three
  kinds: an element that was added, with a descriptor below \<open>2 ^ 31\<close>, is counted and
  stored under its descriptor, and the kernel is asked for input or output, edge triggered, as the
  filter says, and for input on timers and signals. When \<^verbatim>\<open>epoll_wait\<close>
  returns what was stored, with whatever bits are ready, \<^verbatim>\<open>run\<close> calls the
  callback of that kind with that descriptor: timers as timers, signals with the number read from
  the descriptor, and descriptors with \<^verbatim>\<open>READ\<close> when the bit for input is set
  and \<^verbatim>\<open>WRITE\<close> when the bit for output is, or not at all when neither is.
\<close>

theorem poll_dispatches_what_was_added:
  assumes "poll_add e p = (True, p')" "0 \<le> pe_identifier e" "pe_identifier e < 2 ^ 31" "0 \<le> m_events p"
  shows "\<exists>ev. ep_interest p' = ep_interest p @ [(pe_identifier e, ev)] \<and> m_events p' = m_events p + 1 \<and> asked_for e (ev_events ev)
    \<and> (\<forall>m siginfo. poll_run (WaitEvents [ev\<lparr>ev_events := m\<rparr>]) siginfo p'
         = (0, (case callback_for siginfo m e of None \<Rightarrow> [] | Some c \<Rightarrow> [c]), p'\<lparr>m_err_count := 0\<rparr>))"
proof -
  obtain ev where ev: "ep_interest p' = ep_interest p @ [(pe_identifier e, ev)]"
    "m_events p' = m_events p + 1" "asked_for e (ev_events ev)"
    "\<And>m siginfo. poll_dispatch siginfo (ev\<lparr>ev_events := m\<rparr>) = callback_for siginfo m e"
    using poll_add_new [OF assms(1)] assms(2,3) by (auto simp del: asked_for.simps)
  show ?thesis
    by (rule exI [of _ ev]) (use ev assms(4) in
      \<open>auto simp: poll_run_def List.map_filter_def simp del: asked_for.simps split: option.splits\<close>)
qed

theorem poll_dispatches_what_was_added_witness:
  "\<exists>p' ev. poll_add (IOElement 7 ev_WRITE) (poll_new epoll_accepts) = (True, p')
     \<and> ep_interest p' = [(7, ev)] \<and> bit (ev_events ev) 2 \<and> \<not> bit (ev_events ev) 0
     \<and> poll_run (WaitEvents [ev\<lparr>ev_events := EPOLLOUT\<rparr>]) (\<lambda>_. 0) p'
       = (0, [IOElement 7 ev_WRITE], p'\<lparr>m_err_count := 0\<rparr>)"
proof -
  define p' where "p' = snd (poll_add (IOElement 7 ev_WRITE) (poll_new epoll_accepts))"
  have add: "poll_add (IOElement 7 ev_WRITE) (poll_new epoll_accepts) = (True, p')"
    by (simp add: p'_def poll_add_io_def epoll_ctl_def poll_new_def epoll_accepts_def)
  obtain ev where ev: "ep_interest p' = ep_interest (poll_new epoll_accepts) @ [(7, ev)]"
    "asked_for (IOElement 7 ev_WRITE) (ev_events ev)"
    "poll_run (WaitEvents [ev\<lparr>ev_events := EPOLLOUT\<rparr>]) (\<lambda>_. 0) p'
      = (0, (case callback_for (\<lambda>_. 0) EPOLLOUT (IOElement 7 ev_WRITE) of None \<Rightarrow> [] | Some c \<Rightarrow> [c]), p'\<lparr>m_err_count := 0\<rparr>)"
    using poll_dispatches_what_was_added [OF add] by (auto simp: poll_new_def simp del: asked_for.simps callback_for.simps)
  have "bit (ev_events ev) 2" "\<not> bit (ev_events ev) 0" using ev(2) by (auto simp: flag_bits)
  moreover have "callback_for (\<lambda>_. 0) EPOLLOUT (IOElement 7 ev_WRITE) = Some (IOElement 7 ev_WRITE)"
    by (simp add: flag_bits ready_flags_def)
  ultimately show ?thesis using add ev(1,3) by (intro exI [of _ p'] exI [of _ ev]) (simp add: poll_new_def)
qed

text \<open>
  A second handler for a descriptor that is already polled is not polled for: the kernel
  refuses to add the descriptor again, and nothing modifies the flags of the entry that is
  there.
\<close>

lemma poll_add_io_refused:
  "epoll_documented (ep_answer p) \<Longrightarrow> fd \<in> fst ` set (ep_interest p) \<Longrightarrow> poll_add_io fd flt p = (False, p)"
  by (auto simp: poll_add_io_def epoll_ctl_def epoll_documented_def)

end
