(* ===== verification/Status.thy ===== *)
theory Status
  imports Main
begin

text \<open>
  The status codes the operations of the library return (\<^verbatim>\<open>src/fastpath/status.h\<close>), with their
  numbers and the table of descriptions that is indexed by them.
\<close>

datatype status = OK | EVM_NOTRUNNING | NO_EVENTS | INTERNAL_ERROR | CANNOT_SEND | ALREADY_ACTIVE
  | NOT_ACTIVE | CANNOT_CREATE | CANNOT_DESTROY | CANNOT_CONNECT | NOT_VALID | INVALID_SERVICE
  | INVALID_DAEMON | INVALID_MSG | INVALID_SUBJECT | INVALID_NAME | INVALID_QUEUE | INVALID_EVENT
  | INVALID_TRANSPORT | INVALID_TRANSPORT_STATE | NOT_FOUND | CONVERSION_FAILED | UPDATE_FAILED
  | TIMEOUT

text \<open>
  The enumerators take consecutive values, except that \<^verbatim>\<open>TIMEOUT\<close> is given the value 19; the
  table of descriptions is indexed by them.
\<close>

definition status_values :: "status list" where
  "status_values = [OK, EVM_NOTRUNNING, NO_EVENTS, INTERNAL_ERROR, CANNOT_SEND, ALREADY_ACTIVE,
     NOT_ACTIVE, CANNOT_CREATE, CANNOT_DESTROY, CANNOT_CONNECT, NOT_VALID, INVALID_SERVICE,
     INVALID_DAEMON, INVALID_MSG, INVALID_SUBJECT, INVALID_NAME, INVALID_QUEUE, INVALID_EVENT,
     INVALID_TRANSPORT, INVALID_TRANSPORT_STATE, NOT_FOUND, CONVERSION_FAILED, UPDATE_FAILED]"

definition status_code :: "status \<Rightarrow> nat" where
  "status_code st = (if st = TIMEOUT then 19 else length (takeWhile (\<lambda>x. x \<noteq> st) status_values))"

definition str_status :: "string list" where
  "str_status =
    [''Everything is OK and successful'', ''The event manager is not running'',
     ''There has been a severe internal error'', ''Message cannot be sent on selected transport'',
     ''Object cannot be created'', ''Object cannot be destroyed, maybe invalid'',
     ''Cannot connect to daemon'', ''Object not valid'', ''Service not valid for transport'',
     ''Daemon not valid for transport'', ''Message invalid and cannot be constructed'',
     ''The subject is not valid for this message'', ''The queue is invalid'',
     ''Teh event is not valid'', ''The transport is invalid'', ''The callack is invalid'',
     ''Field not found in message'', ''Requested conversion is illegal'',
     ''Cannot requested update'', ''Request timed out'']"

text \<open>
  The two tables do not fit together: \<^verbatim>\<open>NO_EVENTS\<close> is described as an internal error, and the
  timeout has the code of an invalid transport state.
\<close>

lemma status_tables_differ:
  "str_status ! status_code NO_EVENTS = ''There has been a severe internal error''"
  "status_code TIMEOUT = status_code INVALID_TRANSPORT_STATE"
  "length str_status \<le> status_code UPDATE_FAILED"
  by code_simp+

end
