(* ===== verification/Events.thy ===== *)
theory Events
  imports Status Poll_Manager Ring_Buffer
begin

text \<open>
  Events, event managers and queues (\<^verbatim>\<open>src/fastpath/event\<close>): one queue with the event manager
  it registers with. Events live in a heap, so that the model sees an event that is used after
  it was deleted; the tables of the event manager, the set of registered events and the entries
  of the dispatch queue hold pointers into it.

  The two event managers differ only in how they refuse a bad descriptor and in one assertion;
  the locking of the global one is not modelled here (the lock is the subject of \<open>RW_Lock\<close>).
  The three queues are distinguished by \<open>queue_kind\<close>. A client's callback is code outside the
  sources: the argument \<open>cb\<close> of the operations gives, for the callback's number, what it does
  to the system. One step of the thread that polls and one call of the dispatching thread are
  atomic with respect to each other.
\<close>

section \<open>State\<close>

datatype queue_kind = BlockingQueue | BusySpinQueue | InlineQueue

datatype event_kind =
    DataEvent int u32               \<comment> \<open>descriptor and event types\<close>
  | TransportIOEvent int u32
  | TimerEvent int int              \<comment> \<open>timerfd and timeout in microseconds\<close>
  | SignalEvent int int             \<comment> \<open>signalfd and signal\<close>

text \<open>The callbacks of the library itself: the empty one, and the one of a blocking timeout.\<close>

datatype callback = ClientCallback nat | NoOpCallback | TimeoutCallback

record event =
  ev_kind :: event_kind
  ev_callback :: callback
  m_pendingRemoval :: bool
  m_awaitingDispatch :: u16

record 'c esys =
  heap :: "nat \<Rightarrow> event option"
  next_ptr :: nat
  registered :: "nat list"                    \<comment> \<open>\<open>m_registeredEvents\<close>\<close>
  io_table :: "(int \<times> nat list) list"
  timer_table :: "(int \<times> nat) list"
  signal_table :: "(int \<times> nat) list"
  event_loop :: poll
  em_running :: bool                          \<comment> \<open>\<open>eventManager()\<close> is not null\<close>
  started :: bool                             \<comment> \<open>\<open>isInitialised()\<close>\<close>
  q_size :: nat                               \<comment> \<open>4096 in the sources\<close>
  m_queue :: "(nat \<times> u32) ringbuffer"
  m_timeout :: "nat option"
  client :: 'c

definition esys_new :: "(ctl_op \<Rightarrow> int \<Rightarrow> interest \<Rightarrow> errno option) \<Rightarrow> nat \<Rightarrow> 'c \<Rightarrow> 'c esys" where
  "esys_new answer n c =
    \<lparr>heap = (\<lambda>_. None), next_ptr = 0, registered = [], io_table = [], timer_table = [],
     signal_table = [], event_loop = poll_new answer, em_running = True, started = True,
     q_size = n, m_queue = rb_new n, m_timeout = None, client = c\<rparr>"

definition deref :: "nat \<Rightarrow> 'c esys \<Rightarrow> event outcome" where
  "deref p s = (case heap s p of None \<Rightarrow> Inl UseAfterFree | Some e \<Rightarrow> Inr e)"

definition put_event :: "nat \<Rightarrow> event \<Rightarrow> 'c esys \<Rightarrow> 'c esys" where
  "put_event p e s = s\<lparr>heap := (heap s)(p := Some e)\<rparr>"

definition delete_event :: "nat \<Rightarrow> 'c esys \<Rightarrow> 'c esys" where
  "delete_event p s = s\<lparr>heap := (heap s)(p := None)\<rparr>"

definition new_event :: "event_kind \<Rightarrow> callback \<Rightarrow> 'c esys \<Rightarrow> nat \<times> 'c esys" where
  "new_event kd c s =
    (next_ptr s,
     (put_event (next_ptr s) \<lparr>ev_kind = kd, ev_callback = c, m_pendingRemoval = False, m_awaitingDispatch = 0\<rparr> s)
       \<lparr>next_ptr := next_ptr s + 1\<rparr>)"

text \<open>\<^verbatim>\<open>__pushDispatch\<close>, \<^verbatim>\<open>__popDispatch\<close>, \<^verbatim>\<open>__setPendingRemoval\<close> and \<^verbatim>\<open>__awaitingDispatch\<close>.\<close>

definition pushDispatch :: "event \<Rightarrow> event" where
  "pushDispatch e = e\<lparr>m_awaitingDispatch := m_awaitingDispatch e + 1\<rparr>"

definition popDispatch :: "event \<Rightarrow> event" where
  "popDispatch e = e\<lparr>m_awaitingDispatch := m_awaitingDispatch e - 1\<rparr>"

definition setPendingRemoval :: "bool \<Rightarrow> event \<Rightarrow> event" where
  "setPendingRemoval flag e = e\<lparr>m_pendingRemoval := flag\<rparr>"

definition awaitingDispatch :: "event \<Rightarrow> bool" where
  "awaitingDispatch e \<longleftrightarrow> m_awaitingDispatch e \<noteq> 0"

text \<open>
  \<^verbatim>\<open>operator==\<close> of two events of one queue: the virtual \<^verbatim>\<open>isEqual\<close> compares the dynamic type
  of the other event first. For both kinds of descriptor events that test names the abstract
  class \<^verbatim>\<open>IOEvent\<close>, which is the dynamic type of no object.
\<close>

definition IOEvent_isEqual :: "int \<Rightarrow> u32 \<Rightarrow> event_kind \<Rightarrow> bool" where
  "IOEvent_isEqual fd types other = False"

definition TimerEvent_isEqual :: "int \<Rightarrow> event_kind \<Rightarrow> bool" where
  "TimerEvent_isEqual timeout other = (case other of TimerEvent _ timeout' \<Rightarrow> timeout = timeout' | _ \<Rightarrow> False)"

definition SignalEvent_isEqual :: "int \<Rightarrow> event_kind \<Rightarrow> bool" where
  "SignalEvent_isEqual signo other = (case other of SignalEvent _ signo' \<Rightarrow> signo = signo' | _ \<Rightarrow> False)"

definition event_equal :: "event \<Rightarrow> event \<Rightarrow> bool" where
  "event_equal e other =
    (case ev_kind e of
       DataEvent fd types \<Rightarrow> IOEvent_isEqual fd types (ev_kind other)
     | TransportIOEvent fd types \<Rightarrow> IOEvent_isEqual fd types (ev_kind other)
     | TimerEvent _ timeout \<Rightarrow> TimerEvent_isEqual timeout (ev_kind other)
     | SignalEvent _ signo \<Rightarrow> SignalEvent_isEqual signo (ev_kind other))"

section \<open>The event managers\<close>

definition add_io_handler :: "nat \<Rightarrow> int \<Rightarrow> u32 \<Rightarrow> 'c esys \<Rightarrow> bool \<times> 'c esys" where
  "add_io_handler p fd types s =
    (let tbl = (if map_of (io_table s) fd \<noteq> None then alter_key fd (\<lambda>v. v @ [p]) (io_table s)
                else emplace fd [p] (io_table s));
         (ok, l) = poll_add_io fd types (event_loop s)
     in (ok, s\<lparr>io_table := tbl, event_loop := l\<rparr>))"

definition global_register_io :: "nat \<Rightarrow> int \<Rightarrow> u32 \<Rightarrow> 'c esys \<Rightarrow> (bool \<times> 'c esys) outcome" where
  "global_register_io p fd types s = Inr (if fd \<le> 0 then (False, s) else add_io_handler p fd types s)"

definition inline_register_io :: "nat \<Rightarrow> int \<Rightarrow> u32 \<Rightarrow> 'c esys \<Rightarrow> (bool \<times> 'c esys) outcome" where
  "inline_register_io p fd types s = (if fd \<le> 0 then Inl Terminate else Inr (add_io_handler p fd types s))"

definition register_io :: "queue_kind \<Rightarrow> nat \<Rightarrow> int \<Rightarrow> u32 \<Rightarrow> 'c esys \<Rightarrow> (bool \<times> 'c esys) outcome" where
  "register_io k p fd types s =
    (if k = InlineQueue then inline_register_io p fd types s else global_register_io p fd types s)"

lemmas register_io_defs = register_io_def global_register_io_def inline_register_io_def add_io_handler_def

definition register_timer :: "nat \<Rightarrow> int \<Rightarrow> 'c esys \<Rightarrow> bool \<times> 'c esys" where
  "register_timer p ident s =
    (let (ok, l) = poll_add_timer ident (event_loop s)
     in (ok, s\<lparr>timer_table := emplace ident p (timer_table s), event_loop := l\<rparr>))"

definition register_signal :: "nat \<Rightarrow> int \<Rightarrow> int \<Rightarrow> 'c esys \<Rightarrow> bool \<times> 'c esys" where
  "register_signal p ident signo s =
    (let (ok, l) = poll_add_signal ident signo (event_loop s)
     in (ok, s\<lparr>signal_table := emplace signo p (signal_table s), event_loop := l\<rparr>))"

definition registerHandler :: "queue_kind \<Rightarrow> nat \<Rightarrow> 'c esys \<Rightarrow> (bool \<times> 'c esys) outcome" where
  "registerHandler k p s =
    bind_outcome (deref p s) (\<lambda>e.
    case ev_kind e of
      TimerEvent ident _ \<Rightarrow> Inr (register_timer p ident s)
    | SignalEvent ident signo \<Rightarrow> Inr (register_signal p ident signo s)
    | DataEvent fd types \<Rightarrow> register_io k p fd types s
    | TransportIOEvent fd types \<Rightarrow> register_io k p fd types s)"

lemmas registerHandler_defs = registerHandler_def register_timer_def register_signal_def

definition updateHandler :: "nat \<Rightarrow> 'c esys \<Rightarrow> (bool \<times> 'c esys) outcome" where
  "updateHandler p s =
    bind_outcome (deref p s) (\<lambda>e.
    case ev_kind e of
      TimerEvent ident t \<Rightarrow>
        let (ok, l) = poll_update_timer ident (event_loop s) in Inr (ok, s\<lparr>event_loop := l\<rparr>)
    | _ \<Rightarrow> Inr (False, s))"

text \<open>
  \<^verbatim>\<open>unregisterHandler(IOEvent *)\<close> works on a copy of the handler list: with more than one
  handler it erases from the copy. The inline manager asserts that nothing awaits dispatch.
\<close>

definition global_unregister_io :: "nat \<Rightarrow> int \<Rightarrow> u32 \<Rightarrow> 'c esys \<Rightarrow> bool \<times> 'c esys" where
  "global_unregister_io p fd types s =
    (case map_of (io_table s) fd of
       None \<Rightarrow> (False, s)
     | Some registered_events \<Rightarrow>
         if p \<in> set registered_events then
           if length registered_events = 1 then
             let (result, l) = poll_remove_io fd types (event_loop s)
             in (result, s\<lparr>event_loop := l, io_table := erase_key fd (io_table s)\<rparr>)
           else (True, s)
         else (False, s))"

definition inline_unregister_io :: "nat \<Rightarrow> int \<Rightarrow> u32 \<Rightarrow> event \<Rightarrow> 'c esys \<Rightarrow> (bool \<times> 'c esys) outcome" where
  "inline_unregister_io p fd types e s =
    (case map_of (io_table s) fd of
       None \<Rightarrow> Inr (False, s)
     | Some registered_events \<Rightarrow>
         if p \<in> set registered_events then
           let r = (if length registered_events = 1 then
                      let (result, l) = poll_remove_io fd types (event_loop s)
                      in (result, s\<lparr>event_loop := l, io_table := erase_key fd (io_table s)\<rparr>)
                    else (True, s))
           in bind_outcome (assert_that (\<not> awaitingDispatch e)) (\<lambda>_. Inr r)
         else Inr (False, s))"

definition unregister_io :: "queue_kind \<Rightarrow> nat \<Rightarrow> int \<Rightarrow> u32 \<Rightarrow> event \<Rightarrow> 'c esys \<Rightarrow> (bool \<times> 'c esys) outcome" where
  "unregister_io k p fd types e s =
    (if k = InlineQueue then inline_unregister_io p fd types e s else Inr (global_unregister_io p fd types s))"

lemmas unregister_io_defs = unregister_io_def global_unregister_io_def inline_unregister_io_def

definition unregister_timer :: "int \<Rightarrow> 'c esys \<Rightarrow> bool \<times> 'c esys" where
  "unregister_timer ident s =
    (if map_of (timer_table s) ident \<noteq> None then
       let (ok, l) = poll_remove_timer ident (event_loop s)
       in (ok, s\<lparr>event_loop := l, timer_table := erase_key ident (timer_table s)\<rparr>)
     else (False, s))"

definition unregister_signal :: "int \<Rightarrow> int \<Rightarrow> 'c esys \<Rightarrow> bool \<times> 'c esys" where
  "unregister_signal ident signo s =
    (if map_of (signal_table s) signo \<noteq> None then
       let (ok, l) = poll_remove_signal ident signo (event_loop s)
       in (ok, s\<lparr>event_loop := l, signal_table := erase_key signo (signal_table s)\<rparr>)
     else (False, s))"

definition unregisterHandler :: "queue_kind \<Rightarrow> nat \<Rightarrow> 'c esys \<Rightarrow> (bool \<times> 'c esys) outcome" where
  "unregisterHandler k p s =
    bind_outcome (deref p s) (\<lambda>e.
    case ev_kind e of
      TimerEvent ident _ \<Rightarrow> Inr (unregister_timer ident s)
    | SignalEvent ident signo \<Rightarrow> Inr (unregister_signal ident signo s)
    | DataEvent fd types \<Rightarrow> unregister_io k p fd types e s
    | TransportIOEvent fd types \<Rightarrow> unregister_io k p fd types e s)"

lemmas unregisterHandler_defs = unregisterHandler_def unregister_timer_def unregister_signal_def

definition haveHandlers :: "'c esys \<Rightarrow> bool" where
  "haveHandlers s \<longleftrightarrow> \<not> (timer_table s = [] \<and> io_table s = [])"

section \<open>Registration with a queue\<close>

text \<open>
  \<^verbatim>\<open>registerEvent\<close> and \<^verbatim>\<open>unregisterEvent\<close>. An exception leaves a \<^verbatim>\<open>noexcept\<close> function, so
  that the program terminates. \<open>ident\<close> is what \<^verbatim>\<open>timerfd_create\<close> or \<^verbatim>\<open>signalfd\<close> returns.
\<close>

definition register_new :: "queue_kind \<Rightarrow> event_kind \<Rightarrow> callback \<Rightarrow> 'c esys \<Rightarrow> (nat \<times> 'c esys) outcome" where
  "register_new k kd c s =
    (let (p, s) = new_event kd c s; s = s\<lparr>registered := registered s @ [p]\<rparr>
     in if em_running s then bind_outcome (registerHandler k p s) (\<lambda>(_, s). Inr (p, s))
        else Inl Terminate)"

definition registerEvent_data :: "queue_kind \<Rightarrow> int \<Rightarrow> u32 \<Rightarrow> callback \<Rightarrow> 'c esys \<Rightarrow> (nat \<times> 'c esys) outcome" where
  "registerEvent_data k fd types c s = register_new k (DataEvent fd types) c s"

text \<open>\<^verbatim>\<open>struct timespec\<close> of a timeout in microseconds.\<close>

definition timespec_of :: "int \<Rightarrow> int \<times> int" where
  "timespec_of timeout =
    (let tv_sec = (if timeout \<ge> 0 then timeout div 1000000 else - ((- timeout) div 1000000))
     in (tv_sec, timeout * 1000 - tv_sec * 1000000000))"

definition registerEvent_timer :: "queue_kind \<Rightarrow> int \<Rightarrow> bool \<Rightarrow> int \<Rightarrow> callback \<Rightarrow> 'c esys \<Rightarrow> (nat \<times> 'c esys) outcome" where
  "registerEvent_timer k ident settime_ok timeout c s =
    (if ident = -1 \<or> \<not> settime_ok then Inl Terminate
     else register_new k (TimerEvent ident timeout) c s)"

definition registerEvent_signal :: "queue_kind \<Rightarrow> int \<Rightarrow> int \<Rightarrow> callback \<Rightarrow> 'c esys \<Rightarrow> (nat \<times> 'c esys) outcome" where
  "registerEvent_signal k ident signo c s =
    (if ident = -1 then Inl Terminate else register_new k (SignalEvent ident signo) c s)"

definition updateEvent :: "nat option \<Rightarrow> 'c esys \<Rightarrow> (status \<times> 'c esys) outcome" where
  "updateEvent ev s =
    (case ev of
       None \<Rightarrow> Inr (INVALID_EVENT, s)
     | Some p \<Rightarrow>
         if em_running s then bind_outcome (updateHandler p s) (\<lambda>(_, s). Inr (OK, s))
         else Inr (EVM_NOTRUNNING, s))"

definition unregisterEvent :: "queue_kind \<Rightarrow> nat option \<Rightarrow> 'c esys \<Rightarrow> (status \<times> 'c esys) outcome" where
  "unregisterEvent k ev s =
    (case ev of
       None \<Rightarrow> Inr (INVALID_EVENT, s)
     | Some p \<Rightarrow>
         if em_running s then
           bind_outcome (unregisterHandler k p s) (\<lambda>(_, s).
           if p \<in> set (registered s) then
             bind_outcome (deref p s) (\<lambda>e.
             if awaitingDispatch e then Inr (OK, put_event p (setPendingRemoval True e) s)
             else Inr (OK, delete_event p (s\<lparr>registered := remove1 p (registered s)\<rparr>)))
           else Inr (OK, s))
         else Inr (EVM_NOTRUNNING, s))"

text \<open>
  \<^verbatim>\<open>~Queue\<close> erases the first registered event and then reads the iterator it erased.
\<close>

definition queue_destroy :: "'c esys \<Rightarrow> 'c esys outcome" where
  "queue_destroy s = (if registered s = [] then Inr s else Inl UseAfterFree)"

section \<open>Notification and dispatch\<close>

type_synonym 'c callbacks = "nat \<Rightarrow> nat \<Rightarrow> u32 \<Rightarrow> 'c esys \<Rightarrow> 'c esys outcome"

definition invoke :: "'c callbacks \<Rightarrow> queue_kind \<Rightarrow> callback \<Rightarrow> nat \<Rightarrow> u32 \<Rightarrow> 'c esys \<Rightarrow> 'c esys outcome" where
  "invoke cb k c p t s =
    (case c of
       ClientCallback n \<Rightarrow> cb n p t s
     | NoOpCallback \<Rightarrow> Inr s
     | TimeoutCallback \<Rightarrow>
         bind_outcome (unregisterEvent k (m_timeout s) s) (\<lambda>(_, s). Inr (s\<lparr>m_timeout := None\<rparr>)))"

text \<open>\<^verbatim>\<open>DataEvent::dispatch\<close>, \<^verbatim>\<open>TimerEvent::dispatch\<close> and \<^verbatim>\<open>SignalEvent::dispatch\<close>.\<close>

definition event_dispatch :: "'c callbacks \<Rightarrow> queue_kind \<Rightarrow> nat \<Rightarrow> u32 \<Rightarrow> 'c esys \<Rightarrow> 'c esys outcome" where
  "event_dispatch cb k p t s =
    bind_outcome (deref p s) (\<lambda>e.
    let e = popDispatch e; s = put_event p e s
    in if \<not> m_pendingRemoval e then invoke cb k (ev_callback e) p t s else Inr s)"

definition enqueue :: "'c callbacks \<Rightarrow> queue_kind \<Rightarrow> nat \<Rightarrow> u32 \<Rightarrow> 'c esys \<Rightarrow> (bool \<times> 'c esys) outcome" where
  "enqueue cb k p t s =
    (if k = InlineQueue then bind_outcome (event_dispatch cb k p t s) (\<lambda>s. Inr (True, s))
     else let (ok, q) = rb_push (q_size s) (p, t) (m_queue s) in Inr (ok, s\<lparr>m_queue := q\<rparr>))"

text \<open>\<^verbatim>\<open>__notify\<close>; an event of a transport runs its callback at once.\<close>

definition DataEvent_notify :: "'c callbacks \<Rightarrow> queue_kind \<Rightarrow> nat \<Rightarrow> event \<Rightarrow> u32 \<Rightarrow> 'c esys \<Rightarrow> (bool \<times> 'c esys) outcome" where
  "DataEvent_notify cb k p e t s = enqueue cb k p t (put_event p (pushDispatch e) s)"

definition TimerEvent_notify :: "'c callbacks \<Rightarrow> queue_kind \<Rightarrow> nat \<Rightarrow> event \<Rightarrow> 'c esys \<Rightarrow> (bool \<times> 'c esys) outcome" where
  "TimerEvent_notify cb k p e s = enqueue cb k p ev_NONE (put_event p (pushDispatch e) s)"

definition SignalEvent_notify :: "'c callbacks \<Rightarrow> queue_kind \<Rightarrow> nat \<Rightarrow> event \<Rightarrow> 'c esys \<Rightarrow> (bool \<times> 'c esys) outcome" where
  "SignalEvent_notify cb k p e s = enqueue cb k p ev_NONE (put_event p (pushDispatch e) s)"

definition TransportIOEvent_notify :: "'c callbacks \<Rightarrow> queue_kind \<Rightarrow> nat \<Rightarrow> event \<Rightarrow> u32 \<Rightarrow> 'c esys \<Rightarrow> (bool \<times> 'c esys) outcome" where
  "TransportIOEvent_notify cb k p e t s =
    bind_outcome (invoke cb k (ev_callback e) p t s) (\<lambda>s. Inr (True, s))"

definition notify :: "'c callbacks \<Rightarrow> queue_kind \<Rightarrow> nat \<Rightarrow> u32 \<Rightarrow> 'c esys \<Rightarrow> (bool \<times> 'c esys) outcome" where
  "notify cb k p t s =
    bind_outcome (deref p s) (\<lambda>e.
    case ev_kind e of
      DataEvent _ _ \<Rightarrow> DataEvent_notify cb k p e t s
    | TimerEvent _ _ \<Rightarrow> TimerEvent_notify cb k p e s
    | SignalEvent _ _ \<Rightarrow> SignalEvent_notify cb k p e s
    | TransportIOEvent _ _ \<Rightarrow> TransportIOEvent_notify cb k p e t s)"

lemmas notify_defs = notify_def DataEvent_notify_def TimerEvent_notify_def SignalEvent_notify_def
  TransportIOEvent_notify_def

fun event_types :: "event_kind \<Rightarrow> u32" where
  "event_types (DataEvent fd types) = types"
| "event_types (TransportIOEvent fd types) = types"
| "event_types (TimerEvent ident t) = ev_NONE"
| "event_types (SignalEvent ident signo) = ev_NONE"

text \<open>
  \<^verbatim>\<open>serviceIOEvent\<close> and \<^verbatim>\<open>foreach_event_matching\<close>: the loop holds iterators into the handler
  list; when a callback changes that list and the loop goes on, they are dangling.
\<close>

definition service_handler :: "'c callbacks \<Rightarrow> queue_kind \<Rightarrow> u32 \<Rightarrow> nat \<Rightarrow> 'c esys \<Rightarrow> 'c esys outcome" where
  "service_handler cb k flt p s =
    bind_outcome (deref p s) (\<lambda>e.
    if event_types (ev_kind e) AND flt \<noteq> ev_NONE \<and> \<not> awaitingDispatch e
    then bind_outcome (notify cb k p (event_types (ev_kind e) AND flt) s) (\<lambda>(_, s). Inr s)
    else Inr s)"

fun foreach_handler :: "'c callbacks \<Rightarrow> queue_kind \<Rightarrow> int \<Rightarrow> u32 \<Rightarrow> nat list \<Rightarrow> nat list \<Rightarrow> 'c esys \<Rightarrow> 'c esys outcome" where
  "foreach_handler cb k fd flt handlers [] s = Inr s"
| "foreach_handler cb k fd flt handlers (p # ps) s =
    bind_outcome (service_handler cb k flt p s) (\<lambda>s.
    if ps \<noteq> [] \<and> map_of (io_table s) fd \<noteq> Some handlers then Inl UseAfterFree
    else foreach_handler cb k fd flt handlers ps s)"

definition serviceIOEvent :: "'c callbacks \<Rightarrow> queue_kind \<Rightarrow> int \<Rightarrow> u32 \<Rightarrow> 'c esys \<Rightarrow> 'c esys outcome" where
  "serviceIOEvent cb k fd flt s =
    (case map_of (io_table s) fd of
       None \<Rightarrow> Inr s
     | Some handlers \<Rightarrow> foreach_handler cb k fd flt handlers handlers s)"

definition serviceTimerEvent :: "'c callbacks \<Rightarrow> queue_kind \<Rightarrow> int \<Rightarrow> 'c esys \<Rightarrow> 'c esys outcome" where
  "serviceTimerEvent cb k ident s =
    (case map_of (timer_table s) ident of
       None \<Rightarrow> Inr s
     | Some p \<Rightarrow> bind_outcome (notify cb k p ev_NONE s) (\<lambda>(_, s). Inr s))"

definition serviceSignalEvent :: "'c callbacks \<Rightarrow> queue_kind \<Rightarrow> int \<Rightarrow> 'c esys \<Rightarrow> 'c esys outcome" where
  "serviceSignalEvent cb k signo s =
    (case map_of (signal_table s) signo of
       None \<Rightarrow> Inr s
     | Some p \<Rightarrow> bind_outcome (notify cb k p ev_NONE s) (\<lambda>(_, s). Inr s))"

fun service :: "'c callbacks \<Rightarrow> queue_kind \<Rightarrow> poll_element \<Rightarrow> 'c esys \<Rightarrow> 'c esys outcome" where
  "service cb k (IOElement fd flt) s = serviceIOEvent cb k fd flt s"
| "service cb k (TimerElement ident) s = serviceTimerEvent cb k ident s"
| "service cb k (SignalElement ident signo) s = serviceSignalEvent cb k signo s"

fun service_all :: "'c callbacks \<Rightarrow> queue_kind \<Rightarrow> poll_element list \<Rightarrow> 'c esys \<Rightarrow> 'c esys outcome" where
  "service_all cb k [] s = Inr s"
| "service_all cb k (e # es) s = bind_outcome (service cb k e s) (service_all cb k es)"

definition waitForEvent :: "'c callbacks \<Rightarrow> queue_kind \<Rightarrow> wait_result \<Rightarrow> (int \<Rightarrow> int) \<Rightarrow> 'c esys \<Rightarrow> 'c esys outcome" where
  "waitForEvent cb k wait siginfo s =
    (let (_, es, l) = poll_run wait siginfo (event_loop s)
     in service_all cb k es (s\<lparr>event_loop := l\<rparr>))"

text \<open>
  \<^verbatim>\<open>SharedQueue::dispatch_event\<close>: after the callback the event is looked at again, and a pending
  removal erases it from the set and then reads the iterator it erased.
\<close>

definition dispatch_event :: "'c callbacks \<Rightarrow> queue_kind \<Rightarrow> nat \<Rightarrow> u32 \<Rightarrow> 'c esys \<Rightarrow> 'c esys outcome" where
  "dispatch_event cb k p t s =
    bind_outcome (event_dispatch cb k p t s) (\<lambda>s.
    bind_outcome (deref p s) (\<lambda>e.
    if m_pendingRemoval e \<and> \<not> awaitingDispatch e
    then bind_outcome (assert_that (p \<in> set (registered s))) (\<lambda>_. Inl UseAfterFree)
    else Inr s))"

fun try_dispatch_loop :: "'c callbacks \<Rightarrow> queue_kind \<Rightarrow> nat \<Rightarrow> status \<Rightarrow> 'c esys \<Rightarrow> (status \<times> 'c esys) outcome" where
  "try_dispatch_loop cb k 0 result s = Inl OutOfFuel"
| "try_dispatch_loop cb k (Suc fuel) result s =
    (case rb_pop (q_size s) (m_queue s) of
       (None, q) \<Rightarrow> Inr (result, s)
     | (Some (p, t), q) \<Rightarrow>
         bind_outcome (dispatch_event cb k p t (s\<lparr>m_queue := q\<rparr>)) (try_dispatch_loop cb k fuel OK))"

definition try_dispatch :: "'c callbacks \<Rightarrow> queue_kind \<Rightarrow> nat \<Rightarrow> 'c esys \<Rightarrow> (status \<times> 'c esys) outcome" where
  "try_dispatch cb k fuel s =
    (if k = InlineQueue then Inr (NO_EVENTS, s)
     else if started s then try_dispatch_loop cb k fuel NO_EVENTS s
     else Inr (EVM_NOTRUNNING, s))"

text \<open>
  \<^verbatim>\<open>dispatch()\<close> of the three queues. \<open>arrivals\<close> is what the polling thread delivers while the
  caller waits; \<open>None\<close> means that the call is still waiting after that. The blocking queue takes
  one entry, the spinning queue empties the queue, the inline queue polls itself.
\<close>

definition dispatch_blocking :: "'c callbacks \<Rightarrow> poll_element list \<Rightarrow> 'c esys \<Rightarrow> (status \<times> 'c esys) option outcome" where
  "dispatch_blocking cb arrivals s =
    bind_outcome (service_all cb BlockingQueue arrivals s) (\<lambda>s.
    case rb_pop (q_size s) (m_queue s) of
      (None, q) \<Rightarrow> Inr None
    | (Some (p, t), q) \<Rightarrow>
        bind_outcome (dispatch_event cb BlockingQueue p t (s\<lparr>m_queue := q\<rparr>)) (\<lambda>s. Inr (Some (OK, s))))"

definition dispatch_spinning :: "'c callbacks \<Rightarrow> nat \<Rightarrow> poll_element list \<Rightarrow> 'c esys \<Rightarrow> (status \<times> 'c esys) option outcome" where
  "dispatch_spinning cb fuel arrivals s =
    bind_outcome (service_all cb BusySpinQueue arrivals s) (\<lambda>s.
    bind_outcome (try_dispatch cb BusySpinQueue fuel s) (\<lambda>(st, s).
    Inr (if st = NO_EVENTS then None else Some (st, s))))"

definition dispatch_inline :: "'c callbacks \<Rightarrow> wait_result \<Rightarrow> (int \<Rightarrow> int) \<Rightarrow> 'c esys \<Rightarrow> (status \<times> 'c esys) outcome" where
  "dispatch_inline cb wait siginfo s =
    bind_outcome (waitForEvent cb InlineQueue wait siginfo s) (\<lambda>s. Inr (OK, s))"

text \<open>
  \<^verbatim>\<open>setTimeout\<close> changes the timeout and the \<^verbatim>\<open>timerfd\<close>; \<open>settime_ok\<close> is what
  \<^verbatim>\<open>timerfd_settime\<close> answers. An exception leaves a \<^verbatim>\<open>noexcept\<close> function.
\<close>

definition setTimeout :: "bool \<Rightarrow> int \<Rightarrow> nat \<Rightarrow> 'c esys \<Rightarrow> 'c esys outcome" where
  "setTimeout settime_ok timeout p s =
    bind_outcome (deref p s) (\<lambda>e.
    case ev_kind e of
      TimerEvent ident _ \<Rightarrow>
        if settime_ok then Inr (put_event p (e\<lparr>ev_kind := TimerEvent ident timeout\<rparr>) s) else Inl Terminate
    | _ \<Rightarrow> Inr s)"

text \<open>
  \<^verbatim>\<open>dispatch(timeout)\<close>: when there is nothing to dispatch, the blocking queue registers a timer
  whose callback unregisters it, and the other two register a timer they own for the duration
  of the call (\<open>own\<close> is its pointer).
\<close>

definition dispatch_timeout_blocking :: "'c callbacks \<Rightarrow> nat \<Rightarrow> int \<Rightarrow> bool \<Rightarrow> int \<Rightarrow> poll_element list
    \<Rightarrow> 'c esys \<Rightarrow> (status \<times> 'c esys) option outcome" where
  "dispatch_timeout_blocking cb fuel ident settime_ok timeout arrivals s =
    bind_outcome (try_dispatch cb BlockingQueue fuel s) (\<lambda>(st, s).
    if st \<noteq> NO_EVENTS then Inr (Some (st, s))
    else
      bind_outcome
        (case m_timeout s of
           Some p \<Rightarrow> setTimeout settime_ok (timeout * 1000) p s
         | None \<Rightarrow>
             bind_outcome (registerEvent_timer BlockingQueue ident settime_ok (timeout * 1000) TimeoutCallback s)
               (\<lambda>(p, s). Inr (s\<lparr>m_timeout := Some p\<rparr>)))
        (dispatch_blocking cb arrivals))"

definition dispatch_timeout_spinning :: "'c callbacks \<Rightarrow> nat \<Rightarrow> nat \<Rightarrow> bool \<Rightarrow> int \<Rightarrow> poll_element list
    \<Rightarrow> 'c esys \<Rightarrow> (status \<times> 'c esys) option outcome" where
  "dispatch_timeout_spinning cb fuel own settime_ok timeout arrivals s =
    bind_outcome (try_dispatch cb BusySpinQueue fuel s) (\<lambda>(st, s).
    if st \<noteq> NO_EVENTS then Inr (Some (st, s))
    else
      bind_outcome (setTimeout settime_ok (timeout * 1000) own s) (\<lambda>s.
      bind_outcome (registerHandler BusySpinQueue own s) (\<lambda>(_, s).
      bind_outcome (dispatch_spinning cb fuel arrivals s) (\<lambda>r.
      case r of
        None \<Rightarrow> Inr None
      | Some (st, s) \<Rightarrow>
          bind_outcome (unregisterHandler BusySpinQueue own s) (\<lambda>(_, s). Inr (Some (st, s)))))))"

definition dispatch_timeout_inline :: "'c callbacks \<Rightarrow> nat \<Rightarrow> bool \<Rightarrow> int \<Rightarrow> wait_result \<Rightarrow> (int \<Rightarrow> int)
    \<Rightarrow> 'c esys \<Rightarrow> (status \<times> 'c esys) outcome" where
  "dispatch_timeout_inline cb own settime_ok timeout wait siginfo s =
    bind_outcome (try_dispatch cb InlineQueue 0 s) (\<lambda>(st, s).
    if st \<noteq> NO_EVENTS then Inr (st, s)
    else
      bind_outcome (setTimeout settime_ok (timeout * 1000) own s) (\<lambda>s.
      bind_outcome (registerHandler InlineQueue own s) (\<lambda>(_, s).
      bind_outcome (dispatch_inline cb wait siginfo s) (\<lambda>(st, s).
      bind_outcome (unregisterHandler InlineQueue own s) (\<lambda>(_, s). Inr (st, s))))))"

definition eventsInQueue :: "queue_kind \<Rightarrow> 'c esys \<Rightarrow> nat" where
  "eventsInQueue k s = (if k = InlineQueue then 0 else rb_size (q_size s) (m_queue s))"

definition event_count :: "'c esys \<Rightarrow> nat" where
  "event_count s = length (registered s)"

end
