(* ===== verification/Events_Correct.thy ===== *)
theory Events_Correct
  imports Events
begin

text \<open>
  Correctness of the event machinery: while each descriptor, timer and signal has one handler,
  events are unregistered when nothing of them is queued and the queue is not full, no pointer
  dangles and every notification is dispatched once, in order. The other theorems show what
  happens without each of these provisos.
\<close>

definition entries :: "'c esys \<Rightarrow> (nat \<times> u32) list" where
  "entries s = rb_abs (q_size s) (m_queue s)"

definition queued :: "nat \<Rightarrow> (nat \<times> u32) list \<Rightarrow> nat" where
  "queued p es = length (filter (\<lambda>x. fst x = p) es)"

text \<open>Client callbacks that only change the client's own state.\<close>

definition quiet :: "'c callbacks \<Rightarrow> (nat \<Rightarrow> nat \<Rightarrow> u32 \<Rightarrow> 'c \<Rightarrow> 'c) \<Rightarrow> bool" where
  "quiet cb f \<longleftrightarrow> (\<forall>n p t s. cb n p t s = Inr (s\<lparr>client := f n p t (client s)\<rparr>))"

fun plain_kind :: "event_kind \<Rightarrow> bool" where
  "plain_kind (TransportIOEvent fd types) = False"
| "plain_kind _ = True"

definition plain_event :: "event \<Rightarrow> bool" where
  "plain_event e \<longleftrightarrow> plain_kind (ev_kind e) \<and> (\<exists>n. ev_callback e = ClientCallback n) \<and> \<not> m_pendingRemoval e"

definition heap_inv :: "'c esys \<Rightarrow> bool" where
  "heap_inv s \<longleftrightarrow> (\<forall>p. next_ptr s \<le> p \<longrightarrow> heap s p = None)
     \<and> (\<forall>p e. heap s p = Some e \<longrightarrow> plain_event e \<and> unat (m_awaitingDispatch e) = queued p (entries s))
     \<and> (\<forall>x \<in> set (entries s). heap s (fst x) \<noteq> None)
     \<and> distinct (registered s) \<and> (\<forall>p \<in> set (registered s). heap s p \<noteq> None)"

definition table_inv :: "'c esys \<Rightarrow> bool" where
  "table_inv s \<longleftrightarrow>
     (\<forall>fd v. map_of (io_table s) fd = Some v \<longrightarrow>
        (\<exists>p e types. v = [p] \<and> heap s p = Some e \<and> ev_kind e = DataEvent fd types))
     \<and> (\<forall>ident p. map_of (timer_table s) ident = Some p \<longrightarrow>
        (\<exists>e t. heap s p = Some e \<and> ev_kind e = TimerEvent ident t))
     \<and> (\<forall>signo p. map_of (signal_table s) signo = Some p \<longrightarrow>
        (\<exists>e ident. heap s p = Some e \<and> ev_kind e = SignalEvent ident signo))"

definition ev_inv :: "'c esys \<Rightarrow> bool" where
  "ev_inv s \<longleftrightarrow> rb_inv (q_size s) (m_queue s) \<and> q_size s \<le> 2 ^ 16 \<and> heap_inv s \<and> table_inv s"

lemma queued_simps [simp]:
  "queued p [] = 0"
  "queued p (es @ [(p', t)]) = queued p es + (if p' = p then 1 else 0)"
  "queued p ((p', t) # es) = queued p es + (if p' = p then 1 else 0)"
  by (auto simp: queued_def)

lemma queued_le: "queued p es \<le> length es"
  by (simp add: queued_def)

lemma queued_pos: "x \<in> set es \<Longrightarrow> fst x = p \<Longrightarrow> 0 < queued p es"
  by (auto simp: queued_def filter_empty_conv)

lemma entries_cong: "q_size s' = q_size s \<Longrightarrow> m_queue s' = m_queue s \<Longrightarrow> entries s' = entries s"
  by (simp add: entries_def)

lemma entries_simps [simp]:
  "entries (s\<lparr>heap := h\<rparr>) = entries s" "entries (s\<lparr>client := c\<rparr>) = entries s"
  "entries (s\<lparr>event_loop := l\<rparr>) = entries s" "entries (s\<lparr>io_table := t\<rparr>) = entries s"
  "entries (s\<lparr>timer_table := tt\<rparr>) = entries s" "entries (s\<lparr>signal_table := st\<rparr>) = entries s"
  "entries (s\<lparr>registered := r\<rparr>) = entries s" "entries (s\<lparr>next_ptr := n\<rparr>) = entries s"
  by (simp_all add: entries_def)

lemma deref_Some [simp]: "heap s p = Some e \<Longrightarrow> deref p s = Inr e"
  by (simp add: deref_def)

lemma awaiting_iff:
  "ev_inv s \<Longrightarrow> heap s p = Some e \<Longrightarrow> awaitingDispatch e \<longleftrightarrow> 0 < queued p (entries s)"
  by (auto simp: ev_inv_def heap_inv_def awaitingDispatch_def unat_gt_0 simp flip: unat_0_iff)

lemma io_handler:
  assumes "table_inv s" "map_of (io_table s) fd = Some v"
  obtains p e types where "v = [p]" "heap s p = Some e" "ev_kind e = DataEvent fd types"
  using assms unfolding table_inv_def by blast

lemma timer_handler:
  assumes "table_inv s" "map_of (timer_table s) ident = Some p"
  obtains e t where "heap s p = Some e" "ev_kind e = TimerEvent ident t"
  using assms unfolding table_inv_def by blast

lemma signal_handler:
  assumes "table_inv s" "map_of (signal_table s) signo = Some p"
  obtains e ident where "heap s p = Some e" "ev_kind e = SignalEvent ident signo"
  using assms unfolding table_inv_def by blast

text \<open>Changing the counter of a live event keeps the tables.\<close>

lemma table_inv_update:
  assumes "table_inv s" "heap s p = Some e" "ev_kind e' = ev_kind e"
  shows "table_inv (s\<lparr>heap := (heap s)(p := Some e')\<rparr>)"
proof -
  have upd: "\<exists>f'. ((heap s)(p := Some e')) q = Some f' \<and> ev_kind f' = ev_kind f" if "heap s q = Some f" for q f
    using that assms(2,3) by auto
  show ?thesis
    unfolding table_inv_def
  proof (intro conjI allI impI, goal_cases)
    case (1 fd v)
    then have "map_of (io_table s) fd = Some v" by simp
    from io_handler [OF assms(1) this] obtain q f types
      where "v = [q]" "heap s q = Some f" "ev_kind f = DataEvent fd types" by blast
    then show ?case using upd [of q f] by auto
  next
    case (2 ident q)
    then have "map_of (timer_table s) ident = Some q" by simp
    from timer_handler [OF assms(1) this] obtain f t
      where "heap s q = Some f" "ev_kind f = TimerEvent ident t" by blast
    then show ?case using upd [of q f] by auto
  next
    case (3 signo q)
    then have "map_of (signal_table s) signo = Some q" by simp
    from signal_handler [OF assms(1) this] obtain f ident
      where "heap s q = Some f" "ev_kind f = SignalEvent ident signo" by blast
    then show ?case using upd [of q f] by auto
  qed
qed

text \<open>The event types the queue entry of a notification carries: timers and signals bind none.\<close>

fun bound_type :: "event_kind \<Rightarrow> u32 \<Rightarrow> u32" where
  "bound_type (DataEvent fd types) t = t"
| "bound_type (TransportIOEvent fd types) t = t"
| "bound_type (TimerEvent ident tm) t = ev_NONE"
| "bound_type (SignalEvent ident signo) t = ev_NONE"

lemma notify_enqueues:
  assumes inv: "ev_inv s" and e: "heap s p = Some e" and k: "k \<noteq> InlineQueue"
    and room: "length (entries s) + 1 < q_size s"
  shows "\<exists>s'. notify cb k p t s = Inr (True, s') \<and> ev_inv s' \<and> entries s' = entries s @ [(p, bound_type (ev_kind e) t)]
     \<and> client s' = client s \<and> started s' = started s"
proof -
  define t' where "t' = bound_type (ev_kind e) t"
  define s1 where "s1 = put_event p (pushDispatch e) s"
  have rb: "rb_inv (q_size s) (m_queue s)" "q_size s \<le> 2 ^ 16" "heap_inv s" "table_inv s"
    using inv by (auto simp: ev_inv_def)
  have "length (rb_abs (q_size s) (m_queue s)) < q_size s - 1" using room by (simp add: entries_def)
  then have push: "fst (rb_push (q_size s) (p, t') (m_queue s))"
    "rb_inv (q_size s) (snd (rb_push (q_size s) (p, t') (m_queue s)))"
    "rb_abs (q_size s) (snd (rb_push (q_size s) (p, t') (m_queue s))) = entries s @ [(p, t')]"
    using rb.push_room [OF rb(1)] by (auto simp: entries_def)
  define s' where "s' = s1\<lparr>m_queue := snd (rb_push (q_size s) (p, t') (m_queue s))\<rparr>"
  have plain: "plain_event e" and cnt: "unat (m_awaitingDispatch e) = queued p (entries s)"
    using rb(3) e by (auto simp: heap_inv_def)
  have "unat (m_awaitingDispatch e) + 1 < 2 ^ 16"
    using queued_le [of p "entries s"] cnt room rb(2) by simp
  then have inc: "unat (m_awaitingDispatch e + 1) = queued p (entries s) + 1"
    using cnt by (simp add: unat_word_ariths)
  have not: "notify cb k p t s = Inr (True, s')"
    using plain e k push(1)
    by (cases "ev_kind e") (auto simp: t'_def notify_defs plain_event_def enqueue_def s'_def s1_def put_event_def split_beta)
  have ent: "entries s' = entries s @ [(p, t')]"
    using push(3) by (simp add: entries_def s'_def s1_def put_event_def)
  have "heap_inv s'"
    unfolding heap_inv_def ent using rb(3) e inc plain
    by (auto simp: s'_def s1_def put_event_def heap_inv_def pushDispatch_def plain_event_def)
  moreover have "table_inv s'"
    using table_inv_update [OF rb(4) e, of "pushDispatch e"]
    by (simp add: s'_def s1_def put_event_def pushDispatch_def table_inv_def)
  ultimately have "ev_inv s'"
    using push(2) rb(2) by (simp add: ev_inv_def s'_def s1_def put_event_def)
  then show ?thesis using not ent by (auto simp: t'_def s'_def s1_def put_event_def)
qed

text \<open>What one event of the poll loop does to a queue with room: at most one entry more.\<close>

definition served :: "'c esys \<Rightarrow> 'c esys \<Rightarrow> bool" where
  "served s s' \<longleftrightarrow> ev_inv s' \<and> client s' = client s \<and> started s' = started s
     \<and> (\<exists>new. length new \<le> 1 \<and> entries s' = entries s @ new)"

lemma served_refl: "ev_inv s \<Longrightarrow> served s s"
  by (auto simp: served_def)

lemma served_notify:
  assumes "ev_inv s" "heap s p = Some e" "k \<noteq> InlineQueue" "length (entries s) + 1 < q_size s"
  obtains s' where "notify cb k p t s = Inr (True, s')" "served s s'"
  using notify_enqueues [OF assms, of cb t] that by (auto simp: served_def)

lemma service_ok:
  assumes "ev_inv s" "k \<noteq> InlineQueue" "length (entries s) + 1 < q_size s"
  obtains s' where "service cb k el s = Inr s'" "served s s'"
proof (cases el)
  case (IOElement fd flt)
  show thesis
  proof (cases "map_of (io_table s) fd")
    case None
    then show thesis using that [of s] served_refl [OF assms(1)] IOElement by (simp add: serviceIOEvent_def)
  next
    case (Some v)
    have "table_inv s" using assms(1) by (simp add: ev_inv_def)
    from io_handler [OF this Some] obtain p e types where v: "v = [p]" "heap s p = Some e" by blast
    obtain s' where s': "notify cb k p (event_types (ev_kind e) AND flt) s = Inr (True, s')" "served s s'"
      by (rule served_notify [OF assms(1) v(2) assms(2,3)])
    have "service cb k el s = Inr (if event_types (ev_kind e) AND flt \<noteq> ev_NONE \<and> \<not> awaitingDispatch e then s' else s)"
      using IOElement Some v s'(1) by (simp add: serviceIOEvent_def service_handler_def)
    then show thesis
      using that s'(2) served_refl [OF assms(1)] by (auto split: if_splits)
  qed
next
  case (TimerElement ident)
  show thesis
  proof (cases "map_of (timer_table s) ident")
    case None
    then show thesis using that [of s] served_refl [OF assms(1)] TimerElement by (simp add: serviceTimerEvent_def)
  next
    case (Some p)
    obtain e where e: "heap s p = Some e"
      using timer_handler [OF _ Some] assms(1) by (auto simp: ev_inv_def)
    obtain s' where "notify cb k p ev_NONE s = Inr (True, s')" "served s s'"
      by (rule served_notify [OF assms(1) e assms(2,3)])
    then show thesis using that [of s'] TimerElement Some by (simp add: serviceTimerEvent_def)
  qed
next
  case (SignalElement ident signo)
  show thesis
  proof (cases "map_of (signal_table s) signo")
    case None
    then show thesis using that [of s] served_refl [OF assms(1)] SignalElement by (simp add: serviceSignalEvent_def)
  next
    case (Some p)
    obtain e where e: "heap s p = Some e"
      using signal_handler [OF _ Some] assms(1) by (auto simp: ev_inv_def)
    obtain s' where "notify cb k p ev_NONE s = Inr (True, s')" "served s s'"
      by (rule served_notify [OF assms(1) e assms(2,3)])
    then show thesis using that [of s'] SignalElement Some by (simp add: serviceSignalEvent_def)
  qed
qed

section \<open>Dispatch\<close>

text \<open>The number of the callback an event carries, and what a run of callbacks does.\<close>

definition callback_of :: "'c esys \<Rightarrow> nat \<Rightarrow> nat" where
  "callback_of s p = (case heap s p of Some e \<Rightarrow> (case ev_callback e of ClientCallback n \<Rightarrow> n | _ \<Rightarrow> 0) | None \<Rightarrow> 0)"

definition run_callbacks :: "(nat \<Rightarrow> nat \<Rightarrow> u32 \<Rightarrow> 'c \<Rightarrow> 'c) \<Rightarrow> (nat \<Rightarrow> nat) \<Rightarrow> (nat \<times> u32) list \<Rightarrow> 'c \<Rightarrow> 'c" where
  "run_callbacks f num es c = fold (\<lambda>(p, t). f (num p) p t) es c"

lemma dispatch_event_ok:
  assumes inv: "ev_inv s" and cb: "quiet cb f"
    and pop: "rb_pop (q_size s) (m_queue s) = (Some (p, t), q)"
  obtains s' where "dispatch_event cb k p t (s\<lparr>m_queue := q\<rparr>) = Inr s'" "ev_inv s'"
    "entries s = (p, t) # entries s'" "client s' = f (callback_of s p) p t (client s)"
    "callback_of s' = callback_of s" "started s' = started s"
proof -
  have rb: "rb_inv (q_size s) (m_queue s)" "q_size s \<le> 2 ^ 16" "heap_inv s" "table_inv s"
    using inv by (auto simp: ev_inv_def)
  have q: "entries s = (p, t) # rb_abs (q_size s) q" "rb_inv (q_size s) q"
    by (rule rb.pop_cases [OF rb(1)]; use pop in \<open>auto simp: entries_def\<close>)+
  obtain e where e: "heap s p = Some e"
    using rb(3) q(1) by (fastforce simp: heap_inv_def)
  then have plain: "plain_event e" and cnt: "unat (m_awaitingDispatch e) = queued p (entries s)"
    using rb(3) by (auto simp: heap_inv_def)
  then obtain n where n: "ev_callback e = ClientCallback n" by (auto simp: plain_event_def)
  define s' where "s' = s\<lparr>m_queue := q, heap := (heap s)(p := Some (popDispatch e)),
                          client := f n p t (client s)\<rparr>"
  have disp: "event_dispatch cb k p t (s\<lparr>m_queue := q\<rparr>) = Inr s'"
    using e n plain cb
    by (simp add: event_dispatch_def deref_def put_event_def popDispatch_def invoke_def quiet_def
        plain_event_def s'_def)
  have pe: "deref p s' = Inr (popDispatch e)" by (simp add: deref_def s'_def)
  have "dispatch_event cb k p t (s\<lparr>m_queue := q\<rparr>) = Inr s'"
    using disp pe plain by (simp add: dispatch_event_def popDispatch_def plain_event_def)
  moreover have ent: "entries s = (p, t) # entries s'"
    using q(1) by (simp add: entries_def s'_def)
  moreover have "ev_inv s'"
  proof -
    have "m_awaitingDispatch e \<noteq> 0" using cnt q(1) by (auto simp: unat_eq_zero)
    then have dec: "unat (m_awaitingDispatch e - 1) = queued p (entries s) - 1"
      using cnt unat_minus_one by metis
    have "heap_inv s'"
      using rb(3) dec plain ent e
      by (auto simp: heap_inv_def s'_def popDispatch_def plain_event_def)
    moreover have "table_inv s'"
      using table_inv_update [OF rb(4) e, of "popDispatch e"]
      by (simp add: s'_def popDispatch_def table_inv_def)
    ultimately show ?thesis using q(2) rb(2) by (simp add: ev_inv_def s'_def)
  qed
  moreover have "client s' = f (callback_of s p) p t (client s)"
    using e n by (simp add: s'_def callback_of_def)
  moreover have "callback_of s' = callback_of s"
    using e by (auto simp: callback_of_def s'_def popDispatch_def fun_eq_iff)
  moreover have "started s' = started s" by (simp add: s'_def)
  ultimately show thesis using that by blast
qed

lemma try_dispatch_loop_ok:
  assumes "ev_inv s" "quiet cb f" "length (entries s) < fuel"
  shows "\<exists>s'. try_dispatch_loop cb k fuel result s
       = Inr (if entries s = [] then result else OK, s')
     \<and> ev_inv s' \<and> entries s' = [] \<and> client s' = run_callbacks f (callback_of s) (entries s) (client s)"
  using assms
proof (induction fuel arbitrary: s result)
  case (Suc fuel)
  have rb: "rb_inv (q_size s) (m_queue s)" using Suc.prems by (simp add: ev_inv_def)
  show ?case
  proof (rule rb.pop_cases [OF rb])
    assume "rb_pop (q_size s) (m_queue s) = (None, m_queue s)" "rb_abs (q_size s) (m_queue s) = []"
    then show ?thesis using Suc.prems by (auto simp: entries_def run_callbacks_def)
  next
    fix q x assume pop: "rb_pop (q_size s) (m_queue s) = (Some x, q)"
    obtain p t where x: "x = (p, t)" by (cases x)
    obtain s1 where s1: "dispatch_event cb k p t (s\<lparr>m_queue := q\<rparr>) = Inr s1" "ev_inv s1"
      "entries s = (p, t) # entries s1" "client s1 = f (callback_of s p) p t (client s)"
      "callback_of s1 = callback_of s"
      using dispatch_event_ok [OF Suc.prems(1,2) pop [unfolded x], of k] by blast
    obtain s' where "try_dispatch_loop cb k fuel OK s1 = Inr (OK, s')" "ev_inv s'" "entries s' = []"
      "client s' = run_callbacks f (callback_of s1) (entries s1) (client s1)"
      using Suc.IH [of s1 OK] s1(2,3) Suc.prems(2,3) by auto
    then show ?thesis using pop x s1 by (auto simp: run_callbacks_def)
  qed
qed simp

section \<open>Registration\<close>

fun fresh_key :: "event_kind \<Rightarrow> 'c esys \<Rightarrow> bool" where
  "fresh_key (DataEvent fd types) s \<longleftrightarrow> 0 < fd \<and> map_of (io_table s) fd = None"
| "fresh_key (TimerEvent ident t) s \<longleftrightarrow> map_of (timer_table s) ident = None"
| "fresh_key (SignalEvent ident signo) s \<longleftrightarrow> map_of (signal_table s) signo = None"
| "fresh_key (TransportIOEvent fd types) s \<longleftrightarrow> False"

text \<open>The tables after registering the event at \<open>p\<close>.\<close>

fun with_handler :: "event_kind \<Rightarrow> nat \<Rightarrow> 'c esys \<Rightarrow> 'c esys" where
  "with_handler (DataEvent fd types) p s = s\<lparr>io_table := emplace fd [p] (io_table s)\<rparr>"
| "with_handler (TimerEvent ident t) p s = s\<lparr>timer_table := emplace ident p (timer_table s)\<rparr>"
| "with_handler (SignalEvent ident signo) p s = s\<lparr>signal_table := emplace signo p (signal_table s)\<rparr>"
| "with_handler (TransportIOEvent fd types) p s = s"

lemma table_inv_loop [simp]: "table_inv (s\<lparr>event_loop := l\<rparr>) = table_inv s"
  by (simp add: table_inv_def)

lemma heap_inv_loop [simp]: "heap_inv (s\<lparr>event_loop := l\<rparr>) = heap_inv s"
  by (simp add: heap_inv_def)

lemma table_inv_with_handler:
  assumes "table_inv s" "heap s p = Some e" "ev_kind e = kd" "fresh_key kd s"
  shows "table_inv (with_handler kd p s)"
  using assms by (cases kd) (auto simp: table_inv_def)

lemma with_handler_rest [simp]:
  "heap (with_handler kd p s) = heap s" "next_ptr (with_handler kd p s) = next_ptr s"
  "registered (with_handler kd p s) = registered s" "entries (with_handler kd p s) = entries s"
  "q_size (with_handler kd p s) = q_size s" "m_queue (with_handler kd p s) = m_queue s"
  by (cases kd; simp)+

lemma heap_inv_with_handler [simp]: "heap_inv (with_handler kd p s) = heap_inv s"
  by (simp add: heap_inv_def)

lemma table_inv_new:
  assumes "table_inv s" "heap s p = None"
  shows "table_inv (s\<lparr>heap := (heap s)(p := Some e), next_ptr := n, registered := r\<rparr>)"
proof -
  have "((heap s)(p := Some e)) q = Some f" if "heap s q = Some f" for q f
    using that assms(2) by auto
  then show ?thesis using assms(1) unfolding table_inv_def by fastforce
qed

lemma register_ok:
  assumes inv: "ev_inv s" "em_running s" and key: "fresh_key kd s"
  obtains s' where "register_new k kd (ClientCallback n) s = Inr (next_ptr s, s')" "ev_inv s'"
    "entries s' = entries s"
proof -
  define p where "p = next_ptr s"
  define e where "e = \<lparr>ev_kind = kd, ev_callback = ClientCallback n, m_pendingRemoval = False, m_awaitingDispatch = 0\<rparr>"
  define s1 where "s1 = s\<lparr>heap := (heap s)(p := Some e), next_ptr := p + 1, registered := registered s @ [p]\<rparr>"
  have rb: "rb_inv (q_size s) (m_queue s)" "q_size s \<le> 2 ^ 16" "heap_inv s" "table_inv s"
    using inv by (auto simp: ev_inv_def)
  have none: "heap s p = None" using rb(3) by (auto simp: heap_inv_def p_def)
  have ent: "entries s1 = entries s" by (simp add: s1_def entries_def)
  have "queued p (entries s) = 0"
    using rb(3) none by (auto simp: heap_inv_def queued_def filter_empty_conv)
  moreover have "plain_kind kd" using key by (cases kd) auto
  ultimately have hp: "heap_inv s1"
    using rb(3) none unfolding heap_inv_def ent
    by (auto simp: s1_def p_def e_def plain_event_def)
  have key1: "fresh_key kd s1" using key by (cases kd) (auto simp: s1_def)
  have t1: "table_inv s1" unfolding s1_def by (rule table_inv_new [OF rb(4) none])
  have e1: "heap s1 p = Some e" by (simp add: s1_def)
  have "\<exists>ok l. registerHandler k p s1 = Inr (ok, (with_handler kd p s1)\<lparr>event_loop := l\<rparr>)"
    using key1 e1 by (cases kd) (auto simp: registerHandler_defs register_io_defs split_beta e_def)
  then obtain ok l where reg: "registerHandler k p s1 = Inr (ok, (with_handler kd p s1)\<lparr>event_loop := l\<rparr>)"
    by blast
  have "register_new k kd (ClientCallback n) s = Inr (p, (with_handler kd p s1)\<lparr>event_loop := l\<rparr>)"
    using reg inv(2)
    by (simp add: register_new_def new_event_def put_event_def p_def e_def s1_def)
  moreover have "table_inv (with_handler kd p s1)"
    by (rule table_inv_with_handler [OF t1 e1 _ key1]) (simp add: e_def)
  then have "ev_inv ((with_handler kd p s1)\<lparr>event_loop := l\<rparr>)"
    using hp rb(1,2) by (simp add: ev_inv_def s1_def)
  ultimately show thesis using that ent p_def by simp
qed

text \<open>The tables once the handler of the event at \<open>p\<close> is gone.\<close>

definition unlisted :: "nat \<Rightarrow> 'c esys \<Rightarrow> bool" where
  "unlisted p s \<longleftrightarrow> (\<forall>fd. map_of (io_table s) fd \<noteq> Some [p])
     \<and> (\<forall>i. map_of (timer_table s) i \<noteq> Some p) \<and> (\<forall>i. map_of (signal_table s) i \<noteq> Some p)"

lemma listed_kind:
  assumes "table_inv s" "heap s p = Some e"
  shows "map_of (io_table s) fd = Some [p] \<Longrightarrow> \<exists>types. ev_kind e = DataEvent fd types"
    "map_of (timer_table s) i = Some p \<Longrightarrow> \<exists>t. ev_kind e = TimerEvent i t"
    "map_of (signal_table s) g = Some p \<Longrightarrow> \<exists>i. ev_kind e = SignalEvent i g"
  using io_handler [OF assms(1)] timer_handler [OF assms(1)] signal_handler [OF assms(1)] assms(2)
  by fastforce+

lemma table_inv_erase:
  assumes "table_inv s"
  shows "table_inv (s\<lparr>io_table := erase_key fd (io_table s)\<rparr>)"
    "table_inv (s\<lparr>timer_table := erase_key fd (timer_table s)\<rparr>)"
    "table_inv (s\<lparr>signal_table := erase_key fd (signal_table s)\<rparr>)"
  using assms by (simp_all add: table_inv_def)

lemma table_inv_delete:
  assumes "table_inv s" "unlisted p s"
  shows "table_inv (delete_event p (s\<lparr>registered := r\<rparr>))"
proof -
  have "((heap s)(p := None)) q = Some f" if "heap s q = Some f" "q \<noteq> p" for q f
    using that by simp
  then show ?thesis
    using assms unfolding table_inv_def unlisted_def delete_event_def by fastforce
qed

text \<open>The fields unregistering a handler leaves alone.\<close>

definition same_rest :: "'c esys \<Rightarrow> 'c esys \<Rightarrow> bool" where
  "same_rest s s' \<longleftrightarrow> heap s' = heap s \<and> registered s' = registered s \<and> q_size s' = q_size s
     \<and> m_queue s' = m_queue s \<and> next_ptr s' = next_ptr s"

lemma unregister_data:
  assumes "table_inv s" "heap s p = Some e" "k \<noteq> InlineQueue" "ev_kind e = DataEvent fd types"
  obtains ok s' where "unregisterHandler k p s = Inr (ok, s')" "table_inv s'" "unlisted p s'" "same_rest s s'"
proof (cases "map_of (io_table s) fd = Some [p]")
  case True
  define s' where "s' = s\<lparr>event_loop := snd (poll_remove_io fd types (event_loop s)),
                          io_table := erase_key fd (io_table s)\<rparr>"
  have "unregisterHandler k p s = Inr (fst (poll_remove_io fd types (event_loop s)), s')"
    using assms True by (simp add: unregisterHandler_defs unregister_io_defs s'_def split_beta)
  moreover have "table_inv s'"
    using table_inv_erase(1) [of "s\<lparr>event_loop := snd (poll_remove_io fd types (event_loop s))\<rparr>" fd] assms(1)
    by (simp add: s'_def)
  moreover have "unlisted p s'"
    using listed_kind [OF assms(1,2)] assms(4) by (fastforce simp: unlisted_def s'_def)
  ultimately show thesis using that by (simp add: same_rest_def s'_def)
next
  case False
  have "unregisterHandler k p s = Inr (False, s)"
  proof (cases "map_of (io_table s) fd")
    case (Some v)
    from io_handler [OF assms(1) Some] obtain q where "v = [q]" by blast
    then show ?thesis using assms Some False by (simp add: unregisterHandler_defs unregister_io_defs)
  qed (use assms in \<open>simp add: unregisterHandler_defs unregister_io_defs\<close>)
  moreover have "unlisted p s"
    using listed_kind [OF assms(1,2)] assms(4) False by (fastforce simp: unlisted_def)
  moreover have "same_rest s s" by (simp add: same_rest_def)
  ultimately show thesis using that assms(1) by blast
qed

lemma unregister_other:
  assumes "table_inv s" "heap s p = Some e"
    and kind: "ev_kind e = TimerEvent ident t \<or> ev_kind e = SignalEvent ident signo"
  obtains ok s' where "unregisterHandler k p s = Inr (ok, s')" "table_inv s'" "unlisted p s'" "same_rest s s'"
proof -
  note listed = listed_kind [OF assms(1,2)]
  from kind have "\<exists>ok s'. unregisterHandler k p s = Inr (ok, s') \<and> table_inv s' \<and> unlisted p s' \<and> same_rest s s'"
  proof
    assume k: "ev_kind e = TimerEvent ident t"
    define s' where "s' = s\<lparr>event_loop := snd (poll_remove_timer ident (event_loop s)),
                            timer_table := erase_key ident (timer_table s)\<rparr>"
    have "table_inv s'"
      using table_inv_erase(2) [of "s\<lparr>event_loop := snd (poll_remove_timer ident (event_loop s))\<rparr>" ident] assms(1)
      by (simp add: s'_def)
    moreover have "unlisted p s'" using listed k by (fastforce simp: unlisted_def s'_def)
    moreover have "map_of (timer_table s) ident = None \<Longrightarrow> unlisted p s"
      using listed k by (fastforce simp: unlisted_def)
    ultimately show ?thesis
      using assms(1,2) k
      by (cases "map_of (timer_table s) ident")
        (auto simp: unregisterHandler_defs split_beta same_rest_def s'_def)
  next
    assume k: "ev_kind e = SignalEvent ident signo"
    define s' where "s' = s\<lparr>event_loop := snd (poll_remove_signal ident signo (event_loop s)),
                            signal_table := erase_key signo (signal_table s)\<rparr>"
    have "table_inv s'"
      using table_inv_erase(3) [of "s\<lparr>event_loop := snd (poll_remove_signal ident signo (event_loop s))\<rparr>" signo] assms(1)
      by (simp add: s'_def)
    moreover have "unlisted p s'" using listed k by (fastforce simp: unlisted_def s'_def)
    moreover have "map_of (signal_table s) signo = None \<Longrightarrow> unlisted p s"
      using listed k by (fastforce simp: unlisted_def)
    ultimately show ?thesis
      using assms(1,2) k
      by (cases "map_of (signal_table s) signo")
        (auto simp: unregisterHandler_defs split_beta same_rest_def s'_def)
  qed
  then show thesis using that by blast
qed

lemma unregister_handler_ok:
  assumes "table_inv s" "heap s p = Some e" "k \<noteq> InlineQueue" "plain_kind (ev_kind e)"
  obtains ok s' where "unregisterHandler k p s = Inr (ok, s')" "table_inv s'" "unlisted p s'" "same_rest s s'"
proof (cases "ev_kind e")
  case (DataEvent fd types)
  then show thesis using unregister_data [OF assms(1-3)] that by blast
next
  case (TimerEvent ident t)
  then show thesis using unregister_other [OF assms(1,2)] that by blast
next
  case (SignalEvent ident signo)
  then show thesis using unregister_other [OF assms(1,2)] that by blast
qed (use assms(4) in simp)

lemma unregister_ok:
  assumes inv: "ev_inv s" "em_running s" and p: "p \<in> set (registered s)" "heap s p = Some e"
    and idle: "\<not> awaitingDispatch e" and k: "k \<noteq> InlineQueue"
  obtains s' where "unregisterEvent k (Some p) s = Inr (OK, s')" "ev_inv s'" "heap s' p = None"
    "entries s' = entries s"
proof -
  have rb: "rb_inv (q_size s) (m_queue s)" "q_size s \<le> 2 ^ 16" "heap_inv s" "table_inv s"
    using inv by (auto simp: ev_inv_def)
  have "plain_kind (ev_kind e)" using rb(3) p(2) by (auto simp: heap_inv_def plain_event_def)
  then obtain ok s1 where s1: "unregisterHandler k p s = Inr (ok, s1)" "table_inv s1" "unlisted p s1" "same_rest s s1"
    using unregister_handler_ok [OF rb(4) p(2) k] by blast
  define s' where "s' = delete_event p (s1\<lparr>registered := remove1 p (registered s1)\<rparr>)"
  have ent: "entries s' = entries s" using s1(4) by (simp add: entries_def same_rest_def s'_def delete_event_def)
  have "queued p (entries s) = 0" using awaiting_iff [OF inv(1) p(2)] idle by simp
  then have unq: "\<forall>x \<in> set (entries s). fst x \<noteq> p" by (auto simp: queued_def filter_empty_conv)
  have "unregisterEvent k (Some p) s = Inr (OK, s')"
    using s1 inv(2) p idle by (simp add: unregisterEvent_def same_rest_def s'_def deref_def)
  moreover have "heap_inv s'"
    using rb(3) s1(4) unq unfolding heap_inv_def ent
    by (auto simp: s'_def delete_event_def same_rest_def)
  moreover have "table_inv s'" unfolding s'_def by (rule table_inv_delete [OF s1(2,3)])
  ultimately show thesis
    using that rb(1,2) s1(4) ent by (simp add: ev_inv_def s'_def delete_event_def same_rest_def)
qed

section \<open>Runs\<close>

text \<open>
  The disciplined use of a shared queue: a new key for every handler, nothing queued for an
  event that is unregistered, room in the queue for what the poll loop delivers.
\<close>

inductive ev_reach :: "'c callbacks \<Rightarrow> queue_kind \<Rightarrow> 'c esys \<Rightarrow> bool" for cb k where
  reach_new: "0 < n \<Longrightarrow> n \<le> 2 ^ 16 \<Longrightarrow> ev_reach cb k (esys_new answer n c)"
| reach_data: "ev_reach cb k s \<Longrightarrow> fresh_key (DataEvent fd types) s \<Longrightarrow>
    registerEvent_data k fd types (ClientCallback m) s = Inr (p, s') \<Longrightarrow> ev_reach cb k s'"
| reach_timer: "ev_reach cb k s \<Longrightarrow> fresh_key (TimerEvent ident timeout) s \<Longrightarrow>
    registerEvent_timer k ident settime_ok timeout (ClientCallback m) s = Inr (p, s') \<Longrightarrow> ev_reach cb k s'"
| reach_signal: "ev_reach cb k s \<Longrightarrow> fresh_key (SignalEvent ident signo) s \<Longrightarrow>
    registerEvent_signal k ident signo (ClientCallback m) s = Inr (p, s') \<Longrightarrow> ev_reach cb k s'"
| reach_unregister: "ev_reach cb k s \<Longrightarrow> p \<in> set (registered s) \<Longrightarrow> queued p (entries s) = 0 \<Longrightarrow>
    unregisterEvent k (Some p) s = Inr (st, s') \<Longrightarrow> ev_reach cb k s'"
| reach_service: "ev_reach cb k s \<Longrightarrow> length (entries s) + 1 < q_size s \<Longrightarrow>
    service cb k el s = Inr s' \<Longrightarrow> ev_reach cb k s'"
| reach_dispatch: "ev_reach cb k s \<Longrightarrow> length (entries s) < fuel \<Longrightarrow>
    try_dispatch cb k fuel s = Inr (st, s') \<Longrightarrow> ev_reach cb k s'"

lemma esys_new_inv: "0 < n \<Longrightarrow> n \<le> 2 ^ 16 \<Longrightarrow> ev_inv (esys_new answer n c)"
proof -
  assume n: "0 < n" "n \<le> 2 ^ 16"
  have ent: "entries (esys_new answer n c) = []"
    by (simp add: entries_def esys_new_def rb_abs_def rb_new_def rb_size_def)
  have "rb_inv n (rb_new n)" using n(1) by (simp add: rb_inv_def rb_new_def rb_size_def)
  then show ?thesis
    using n ent by (simp add: ev_inv_def heap_inv_def table_inv_def) (simp add: esys_new_def)
qed

lemma register_new_inv:
  assumes "ev_inv s" "fresh_key kd s" "register_new k kd (ClientCallback n) s = Inr (p, s')"
  shows "ev_inv s'"
proof (cases "em_running s")
  case True
  then show ?thesis using register_ok [OF assms(1) True assms(2), of k n] assms(3) by auto
next
  case False
  then show ?thesis using assms(3) by (simp add: register_new_def new_event_def put_event_def)
qed

lemma registered_idle:
  assumes "ev_inv s" "p \<in> set (registered s)" "queued p (entries s) = 0"
  obtains e where "heap s p = Some e" "\<not> awaitingDispatch e"
proof -
  obtain e where e: "heap s p = Some e" using assms(1,2) by (auto simp: ev_inv_def heap_inv_def)
  then show thesis using that awaiting_iff [OF assms(1) e] assms(3) by simp
qed

lemma ev_reach_inv:
  assumes "ev_reach cb k s" "quiet cb f" "k \<noteq> InlineQueue"
  shows "ev_inv s"
  using assms(1)
proof induction
  case (reach_unregister s p st s')
  obtain e where e: "heap s p = Some e" "\<not> awaitingDispatch e"
    using registered_idle reach_unregister by blast
  show ?case
  proof (cases "em_running s")
    case True
    then show ?thesis
      using unregister_ok [OF reach_unregister(5) True reach_unregister(2) e assms(3)] reach_unregister(4) by auto
  next
    case False
    then show ?thesis using reach_unregister by (simp add: unregisterEvent_def)
  qed
next
  case (reach_service s el s')
  then show ?case using service_ok [OF reach_service(4) assms(3) reach_service(2), of cb el] by (auto simp: served_def)
next
  case (reach_dispatch s fuel st s')
  then show ?case
    using try_dispatch_loop_ok [OF reach_dispatch(4) assms(2) reach_dispatch(2), of k NO_EVENTS] assms(3)
    by (auto simp: try_dispatch_def split: if_splits)
next
  case (reach_data s fd types m p s')
  then show ?case using register_new_inv by (auto simp: registerEvent_data_def simp del: fresh_key.simps)
next
  case (reach_timer s ident timeout settime_ok m p s')
  then show ?case using register_new_inv by (auto simp: registerEvent_timer_def simp del: fresh_key.simps split: if_splits)
next
  case (reach_signal s ident signo m p s')
  then show ?case using register_new_inv by (auto simp: registerEvent_signal_def simp del: fresh_key.simps split: if_splits)
qed (simp add: esys_new_inv)

text \<open>The pointers the event manager and the queue hold.\<close>

definition pointers :: "'c esys \<Rightarrow> nat set" where
  "pointers s = set (registered s) \<union> fst ` set (entries s) \<union> \<Union> (set ` ran (map_of (io_table s)))
     \<union> ran (map_of (timer_table s)) \<union> ran (map_of (signal_table s))"

lemma pointers_live:
  assumes "ev_inv s" "p \<in> pointers s"
  shows "heap s p \<noteq> None"
proof -
  have h: "heap_inv s" "table_inv s" using assms(1) by (auto simp: ev_inv_def)
  from assms(2) consider "p \<in> set (registered s)" | "p \<in> fst ` set (entries s)"
    | fd v where "map_of (io_table s) fd = Some v" "p \<in> set v"
    | i where "map_of (timer_table s) i = Some p" | g where "map_of (signal_table s) g = Some p"
    by (auto simp: pointers_def ran_def)
  then show ?thesis
  proof cases
    case 3
    from io_handler [OF h(2) 3(1)] obtain q e where "v = [q]" "heap s q = Some e" by blast
    then show ?thesis using 3(2) by simp
  next
    case 4
    then show ?thesis using timer_handler [OF h(2) 4] by auto
  next
    case 5
    then show ?thesis using signal_handler [OF h(2) 5] by auto
  qed (use h(1) in \<open>auto simp: heap_inv_def\<close>)
qed

text \<open>A small system: one descriptor with one handler that records its calls.\<close>

definition demo_cb :: "(nat \<times> nat \<times> u32) list callbacks" where
  "demo_cb n p t s = Inr (s\<lparr>client := client s @ [(n, p, t)]\<rparr>)"

definition demo0 :: "(nat \<times> nat \<times> u32) list esys" where
  "demo0 = esys_new epoll_accepts 4 []"

definition demo1 :: "(nat \<times> nat \<times> u32) list esys" where
  "demo1 = snd (projr (registerEvent_data BlockingQueue 5 ev_READ (ClientCallback 7) demo0))"

definition demo2 :: "(nat \<times> nat \<times> u32) list esys" where
  "demo2 = projr (service demo_cb BlockingQueue (IOElement 5 ev_READ) demo1)"

lemma demo_quiet: "quiet demo_cb (\<lambda>n p t c. c @ [(n, p, t)])"
  by (simp add: quiet_def demo_cb_def)

lemma demo_register: "registerEvent_data BlockingQueue 5 ev_READ (ClientCallback 7) demo0 = Inr (0, demo1)"
  by (simp add: demo1_def demo0_def esys_new_def registerEvent_data_def register_new_def new_event_def
      put_event_def registerHandler_defs deref_def register_io_defs split_beta)

lemma demo1_state:
  "heap demo1 0 = Some \<lparr>ev_kind = DataEvent 5 ev_READ, ev_callback = ClientCallback 7,
     m_pendingRemoval = False, m_awaitingDispatch = 0\<rparr>"
  "map_of (io_table demo1) 5 = Some [0]" "q_size demo1 = 4" "m_queue demo1 = rb_new 4" "registered demo1 = [0]"
  "em_running demo1" "started demo1" "client demo1 = []"
  by (simp_all add: demo1_def demo0_def esys_new_def registerEvent_data_def register_new_def new_event_def
      put_event_def registerHandler_defs deref_def register_io_defs split_beta emplace_def)

lemma demo_reach1: "ev_reach demo_cb BlockingQueue demo1"
  by (rule reach_data [OF reach_new _ demo_register [unfolded demo0_def]]) (simp_all add: esys_new_def)

lemma demo1_entries: "entries demo1 = []"
  by (simp add: entries_def demo1_state rb_abs_def rb_new_def rb_size_def)

lemma demo_service: "service demo_cb BlockingQueue (IOElement 5 ev_READ) demo1 = Inr demo2"
proof -
  have "ev_inv demo1" by (rule ev_reach_inv [OF demo_reach1 demo_quiet]) simp
  then obtain s' where "service demo_cb BlockingQueue (IOElement 5 ev_READ) demo1 = Inr s'"
    using service_ok [of demo1 BlockingQueue demo_cb "IOElement 5 ev_READ"]
    by (metis demo1_entries demo1_state(3) list.size(3) queue_kind.distinct(3) add_0 one_less_numeral_iff semiring_norm(76))
  then show ?thesis by (simp only: demo2_def sum.sel)
qed

lemma demo_reach2: "ev_reach demo_cb BlockingQueue demo2"
  by (rule reach_service [OF demo_reach1 _ demo_service]) (simp add: demo1_entries demo1_state)

lemma demo2_eq:
  "demo2 = demo1\<lparr>heap := (heap demo1)(0 := Some \<lparr>ev_kind = DataEvent 5 ev_READ,
      ev_callback = ClientCallback 7, m_pendingRemoval = False, m_awaitingDispatch = 1\<rparr>),
    m_queue := snd (rb_push 4 (0, ev_READ) (rb_new 4))\<rparr>"
  unfolding demo2_def
  by (simp add: serviceIOEvent_def service_handler_def notify_defs enqueue_def put_event_def
      pushDispatch_def awaitingDispatch_def split_beta demo1_state)

lemma demo2_state: "entries demo2 = [(0, ev_READ)]" "callback_of demo2 0 = 7" "client demo2 = []"
  "started demo2" "q_size demo2 = 4"
  by (simp_all add: demo2_eq callback_of_def demo1_state entries_def)
    (simp add: rb_abs_def rb_new_def rb_push_def rb_size_def rb_next_def)

section \<open>Properties\<close>



text \<open>
  C29 Every notification is delivered, once and in order, in the blocking and the spinning queue: in
  a disciplined run, with one handler per descriptor, timer and signal, events unregistered only
  when nothing is queued for them, room in the queue, and callbacks that change the program's own
  data only and neither register nor unregister events, \<^verbatim>\<open>try_dispatch\<close>
  returns, with one round more than there are entries, after calling the callback of each queued
  event with the event types it was notified of, first in first out; it leaves the queue empty and
  reports whether there was anything to do.
\<close>

theorem dispatch_in_order:
  assumes "ev_reach cb k s" "quiet cb f" "k \<noteq> InlineQueue" "started s" "length (entries s) < fuel"
  shows "\<exists>s'. try_dispatch cb k fuel s = Inr (if entries s = [] then NO_EVENTS else OK, s')
     \<and> entries s' = [] \<and> client s' = run_callbacks f (callback_of s) (entries s) (client s)"
  using try_dispatch_loop_ok [OF ev_reach_inv [OF assms(1-3)] assms(2,5), of k NO_EVENTS] assms(3,4)
  by (auto simp: try_dispatch_def)

theorem dispatch_in_order_witness:
  "\<exists>s'. try_dispatch demo_cb BlockingQueue 2 demo2 = Inr (OK, s') \<and> entries s' = []
     \<and> client s' = [(7, 0, ev_READ)]"
  using dispatch_in_order [OF demo_reach2 demo_quiet, of 2] by (simp add: demo2_state run_callbacks_def)

text \<open>
  Two handlers on one descriptor: unregistering the first reports success and deletes the
  event, but the event manager removes it from a copy of its list only, so that the next
  activity on the descriptor uses the deleted event.
\<close>

theorem shared_descriptor_dangles:
  assumes "heap s p = Some e" "ev_kind e = DataEvent fd types" "\<not> awaitingDispatch e"
    and "map_of (io_table s) fd = Some (p # q # rest)" "p \<in> set (registered s)" "em_running s"
  shows "\<exists>s'. unregisterEvent k (Some p) s = Inr (OK, s') \<and> heap s' p = None
     \<and> serviceIOEvent cb k fd flt s' = Inl UseAfterFree"
proof -
  have "unregisterEvent k (Some p) s = Inr (OK, delete_event p (s\<lparr>registered := remove1 p (registered s)\<rparr>))"
    using assms by (auto simp: unregisterEvent_def unregisterHandler_defs unregister_io_defs assert_that_def)
  then show ?thesis
    using assms(4) by (auto simp: delete_event_def serviceIOEvent_def service_handler_def deref_def)
qed

theorem shared_descriptor_dangles_witness:
  "\<exists>s2 s'. registerEvent_data BlockingQueue 5 ev_WRITE (ClientCallback 8) demo1 = Inr (1, s2)
     \<and> unregisterEvent BlockingQueue (Some 0) s2 = Inr (OK, s')
     \<and> serviceIOEvent demo_cb BlockingQueue 5 ev_READ s' = Inl UseAfterFree"
proof -
  define s2 where "s2 = snd (projr (registerEvent_data BlockingQueue 5 ev_WRITE (ClientCallback 8) demo1))"
  have n1: "next_ptr demo1 = 1"
    by (simp add: demo1_def demo0_def esys_new_def registerEvent_data_def register_new_def new_event_def
        put_event_def registerHandler_defs deref_def register_io_defs split_beta)
  have reg: "registerEvent_data BlockingQueue 5 ev_WRITE (ClientCallback 8) demo1 = Inr (1, s2)"
    by (simp add: s2_def registerEvent_data_def register_new_def new_event_def put_event_def
        registerHandler_defs deref_def register_io_defs split_beta n1 demo1_state)
  have s2: "heap s2 0 = heap demo1 0" "map_of (io_table s2) 5 = Some [0, 1]" "0 \<in> set (registered s2)" "em_running s2"
    by (simp_all add: s2_def registerEvent_data_def register_new_def new_event_def put_event_def
        registerHandler_defs deref_def register_io_defs split_beta n1 demo1_state)
  show ?thesis
    using shared_descriptor_dangles [of s2 0 _ 5 ev_READ 1 "[]" BlockingQueue demo_cb ev_READ] s2 reg
    by (fastforce simp: demo1_state awaitingDispatch_def)
qed

text \<open>
  A full queue silences a descriptor for good: the notification that finds the queue full
  is counted as awaiting dispatch although it was dropped, and from then on, whatever else
  happens to the system and however much room the queue has, activity on the descriptor is
  ignored, because only a dispatch would reset the count.
\<close>

theorem full_queue_silences:
  assumes "heap s p = Some e" "ev_kind e = DataEvent fd types" "m_awaitingDispatch e = 0"
    and "types AND flt \<noteq> ev_NONE" "map_of (io_table s) fd = Some [p]" "k \<noteq> InlineQueue"
    and "rb_inv (q_size s) (m_queue s)" "length (entries s) = q_size s - 1"
  shows "\<exists>s'. serviceIOEvent cb k fd flt s = Inr s' \<and> entries s' = entries s
     \<and> (\<forall>s2 flt2. heap s2 p = heap s' p \<longrightarrow> map_of (io_table s2) fd = Some [p]
          \<longrightarrow> serviceIOEvent cb k fd flt2 s2 = Inr s2)"
proof -
  have full: "rb_push (q_size s) (p, types AND flt) (m_queue s) = (False, m_queue s)"
    using rb.push_full [OF assms(7)] assms(8) by (simp add: entries_def)
  have "serviceIOEvent cb k fd flt s = Inr (put_event p (pushDispatch e) s)"
    using assms full
    by (simp add: serviceIOEvent_def service_handler_def notify_defs enqueue_def awaitingDispatch_def put_event_def)
  then show ?thesis
    using assms(3) by (auto simp: put_event_def serviceIOEvent_def service_handler_def deref_def
        awaitingDispatch_def pushDispatch_def)
qed

theorem full_queue_silences_witness:
  "\<exists>s'. serviceIOEvent demo_cb BlockingQueue 5 ev_READ (demo1\<lparr>q_size := 1, m_queue := rb_new 1\<rparr>) = Inr s'
     \<and> serviceIOEvent demo_cb BlockingQueue 5 ev_READ (s'\<lparr>q_size := 4, m_queue := rb_new 4\<rparr>)
       = Inr (s'\<lparr>q_size := 4, m_queue := rb_new 4\<rparr>)"
proof -
  let ?s = "demo1\<lparr>q_size := 1, m_queue := rb_new 1\<rparr>"
  have ent: "entries ?s = []" by (simp add: entries_def rb_abs_def rb_new_def rb_size_def)
  have "rb_inv 1 (rb_new 1 :: (nat \<times> u32) ringbuffer)" by (simp add: rb_inv_def rb_new_def rb_size_def)
  then obtain s' where s': "serviceIOEvent demo_cb BlockingQueue 5 ev_READ ?s = Inr s'"
    "\<And>s2. heap s2 0 = heap s' 0 \<Longrightarrow> map_of (io_table s2) 5 = Some [0]
       \<Longrightarrow> serviceIOEvent demo_cb BlockingQueue 5 ev_READ s2 = Inr s2"
    using full_queue_silences [of ?s 0 _ 5 ev_READ ev_READ BlockingQueue demo_cb] ent
    by (fastforce simp: demo1_state)
  have "map_of (io_table s') 5 = Some [0]"
    using s'(1) by (auto simp: serviceIOEvent_def service_handler_def notify_defs enqueue_def
        demo1_state put_event_def awaitingDispatch_def split: prod.splits)
  then show ?thesis using s'(1) s'(2) [of "s'\<lparr>q_size := 4, m_queue := rb_new 4\<rparr>"] by auto
qed

text \<open>
  Removing an event that still has a notification in the queue is deferred to its dispatch,
  and that dispatch faults: \<^verbatim>\<open>dispatch_event\<close> erases the event from the set and then reads
  the iterator it has just erased.
\<close>

theorem deferred_removal_faults:
  assumes "ev_reach cb k s" "quiet cb f" "k \<noteq> InlineQueue" "em_running s"
    and "p \<in> set (registered s)" "queued p (entries s) = 1"
  shows "\<exists>s'. unregisterEvent k (Some p) s = Inr (OK, s') \<and> entries s' = entries s
     \<and> dispatch_event cb k p t s' = Inl UseAfterFree"
proof -
  note inv = ev_reach_inv [OF assms(1-3)]
  have h: "heap_inv s" "table_inv s" using inv by (auto simp: ev_inv_def)
  then obtain e where e: "heap s p = Some e" using assms(5) by (auto simp: heap_inv_def)
  then have pk: "plain_kind (ev_kind e)" and one: "unat (m_awaitingDispatch e) = 1"
    using h(1) assms(6) by (auto simp: heap_inv_def plain_event_def)
  then have one: "m_awaitingDispatch e = 1" by (simp add: word_unat_eq_iff)
  obtain ok s1 where s1: "unregisterHandler k p s = Inr (ok, s1)" "same_rest s s1"
    using unregister_handler_ok [OF h(2) e assms(3) pk] by blast
  define s' where "s' = put_event p (setPendingRemoval True e) s1"
  have "unregisterEvent k (Some p) s = Inr (OK, s')"
    using s1 assms(4,5) e one
    by (simp add: unregisterEvent_def same_rest_def s'_def deref_def awaitingDispatch_def)
  moreover have "dispatch_event cb k p t s' = Inl UseAfterFree"
    using s1(2) assms(5) one
    by (simp add: dispatch_event_def event_dispatch_def s'_def put_event_def deref_def popDispatch_def
        setPendingRemoval_def awaitingDispatch_def same_rest_def)
  moreover have "entries s' = entries s"
    using s1(2) by (simp add: s'_def put_event_def same_rest_def entries_def)
  ultimately show ?thesis by blast
qed

theorem deferred_removal_faults_witness:
  "\<exists>s'. unregisterEvent BlockingQueue (Some 0) demo2 = Inr (OK, s') \<and> entries s' = [(0, ev_READ)]
     \<and> dispatch_event demo_cb BlockingQueue 0 ev_READ s' = Inl UseAfterFree"
  using deferred_removal_faults [OF demo_reach2 demo_quiet, of 0 ev_READ]
  by (simp add: demo2_state) (simp add: demo2_eq demo1_state)

text \<open>
  A callback that unregisters its own event: the event is deleted, and \<^verbatim>\<open>dispatch_event\<close> looks at it
  again.
\<close>

theorem self_removal_faults:
  assumes "ev_reach cb k s" "quiet cb f" "k \<noteq> InlineQueue" "em_running s"
    and "p \<in> set (registered s)" "queued p (entries s) = 1"
    and own: "\<And>n t s. removing n p t s = bind_outcome (unregisterEvent k (Some p) s) (\<lambda>(_, s). Inr s)"
  shows "dispatch_event removing k p t s = Inl UseAfterFree"
proof -
  have h: "heap_inv s" "table_inv s" using ev_reach_inv [OF assms(1-3)] by (auto simp: ev_inv_def)
  then obtain e where e: "heap s p = Some e" using assms(5) by (auto simp: heap_inv_def)
  then have pl: "plain_event e" and "unat (m_awaitingDispatch e) = 1" using h(1) assms(6) by (auto simp: heap_inv_def)
  then have one: "m_awaitingDispatch e = 1" by (simp add: word_unat_eq_iff)
  obtain n where n: "ev_callback e = ClientCallback n" "\<not> m_pendingRemoval e" "plain_kind (ev_kind e)"
    using pl by (auto simp: plain_event_def)
  let ?e = "popDispatch e" and ?s = "put_event p (popDispatch e) s"
  have e': "heap ?s p = Some ?e" "ev_kind ?e = ev_kind e" by (simp_all add: put_event_def popDispatch_def)
  have "table_inv ?s" using table_inv_update [OF h(2) e e'(2)] by (simp add: put_event_def)
  then obtain ok s1 where s1: "unregisterHandler k p ?s = Inr (ok, s1)" "same_rest ?s s1"
    using unregister_handler_ok [OF _ e'(1) assms(3)] n(3) e'(2) by metis
  have "unregisterEvent k (Some p) ?s = Inr (OK, delete_event p (s1\<lparr>registered := remove1 p (registered s1)\<rparr>))"
    using s1 assms(4,5) one
    by (auto simp: unregisterEvent_def same_rest_def put_event_def deref_def awaitingDispatch_def popDispatch_def)
  then show ?thesis
    using e n one own by (simp add: dispatch_event_def event_dispatch_def invoke_def popDispatch_def delete_event_def deref_def)
qed

definition removing_cb :: "(nat \<times> nat \<times> u32) list callbacks" where
  "removing_cb n p t s = bind_outcome (unregisterEvent BlockingQueue (Some p) s) (\<lambda>(_, s). Inr s)"

theorem self_removal_faults_witness: "dispatch_event removing_cb BlockingQueue 0 ev_READ demo2 = Inl UseAfterFree"
  by (rule self_removal_faults [OF demo_reach2 demo_quiet])
    (simp_all add: demo2_state removing_cb_def, simp_all add: demo2_eq demo1_state)

lemma rb_push_pop_empty:
  assumes "rb_inv n q" "rb_abs n q = []" "2 \<le> n"
  obtains q' where "rb_push n x q = (True, q')" "fst (rb_pop n q') = Some x"
proof -
  have "length (rb_abs n q) < n - 1" using assms by simp
  from rb.push_room [OF assms(1) this, of x] obtain q' where q': "rb_push n x q = (True, q')" "rb_inv n q'" "rb_abs n q' = [x]"
    using assms(2) by (cases "rb_push n x q") auto
  then show thesis using that rb.pop_some [OF q'(2,3)] by blast
qed

text \<open>
  \<^verbatim>\<open>dispatch(timeout)\<close> of a blocking queue faults whenever the timeout passes: the callback of
  the timer it registers deletes the timer, and the dispatch that runs the callback looks at the
  event afterwards.
\<close>

theorem blocking_timeout_faults:
  assumes "rb_inv (q_size s) (m_queue s)" "entries s = []" "2 \<le> q_size s" "started s" "em_running s"
    and "m_timeout s = None" "map_of (timer_table s) ident = None" "ident \<noteq> -1" "0 < fuel"
  shows "dispatch_timeout_blocking cb fuel ident True timeout [TimerElement ident] s = Inl UseAfterFree"
proof -
  define p where "p = next_ptr s"
  define e where "e = \<lparr>ev_kind = TimerEvent ident (timeout * 1000), ev_callback = TimeoutCallback,
                       m_pendingRemoval = False, m_awaitingDispatch = 0\<rparr>"
  have "fst (rb_pop (q_size s) (m_queue s)) = None"
    using rb.pop_empty [OF assms(1)] assms(2) by (simp add: entries_def)
  then have idle: "try_dispatch cb BlockingQueue fuel s = Inr (NO_EVENTS, s)"
    using assms(4,9) rb.pop_empty [OF assms(1)] assms(2) by (cases fuel) (auto simp: try_dispatch_def entries_def)
  define s1 where "s1 = s\<lparr>heap := (heap s)(p := Some e), next_ptr := p + 1, registered := registered s @ [p],
     timer_table := emplace ident p (timer_table s), event_loop := snd (poll_add_timer ident (event_loop s)),
     m_timeout := Some p\<rparr>"
  have reg: "bind_outcome (registerEvent_timer BlockingQueue ident True (timeout * 1000) TimeoutCallback s)
      (\<lambda>(p, s). Inr (s\<lparr>m_timeout := Some p\<rparr>)) = Inr s1"
    using assms(5,8)
    by (simp add: registerEvent_timer_def register_new_def new_event_def put_event_def registerHandler_defs
        deref_def split_beta p_def e_def s1_def)
  obtain q where q: "rb_push (q_size s) (p, ev_NONE) (m_queue s) = (True, q)"
    "fst (rb_pop (q_size s) q) = Some (p, ev_NONE)"
    using rb_push_pop_empty [OF assms(1) _ assms(3)] assms(2) by (metis entries_def)
  then obtain q2 where q2: "rb_pop (q_size s) q = (Some (p, ev_NONE), q2)" by (cases "rb_pop (q_size s) q") auto
  define s2 where "s2 = s1\<lparr>heap := (heap s1)(p := Some (pushDispatch e)), m_queue := q\<rparr>"
  have srv: "service_all cb BlockingQueue [TimerElement ident] s1 = Inr s2"
    using assms(7) q(1)
    by (simp add: serviceTimerEvent_def notify_defs deref_def s1_def s2_def e_def enqueue_def put_event_def
        pushDispatch_def)
  have "dispatch_event cb BlockingQueue p ev_NONE (s2\<lparr>m_queue := q2\<rparr>) = Inl UseAfterFree"
    using assms(5,7)
    by (simp add: dispatch_event_def event_dispatch_def s2_def s1_def deref_def pushDispatch_def popDispatch_def
        put_event_def e_def invoke_def unregisterEvent_def unregisterHandler_defs split_beta
        awaitingDispatch_def delete_event_def)
  moreover have "q_size s2 = q_size s" "m_queue s2 = q" by (simp_all add: s2_def s1_def)
  ultimately have "dispatch_blocking cb [TimerElement ident] s1 = Inl UseAfterFree"
    using srv q2 by (simp add: dispatch_blocking_def del: service_all.simps)
  then show ?thesis
    using idle reg assms(6) by (auto simp: dispatch_timeout_blocking_def)
qed

theorem blocking_timeout_faults_witness:
  "dispatch_timeout_blocking demo_cb 1 9 True 50 [TimerElement 9] demo0 = Inl UseAfterFree"
proof (rule blocking_timeout_faults)
  show "rb_inv (q_size demo0) (m_queue demo0)"
    by (simp add: demo0_def esys_new_def rb_inv_def rb_new_def rb_size_def)
  show "entries demo0 = []"
    by (simp add: entries_def demo0_def esys_new_def rb_abs_def rb_new_def rb_size_def)
qed (simp_all add: demo0_def esys_new_def)

end
