(* ===== verification/Endpoint_Sockets.thy ===== *)
theory Endpoint_Sockets
  imports Sockets
begin

text \<open>
  The client and server end points (\<^verbatim>\<open>TCPSocketClient.cpp\<close>, \<^verbatim>\<open>TCPSocketServer.cpp\<close>,
  \<^verbatim>\<open>UnixSocket*.cpp\<close>): connecting, listening, accepting and the socket options. What the
  system answers for each resolved address is an argument; \<open>kernel\<close> keeps the descriptors that
  are open, with their flags, so that leaks and lost descriptors can be stated.
\<close>

section \<open>The system\<close>

record kernel =
  k_open :: "int list"                 \<comment> \<open>descriptors the process holds\<close>
  k_nonblock :: "int list"             \<comment> \<open>those with \<open>O_NONBLOCK\<close>\<close>
  k_nodelay :: "int list"
  k_lowdelay :: "int list"

definition k_socket :: "int \<Rightarrow> kernel \<Rightarrow> kernel" where
  "k_socket fd k = (if fd = -1 then k else k\<lparr>k_open := fd # k_open k\<rparr>)"

definition k_close :: "int \<Rightarrow> kernel \<Rightarrow> kernel" where
  "k_close fd k = k\<lparr>k_open := remove1 fd (k_open k)\<rparr>"

text \<open>
  \<^verbatim>\<open>SocketOptions\<close> and \<^verbatim>\<open>setOptions\<close>. The low delay option is set only where the platform
  defines \<^verbatim>\<open>IPTOS_LOWDELAY\<close>; a failure of \<^verbatim>\<open>setsockopt\<close> is logged and ignored.
\<close>

definition SocketOptionsNone :: u32 where "SocketOptionsNone = 1"
definition SocketOptionsNonBlocking :: u32 where "SocketOptionsNonBlocking = 2"
definition SocketOptionsDisableNagle :: u32 where "SocketOptionsDisableNagle = 4"
definition SocketOptionsDisableSigPipe :: u32 where "SocketOptionsDisableSigPipe = 8"
definition SocketOptionsHighPriority :: u32 where "SocketOptionsHighPriority = 16"

definition has_option :: "u32 \<Rightarrow> u32 \<Rightarrow> bool" where
  "has_option options flag \<longleftrightarrow> options AND flag = flag"

definition set_nonblocking :: "u32 \<Rightarrow> int \<Rightarrow> kernel \<Rightarrow> kernel" where
  "set_nonblocking options fd k =
    k\<lparr>k_nonblock := (if has_option options SocketOptionsNonBlocking then List.insert fd (k_nonblock k)
                     else removeAll fd (k_nonblock k))\<rparr>"

definition TCPSocket_setOptions :: "u32 \<Rightarrow> int \<Rightarrow> kernel \<Rightarrow> kernel" where
  "TCPSocket_setOptions options fd k =
    (let k = set_nonblocking options fd k;
         k = (if has_option options SocketOptionsDisableNagle then k\<lparr>k_nodelay := List.insert fd (k_nodelay k)\<rparr> else k)
     in if has_option options SocketOptionsHighPriority then k\<lparr>k_lowdelay := List.insert fd (k_lowdelay k)\<rparr> else k)"

definition UnixSocket_setOptions :: "u32 \<Rightarrow> int \<Rightarrow> kernel \<Rightarrow> kernel" where
  "UnixSocket_setOptions options fd k = set_nonblocking options fd k"

definition handler_called :: "bool \<Rightarrow> socket \<Rightarrow> socket" where
  "handler_called connected s =
    (if m_has_handler s then s\<lparr>sk_notified := sk_notified s @ [connected]\<rparr> else s)"

section \<open>TCP\<close>

text \<open>
  One answer per address of the list \<^verbatim>\<open>getaddrinfo\<close> returned: the descriptor of \<^verbatim>\<open>socket()\<close>
  (-1 when it fails) and whether \<^verbatim>\<open>connect\<close> or \<^verbatim>\<open>bind\<close> succeeds. The loop leaves the last
  descriptor it tried in \<^verbatim>\<open>m_socket\<close>; the result says whether an address was left.
\<close>

record address =
  ad_fd :: int
  ad_ok :: bool

fun try_addresses :: "address list \<Rightarrow> socket \<Rightarrow> kernel \<Rightarrow> bool \<times> socket \<times> kernel" where
  "try_addresses [] s k = (False, s, k)"
| "try_addresses (p # ps) s k =
    (let s = s\<lparr>m_socket := ad_fd p\<rparr>
     in if ad_fd p = -1 then try_addresses ps s k
        else let k = k_socket (ad_fd p) k
             in if ad_ok p then (True, s, k) else try_addresses ps s (k_close (ad_fd p) k))"

definition TCPSocketClient_connect :: "u32 \<Rightarrow> address list \<Rightarrow> socket \<Rightarrow> kernel \<Rightarrow> bool \<times> socket \<times> kernel" where
  "TCPSocketClient_connect options hostInfo s k =
    (if \<not> m_connected s then
       let (found, s, k) = try_addresses hostInfo s k
       in if found then (True, handler_called True (s\<lparr>m_connected := True\<rparr>), TCPSocket_setOptions options (m_socket s) k)
          else (False, s, k)
     else (True, s, k))"

definition TCPSocketServer_connect ::
  "u32 \<Rightarrow> address list \<Rightarrow> bool \<Rightarrow> socket \<Rightarrow> kernel \<Rightarrow> bool \<times> socket \<times> kernel" where
  "TCPSocketServer_connect options hostInfo listens s k =
    (if \<not> m_connected s then
       let (found, s, k) = try_addresses hostInfo s k
       in if found then
            let s = s\<lparr>m_connected := True\<rparr>; k = TCPSocket_setOptions options (m_socket s) k
            in if listens then (True, handler_called True s, k) else (False, s, k)
          else (False, s, k)
     else (False, s, k))"

text \<open>\<^verbatim>\<open>acceptPendingConnection\<close>: \<open>fd\<close> is what \<^verbatim>\<open>accept\<close> returns; \<open>None\<close> is the null pointer.\<close>

definition acceptPendingConnection :: "int \<Rightarrow> kernel \<Rightarrow> socket option \<times> kernel" where
  "acceptPendingConnection fd k =
    (if fd \<noteq> -1 then (Some (socket_new fd True), k_socket fd k) else (None, k))"

section \<open>Unix domain sockets\<close>

text \<open>
  The path is copied into the 108 characters of \<^verbatim>\<open>sun_path\<close>. The descriptor is created by the
  constructor, once, and not by \<^verbatim>\<open>connect\<close>.
\<close>

definition sun_path_size :: nat where "sun_path_size = 108"

definition UnixSocket_new :: "string \<Rightarrow> int \<Rightarrow> kernel \<Rightarrow> (string \<times> socket \<times> kernel) outcome" where
  "UnixSocket_new path fd k =
    (if length path < sun_path_size
     then Inr (takeWhile (\<lambda>c. c \<noteq> CHR 0x00) path, socket_new fd False, k_socket fd k)
     else Inl (FpException ''Path name too long''))"

text \<open>
  The server's constructor also removes what an earlier run left at the path; \<open>unlinked\<close> says that
  \<^verbatim>\<open>unlink\<close> succeeded or found nothing.
\<close>

definition UnixSocketServer_new :: "string \<Rightarrow> int \<Rightarrow> bool \<Rightarrow> kernel \<Rightarrow> (string \<times> socket \<times> kernel) outcome" where
  "UnixSocketServer_new path fd unlinked k =
    bind_outcome (UnixSocket_new path fd k) (\<lambda>(p, sock, k).
    if unlinked then Inr (p, sock, k) else Inl (FpException ''Failed to remove path''))"

definition UnixSocketClient_connect :: "u32 \<Rightarrow> bool \<Rightarrow> socket \<Rightarrow> kernel \<Rightarrow> bool \<times> socket \<times> kernel" where
  "UnixSocketClient_connect options connects s k =
    (let (s, k) = (if connects
                   then (handler_called True (s\<lparr>m_connected := True\<rparr>), UnixSocket_setOptions options (m_socket s) k)
                   else (s, k))
     in (m_connected s, s, k))"

definition UnixSocketServer_connect :: "u32 \<Rightarrow> bool \<Rightarrow> bool \<Rightarrow> socket \<Rightarrow> kernel \<Rightarrow> bool \<times> socket \<times> kernel" where
  "UnixSocketServer_connect options binds listens s k =
    (if \<not> m_connected s then
       if \<not> binds then (False, s, k_close (m_socket s) k)
       else let s = s\<lparr>m_connected := True\<rparr>; k = UnixSocket_setOptions options (m_socket s) k
            in if listens then (True, handler_called True s, k) else (False, s, k)
     else (False, s, k))"

text \<open>\<^verbatim>\<open>send_ancillary\<close> and \<^verbatim>\<open>read_ancillary\<close>: only a failure disconnects; an end of file does not.\<close>

definition send_ancillary :: "int \<Rightarrow> bool" where
  "send_ancillary result \<longleftrightarrow> result \<noteq> -1"

datatype recvmsg_result = Received | WouldBlock | Failed

definition read_ancillary :: "recvmsg_result \<Rightarrow> socket \<Rightarrow> ReadResult \<times> socket" where
  "read_ancillary r s =
    (case r of
       Received \<Rightarrow> (MoreData, s)
     | WouldBlock \<Rightarrow> (NoData, s)
     | Failed \<Rightarrow> (Closed, snd (disconnect s)))"

section \<open>No descriptor is lost\<close>

text \<open>
  The descriptors an end point owns: that of a connected socket. The connect loop keeps the
  process's table at what it was plus this one.
\<close>

lemma close_socket [simp]: "fd \<noteq> -1 \<Longrightarrow> k_close fd (k_socket fd k) = k"
  by (simp add: k_close_def k_socket_def)

lemma try_addresses_spec:
  "try_addresses ps s k =
    (case dropWhile (\<lambda>p. ad_fd p = -1 \<or> \<not> ad_ok p) ps of
       [] \<Rightarrow> (False, if ps = [] then s else s\<lparr>m_socket := ad_fd (last ps)\<rparr>, k)
     | p # _ \<Rightarrow> (True, s\<lparr>m_socket := ad_fd p\<rparr>, k_socket (ad_fd p) k))"
  by (induction ps arbitrary: s) (auto simp: Let_def simp del: dropWhile_eq_Nil_conv split: list.splits)

lemma setOptions_open [simp]: "k_open (TCPSocket_setOptions options fd k) = k_open k"
  by (simp add: TCPSocket_setOptions_def set_nonblocking_def Let_def)

lemma setOptions_flags:
  "fd \<in> set (k_nonblock (TCPSocket_setOptions options fd k)) \<longleftrightarrow> has_option options SocketOptionsNonBlocking"
  "fd \<in> set (k_nodelay (TCPSocket_setOptions options fd k)) \<longleftrightarrow>
     has_option options SocketOptionsDisableNagle \<or> fd \<in> set (k_nodelay k)"
  by (auto simp: TCPSocket_setOptions_def set_nonblocking_def Let_def)

lemma handler_called_simps [simp]:
  "m_connected (handler_called b s) = m_connected s" "m_socket (handler_called b s) = m_socket s"
  by (simp_all add: handler_called_def)

lemma dropWhile_hd: "dropWhile P xs = y # ys \<Longrightarrow> \<not> P y"
  by (metis dropWhile_eq_Cons_conv)

definition accepting :: "address list \<Rightarrow> bool" where
  "accepting ps \<longleftrightarrow> (\<exists>p \<in> set ps. ad_fd p \<noteq> -1 \<and> ad_ok p)"

text \<open>The first address that accepts; its number is how many come before it.\<close>

definition first_accepting :: "address list \<Rightarrow> nat" where
  "first_accepting ps = length (takeWhile (\<lambda>p. ad_fd p = -1 \<or> \<not> ad_ok p) ps)"

lemma first_accepting:
  assumes "accepting ps"
  shows "first_accepting ps < length ps" "ad_fd (ps ! first_accepting ps) \<noteq> -1" "ad_ok (ps ! first_accepting ps)"
    "j < first_accepting ps \<Longrightarrow> ad_fd (ps ! j) = -1 \<or> \<not> ad_ok (ps ! j)"
    "\<exists>qs. dropWhile (\<lambda>p. ad_fd p = -1 \<or> \<not> ad_ok p) ps = ps ! first_accepting ps # qs"
proof -
  let ?P = "\<lambda>p. ad_fd p = -1 \<or> \<not> ad_ok p"
  have "dropWhile ?P ps \<noteq> []" using assms by (auto simp: accepting_def)
  then obtain p qs where d: "dropWhile ?P ps = p # qs" unfolding neq_Nil_conv by blast
  have ps: "ps = takeWhile ?P ps @ p # qs" using d takeWhile_dropWhile_id by metis
  have p: "ps ! first_accepting ps = p" by (subst ps) (simp add: first_accepting_def)
  show "first_accepting ps < length ps" by (subst (2) ps) (simp add: first_accepting_def)
  show "ad_fd (ps ! first_accepting ps) \<noteq> -1" "ad_ok (ps ! first_accepting ps)"
    using dropWhile_hd [OF d] p by auto
  show "\<exists>qs. dropWhile ?P ps = ps ! first_accepting ps # qs" using d p by blast
  show "ad_fd (ps ! j) = -1 \<or> \<not> ad_ok (ps ! j)" if "j < first_accepting ps"
    using set_takeWhileD [OF nth_mem [OF that [unfolded first_accepting_def]]]
      takeWhile_nth [OF that [unfolded first_accepting_def]] by simp
qed

lemma try_accepting:
  "accepting ps \<Longrightarrow> try_addresses ps s k =
    (True, s\<lparr>m_socket := ad_fd (ps ! first_accepting ps)\<rparr>, k_socket (ad_fd (ps ! first_accepting ps)) k)"
  unfolding try_addresses_spec using first_accepting(5) [of ps] by auto

lemma try_refusing:
  assumes "\<not> accepting ps"
  shows "\<exists>s'. try_addresses ps s k = (False, s', k) \<and> (\<exists>fd. s' = s\<lparr>m_socket := fd\<rparr>)"
proof -
  have d: "dropWhile (\<lambda>p. ad_fd p = -1 \<or> \<not> ad_ok p) ps = []" using assms by (auto simp: accepting_def)
  have "try_addresses ps s k = (False, s\<lparr>m_socket := if ps = [] then m_socket s else ad_fd (last ps)\<rparr>, k)"
    unfolding try_addresses_spec d by simp
  then show ?thesis by blast
qed

lemma client_connect_accepting:
  "\<not> m_connected s \<Longrightarrow> accepting hostInfo \<Longrightarrow> TCPSocketClient_connect options hostInfo s k =
    (True, handler_called True (s\<lparr>m_socket := ad_fd (hostInfo ! first_accepting hostInfo), m_connected := True\<rparr>),
     TCPSocket_setOptions options (ad_fd (hostInfo ! first_accepting hostInfo))
       (k_socket (ad_fd (hostInfo ! first_accepting hostInfo)) k))"
  by (simp add: TCPSocketClient_connect_def try_accepting)

lemma client_connect_refusing:
  "\<not> m_connected s \<Longrightarrow> \<not> accepting hostInfo \<Longrightarrow>
    \<exists>fd. TCPSocketClient_connect options hostInfo s k = (False, s\<lparr>m_socket := fd\<rparr>, k)"
  using try_refusing [of hostInfo s k] by (auto simp: TCPSocketClient_connect_def)

text \<open>
  Connecting to a host tries its addresses in order and keeps exactly one descriptor, that of
  the first address that accepts: it succeeds just when there is such an address, the
  descriptors of the refused ones are closed, and after a failure the process holds what it
  held before.
\<close>

theorem client_connect_keeps_one:
  assumes "\<not> m_connected s"
  shows "case TCPSocketClient_connect options hostInfo s k of
      (ok, s', k') \<Rightarrow> (ok \<longleftrightarrow> (\<exists>p \<in> set hostInfo. ad_fd p \<noteq> -1 \<and> ad_ok p)) \<and> m_connected s' = ok
        \<and> k_open k' = (if ok then m_socket s' # k_open k else k_open k)
        \<and> (ok \<longrightarrow> (\<exists>i < length hostInfo. m_socket s' = ad_fd (hostInfo ! i) \<and> ad_ok (hostInfo ! i)
               \<and> (\<forall>j < i. ad_fd (hostInfo ! j) = -1 \<or> \<not> ad_ok (hostInfo ! j))))"
proof (cases "accepting hostInfo")
  case True
  then show ?thesis
    using client_connect_accepting [OF assms True, of options k] first_accepting [OF True]
    by (auto simp: accepting_def k_socket_def intro!: exI [of _ "first_accepting hostInfo"])
next
  case False
  then show ?thesis
    using client_connect_refusing [OF assms False, of options k] assms by (auto simp: accepting_def)
qed

text \<open>
  When \<^verbatim>\<open>listen\<close> fails, the server reports failure but stays marked as connected and keeps the
  descriptor: calling \<^verbatim>\<open>connect\<close> again then fails without trying anything, whatever the
  system would answer.
\<close>

theorem listen_failure_sticks:
  assumes "\<not> m_connected s" "\<exists>p \<in> set hostInfo. ad_fd p \<noteq> -1 \<and> ad_ok p"
  shows "\<exists>s' k'. TCPSocketServer_connect options hostInfo False s k = (False, s', k')
    \<and> m_connected s' \<and> m_socket s' \<in> set (k_open k')
    \<and> (\<forall>options hostInfo listens. TCPSocketServer_connect options hostInfo listens s' k' = (False, s', k'))"
proof -
  let ?fd = "ad_fd (hostInfo ! first_accepting hostInfo)"
  have acc: "accepting hostInfo" using assms(2) by (simp add: accepting_def)
  have "TCPSocketServer_connect options hostInfo False s k =
      (False, s\<lparr>m_socket := ?fd, m_connected := True\<rparr>, TCPSocket_setOptions options ?fd (k_socket ?fd k))"
    using assms(1) try_accepting [OF acc] by (simp add: TCPSocketServer_connect_def Let_def)
  then show ?thesis
    using first_accepting(2) [OF acc] by (auto simp: k_socket_def TCPSocketServer_connect_def)
qed

text \<open>
  A Unix domain server whose \<^verbatim>\<open>bind\<close> fails closes the only descriptor it will ever have and
  keeps its number: a second \<^verbatim>\<open>connect\<close> binds, configures and listens on a descriptor that is
  not open (or that belongs to someone else by then).
\<close>

theorem unix_bind_failure_reuses:
  assumes "\<not> m_connected s" "m_socket s \<notin> set (k_open (k_close (m_socket s) k))"
  shows "\<exists>k'. UnixSocketServer_connect options False listens s k = (False, s, k')
    \<and> (\<exists>s'' k''. UnixSocketServer_connect options True True s k' = (True, s'', k'')
         \<and> m_connected s'' \<and> m_socket s'' \<notin> set (k_open k''))"
  using assms by (simp add: UnixSocketServer_connect_def UnixSocket_setOptions_def set_nonblocking_def k_close_def Let_def)

section \<open>Witnesses\<close>

abbreviation demo_kernel :: kernel where
  "demo_kernel \<equiv> \<lparr>k_open = [0, 1, 2], k_nonblock = [], k_nodelay = [], k_lowdelay = []\<rparr>"

abbreviation demo_hosts :: "address list" where
  "demo_hosts \<equiv> [\<lparr>ad_fd = -1, ad_ok = True\<rparr>, \<lparr>ad_fd = 3, ad_ok = False\<rparr>, \<lparr>ad_fd = 4, ad_ok = True\<rparr>]"

theorem client_connect_keeps_one_witness:
  "\<exists>s k. TCPSocketClient_connect SocketOptionsNone demo_hosts (socket_new (-1) False) demo_kernel = (True, s, k)
     \<and> k_open k = [4, 0, 1, 2]"
  using client_connect_keeps_one [where s = "socket_new (-1) False" and options = SocketOptionsNone
      and hostInfo = demo_hosts and k = demo_kernel]
  by (auto simp: socket_new_def TCPSocketClient_connect_def k_socket_def k_close_def Let_def)

theorem listen_failure_sticks_witness:
  "\<exists>s' k'. TCPSocketServer_connect SocketOptionsNone demo_hosts False (socket_new (-1) False) demo_kernel = (False, s', k')
     \<and> TCPSocketServer_connect SocketOptionsNone demo_hosts True s' k' = (False, s', k')"
  using listen_failure_sticks [of "socket_new (-1) False" demo_hosts SocketOptionsNone demo_kernel]
  by (auto simp: socket_new_def)

theorem unix_bind_failure_reuses_witness:
  "\<exists>k' s'' k''. UnixSocketServer_connect SocketOptionsNone False True (socket_new 3 False) (k_socket 3 demo_kernel)
       = (False, socket_new 3 False, k')
     \<and> UnixSocketServer_connect SocketOptionsNone True True (socket_new 3 False) k' = (True, s'', k'')
     \<and> m_connected s'' \<and> m_socket s'' \<notin> set (k_open k'')"
  using unix_bind_failure_reuses [of "socket_new 3 False" "k_socket 3 demo_kernel" SocketOptionsNone True]
  by (simp add: socket_new_def k_close_def k_socket_def)

end
