(* ===== verification/Tcp_Transport.thy ===== *)
theory Tcp_Transport
  imports Router_Correct Endpoint_Sockets Status
begin

text \<open>
  The client side of a TCP connection (\<^verbatim>\<open>TCPTransport.cpp\<close>, \<^verbatim>\<open>BackoffStrategy.h\<close>): connecting
  and reconnecting, sending a message through the send buffer, and the receiver that cuts the
  byte stream into messages. The state holds the socket, the two buffers, the calls made to the
  notification handler and to the message callback, and what the system will answer to the next
  calls of \<^verbatim>\<open>connect\<close> (none left: it fails).

  The connection state handler the transport gives its socket runs inside \<^verbatim>\<open>Socket::disconnect\<close>
  and \<^verbatim>\<open>TCPSocketClient::connect\<close>: \<open>peer_result\<close> and \<open>peer_connect\<close> are the socket operation
  together with the handler. The thread of \<^verbatim>\<open>std::async\<close> is the operation \<open>connect_loop\<close>,
  \<open>tt_attempting\<close> says that it was started.
\<close>

section \<open>State\<close>

datatype notification_type = CONNECTED | DISCONNECTED | CORRUPT_MESSAGE | SLOW_CONSUMER

record attempt =
  at_addresses :: "address list"
  at_incoming :: "recv_result list"
  at_sends :: "int list"

record tcp_transport =
  tt_peer :: socket
  tt_kernel :: kernel
  tt_attempts :: "attempt list"
  m_shouldDisconnect :: bool
  tt_attempting :: bool
  m_sendBuffer :: message_buffer
  m_readBuffer :: message_buffer
  tt_has_handler :: bool                     \<comment> \<open>\<open>m_notificationHandler\<close> is set\<close>
  tt_notified :: "notification_type list"
  tt_delivered :: "message list"             \<comment> \<open>the calls of the message callback\<close>

definition notification :: "notification_type \<Rightarrow> tcp_transport \<Rightarrow> tcp_transport" where
  "notification n t = (if tt_has_handler t then t\<lparr>tt_notified := tt_notified t @ [n]\<rparr> else t)"

section \<open>Connection\<close>

text \<open>The retry intervals in milliseconds.\<close>

definition min_retry_interval :: nat where "min_retry_interval = 1"
definition max_retry_interval :: nat where "max_retry_interval = 5000"

definition backoff :: "nat \<Rightarrow> nat" where
  "backoff current = min (current * 2) max_retry_interval"

definition no_answer :: attempt where
  "no_answer = \<lparr>at_addresses = [], at_incoming = [], at_sends = []\<rparr>"

definition peer_connect :: "tcp_transport \<Rightarrow> bool \<times> tcp_transport" where
  "peer_connect t =
    (if m_connected (tt_peer t) then (True, t)
     else let a = (case tt_attempts t of [] \<Rightarrow> no_answer | a # _ \<Rightarrow> a);
              (ok, s, k) = TCPSocketClient_connect SocketOptionsNone (at_addresses a) (tt_peer t) (tt_kernel t);
              t = t\<lparr>tt_attempts := tl (tt_attempts t), tt_kernel := k,
                    tt_peer := (if ok then s\<lparr>sk_incoming := at_incoming a, sk_sends := at_sends a\<rparr> else s)\<rparr>
          in (ok, if ok \<and> m_has_handler s then notification CONNECTED t else t))"

definition start_attempt :: "tcp_transport \<Rightarrow> tcp_transport" where
  "start_attempt t = t\<lparr>tt_attempting := True\<rparr>"

definition connection_lost :: "tcp_transport \<Rightarrow> tcp_transport" where
  "connection_lost t =
    (let t = notification DISCONNECTED t
     in if \<not> m_shouldDisconnect t then
          let (ok, t) = peer_connect t in if ok then t else start_attempt t
        else t)"

text \<open>A socket operation left the socket \<open>s\<close>: when it disconnected, the handler was called.\<close>

definition peer_result :: "socket \<Rightarrow> tcp_transport \<Rightarrow> tcp_transport" where
  "peer_result s t =
    (if m_connected (tt_peer t) \<and> \<not> m_connected s then
       let t = t\<lparr>tt_peer := s, tt_kernel := k_close (m_socket s) (tt_kernel t)\<rparr>
       in if m_has_handler s then connection_lost t else t
     else t\<lparr>tt_peer := s\<rparr>)"

definition TCPTransport_new :: "(nat \<Rightarrow> byte) \<Rightarrow> attempt list \<Rightarrow> kernel \<Rightarrow> tcp_transport" where
  "TCPTransport_new a attempts k =
    (let t = \<lparr>tt_peer = socket_new (-1) False, tt_kernel = k, tt_attempts = attempts,
              m_shouldDisconnect = False, tt_attempting = False,
              m_sendBuffer = MessageBuffer_new a 1024, m_readBuffer = MessageBuffer_new a 1500,
              tt_has_handler = False, tt_notified = [], tt_delivered = []\<rparr>;
         (ok, t) = peer_connect t;
         t = (if ok then t else start_attempt t)
     in t\<lparr>tt_peer := setConnectionStateHandler True (tt_peer t)\<rparr>)"

definition setNotificationHandler :: "bool \<Rightarrow> tcp_transport \<Rightarrow> tcp_transport" where
  "setNotificationHandler h t = t\<lparr>tt_has_handler := h\<rparr>"

text \<open>\<^verbatim>\<open>__connect\<close>: the list of the pauses it makes, and the transport it leaves.\<close>

fun connect_loop :: "nat \<Rightarrow> nat \<Rightarrow> tcp_transport \<Rightarrow> (nat list \<times> tcp_transport) outcome" where
  "connect_loop 0 current t = Inl OutOfFuel"
| "connect_loop (Suc fuel) current t =
    (if \<not> m_connected (tt_peer t) \<and> \<not> m_shouldDisconnect t then
       let (ok, t) = peer_connect t
       in if ok then connect_loop fuel current t
          else bind_outcome (connect_loop fuel (backoff current) t) (\<lambda>(pauses, t). Inr (current # pauses, t))
     else Inr ([], t))"

definition transport_connect :: "nat \<Rightarrow> tcp_transport \<Rightarrow> (nat list \<times> tcp_transport) outcome" where
  "transport_connect fuel t = connect_loop fuel min_retry_interval t"

text \<open>
  \<^verbatim>\<open>__disconnect\<close>: without a connection it waits for the connecting thread, whose loop ends
  because \<^verbatim>\<open>m_shouldDisconnect\<close> is set.
\<close>

definition transport_disconnect :: "tcp_transport \<Rightarrow> bool \<times> tcp_transport" where
  "transport_disconnect t =
    (let t = t\<lparr>m_shouldDisconnect := True\<rparr>
     in if m_connected (tt_peer t) then
          let (ok, s) = disconnect (tt_peer t) in (ok, peer_result s t)
        else (True, t\<lparr>tt_attempting := False\<rparr>))"

definition valid :: "tcp_transport \<Rightarrow> bool" where
  "valid t \<longleftrightarrow> m_connected (tt_peer t)"

section \<open>Sending\<close>

definition sendMessage :: "message \<Rightarrow> tcp_transport \<Rightarrow> (status \<times> tcp_transport) outcome" where
  "sendMessage msg t =
    (if m_connected (tt_peer t) then
       bind_outcome (mutableBuffer (m_sendBuffer t)) (\<lambda>storage.
       bind_outcome (encode_message msg storage) (\<lambda>(_, storage).
       let t = t\<lparr>m_sendBuffer := (m_sendBuffer t)\<lparr>mb_storage := storage\<rparr>\<rparr>
       in bind_outcome (buffer_bytes (m_sendBuffer t)) (\<lambda>data.
          bind_outcome (socket_send data (tt_peer t)) (\<lambda>(ok, s).
          let t = peer_result s t
          in if ok then bind_outcome (erase_front (length data) (m_sendBuffer t)) (\<lambda>b.
                        Inr (OK, t\<lparr>m_sendBuffer := b\<rparr>))
             else Inr (CANNOT_SEND, t)))))
     else Inr (CANNOT_SEND, t))"

section \<open>Receiving\<close>

text \<open>
  \<^verbatim>\<open>processData\<close>: a message of the pool is decoded into; the model of the decoder gives no
  state with an exception, so the position it has reached then is the argument \<open>thrown\<close>.
\<close>

definition processData ::
  "(byte_storage \<Rightarrow> nat) \<Rightarrow> byte_storage \<Rightarrow> tcp_transport \<Rightarrow> (bool \<times> byte_storage \<times> tcp_transport) outcome" where
  "processData thrown storage t =
    bind_outcome (have_complete_message storage) (\<lambda>(st, _).
    if st = CompleteMessage then
      let storage = mark storage
      in case decode_message Message_new storage of
           Inr (True, m, storage) \<Rightarrow> Inr (True, storage, t\<lparr>tt_delivered := tt_delivered t @ [m]\<rparr>)
         | Inr (False, m, storage) \<Rightarrow> Inr (False, resetRead storage, t)
         | Inl (FpException e) \<Rightarrow>
             Inr (False, storage\<lparr>m_read_ptr := thrown storage\<rparr>,
                  snd (transport_disconnect (notification CORRUPT_MESSAGE t)))
         | Inl e \<Rightarrow> Inl e
    else Inr (False, storage, t))"

fun process_stream ::
  "(byte_storage \<Rightarrow> nat) \<Rightarrow> nat \<Rightarrow> byte_storage \<Rightarrow> tcp_transport \<Rightarrow> (byte_storage \<times> tcp_transport) outcome" where
  "process_stream thrown 0 storage t = Inl OutOfFuel"
| "process_stream thrown (Suc fuel) storage t =
    bind_outcome (processData thrown storage t) (\<lambda>(more, storage, t).
    if more then process_stream thrown fuel storage t else Inr (storage, t))"

text \<open>
  The receiver: read into the buffer, cut off what was not filled, process the complete
  messages and drop them. The result of a round says whether the loop ends.
\<close>

definition fill_buffer :: "tcp_transport \<Rightarrow> (ReadResult \<times> tcp_transport) outcome" where
  "fill_buffer t =
    (let (ptr, b) = buffer_allocate MTU_SIZE (m_readBuffer t);
         (result, d, s) = socket_read MTU_SIZE (tt_peer t);
         b = b\<lparr>mb_storage := (mb_storage b)\<lparr>m_bytes := overwrite (snd ptr) d (m_bytes (mb_storage b))\<rparr>\<rparr>;
         t = peer_result s t
     in bind_outcome (erase_back (MTU_SIZE - length d) b) (\<lambda>b. Inr (result, t\<lparr>m_readBuffer := b\<rparr>)))"

definition receive_round :: "(byte_storage \<Rightarrow> nat) \<Rightarrow> nat \<Rightarrow> tcp_transport \<Rightarrow> (bool \<times> tcp_transport) outcome" where
  "receive_round thrown fuel t =
    bind_outcome (fill_buffer t) (\<lambda>(result, t).
    case result of
      MoreData \<Rightarrow>
        bind_outcome (byteStorage (m_readBuffer t)) (\<lambda>storage.
        bind_outcome (process_stream thrown fuel storage t) (\<lambda>(storage, t).
        bind_outcome (erase_front (bytesRead storage) (m_readBuffer t)) (\<lambda>b.
        Inr (False, t\<lparr>m_readBuffer := b\<rparr>))))
    | NoData \<Rightarrow> Inr (True, t)
    | Closed \<Rightarrow> Inr (True, t))"

fun receive_loop :: "(byte_storage \<Rightarrow> nat) \<Rightarrow> nat \<Rightarrow> nat \<Rightarrow> tcp_transport \<Rightarrow> tcp_transport outcome" where
  "receive_loop thrown 0 fuel t = Inl OutOfFuel"
| "receive_loop thrown (Suc rounds) fuel t =
    bind_outcome (receive_round thrown fuel t) (\<lambda>(done, t).
    if done then Inr t else receive_loop thrown rounds fuel t)"

text \<open>\<^verbatim>\<open>createReceiverEvent\<close>: the descriptor to watch for reading, if there is a connection.\<close>

definition createReceiverEvent :: "tcp_transport \<Rightarrow> int option" where
  "createReceiverEvent t = (if valid t then Some (m_socket (tt_peer t)) else None)"

end
