(* ===== verification/Tcp_Transport_Correct.thy ===== *)
theory Tcp_Transport_Correct
  imports Tcp_Transport
begin

text \<open>
  Properties of the TCP transport: what is sent is the wire format of the messages, what is
  received are the messages, however the stream is cut, and the connecting thread ends with a
  connection when the system gives one. The last part shows what the transport does not
  promise: nothing resets its buffers between two connections, and a corrupt stream is not
  always noticed.
\<close>

section \<open>Receiving\<close>

definition on_stream :: "message_buffer \<Rightarrow> recv_result list \<Rightarrow> tcp_transport \<Rightarrow> tcp_transport" where
  "on_stream b inc t = t\<lparr>m_readBuffer := b, tt_peer := (tt_peer t)\<lparr>sk_incoming := inc\<rparr>\<rparr>"

definition deliver_all :: "message list \<Rightarrow> tcp_transport \<Rightarrow> tcp_transport" where
  "deliver_all ms t = t\<lparr>tt_delivered := tt_delivered t @ map delivered ms\<rparr>"

lemma deliver_all_simps [simp]:
  "deliver_all [] t = t" "deliver_all ms2 (deliver_all ms1 t) = deliver_all (ms1 @ ms2) t"
  "m_readBuffer (deliver_all ms t) = m_readBuffer t" "tt_peer (deliver_all ms t) = tt_peer t"
  by (simp_all add: deliver_all_def)

lemma on_stream_simps [simp]:
  "m_readBuffer (on_stream b inc t) = b" "tt_peer (on_stream b inc t) = (tt_peer t)\<lparr>sk_incoming := inc\<rparr>"
  "(on_stream b inc t)\<lparr>m_readBuffer := b'\<rparr> = on_stream b' inc t"
  "deliver_all ms (on_stream b inc t) = on_stream b inc (deliver_all ms t)"
  by (simp_all add: on_stream_def deliver_all_def)

lemma peer_result_read:
  "peer_result ((tt_peer t)\<lparr>sk_incoming := inc\<rparr>) (on_stream b inc' t) = on_stream b inc t"
  by (simp add: peer_result_def on_stream_def)

lemma fill_buffer_spec:
  assumes "io_ok b (length d)" "length d \<le> MTU_SIZE"
    and "socket_read MTU_SIZE (tt_peer (on_stream b inc t)) = (res, d, (tt_peer t)\<lparr>sk_incoming := inc'\<rparr>)"
  shows "\<exists>b'. fill_buffer (on_stream b inc t) = Inr (res, on_stream b' inc' t) \<and> wf_buffer b'
    \<and> visible b' = visible b @ d \<and> capacity b' \<le> 2 ^ 31"
proof -
  obtain b' where "erase_back (MTU_SIZE - length d) (filled d b) = Inr b'" "wf_buffer b'"
    "visible b' = visible b @ d" "capacity b' \<le> 2 ^ 31"
    using fill_spec [of b d] assms(1,2) by (auto simp: io_ok_def)
  then show ?thesis
    using assms(3) by (auto simp: fill_buffer_def filled_def split_beta peer_result_read Let_def)
qed

lemma processData_message:
  assumes a: "at s (wire_message m)" and m: "wf_message m"
  shows "processData thrown s t = Inr (True, advanceRead (length (wire_message m)) (mark s), deliver_all [m] t)"
proof -
  have am: "at (mark s) (wire_message m)" using a by simp
  have "0 < m_storedLength (mark s)"
    using am wire_message_pos [of m] unfolding at_def by linarith
  then show ?thesis
    using have_complete_message_at [OF a m] decode_message_at [OF am m, of Message_new]
    by (simp add: processData_def delivered_def deliver_all_def Let_def)
qed

lemma processData_incomplete:
  assumes "have_complete_message s = Inr (st, n)" "st \<noteq> CompleteMessage"
  shows "processData thrown s t = Inr (False, s, t)"
  using assms by (simp add: processData_def)

lemma process_stream_messages:
  assumes "holds s (wires ms @ x)" "incomplete x" "\<forall>m \<in> set ms. wf_message m" "length ms < fuel"
  shows "\<exists>s'. m_read_ptr s' = m_read_ptr s + length (wires ms)
    \<and> process_stream thrown fuel s t = Inr (s', deliver_all ms t)"
  using assms
proof (induction ms arbitrary: s t fuel)
  case Nil
  then obtain k n where "fuel = Suc k" "have_complete_message s = Inr (IncompleteMessage, n)"
    using incomplete_status [of s x] by (cases fuel) auto
  then show ?case by (simp add: processData_incomplete)
next
  case (Cons m ms)
  then obtain k where k: "fuel = Suc k" "length ms < k" by (cases fuel) auto
  let ?t = "advanceRead (length (wire_message m)) (mark s)"
  have h: "holds s (wire_message m @ wires ms @ x)" using Cons.prems(1) by simp
  have t: "holds ?t (wires ms @ x)" using holds_advance [of "mark s"] h by simp
  have p: "processData thrown s t = Inr (True, ?t, deliver_all [m] t)"
    using holds_prefix [OF h] Cons.prems(3) by (simp add: processData_message)
  obtain s' where "m_read_ptr s' = m_read_ptr ?t + length (wires ms)"
    "process_stream thrown k ?t (deliver_all [m] t) = Inr (s', deliver_all ms (deliver_all [m] t))"
    using Cons.IH [OF t Cons.prems(2) _ k(2), of "deliver_all [m] t"] Cons.prems(3) by auto
  then show ?case using p k(1) by (intro exI [of _ s']) simp
qed

lemma receive_round_chunk:
  assumes ok: "io_ok b (length c)" and c: "c \<noteq> []" "length c \<le> MTU_SIZE"
    and vis: "visible b @ c = wires ms @ x" and x: "incomplete x" and ms: "\<forall>m \<in> set ms. wf_message m"
    and fuel: "length ms < fuel"
  shows "\<exists>b'. wf_buffer b' \<and> capacity b' \<le> 2 ^ 31 \<and> visible b' = x
    \<and> receive_round thrown fuel (on_stream b (RecvData c # inc) t) =
      Inr (False, on_stream b' inc (deliver_all ms t))"
proof -
  have "socket_read MTU_SIZE (tt_peer (on_stream b (RecvData c # inc) t)) = (MoreData, c, (tt_peer t)\<lparr>sk_incoming := inc\<rparr>)"
    using c by (simp add: socket_read_def)
  then obtain b1 where b1: "fill_buffer (on_stream b (RecvData c # inc) t) = Inr (MoreData, on_stream b1 inc t)"
    "wf_buffer b1" "visible b1 = visible b @ c" "capacity b1 \<le> 2 ^ 31"
    using fill_buffer_spec [OF ok c(2)] by blast
  have "length (visible b1) \<le> 2 ^ 30" using ok b1(3) by (simp add: io_ok_def)
  then obtain v where v: "byteStorage b1 = Inr v" "m_read_ptr v = 0" "holds v (wires ms @ x)"
    using view_holds [OF b1(2)] vis b1(3) by metis
  obtain v' where v': "m_read_ptr v' = length (wires ms)"
    "process_stream thrown fuel v (on_stream b1 inc t) = Inr (v', deliver_all ms (on_stream b1 inc t))"
    using process_stream_messages [OF v(3) x ms fuel] v(2) by (metis add_0)
  obtain b2 where b2: "erase_front (length (wires ms)) b1 = Inr b2" "wf_buffer b2" "visible b2 = x"
    using erase_front_spec [OF b1(2), of "length (wires ms)"] b1(3) vis by auto
  moreover have "capacity b2 \<le> 2 ^ 31" using erase_capacity(1) [OF b2(1)] b1(4) by simp
  ultimately show ?thesis
    using b1(1) v(1) v' by (intro exI [of _ b2]) (simp add: receive_round_def bytesRead_def)
qed

lemma receive_round_idle:
  assumes "io_ok b 0"
  shows "\<exists>b'. wf_buffer b' \<and> visible b' = visible b
    \<and> receive_round thrown fuel (on_stream b [] t) = Inr (True, on_stream b' [] t)"
proof -
  have "socket_read MTU_SIZE (tt_peer (on_stream b [] t)) = (NoData, [], (tt_peer t)\<lparr>sk_incoming := []\<rparr>)"
    by (simp add: socket_read_def)
  then obtain b' where "fill_buffer (on_stream b [] t) = Inr (NoData, on_stream b' [] t)" "wf_buffer b'"
    "visible b' = visible b"
    using fill_buffer_spec [of b "[]" "[]" t NoData "[]"] assms by auto
  then show ?thesis by (auto simp: receive_round_def)
qed

interpretation crx: stream_receiver on_stream "\<lambda>ms t. Inr (deliver_all ms t)" "receive_round thrown"
  "receive_loop thrown" "\<lambda>_. True" for thrown
proof unfold_locales
  show "\<exists>b'. wf_buffer b' \<and> capacity b' \<le> 2 ^ 31 \<and> visible b' = x
      \<and> receive_round thrown fuel (on_stream b (RecvData c # inc) r) =
        bind_outcome (Inr (deliver_all ms r)) (\<lambda>r'. Inr (False, on_stream b' inc r'))"
    if "io_ok b (length c)" "c \<noteq> []" "length c \<le> MTU_SIZE" "visible b @ c = wires ms @ x"
      "incomplete x" "\<forall>m \<in> set ms. wf_message m" "length ms < fuel" for r b c ms x fuel inc
    using receive_round_chunk [OF that] by simp
  show "\<exists>b'. wf_buffer b' \<and> visible b' = visible b
      \<and> receive_round thrown fuel (on_stream b [] r) = Inr (True, on_stream b' [] r)"
    if "io_ok b 0" for r b fuel
    by (rule receive_round_idle [OF that])
qed simp_all

section \<open>Connecting\<close>

definition answers :: "attempt \<Rightarrow> bool" where
  "answers a \<longleftrightarrow> accepting (at_addresses a)"

lemma peer_connect_refused:
  assumes "\<not> m_connected (tt_peer t)" "tt_attempts t = a # as" "\<not> answers a"
  shows "\<exists>fd. peer_connect t = (False, t\<lparr>tt_attempts := as, tt_peer := (tt_peer t)\<lparr>m_socket := fd\<rparr>\<rparr>)"
  using client_connect_refusing [OF assms(1), of "at_addresses a" SocketOptionsNone "tt_kernel t"] assms
  by (auto simp: peer_connect_def answers_def Let_def)

text \<open>The transport after a connection was made with the answer \<open>a\<close>.\<close>

definition reconnected :: "attempt \<Rightarrow> tcp_transport \<Rightarrow> tcp_transport \<Rightarrow> bool" where
  "reconnected a t t' \<longleftrightarrow> m_connected (tt_peer t') \<and> sk_incoming (tt_peer t') = at_incoming a
     \<and> sk_sends (tt_peer t') = at_sends a \<and> sk_sent (tt_peer t') = sk_sent (tt_peer t)
     \<and> tt_attempts t' = tl (tt_attempts t) \<and> m_sendBuffer t' = m_sendBuffer t
     \<and> m_readBuffer t' = m_readBuffer t \<and> tt_delivered t' = tt_delivered t
     \<and> m_shouldDisconnect t' = m_shouldDisconnect t"

lemma peer_connect_answered:
  assumes "\<not> m_connected (tt_peer t)" "tt_attempts t = a # as" "answers a"
  shows "\<exists>t'. peer_connect t = (True, t') \<and> reconnected a t t'"
  using client_connect_accepting [OF assms(1), of "at_addresses a" SocketOptionsNone "tt_kernel t"] assms
  by (auto simp: peer_connect_def answers_def Let_def reconnected_def notification_def handler_called_def)

lemma connect_loop_ends:
  assumes "tt_attempts t = fails @ a # as" "list_all (\<lambda>b. \<not> answers b) fails" "answers a"
    and "\<not> m_connected (tt_peer t)" "\<not> m_shouldDisconnect t" "length fails + 1 < fuel"
  shows "\<exists>t'. connect_loop fuel current t = Inr (map (\<lambda>i. (backoff ^^ i) current) [0..<length fails], t')
    \<and> m_connected (tt_peer t') \<and> tt_attempts t' = as \<and> m_sendBuffer t' = m_sendBuffer t"
  using assms
proof (induction fails arbitrary: t current fuel)
  case Nil
  have "2 \<le> fuel" using Nil.prems(6) by simp
  then obtain k where k: "fuel = Suc (Suc k)" unfolding le_iff_add by auto
  obtain t' where "peer_connect t = (True, t')" "reconnected a t t'"
    using peer_connect_answered [of t a as] Nil.prems by auto
  then show ?case using Nil.prems k by (auto simp: reconnected_def)
next
  case (Cons b fails)
  obtain k where k: "fuel = Suc k" "length fails + 1 < k" using Cons.prems(6) by (cases fuel) auto
  obtain fd where fd: "peer_connect t = (False, t\<lparr>tt_attempts := fails @ a # as, tt_peer := (tt_peer t)\<lparr>m_socket := fd\<rparr>\<rparr>)"
    using peer_connect_refused [of t b "fails @ a # as"] Cons.prems by auto
  let ?t = "t\<lparr>tt_attempts := fails @ a # as, tt_peer := (tt_peer t)\<lparr>m_socket := fd\<rparr>\<rparr>"
  obtain t' where t': "connect_loop k (backoff current) ?t =
      Inr (map (\<lambda>i. (backoff ^^ i) (backoff current)) [0..<length fails], t')"
    "m_connected (tt_peer t')" "tt_attempts t' = as" "m_sendBuffer t' = m_sendBuffer t"
    using Cons.IH [of ?t k "backoff current"] Cons.prems k(2) by auto
  have "map (\<lambda>i. (backoff ^^ i) current) [0..<Suc (length fails)] =
      current # map (\<lambda>i. (backoff ^^ i) (backoff current)) [0..<length fails]"
    by (simp add: map_upt_Suc funpow_swap1 del: upt_Suc)
  then show ?case using t' fd k(1) Cons.prems(4,5) by simp
qed

lemma backoff_power: "(backoff ^^ i) 1 = min (2 ^ i) 5000"
  by (induction i) (auto simp: backoff_def max_retry_interval_def min_def)

section \<open>Sending\<close>

lemma buffer_bytes_visible: "wf_buffer b \<Longrightarrow> buffer_bytes b = Inr (visible b)"
  by (simp add: buffer_bytes_def wf_buffer_def visible_def content_def drop_take)

definition send_room :: "message \<Rightarrow> message_buffer \<Rightarrow> bool" where
  "send_room m b \<longleftrightarrow> wf_buffer b \<and> m_storedLength (mb_storage b) + length (wire_message m) \<le> capacity b"

lemma encode_into:
  assumes "wf_message m" "send_room m b"
  shows "\<exists>st n. mutableBuffer b = Inr (mb_storage b) \<and> encode_message m (mb_storage b) = Inr (n, st)
    \<and> wf_buffer (b\<lparr>mb_storage := st\<rparr>) \<and> visible (b\<lparr>mb_storage := st\<rparr>) = visible b @ wire_message m
    \<and> m_capacity st = capacity b \<and> m_storedLength st = m_storedLength (mb_storage b) + length (wire_message m)"
proof -
  have wf: "wf_storage (mb_storage b)" "m_startIndex b \<le> m_storedLength (mb_storage b)"
    using assms(2) by (auto simp: send_room_def wf_buffer_def)
  obtain st where st: "encode_message m (mb_storage b) = Inr (length (wire_message m), st)"
    "extends (mb_storage b) st (wire_message m)"
    using encode_message_extends [OF assms(1) wf(1)] assms(2) by (auto simp: send_room_def)
  note e = extendsD [OF st(2)]
  then show ?thesis
    using st(1) wf length_content [OF wf(1)] by (simp add: mutableBuffer_def wf_buffer_def visible_def)
qed

text \<open>What \<^verbatim>\<open>sendMessage\<close> does with the answer the system gives to \<^verbatim>\<open>send\<close>.\<close>

lemma sendMessage_cases:
  assumes "m_connected (tt_peer t)" "wf_message m" "send_room m (m_sendBuffer t)"
    and "socket_send (visible (m_sendBuffer t) @ wire_message m) (tt_peer t) = Inr (ok, s)"
  shows "\<exists>b. wf_buffer b \<and> visible b = visible (m_sendBuffer t) @ wire_message m \<and> capacity b = capacity (m_sendBuffer t)
    \<and> m_storedLength (mb_storage b) = m_storedLength (mb_storage (m_sendBuffer t)) + length (wire_message m)
    \<and> (\<exists>b'. erase_front (length (visible b)) b = Inr b' \<and> wf_buffer b' \<and> visible b' = [] \<and> capacity b' = capacity b
         \<and> (m_sendBuffer (peer_result s (t\<lparr>m_sendBuffer := b\<rparr>)) = b \<longrightarrow>
             sendMessage m t = Inr (if ok then (OK, (peer_result s (t\<lparr>m_sendBuffer := b\<rparr>))\<lparr>m_sendBuffer := b'\<rparr>)
                                    else (CANNOT_SEND, peer_result s (t\<lparr>m_sendBuffer := b\<rparr>)))))"
proof -
  obtain st n where st: "mutableBuffer (m_sendBuffer t) = Inr (mb_storage (m_sendBuffer t))"
    "encode_message m (mb_storage (m_sendBuffer t)) = Inr (n, st)"
    "wf_buffer ((m_sendBuffer t)\<lparr>mb_storage := st\<rparr>)"
    "visible ((m_sendBuffer t)\<lparr>mb_storage := st\<rparr>) = visible (m_sendBuffer t) @ wire_message m"
    "m_capacity st = capacity (m_sendBuffer t)"
    "m_storedLength st = m_storedLength (mb_storage (m_sendBuffer t)) + length (wire_message m)"
    using encode_into [OF assms(2,3)] by blast
  define b where "b = (m_sendBuffer t)\<lparr>mb_storage := st\<rparr>"
  obtain b' where b': "erase_front (length (visible b)) b = Inr b'" "wf_buffer b'" "visible b' = []"
    using erase_front_spec [of b "length (visible b)"] st(3) by (auto simp: b_def)
  have "buffer_bytes b = Inr (visible b)" using st(3) by (simp add: b_def buffer_bytes_visible)
  then have "m_sendBuffer (peer_result s (t\<lparr>m_sendBuffer := b\<rparr>)) = b \<longrightarrow>
      sendMessage m t = Inr (if ok then (OK, (peer_result s (t\<lparr>m_sendBuffer := b\<rparr>))\<lparr>m_sendBuffer := b'\<rparr>)
                             else (CANNOT_SEND, peer_result s (t\<lparr>m_sendBuffer := b\<rparr>)))"
    using assms(1,4) st(1,2) b'(1) st(4) by (simp add: sendMessage_def b_def Let_def)
  then show ?thesis
    using st(3-6) b' erase_capacity(1) [OF b'(1)] by (intro exI [of _ b]) (auto simp: b_def)
qed

lemma peer_result_keeps [simp]:
  "m_sendBuffer (peer_result s t) = m_sendBuffer t" "m_readBuffer (peer_result s t) = m_readBuffer t"
  "tt_delivered (peer_result s t) = tt_delivered t"
  by (simp_all add: peer_result_def connection_lost_def peer_connect_def notification_def start_attempt_def
      Let_def split_beta)

text \<open>An empty buffer that has been cleared has room for every message up to its capacity.\<close>

lemma erased_stored: "erase_front (length (visible b)) b = Inr b' \<Longrightarrow> wf_buffer b \<Longrightarrow> m_storedLength (mb_storage b') = 0"
  using length_visible [of b]
  by (auto simp: erase_front_def clear_storage_def visible_length_def wf_buffer_def split: if_splits)

lemma socket_send_accepted:
  "m_connected s \<Longrightarrow> sk_sends s = [] \<Longrightarrow> socket_send d s = Inr (True, s\<lparr>sk_sent := sk_sent s @ d\<rparr>)"
  by (cases s) (simp add: socket_send_def send_loop.simps)

lemma sendMessage_accepted:
  assumes "m_connected (tt_peer t)" "sk_sends (tt_peer t) = []" "wf_message m" "send_room m (m_sendBuffer t)"
  obtains b where "sendMessage m t = Inr (OK, t\<lparr>m_sendBuffer := b,
       tt_peer := (tt_peer t)\<lparr>sk_sent := sk_sent (tt_peer t) @ visible (m_sendBuffer t) @ wire_message m\<rparr>\<rparr>)"
    "wf_buffer b" "visible b = []" "capacity b = capacity (m_sendBuffer t)" "m_storedLength (mb_storage b) = 0"
proof -
  let ?s = "(tt_peer t)\<lparr>sk_sent := sk_sent (tt_peer t) @ visible (m_sendBuffer t) @ wire_message m\<rparr>"
  have r: "peer_result ?s (t\<lparr>m_sendBuffer := b\<rparr>) = t\<lparr>m_sendBuffer := b, tt_peer := ?s\<rparr>" for b
    using assms(1) by (simp add: peer_result_def)
  from sendMessage_cases [OF assms(1,3,4) socket_send_accepted [OF assms(1,2)]]
  obtain b b' where b: "capacity b = capacity (m_sendBuffer t)" "wf_buffer b'" "visible b' = []" "capacity b' = capacity b"
    "erase_front (length (visible b)) b = Inr b'" "wf_buffer b"
    "sendMessage m t = Inr (OK, (peer_result ?s (t\<lparr>m_sendBuffer := b\<rparr>))\<lparr>m_sendBuffer := b'\<rparr>)"
    by auto
  show thesis by (rule that [of b']) (use b r erased_stored [OF b(5,6)] in simp_all)
qed

text \<open>A transport that is connected, watches its connection and does not want to disconnect.\<close>

definition online :: "tcp_transport \<Rightarrow> bool" where
  "online t \<longleftrightarrow> m_connected (tt_peer t) \<and> m_has_handler (tt_peer t) \<and> sk_closes (tt_peer t) = []
     \<and> \<not> m_shouldDisconnect t"

lemma connection_lost_reconnects:
  assumes "online t" "tt_attempts t = a # as" "answers a" "\<not> m_connected s" "m_has_handler s"
    and "sk_sent s = sk_sent (tt_peer t)"
  shows "reconnected a t (peer_result s t)"
proof -
  define u where "u = notification DISCONNECTED (t\<lparr>tt_peer := s, tt_kernel := k_close (m_socket s) (tt_kernel t)\<rparr>)"
  have u: "\<not> m_connected (tt_peer u)" "tt_attempts u = a # as" "\<not> m_shouldDisconnect u"
    using assms by (simp_all add: u_def notification_def online_def)
  obtain t' where "peer_connect u = (True, t')" "reconnected a u t'"
    using peer_connect_answered [OF u(1,2) assms(3)] by blast
  moreover have "peer_result s t = t'"
    using calculation(1) assms(1,4,5) u(3) by (simp add: peer_result_def connection_lost_def u_def online_def Let_def)
  ultimately show ?thesis using assms(6) by (simp add: reconnected_def u_def notification_def)
qed

lemma disconnected_socket:
  assumes "m_connected s" "sk_closes s = []" "m_has_handler s"
  shows "\<not> m_connected (snd (disconnect s))" "m_has_handler (snd (disconnect s))"
    "sk_sent (snd (disconnect s)) = sk_sent s"
  using assms by (simp_all add: disconnect_def Let_def)

section \<open>A stream that yields no message\<close>

text \<open>
  \<open>blocked x n\<close>: behind the unread bytes \<open>x\<close> no message is recognised as long as there are
  fewer than \<open>n\<close> bytes.
\<close>

definition blocked :: "byte list \<Rightarrow> nat \<Rightarrow> bool" where
  "blocked x n \<longleftrightarrow> (\<forall>s y. holds s (x @ y) \<longrightarrow> length (x @ y) < n \<longrightarrow>
     (\<exists>st k. have_complete_message s = Inr (st, k) \<and> st \<noteq> CompleteMessage))"

lemma receive_round_blocked:
  assumes ok: "io_ok b (length c)" and c: "c \<noteq> []" "length c \<le> MTU_SIZE"
    and blk: "blocked x n" "visible b = x @ y" "length (visible b) + length c < n" and fuel: "0 < fuel"
  shows "\<exists>b'. wf_buffer b' \<and> capacity b' \<le> 2 ^ 31 \<and> visible b' = visible b @ c
    \<and> receive_round thrown fuel (on_stream b (RecvData c # inc) t) = Inr (False, on_stream b' inc t)"
proof -
  have "socket_read MTU_SIZE (tt_peer (on_stream b (RecvData c # inc) t)) = (MoreData, c, (tt_peer t)\<lparr>sk_incoming := inc\<rparr>)"
    using c by (simp add: socket_read_def)
  then obtain b1 where b1: "fill_buffer (on_stream b (RecvData c # inc) t) = Inr (MoreData, on_stream b1 inc t)"
    "wf_buffer b1" "visible b1 = visible b @ c" "capacity b1 \<le> 2 ^ 31"
    using fill_buffer_spec [OF ok c(2)] by blast
  have "length (visible b1) \<le> 2 ^ 30" using ok b1(3) by (simp add: io_ok_def)
  then obtain v where v: "byteStorage b1 = Inr v" "m_read_ptr v = 0" "holds v (visible b1)"
    using view_holds [OF b1(2)] by blast
  have "holds v (x @ y @ c)" "length (x @ y @ c) < n" using v(3) b1(3) blk(2,3) by simp_all
  then obtain st j where "have_complete_message v = Inr (st, j)" "st \<noteq> CompleteMessage"
    using blk(1) unfolding blocked_def by blast
  moreover obtain k where "fuel = Suc k" using fuel by (cases fuel) auto
  ultimately have "process_stream thrown fuel v (on_stream b1 inc t) = Inr (v, on_stream b1 inc t)"
    by (simp add: processData_incomplete)
  moreover obtain b2 where b2: "erase_front 0 b1 = Inr b2" "wf_buffer b2" "visible b2 = visible b1"
    using erase_front_spec [OF b1(2), of 0] by auto
  ultimately show ?thesis
    using b1 v(1,2) erase_capacity(1) [OF b2(1)]
    by (intro exI [of _ b2]) (simp add: receive_round_def bytesRead_def)
qed

lemma receive_loop_blocked:
  assumes "chunked cs" "io_ok b (length (concat cs))" "blocked x n" "visible b = x @ y"
    and "length (visible b) + length (concat cs) < n" "length cs < rounds" "0 < fuel"
  shows "\<exists>b'. wf_buffer b' \<and> visible b' = visible b @ concat cs
    \<and> receive_loop thrown rounds fuel (on_stream b (map RecvData cs) t) = Inr (on_stream b' [] t)"
  using assms
proof (induction cs arbitrary: b y rounds)
  case Nil
  then show ?case
    using receive_round_idle [of b thrown fuel t] by (cases rounds) auto
next
  case (Cons c cs)
  obtain k where k: "rounds = Suc k" "length cs < k" using Cons.prems(6) by (cases rounds) auto
  have c: "c \<noteq> []" "length c \<le> MTU_SIZE" "io_ok b (length c)" "chunked cs" "length (visible b) + length c < n"
    using Cons.prems(1,2,5) by (auto simp: chunked_def io_ok_def)
  obtain b1 where b1: "wf_buffer b1" "capacity b1 \<le> 2 ^ 31" "visible b1 = visible b @ c"
    "receive_round thrown fuel (on_stream b (RecvData c # map RecvData cs) t) = Inr (False, on_stream b1 (map RecvData cs) t)"
    using receive_round_blocked [OF c(3,1,2) Cons.prems(3,4) c(5) Cons.prems(7)] by blast
  have "\<exists>b'. wf_buffer b' \<and> visible b' = visible b1 @ concat cs
      \<and> receive_loop thrown k fuel (on_stream b1 (map RecvData cs) t) = Inr (on_stream b' [] t)"
    using Cons.IH [OF c(4), of b1 "y @ c" k] Cons.prems b1 k(2) by (simp add: io_ok_def)
  then show ?case using b1(3,4) k(1) by auto
qed

lemma blocked_marker: "b \<noteq> 1 \<Longrightarrow> blocked (b # x) n"
  unfolding blocked_def
proof (intro allI impI, goal_cases)
  case (1 s y)
  then have "at s [b]" using at_Cons [of s b "x @ y"] by (simp add: holds_def)
  then have "peekScalar 0 1 s = Inr (unat b)"
    using at_peekScalar [of 0 s 1 "unat b"] le_bytes_1_byte unsigned_less [of b] by simp
  moreover have "unat b \<noteq> 1" using 1(1) by (metis unat_1 word_unat_eq_iff)
  ultimately show ?case by (simp add: have_complete_message_def addressing_flag_def)
qed

lemma blocked_header:
  assumes "wf_message m" "x = take k (wire_message m)" "9 \<le> k"
  shows "blocked x (length (wire_message m))"
  unfolding blocked_def
proof (intro allI impI)
  fix s y assume h: "holds s (x @ y)" and len: "length (x @ y) < length (wire_message m)"
  let ?L = "length (wire_message m)"
  have L: "9 \<le> ?L" "?L < 2 ^ 62"
    using assms(1) by (simp_all add: length_wire_message MsgAddressing_size_def wf_message_def)
  have rem: "remainingReadLength s = length (x @ y)"
    using h by (auto simp: holds_def at_def storage_simps)
  obtain rest where w: "wire_message m = ([1] @ le_bytes 8 (?L - 9)) @ rest"
    using wire_message_head [of m] by auto
  have "x = ([1] @ le_bytes 8 (?L - 9)) @ take (k - 9) rest"
    unfolding assms(2) by (subst w) (use assms(3) in \<open>simp add: take_Cons' del: le_bytes.simps\<close>)
  then have "at s ([1] @ le_bytes 8 (?L - 9))"
    using h unfolding holds_def by (metis at_append append_assoc)
  then have "have_complete_message s = Inr (IncompleteMessage, if 16 \<le> remainingReadLength s then ?L else 0)"
    using have_complete_head [OF _ L] rem len
    by (cases "16 \<le> remainingReadLength s") (simp_all add: have_complete_message_def MsgAddressing_size_def)
  then show "\<exists>st k. have_complete_message s = Inr (st, k) \<and> st \<noteq> CompleteMessage" by simp
qed


section \<open>Properties\<close>

lemma receive_loop_delivers:
  assumes "\<forall>c \<in> set cs. c \<noteq> [] \<and> length c \<le> 1500"
    and "wf_buffer b" "capacity b \<le> 2 ^ 31" "length (visible b) + length (concat cs) \<le> 2 ^ 30"
    and "incomplete (visible b)" "visible b @ concat cs = wires ms @ x" "incomplete x"
    and "\<forall>m \<in> set ms. wf_message m" "length ms < fuel" "length cs < rounds"
  shows "\<exists>b' t'. receive_loop thrown rounds fuel (on_stream b (map RecvData cs) t) = Inr t'
    \<and> tt_delivered t' = tt_delivered t @ map delivered ms \<and> m_readBuffer t' = b' \<and> visible b' = x
    \<and> tt_notified t' = tt_notified t"
proof -
  obtain b' where "visible b' = x"
    "receive_loop thrown rounds fuel (on_stream b (map RecvData cs) t) = Inr (on_stream b' [] (deliver_all ms t))"
    using crx.loop_chunks [where cs = cs and b = b and ms = ms and x = x and fuel = fuel and rounds = rounds
        and r = t and thrown = thrown] assms by (auto simp: chunked_def io_ok_def)
  then show ?thesis
    by (intro exI [of _ b'] exI [of _ "on_stream b' [] (deliver_all ms t)"]) (simp add: on_stream_def deliver_all_def)
qed

text \<open>
  A client receives what was sent: messages on the connection, cut into reads of any size, are
  handed to the callback once each and in order, on top of what the buffer held; the bytes of
  an incomplete message stay in the buffer, and the receiver returns.
\<close>

theorem client_receives_messages:
  assumes "\<forall>c \<in> set cs. c \<noteq> [] \<and> length c \<le> 1500"
    and "wf_buffer b" "capacity b \<le> 2 ^ 31" "length (visible b) + length (concat cs) \<le> 2 ^ 30"
    and "incomplete (visible b)" "visible b @ concat cs = wires ms @ x" "incomplete x"
    and "\<forall>m \<in> set ms. wf_message m" "length ms < fuel" "length cs < rounds"
  shows "\<exists>b' t'. receive_loop thrown rounds fuel (on_stream b (map RecvData cs) t) = Inr t'
    \<and> tt_delivered t' = tt_delivered t @ map delivered ms \<and> m_readBuffer t' = b' \<and> visible b' = x
    \<and> tt_notified t' = tt_notified t"
  by (rule receive_loop_delivers [OF assms])

text \<open>
  Sending: on a connection that accepts what it is given, \<^verbatim>\<open>sendMessage\<close> puts the bytes still
  in the send buffer and then the wire format of the message on the wire, empties the buffer
  and reports success.
\<close>

theorem send_message_on_wire:
  assumes "m_connected (tt_peer t)" "sk_sends (tt_peer t) = []" "wf_message m" "wf_buffer (m_sendBuffer t)"
    and "m_storedLength (mb_storage (m_sendBuffer t)) + length (wire_message m) \<le> capacity (m_sendBuffer t)"
  shows "\<exists>b. sendMessage m t = Inr (OK, t\<lparr>m_sendBuffer := b,
       tt_peer := (tt_peer t)\<lparr>sk_sent := sk_sent (tt_peer t) @ visible (m_sendBuffer t) @ wire_message m\<rparr>\<rparr>)
    \<and> wf_buffer b \<and> visible b = [] \<and> capacity b = capacity (m_sendBuffer t)"
proof -
  have "send_room m (m_sendBuffer t)" using assms(4,5) by (simp add: send_room_def)
  then show ?thesis using sendMessage_accepted [OF assms(1-3)] by blast
qed

text \<open>
  A message whose sending was reported as failed is sent all the same: it stays in the send
  buffer, and after the transport has reconnected the next \<^verbatim>\<open>sendMessage\<close> puts it on the new
  connection in front of its own message.
\<close>

theorem failed_send_is_resent:
  assumes "online t" "sk_sends (tt_peer t) = r # rs" "r < 0"
    and "tt_attempts t = a # as" "answers a" "at_sends a = []"
    and "wf_message m1" "wf_message m2" "wf_buffer (m_sendBuffer t)" "visible (m_sendBuffer t) = []"
    and "m_storedLength (mb_storage (m_sendBuffer t)) + length (wire_message m1) + length (wire_message m2)
         \<le> capacity (m_sendBuffer t)"
  shows "\<exists>t1 t2. sendMessage m1 t = Inr (CANNOT_SEND, t1) \<and> sendMessage m2 t1 = Inr (OK, t2)
    \<and> sk_sent (tt_peer t2) = sk_sent (tt_peer t) @ wire_message m1 @ wire_message m2"
proof -
  have con: "m_connected (tt_peer t)" using assms(1) by (simp add: online_def)
  define s where "s = snd (disconnect ((tt_peer t)\<lparr>sk_sends := rs\<rparr>))"
  have s: "socket_send (visible (m_sendBuffer t) @ wire_message m1) (tt_peer t) = Inr (False, s)"
    using con assms(2,3) by (simp add: socket_send_def send_loop.simps s_def)
  have room: "send_room m1 (m_sendBuffer t)" using assms(9,11) by (simp add: send_room_def)
  obtain b where b: "wf_buffer b" "visible b = wire_message m1" "capacity b = capacity (m_sendBuffer t)"
    "m_storedLength (mb_storage b) = m_storedLength (mb_storage (m_sendBuffer t)) + length (wire_message m1)"
    "sendMessage m1 t = Inr (CANNOT_SEND, peer_result s (t\<lparr>m_sendBuffer := b\<rparr>))"
    using sendMessage_cases [OF con assms(7) room s] assms(10) by auto
  define t1 where "t1 = peer_result s (t\<lparr>m_sendBuffer := b\<rparr>)"
  have "\<not> m_connected s" "m_has_handler s" "sk_sent s = sk_sent (tt_peer t)"
    using disconnected_socket [of "(tt_peer t)\<lparr>sk_sends := rs\<rparr>"] assms(1) by (simp_all add: s_def online_def)
  then have "reconnected a (t\<lparr>m_sendBuffer := b\<rparr>) t1"
    unfolding t1_def using assms(1,4,5) by (intro connection_lost_reconnects) (simp_all add: online_def)
  then have t1: "m_connected (tt_peer t1)" "sk_sends (tt_peer t1) = []" "m_sendBuffer t1 = b"
    "sk_sent (tt_peer t1) = sk_sent (tt_peer t)"
    using assms(6) by (simp_all add: reconnected_def)
  have room1: "send_room m2 (m_sendBuffer t1)" using t1(3) b(1,3,4) assms(11) by (simp add: send_room_def)
  obtain t2 where "sendMessage m2 t1 = Inr (OK, t2)"
    "sk_sent (tt_peer t2) = sk_sent (tt_peer t1) @ visible (m_sendBuffer t1) @ wire_message m2"
    by (rule sendMessage_accepted [OF t1(1,2) assms(8) room1]) simp
  then show ?thesis using b(2,5) t1(3,4) unfolding t1_def [symmetric] by auto
qed

text \<open>
  C31 The connecting thread ends: when the system refuses the next attempts and then accepts one,
  the loop returns connected after pauses of 1, 2, 4, ... milliseconds, at most 5 seconds
  each, one for every refusal.
\<close>

theorem connect_succeeds:
  assumes "tt_attempts t = fails @ a # as" "list_all (\<lambda>b. \<not> answers b) fails" "answers a"
    and "\<not> m_connected (tt_peer t)" "\<not> m_shouldDisconnect t" "length fails + 1 < fuel"
  shows "\<exists>t'. transport_connect fuel t = Inr (map (\<lambda>i. min (2 ^ i) 5000) [0..<length fails], t') \<and> valid t'"
  using connect_loop_ends [OF assms, of 1]
  by (auto simp: transport_connect_def min_retry_interval_def valid_def backoff_power simp del: One_nat_def)

text \<open>
  A connection that is lost in the middle of a message corrupts the next one: the bytes
  received of it stay in the read buffer, and the messages the router sends on the new
  connection are taken for the rest of it. None of them is delivered, as long as they are
  shorter than what was missing, and no error is reported.
\<close>

theorem reconnect_swallows_messages:
  assumes "online t" "tt_attempts t = a # as" "answers a" "at_incoming a = map RecvData cs"
    and "wf_message m0" "9 \<le> k" "k < length (wire_message m0)" "length (wire_message m0) \<le> 2 ^ 30"
    and "wf_buffer b" "capacity b \<le> 2 ^ 31" "visible b = take k (wire_message m0)"
    and "\<forall>c \<in> set cs. c \<noteq> [] \<and> length c \<le> 1500" "concat cs = wires ms"
    and "k + length (wires ms) < length (wire_message m0)" "length cs < rounds" "0 < fuel"
  shows "\<exists>t1 t2. receive_loop thrown rounds fuel (on_stream b [RecvEof] t) = Inr t1 \<and> valid t1
    \<and> receive_loop thrown rounds fuel t1 = Inr t2 \<and> tt_delivered t2 = tt_delivered t
    \<and> visible (m_readBuffer t2) = take k (wire_message m0) @ wires ms"
proof -
  let ?t = "on_stream b [RecvEof] t"
  define s where "s = snd (disconnect ((tt_peer t)\<lparr>sk_incoming := []\<rparr>))"
  have rd: "socket_read MTU_SIZE (tt_peer ?t) = (Closed, [], s)" by (simp add: socket_read_def s_def)
  have len: "length (visible b) = k" using assms(7,11) by simp
  obtain b1 where b1: "erase_back MTU_SIZE (filled [] b) = Inr b1" "wf_buffer b1" "visible b1 = visible b" "capacity b1 \<le> 2 ^ 31"
    using fill_spec [of b "[]"] assms(7-10) len by auto
  define t1 where "t1 = (peer_result s ?t)\<lparr>m_readBuffer := b1\<rparr>"
  have "fill_buffer ?t = Inr (Closed, t1)"
    using rd b1(1) by (simp add: fill_buffer_def filled_def split_beta t1_def Let_def)
  moreover obtain j where j: "rounds = Suc j" using assms(15) by (cases rounds) auto
  ultimately have l1: "receive_loop thrown rounds fuel ?t = Inr t1" by (simp add: receive_round_def)
  have "\<not> m_connected s" "m_has_handler s" "sk_sent s = sk_sent (tt_peer t)"
    using disconnected_socket [of "(tt_peer t)\<lparr>sk_incoming := []\<rparr>"] assms(1) by (simp_all add: s_def online_def)
  then have rc: "reconnected a ?t (peer_result s ?t)"
    using assms(1-3) by (intro connection_lost_reconnects) (simp_all add: online_def on_stream_def)
  then have v1: "valid t1" "sk_incoming (tt_peer t1) = map RecvData cs" "tt_delivered t1 = tt_delivered t"
    using assms(4) by (simp_all add: reconnected_def t1_def valid_def on_stream_def)
  have t1: "t1 = on_stream b1 (map RecvData cs) t1"
    using v1(2) by (simp add: on_stream_def t1_def)
  have blk: "blocked (take k (wire_message m0)) (length (wire_message m0))"
    by (rule blocked_header [OF assms(5) refl assms(6)])
  have tot: "length (visible b1) + length (concat cs) < length (wire_message m0)"
    using b1(3) len assms(13,14) by simp
  then have io: "io_ok b1 (length (concat cs))"
    using b1(2,4) assms(8) by (simp add: io_ok_def)
  have ch: "chunked cs" using assms(12) by (simp add: chunked_def)
  have "visible b1 = take k (wire_message m0) @ []" using b1(3) assms(11) by simp
  from receive_loop_blocked [OF ch io blk this tot assms(15,16), of thrown t1]
  obtain b2 where "visible b2 = visible b1 @ concat cs" "receive_loop thrown rounds fuel t1 = Inr (on_stream b2 [] t1)"
    unfolding t1 [symmetric] by blast
  then show ?thesis using l1 v1 b1(3) assms(11,13) by (intro exI [of _ t1] exI [of _ "on_stream b2 [] t1"]) (simp add: on_stream_def)
qed

text \<open>
  A corrupt stream stalls the client: when the next byte is not the marker of a message, the
  receiver keeps reading and buffering for ever without delivering a message, reporting
  \<^verbatim>\<open>CORRUPT_MESSAGE\<close> or giving up the connection.
\<close>

theorem corrupt_marker_stalls:
  assumes "wf_buffer b" "capacity b \<le> 2 ^ 31" "visible b = marker # x" "marker \<noteq> 1"
    and "\<forall>c \<in> set cs. c \<noteq> [] \<and> length c \<le> 1500" "length (visible b) + length (concat cs) \<le> 2 ^ 30"
    and "length cs < rounds" "0 < fuel"
  shows "\<exists>b'. visible b' = visible b @ concat cs
    \<and> receive_loop thrown rounds fuel (on_stream b (map RecvData cs) t) = Inr (on_stream b' [] t)"
proof -
  have v: "visible b = (marker # x) @ []" using assms(3) by simp
  have "chunked cs" "io_ok b (length (concat cs))"
    using assms(1,2,5,6) by (simp_all add: chunked_def io_ok_def)
  moreover have "length (visible b) + length (concat cs) < 2 ^ 31"
    by (rule order.strict_trans1 [OF assms(6)]) simp
  ultimately show ?thesis
    using receive_loop_blocked [OF _ _ blocked_marker [OF assms(4)] v _ assms(7,8)] by blast
qed


section \<open>Witnesses\<close>

definition demo_answer :: attempt where
  "demo_answer = \<lparr>at_addresses = [\<lparr>ad_fd = 4, ad_ok = True\<rparr>], at_incoming = [RecvData (wire_message demo_message)], at_sends = []\<rparr>"

definition demo_transport :: "int list \<Rightarrow> attempt list \<Rightarrow> tcp_transport" where
  "demo_transport sends attempts =
    \<lparr>tt_peer = (socket_new 3 True)\<lparr>m_has_handler := True, sk_sends := sends\<rparr>,
     tt_kernel = \<lparr>k_open = [3], k_nonblock = [], k_nodelay = [], k_lowdelay = []\<rparr>, tt_attempts = attempts,
     m_shouldDisconnect = False, tt_attempting = False, m_sendBuffer = MessageBuffer_new (\<lambda>_. 0) 1024,
     m_readBuffer = MessageBuffer_new (\<lambda>_. 0) 1500, tt_has_handler = True, tt_notified = [], tt_delivered = []\<rparr>"

lemma demo_answers: "answers demo_answer"
  by (simp add: answers_def demo_answer_def accepting_def)

lemma demo_online: "online (demo_transport sends attempts)"
  by (simp add: online_def demo_transport_def socket_new_def)

lemma demo_capacity:
  "0 < n \<Longrightarrow> n \<le> 2 ^ 31 \<Longrightarrow> n \<le> capacity (MessageBuffer_new (\<lambda>_. 0) n)"
  "0 < n \<Longrightarrow> n \<le> 2 ^ 31 \<Longrightarrow> capacity (MessageBuffer_new (\<lambda>_. 0) n) \<le> 2 ^ 31"
  using allocateStorage_capacity(1) [of n] next_pow2_upper [of n]
  by (simp_all add: MessageBuffer_new_def ByteStorage_alloc_def Let_def allocateStorage_def)

lemma demo_buffer:
  "wf_buffer (MessageBuffer_new (\<lambda>_. 0) 1024)" "visible (MessageBuffer_new (\<lambda>_. 0) 1024) = []"
  "m_storedLength (mb_storage (MessageBuffer_new (\<lambda>_. 0) 1024)) = 0"
  "wf_buffer (MessageBuffer_new (\<lambda>_. 0) 1500)" "visible (MessageBuffer_new (\<lambda>_. 0) 1500) = []"
  using wf_buffer_new [of 1024 "\<lambda>_. 0"] wf_buffer_new [of 1500 "\<lambda>_. 0"]
  by (auto simp: MessageBuffer_new_def ByteStorage_alloc_def Let_def allocateStorage_def)

lemma demo_incomplete: "incomplete []"
  using demo_wf wire_message_pos [of demo_message] unfolding incomplete_def by (metis append_Nil length_greater_0_conv)

theorem client_receives_messages_witness:
  "\<exists>t'. receive_loop (\<lambda>_. 0) 3 2 (on_stream (MessageBuffer_new (\<lambda>_. 0) 1500)
        (map RecvData [take 5 (wire_message demo_message), drop 5 (wire_message demo_message)]) (demo_transport [] []))
      = Inr t' \<and> tt_delivered t' = [delivered demo_message] \<and> visible (m_readBuffer t') = []"
proof -
  let ?cs = "[take 5 (wire_message demo_message), drop 5 (wire_message demo_message)]"
  have "wire_message demo_message \<noteq> []" using demo_length by auto
  then show ?thesis
    using client_receives_messages [of ?cs "MessageBuffer_new (\<lambda>_. 0) 1500" "[demo_message]" "[]" 2 3 "\<lambda>_. 0"
        "demo_transport [] []"] demo_buffer(4,5) demo_capacity(2) [of 1500] demo_incomplete demo_wf demo_length
    by (auto simp: demo_transport_def)
qed

theorem send_message_on_wire_witness:
  "\<exists>t'. sendMessage demo_message (demo_transport [] []) = Inr (OK, t') \<and> sk_sent (tt_peer t') = wire_message demo_message"
proof -
  have "1024 \<le> capacity (MessageBuffer_new (\<lambda>_. 0) 1024)" by (rule demo_capacity) simp_all
  then show ?thesis
    using send_message_on_wire [of "demo_transport [] []" demo_message] demo_wf demo_length demo_buffer
    by (auto simp: demo_transport_def socket_new_def)
qed

theorem failed_send_is_resent_witness:
  "\<exists>t1 t2. sendMessage demo_message (demo_transport [-1] [demo_answer]) = Inr (CANNOT_SEND, t1)
     \<and> sendMessage demo_message t1 = Inr (OK, t2)
     \<and> sk_sent (tt_peer t2) = wire_message demo_message @ wire_message demo_message"
proof -
  let ?t = "demo_transport [-1] [demo_answer]"
  have "1024 \<le> capacity (MessageBuffer_new (\<lambda>_. 0) 1024)" by (rule demo_capacity) simp_all
  then have room: "m_storedLength (mb_storage (m_sendBuffer ?t)) + length (wire_message demo_message)
      + length (wire_message demo_message) \<le> capacity (m_sendBuffer ?t)"
    using demo_length demo_buffer by (simp add: demo_transport_def)
  have sends: "sk_sends (tt_peer ?t) = -1 # []" "tt_attempts ?t = demo_answer # []" "at_sends demo_answer = []"
    "sk_sent (tt_peer ?t) = []" "m_sendBuffer ?t = MessageBuffer_new (\<lambda>_. 0) 1024"
    by (simp_all add: demo_transport_def socket_new_def demo_answer_def)
  from failed_send_is_resent [OF demo_online sends(1) _ sends(2) demo_answers sends(3) demo_wf demo_wf _ _ room]
  show ?thesis using demo_buffer sends(4,5) by simp
qed

theorem connect_succeeds_witness:
  "\<exists>t'. transport_connect 9 ((demo_transport [] [no_answer, no_answer, demo_answer])\<lparr>tt_peer := socket_new (-1) False\<rparr>)
     = Inr ([1, 2], t') \<and> valid t'"
  using connect_succeeds [of "(demo_transport [] [no_answer, no_answer, demo_answer])\<lparr>tt_peer := socket_new (-1) False\<rparr>"
      "[no_answer, no_answer]" demo_answer "[]" 9] demo_answers
  by (simp add: demo_transport_def socket_new_def answers_def no_answer_def accepting_def upt_rec)

text \<open>A message of 1 kB cut off after 20 bytes swallows the short message sent after it.\<close>

definition big_message :: message where
  "big_message = Message False 0 (str_bytes ''A'' @ [0])
     [LargeDataField \<lparr>f_identifier = [], f_type = st_data, f_data_length = 1000\<rparr> (replicate 1000 0)] []"

lemma big_message_facts: "wf_message big_message" "length (wire_message big_message) = 1029"
proof -
  have sub: "subject_string big_message = str_bytes ''A''"
    by (simp add: big_message_def subject_string_def str_bytes_def c_string_def)
  have "wire_base big_message = [2] @ le_bytes 4 1 @ wire_leaf \<lparr>f_identifier = [], f_type = st_data, f_data_length = 1000\<rparr> (replicate 1000 0)"
    by (simp add: big_message_def del: le_bytes.simps)
  then have base: "length (wire_base big_message) = 1011"
    by (simp add: wire_leaf_def del: le_bytes.simps)
  then show len: "length (wire_message big_message) = 1029"
    using sub by (simp add: length_wire_message MsgAddressing_size_def str_bytes_def)
  show "wf_message big_message"
    using sub len by (simp add: wf_message_def big_message_def wf_header_def max_small_size_def str_bytes_def)
qed

theorem reconnect_swallows_messages_witness:
  "\<exists>b t1 t2. visible b = take 20 (wire_message big_message)
     \<and> receive_loop (\<lambda>_. 0) 3 2 (on_stream b [RecvEof] (demo_transport [] [demo_answer])) = Inr t1
     \<and> valid t1 \<and> receive_loop (\<lambda>_. 0) 3 2 t1 = Inr t2 \<and> tt_delivered t2 = []"
proof -
  let ?x = "take 20 (wire_message big_message)"
  let ?b = "buffer_append ?x (MessageBuffer_new (\<lambda>_. 0) 1500)"
  have len: "length ?x = 20" using big_message_facts(2) by simp
  have cap: "1500 \<le> capacity (MessageBuffer_new (\<lambda>_. 0) 1500)" "capacity (MessageBuffer_new (\<lambda>_. 0) 1500) \<le> 2 ^ 31"
    by (rule demo_capacity; simp)+
  then have b: "wf_buffer ?b" "visible ?b = ?x"
    using buffer_append_spec [of "MessageBuffer_new (\<lambda>_. 0) 1500" ?x] demo_buffer(4,5) len by simp_all
  have stored: "m_storedLength (mb_storage (MessageBuffer_new (\<lambda>_. 0) 1500)) = 0"
    by (simp add: MessageBuffer_new_def ByteStorage_alloc_def Let_def allocateStorage_def)
  have capb: "capacity ?b \<le> 2 ^ 31"
    using cap len stored by (simp add: buffer_append_def append_bytes_def allocate_no_grow)
  have inc: "at_incoming demo_answer = map RecvData [wire_message demo_message]" by (simp add: demo_answer_def)
  have at: "tt_attempts (demo_transport [] [demo_answer]) = demo_answer # []" by (simp add: demo_transport_def)
  have ne: "wire_message demo_message \<noteq> []" using demo_length by auto
  from reconnect_swallows_messages [OF demo_online at demo_answers inc big_message_facts(1) _ _ _ b(1) capb b(2), of "[demo_message]" 3 2 "\<lambda>_. 0"]
  show ?thesis using big_message_facts(2) demo_length ne b(2) by (auto simp: demo_transport_def)
qed

theorem corrupt_marker_stalls_witness:
  "\<exists>b b'. visible b = [7] \<and> receive_loop (\<lambda>_. 0) 2 1 (on_stream b [RecvData (wire_message demo_message)] (demo_transport [] []))
     = Inr (on_stream b' [] (demo_transport [] []))"
proof -
  let ?b = "buffer_append [7] (MessageBuffer_new (\<lambda>_. 0) 1500)"
  have cap: "1500 \<le> capacity (MessageBuffer_new (\<lambda>_. 0) 1500)" "capacity (MessageBuffer_new (\<lambda>_. 0) 1500) \<le> 2 ^ 31"
    by (rule demo_capacity; simp)+
  then have b: "wf_buffer ?b" "visible ?b = [7]"
    using buffer_append_spec [of "MessageBuffer_new (\<lambda>_. 0) 1500" "[7]"] demo_buffer(4,5) by simp_all
  have "m_storedLength (mb_storage (MessageBuffer_new (\<lambda>_. 0) 1500)) = 0"
    by (simp add: MessageBuffer_new_def ByteStorage_alloc_def Let_def allocateStorage_def)
  then have capb: "capacity ?b \<le> 2 ^ 31"
    using cap by (simp add: buffer_append_def append_bytes_def allocate_no_grow)
  have ne: "wire_message demo_message \<noteq> []" using demo_length by auto
  from corrupt_marker_stalls [OF b(1) capb b(2), of "[wire_message demo_message]" 2 1 "\<lambda>_. 0" "demo_transport [] []"]
  show ?thesis using b(2) demo_length ne by auto
qed


end
