(* ===== verification/Message_Listener.thy ===== *)
theory Message_Listener
  imports Tcp_Transport_Correct Ring_Buffer
begin

text \<open>
  Subscribing to messages (\<^verbatim>\<open>MessageListener.cpp\<close>, \<^verbatim>\<open>MessageEvent.cpp\<close>, \<^verbatim>\<open>Subscriber.cpp\<close>): the
  listener keeps, per transport, the message events of its observers; a message a transport has
  received is queued for every observer that is interested, and dispatched from the queue to
  the observer's callback. Message events live in a heap, and the vector of transport
  connections has an identity (\<open>ml_vector\<close>), because the notification handlers keep references
  to its elements. Transports, subscribers, queues and event managers are named by numbers.

  The notifications a transport makes while it works are recorded in it (\<open>tt_notified\<close>); the
  handler of the listener is the operation \<open>notification_handler\<close>.
\<close>

section \<open>State\<close>

record subscriber =
  sb_transport :: nat
  sb_subject :: "byte list"
  sb_subscription :: "size_t subscription"

definition Subscriber_new :: "nat \<Rightarrow> byte list \<Rightarrow> subscriber" where
  "Subscriber_new transport subject =
    \<lparr>sb_transport = transport, sb_subject = take max_subject_length (c_string subject),
     sb_subscription = subscription_new string_hash subject\<rparr>"

definition subscriber_interested :: "size_t subject \<Rightarrow> subscriber \<Rightarrow> bool" where
  "subscriber_interested subject sb \<longleftrightarrow> matches (sb_subscription sb) subject"

record message_event =
  me_subscriber :: nat
  me_queue :: nat
  me_awaiting :: u16

record listener =
  ml_subscribers :: "nat \<Rightarrow> subscriber"
  ml_heap :: "nat \<Rightarrow> message_event option"
  ml_next :: nat
  m_observers :: "(nat \<times> nat list) list"
  ml_connections :: "(nat \<times> int option) list"   \<comment> \<open>\<open>m_transportConnections\<close>: transport and watched descriptor\<close>
  ml_vector :: nat                               \<comment> \<open>its storage block\<close>
  ml_capacity :: nat
  ml_transports :: "nat \<Rightarrow> tcp_transport"
  ml_manager :: "nat \<Rightarrow> nat option"              \<comment> \<open>\<open>m_eventManager\<close> of the transports\<close>
  ml_captured :: "nat \<Rightarrow> (nat \<times> nat) option"    \<comment> \<open>the element the notification handler refers to\<close>
  ml_watched :: "(nat \<times> int) list"              \<comment> \<open>descriptors the event managers watch\<close>
  ml_qsize :: nat
  ml_queues :: "nat \<Rightarrow> (nat \<times> message) ringbuffer"
  ml_called :: "(nat \<times> message) list"           \<comment> \<open>the calls of subscribers' callbacks\<close>

definition set_transport :: "nat \<Rightarrow> tcp_transport \<Rightarrow> listener \<Rightarrow> listener" where
  "set_transport tr t l = l\<lparr>ml_transports := (ml_transports l)(tr := t)\<rparr>"

definition deref_me :: "nat \<Rightarrow> listener \<Rightarrow> message_event outcome" where
  "deref_me p l = (case ml_heap l p of None \<Rightarrow> Inl UseAfterFree | Some e \<Rightarrow> Inr e)"

section \<open>Subscribing\<close>

text \<open>
  The administration messages. \<open>this\<close> is the address of the listener, sent as the field \<^verbatim>\<open>id\<close>.
\<close>

definition observer_message :: "string \<Rightarrow> byte list \<Rightarrow> size_t \<Rightarrow> message outcome" where
  "observer_message topic subject this =
    (let (_, msg) = setSubject (str_bytes topic) Message_new
     in bind_outcome (addDataField_string (str_bytes ''subject'') subject msg) (\<lambda>(_, msg).
        bind_outcome (addScalarField (str_bytes ''id'') (SU64 this) msg) (\<lambda>(_, msg). Inr msg)))"

definition send_on :: "nat \<Rightarrow> message \<Rightarrow> listener \<Rightarrow> listener outcome" where
  "send_on tr msg l =
    bind_outcome (sendMessage msg (ml_transports l tr)) (\<lambda>(_, t). Inr (set_transport tr t l))"

definition subscribe :: "size_t \<Rightarrow> nat \<Rightarrow> byte list \<Rightarrow> listener \<Rightarrow> listener outcome" where
  "subscribe this tr subject l =
    bind_outcome (observer_message ''_FP.REGISTER.OBSERVER'' subject this) (\<lambda>msg. send_on tr msg l)"

definition unsubscribe :: "size_t \<Rightarrow> nat \<Rightarrow> byte list \<Rightarrow> listener \<Rightarrow> listener outcome" where
  "unsubscribe this tr subject l =
    bind_outcome (observer_message ''_FP.UNREGISTER.OBSERVER'' subject this) (\<lambda>msg. send_on tr msg l)"

text \<open>\<^verbatim>\<open>push_back\<close> of the vector of connections: a full vector moves to a new block.\<close>

definition push_connection :: "nat \<times> int option \<Rightarrow> listener \<Rightarrow> listener" where
  "push_connection c l =
    (let l = (if length (ml_connections l) = ml_capacity l
              then l\<lparr>ml_vector := ml_vector l + 1, ml_capacity := max 1 (2 * ml_capacity l)\<rparr> else l)
     in l\<lparr>ml_connections := ml_connections l @ [c]\<rparr>)"

definition watch :: "nat \<Rightarrow> int option \<Rightarrow> listener \<Rightarrow> listener" where
  "watch em ev l = (case ev of None \<Rightarrow> l | Some fd \<Rightarrow> l\<lparr>ml_watched := ml_watched l @ [(em, fd)]\<rparr>)"

definition registerTransport :: "nat \<Rightarrow> nat \<Rightarrow> listener \<Rightarrow> bool \<times> listener" where
  "registerTransport tr em l =
    (case ml_manager l tr of
       None \<Rightarrow>
         let ev = createReceiverEvent (ml_transports l tr);
             l = l\<lparr>ml_manager := (ml_manager l)(tr := Some em)\<rparr>;
             l = push_connection (tr, ev) (watch em ev l);
             l = l\<lparr>ml_captured := (ml_captured l)(tr := Some (ml_vector l, length (ml_connections l) - 1))\<rparr>
         in (True, set_transport tr (setNotificationHandler True (ml_transports l tr)) l)
     | Some em' \<Rightarrow> (em' = em, l))"

text \<open>The handler holds a reference to the vector element: it must still be in the same block.\<close>

definition container_of :: "nat \<Rightarrow> listener \<Rightarrow> nat outcome" where
  "container_of tr l =
    (case ml_captured l tr of
       Some (block, i) \<Rightarrow> if block = ml_vector l then Inr i else Inl UseAfterFree
     | None \<Rightarrow> Inl UseAfterFree)"

fun resubscribe :: "size_t \<Rightarrow> nat \<Rightarrow> nat list \<Rightarrow> listener \<Rightarrow> listener outcome" where
  "resubscribe this tr [] l = Inr l"
| "resubscribe this tr (p # ps) l =
    bind_outcome (deref_me p l) (\<lambda>e.
    bind_outcome (subscribe this tr (sb_subject (ml_subscribers l (me_subscriber e))) l)
      (resubscribe this tr ps))"

definition notification_handler :: "size_t \<Rightarrow> nat \<Rightarrow> nat \<Rightarrow> notification_type \<Rightarrow> listener \<Rightarrow> listener outcome" where
  "notification_handler this tr em n l =
    (case n of
       CONNECTED \<Rightarrow>
         bind_outcome (container_of tr l) (\<lambda>i.
         let ev = createReceiverEvent (ml_transports l tr);
             l = watch em ev (l\<lparr>ml_connections := (ml_connections l)[i := (tr, ev)]\<rparr>)
         in case map_of (m_observers l) tr of
              None \<Rightarrow> Inr l
            | Some subscribers \<Rightarrow> resubscribe this tr subscribers l)
     | DISCONNECTED \<Rightarrow>
         bind_outcome (container_of tr l) (\<lambda>i.
         case snd (ml_connections l ! i) of
           None \<Rightarrow> Inr l
         | Some fd \<Rightarrow> Inr (l\<lparr>ml_watched := remove1 (em, fd) (ml_watched l),
                            ml_connections := (ml_connections l)[i := (tr, None)]\<rparr>))
     | _ \<Rightarrow> Inr l)"

definition new_message_event :: "nat \<Rightarrow> nat \<Rightarrow> listener \<Rightarrow> nat \<times> listener" where
  "new_message_event q sb l =
    (ml_next l, l\<lparr>ml_heap := (ml_heap l)(ml_next l := Some \<lparr>me_subscriber = sb, me_queue = q, me_awaiting = 0\<rparr>),
                 ml_next := ml_next l + 1\<rparr>)"

definition addObserver :: "size_t \<Rightarrow> nat \<Rightarrow> nat \<Rightarrow> nat \<Rightarrow> listener \<Rightarrow> (status \<times> listener) outcome" where
  "addObserver this q sb em l =
    (let tr = sb_transport (ml_subscribers l sb); (ok, l) = registerTransport tr em l
     in if ok then
          let (p, l) = new_message_event q sb l;
              l = l\<lparr>m_observers := (if map_of (m_observers l) tr = None then emplace tr [p] (m_observers l)
                                    else alter_key tr (\<lambda>ps. ps @ [p]) (m_observers l))\<rparr>
          in if valid (ml_transports l tr)
             then bind_outcome (subscribe this tr (sb_subject (ml_subscribers l sb)) l) (\<lambda>l. Inr (OK, l))
             else Inr (OK, l)
        else Inr (INVALID_TRANSPORT_STATE, l))"

text \<open>\<^verbatim>\<open>removeObserver\<close> destroys the message event at once.\<close>

definition observes :: "nat \<Rightarrow> listener \<Rightarrow> nat \<Rightarrow> bool" where
  "observes sb l p \<longleftrightarrow> (case ml_heap l p of Some e \<Rightarrow> me_subscriber e = sb | None \<Rightarrow> False)"

definition removeObserver :: "size_t \<Rightarrow> nat \<Rightarrow> listener \<Rightarrow> (status \<times> listener) outcome" where
  "removeObserver this sb l =
    (let tr = sb_transport (ml_subscribers l sb)
     in case map_of (m_observers l) tr of
          None \<Rightarrow> Inr (CANNOT_DESTROY, l)
        | Some subscribers \<Rightarrow>
            (case find (observes sb l) subscribers of
               None \<Rightarrow> Inr (CANNOT_DESTROY, l)
             | Some p \<Rightarrow>
                 bind_outcome (unsubscribe this tr (sb_subject (ml_subscribers l sb)) l) (\<lambda>l.
                 Inr (OK, l\<lparr>m_observers := alter_key tr (remove1 p) (m_observers l),
                            ml_heap := (ml_heap l)(p := None)\<rparr>))))"

section \<open>Delivering\<close>

text \<open>\<^verbatim>\<open>MessageEvent::__notify\<close>: the count of the event goes up; nothing ever takes it down.\<close>

definition message_notify :: "nat \<Rightarrow> message \<Rightarrow> listener \<Rightarrow> (bool \<times> listener) outcome" where
  "message_notify p msg l =
    bind_outcome (deref_me p l) (\<lambda>e.
    let l = l\<lparr>ml_heap := (ml_heap l)(p := Some (e\<lparr>me_awaiting := me_awaiting e + 1\<rparr>))\<rparr>;
        (ok, q) = rb_push (ml_qsize l) (p, msg) (ml_queues l (me_queue e))
    in Inr (ok, l\<lparr>ml_queues := (ml_queues l)(me_queue e := q)\<rparr>))"

fun notify_observers :: "message \<Rightarrow> nat list \<Rightarrow> listener \<Rightarrow> listener outcome" where
  "notify_observers msg [] l = Inr l"
| "notify_observers msg (p # ps) l =
    bind_outcome (deref_me p l) (\<lambda>e.
    if subscriber_interested (subject_new string_hash (subject_string msg)) (ml_subscribers l (me_subscriber e))
    then bind_outcome (message_notify p msg l) (\<lambda>(_, l). notify_observers msg ps l)
    else notify_observers msg ps l)"

definition handleMessage :: "nat \<Rightarrow> message \<Rightarrow> listener \<Rightarrow> listener outcome" where
  "handleMessage tr msg l =
    (case map_of (m_observers l) tr of
       None \<Rightarrow> Inr l
     | Some observers \<Rightarrow> notify_observers msg observers l)"

text \<open>
  Dispatch of the next entry of a queue (\<^verbatim>\<open>SharedQueue::dispatch_event\<close> on a message event): the
  subscriber's callback is called, then the event is looked at.
\<close>

definition dispatch_message :: "nat \<Rightarrow> listener \<Rightarrow> (status \<times> listener) outcome" where
  "dispatch_message qn l =
    (case rb_pop (ml_qsize l) (ml_queues l qn) of
       (None, q) \<Rightarrow> Inr (NO_EVENTS, l)
     | (Some (p, msg), q) \<Rightarrow>
         let l = l\<lparr>ml_queues := (ml_queues l)(qn := q), ml_called := ml_called l @ [(p, msg)]\<rparr>
         in bind_outcome (deref_me p l) (\<lambda>e. Inr (OK, l)))"

end
