(* ===== verification/Message_Listener_Correct.thy ===== *)
theory Message_Listener_Correct
  imports Message_Listener
begin

text \<open>
  Properties of the message listener: a message is queued for exactly the observers that are
  interested, a subscription travels from the client through the wire format to the router, and
  after a reconnection every observer is subscribed again. Two defects follow: the entries of a
  removed observer are dispatched on a destroyed event, and the handler of a transport refers to
  freed memory once another transport is registered.
\<close>

section \<open>Queueing for the observers\<close>

definition event_of :: "listener \<Rightarrow> nat \<Rightarrow> message_event" where
  "event_of l p = (case ml_heap l p of Some e \<Rightarrow> e | None \<Rightarrow> \<lparr>me_subscriber = 0, me_queue = 0, me_awaiting = 0\<rparr>)"

definition wants :: "listener \<Rightarrow> message \<Rightarrow> nat \<Rightarrow> bool" where
  "wants l msg p \<longleftrightarrow> subscriber_interested (subject_new string_hash (subject_string msg))
     (ml_subscribers l (me_subscriber (event_of l p)))"

definition addressed :: "listener \<Rightarrow> message \<Rightarrow> nat list \<Rightarrow> nat \<Rightarrow> nat list" where
  "addressed l msg ps q = filter (\<lambda>p. wants l msg p \<and> me_queue (event_of l p) = q) ps"

definition queued_messages :: "listener \<Rightarrow> nat \<Rightarrow> (nat \<times> message) list" where
  "queued_messages l q = rb_abs (ml_qsize l) (ml_queues l q)"

definition queues_ok :: "listener \<Rightarrow> bool" where
  "queues_ok l \<longleftrightarrow> (\<forall>q. rb_inv (ml_qsize l) (ml_queues l q))"

text \<open>Only counts and queues change while a message is being distributed.\<close>

definition same_events :: "listener \<Rightarrow> listener \<Rightarrow> bool" where
  "same_events l l' \<longleftrightarrow> ml_subscribers l' = ml_subscribers l \<and> ml_qsize l' = ml_qsize l
     \<and> (\<forall>p. (ml_heap l' p = None) = (ml_heap l p = None)
          \<and> me_subscriber (event_of l' p) = me_subscriber (event_of l p) \<and> me_queue (event_of l' p) = me_queue (event_of l p))"

lemma same_events_trans: "same_events l l' \<Longrightarrow> same_events l' l'' \<Longrightarrow> same_events l l''"
  by (simp add: same_events_def)

lemma same_wants: "same_events l l' \<Longrightarrow> wants l' = wants l"
  by (simp add: same_events_def wants_def fun_eq_iff)

lemma same_addressed: "same_events l l' \<Longrightarrow> addressed l' = addressed l"
  using same_wants [of l l'] by (simp add: same_events_def addressed_def fun_eq_iff)

lemma message_notify_room:
  assumes "ml_heap l p \<noteq> None" "queues_ok l"
    and "length (queued_messages l (me_queue (event_of l p))) < ml_qsize l - 1"
  obtains l' where "message_notify p msg l = Inr (True, l')" "queues_ok l'" "same_events l l'"
    "\<And>q. queued_messages l' q = queued_messages l q @ (if q = me_queue (event_of l p) then [(p, msg)] else [])"
proof -
  obtain e where e: "ml_heap l p = Some e" using assms(1) by auto
  let ?n = "ml_qsize l" and ?q = "ml_queues l (me_queue e)"
  have ev: "event_of l p = e" using e by (simp add: event_of_def)
  have "rb_inv ?n ?q" using assms(2) by (simp add: queues_ok_def)
  moreover have "length (rb_abs ?n ?q) < ?n - 1" using assms(3) ev by (simp add: queued_messages_def)
  ultimately have push: "fst (rb_push ?n (p, msg) ?q)" "rb_inv ?n (snd (rb_push ?n (p, msg) ?q))"
    "rb_abs ?n (snd (rb_push ?n (p, msg) ?q)) = rb_abs ?n ?q @ [(p, msg)]"
    using rb.push_room [of ?n ?q "(p, msg)"] by auto
  define l' where "l' = l\<lparr>ml_heap := (ml_heap l)(p := Some (e\<lparr>me_awaiting := me_awaiting e + 1\<rparr>)),
    ml_queues := (ml_queues l)(me_queue e := snd (rb_push ?n (p, msg) ?q))\<rparr>"
  have "message_notify p msg l = Inr (True, l')"
    using e push(1) by (simp add: message_notify_def deref_me_def l'_def split_beta Let_def)
  moreover have "queues_ok l'" using assms(2) push(2) by (simp add: queues_ok_def l'_def)
  moreover have "same_events l l'" using e by (simp add: same_events_def l'_def event_of_def)
  moreover have "queued_messages l' q = queued_messages l q @ (if q = me_queue (event_of l p) then [(p, msg)] else [])" for q
    using push(3) ev by (simp add: queued_messages_def l'_def)
  ultimately show thesis by (rule that)
qed

lemma notify_observers_spec:
  assumes "\<forall>p \<in> set ps. ml_heap l p \<noteq> None" "queues_ok l"
    and "\<forall>q. length (queued_messages l q) + length (addressed l msg ps q) \<le> ml_qsize l - 1"
  shows "\<exists>l'. notify_observers msg ps l = Inr l' \<and> queues_ok l' \<and> same_events l l'
    \<and> (\<forall>q. queued_messages l' q = queued_messages l q @ map (\<lambda>p. (p, msg)) (addressed l msg ps q))"
  using assms
proof (induction ps arbitrary: l)
  case Nil
  then show ?case by (simp add: addressed_def same_events_def)
next
  case (Cons p ps)
  obtain e where e: "ml_heap l p = Some e" using Cons.prems(1) by auto
  have ev: "event_of l p = e" using e by (simp add: event_of_def)
  have d: "deref_me p l = Inr e" using e by (simp add: deref_me_def)
  show ?case
  proof (cases "wants l msg p")
    case False
    have "addressed l msg (p # ps) = addressed l msg ps"
      using False by (simp add: addressed_def fun_eq_iff)
    then show ?thesis using Cons.IH [of l] Cons.prems False d ev by (simp add: wants_def)
  next
    case True
    have cons: "addressed l msg (p # ps) q = (if q = me_queue e then p # addressed l msg ps q else addressed l msg ps q)" for q
      using True ev by (auto simp: addressed_def)
    have "length (queued_messages l (me_queue e)) + Suc (length (addressed l msg ps (me_queue e))) \<le> ml_qsize l - 1"
      using Cons.prems(3) cons [of "me_queue e"] by (metis (full_types) length_Cons)
    then have "length (queued_messages l (me_queue (event_of l p))) < ml_qsize l - 1" using ev by simp
    then obtain l1 where l1: "message_notify p msg l = Inr (True, l1)" "queues_ok l1" "same_events l l1"
      "\<And>q. queued_messages l1 q = queued_messages l q @ (if q = me_queue (event_of l p) then [(p, msg)] else [])"
      using message_notify_room [of l p msg] e Cons.prems(2) by auto
    have "\<forall>q. length (queued_messages l1 q) + length (addressed l1 msg ps q) \<le> ml_qsize l1 - 1"
    proof
      fix q show "length (queued_messages l1 q) + length (addressed l1 msg ps q) \<le> ml_qsize l1 - 1"
        using Cons.prems(3) [rule_format, of q] l1(3,4) same_addressed [OF l1(3)] cons [of q] ev
        by (auto simp: same_events_def split: if_splits)
    qed
    moreover have "\<forall>p \<in> set ps. ml_heap l1 p \<noteq> None" using Cons.prems(1) l1(3) by (simp add: same_events_def)
    ultimately obtain l' where "notify_observers msg ps l1 = Inr l'" "queues_ok l'" "same_events l1 l'"
      "\<forall>q. queued_messages l' q = queued_messages l1 q @ map (\<lambda>p. (p, msg)) (addressed l1 msg ps q)"
      using Cons.IH [of l1] l1(2) by blast
    then show ?thesis
      using l1 d True ev cons same_addressed [OF l1(3)] same_events_trans [OF l1(3)]
      by (intro exI [of _ l']) (simp add: wants_def)
  qed
qed

section \<open>The subscription message\<close>

definition observer_payload :: "byte list \<Rightarrow> size_t \<Rightarrow> field list" where
  "observer_payload subject this =
    [SmallDataField \<lparr>f_identifier = str_bytes ''subject'', f_type = st_string, f_data_length = length subject + 1\<rparr> (subject @ [0]),
     ScalarField \<lparr>f_identifier = str_bytes ''id'', f_type = st_uint64, f_data_length = 8\<rparr> (le_bytes 8 (unat this))]"

lemma observer_message_eq:
  assumes "nul_free subject" "length subject < 256" "nul_free (str_bytes topic)" "length topic < 256"
  shows "\<exists>keys. observer_message topic subject this =
    Inr (Message True 255 (str_bytes topic @ [0]) (observer_payload subject this) keys)"
proof -
  have ids: "c_string (str_bytes ''subject'') = str_bytes ''subject''" "c_string (str_bytes ''id'') = str_bytes ''id''"
    "str_bytes ''id'' \<noteq> str_bytes ''subject''" "length (str_bytes ''subject'') = 7" "length (str_bytes ''id'') = 2"
    by code_simp+
  have len: "length (str_bytes topic) = length topic" by (simp add: str_bytes_def)
  show ?thesis
    using assms ids len
    by (simp add: observer_message_def setSubject_def max_subject_length_def c_string_id Message_new_def
        addDataField_string_def createDataField_string_def max_small_size_def SmallDataField_string_def Field_ctor_def
        add_field_def key_insert_def field_identifier_def addScalarField_def ScalarField_ctor_def
        observer_payload_def overwrite_def Let_def del: le_bytes.simps)
qed

definition register_message :: "byte list \<Rightarrow> size_t \<Rightarrow> message" where
  "register_message subject this = projr (observer_message ''_FP.REGISTER.OBSERVER'' subject this)"

lemma register_message:
  assumes "nul_free subject" "length subject < 256"
  obtains keys where "observer_message ''_FP.REGISTER.OBSERVER'' subject this = Inr (register_message subject this)"
    "register_message subject this =
       Message True 255 (str_bytes ''_FP.REGISTER.OBSERVER'' @ [0]) (observer_payload subject this) keys"
proof -
  have "nul_free (str_bytes ''_FP.REGISTER.OBSERVER'')" by code_simp
  from observer_message_eq [OF assms this, of this]
  show thesis using that by (auto simp: register_message_def)
qed

lemma register_subject:
  assumes "nul_free subject" "length subject < 256"
  shows "subject_string (register_message subject this) = str_bytes ''_FP.REGISTER.OBSERVER''"
proof (rule register_message [OF assms, of this])
  fix keys assume "register_message subject this =
       Message True 255 (str_bytes ''_FP.REGISTER.OBSERVER'' @ [0]) (observer_payload subject this) keys"
  moreover have "nul_free (str_bytes ''_FP.REGISTER.OBSERVER'')" by code_simp
  ultimately show ?thesis by (simp add: subject_string_def)
qed

lemma register_wire:
  assumes "nul_free subject" "length subject < 256"
  shows "wf_message (register_message subject this)"
    "length (wire_message (register_message subject this)) = length subject + 73"
proof -
  obtain keys where m: "register_message subject this =
       Message True 255 (str_bytes ''_FP.REGISTER.OBSERVER'' @ [0]) (observer_payload subject this) keys"
    by (rule register_message [OF assms, of this])
  have ids: "nul_free (str_bytes ''subject'')" "nul_free (str_bytes ''id'')" "length (str_bytes ''subject'') = 7"
    "length (str_bytes ''id'') = 2" "length (str_bytes ''_FP.REGISTER.OBSERVER'') = 21"
    by code_simp+
  have "wire_base (register_message subject this) = [2] @ le_bytes 4 2 @
      wire_leaf \<lparr>f_identifier = str_bytes ''subject'', f_type = st_string, f_data_length = length subject + 1\<rparr> (subject @ [0])
      @ wire_leaf \<lparr>f_identifier = str_bytes ''id'', f_type = st_uint64, f_data_length = 8\<rparr> (le_bytes 8 (unat this))"
    by (simp add: m observer_payload_def numeral_2_eq_2 del: le_bytes.simps)
  then have "length (wire_base (register_message subject this)) = length subject + 35"
    using ids by (simp add: MsgField_size_def del: le_bytes.simps)
  then show len: "length (wire_message (register_message subject this)) = length subject + 73"
    using register_subject [OF assms, of this] ids by (simp add: length_wire_message MsgAddressing_size_def)
  have "wf_base (register_message subject this)"
    using ids assms(2) by (simp add: m observer_payload_def wf_header_def valid_type_def max_small_size_def del: le_bytes.simps)
  then show "wf_message (register_message subject this)"
    using len assms(2) register_subject [OF assms, of this] ids by (simp add: wf_message_def)
qed

lemma register_received:
  assumes "nul_free subject" "length subject < 256"
  shows "getDataField (Some (str_bytes ''subject'')) (delivered (register_message subject this)) = Inr (Some (subject @ [0]))"
proof -
  obtain keys where m: "register_message subject this =
       Message True 255 (str_bytes ''_FP.REGISTER.OBSERVER'' @ [0]) (observer_payload subject this) keys"
    by (rule register_message [OF assms, of this])
  have ids: "c_string (str_bytes ''subject'') = str_bytes ''subject''" "str_bytes ''id'' \<noteq> str_bytes ''subject''"
    by code_simp+
  then show ?thesis
    by (simp add: m delivered_def observer_payload_def Message_new_def push_field_def key_insert_def field_identifier_def
        getDataField_def find_key_def payload_at_def DataField_get_def field_type_def del: le_bytes.simps)
qed

text \<open>What the router makes of the message: the sender gets the subscription.\<close>

lemma router_registers:
  assumes "nul_free subject" "length subject < 256" "peer_of this r = Inr p"
  shows "receive_all this [register_message subject ident] r = Inr (set_peer (add_subscription (subject @ [0]) p) r)"
proof -
  have "m_is_admin (subject_new string_hash (str_bytes ''_FP.REGISTER.OBSERVER''))" by code_simp
  then have "router_receive this (register_message subject ident) r = Inr (set_peer (add_subscription (subject @ [0]) p) r)"
    using assms(3) register_received [OF assms(1,2), of ident] register_subject [OF assms(1,2), of ident]
    by (simp add: router_receive_def handle_admin_message_def RegisterObserver_def subject_equal_def Let_def)
  then show ?thesis by simp
qed

lemma router_handler_registers:
  assumes s: "nul_free subject" "length subject < 256" and ids: "distinct (map tp_id r)" and p: "peer_of this r = Inr p"
    and cs: "\<forall>c \<in> set cs. c \<noteq> [] \<and> length c \<le> 1500" "concat cs = wire_message (register_message subject ident)"
  shows "\<exists>b. data_handler (length cs + 1) 2 this (with_io this (MessageBuffer_new a 4500) (map RecvData cs) r) =
     Inr (with_io this b [] (set_peer (add_subscription (subject @ [0]) p) r))"
proof -
  let ?m = "register_message subject ident" and ?b = "MessageBuffer_new a 4500"
  have m: "wf_message ?m" "length (wire_message ?m) = length subject + 73"
    by (rule register_wire [OF s])+
  have b: "wf_buffer ?b" "visible ?b = []" using wf_buffer_new [of 4500 a] by auto
  have "unat (next_pow2 (word_of_nat 4500)) \<le> 2 ^ 31" by (rule next_pow2_upper) simp_all
  then have cap: "m_capacity (mb_storage ?b) \<le> 2 ^ 31"
    by (simp add: MessageBuffer_new_def ByteStorage_alloc_def Let_def allocateStorage_def)
  have inc: "incomplete []"
    using m(1) wire_message_pos [of ?m] unfolding incomplete_def by (metis append_Nil length_greater_0_conv)
  define n where "n = length cs + 1"
  have "chunked cs" "io_ok ?b (length (concat cs))" "length cs < n" "known this r"
    using cs b cap m(2) s(2) ids peer_of_id [OF p] by (auto simp: chunked_def io_ok_def n_def known_def)
  then show ?thesis
    using rx.loop_chunks [of this r cs ?b "[?m]" "[]" 2 n, unfolded router_registers [OF s p]] b inc cs(2) m(1)
    unfolding n_def [symmetric] by auto
qed

lemma subscription_of_c_string: "nul_free subject \<Longrightarrow> subscription_new H (subject @ [0]) = subscription_new H subject"
  by (simp add: subscription_new_def c_string_id)

lemma send_on_accepted:
  assumes "m_connected (tt_peer (ml_transports l tr))" "sk_sends (tt_peer (ml_transports l tr)) = []" "wf_message m"
    and "send_room m (m_sendBuffer (ml_transports l tr))" "visible (m_sendBuffer (ml_transports l tr)) = []"
  obtains l' b where "send_on tr m l = Inr l'" "l' = set_transport tr (ml_transports l' tr) l"
    "sk_sent (tt_peer (ml_transports l' tr)) = sk_sent (tt_peer (ml_transports l tr)) @ wire_message m"
    "m_connected (tt_peer (ml_transports l' tr))" "sk_sends (tt_peer (ml_transports l' tr)) = []"
    "m_sendBuffer (ml_transports l' tr) = b" "wf_buffer b" "visible b = []"
    "capacity b = capacity (m_sendBuffer (ml_transports l tr))" "m_storedLength (mb_storage b) = 0"
proof -
  let ?t = "ml_transports l tr"
  obtain b where b: "sendMessage m ?t = Inr (OK, ?t\<lparr>m_sendBuffer := b,
       tt_peer := (tt_peer ?t)\<lparr>sk_sent := sk_sent (tt_peer ?t) @ visible (m_sendBuffer ?t) @ wire_message m\<rparr>\<rparr>)"
    "wf_buffer b" "visible b = []" "capacity b = capacity (m_sendBuffer ?t)" "m_storedLength (mb_storage b) = 0"
    by (rule sendMessage_accepted [OF assms(1-4)])
  show thesis
    by (rule that [of "set_transport tr (?t\<lparr>m_sendBuffer := b,
       tt_peer := (tt_peer ?t)\<lparr>sk_sent := sk_sent (tt_peer ?t) @ visible (m_sendBuffer ?t) @ wire_message m\<rparr>\<rparr>) l" b])
      (use assms b in \<open>simp_all add: send_on_def set_transport_def\<close>)
qed

section \<open>Subscribing again\<close>

text \<open>A transport that takes messages: connected, accepting and with an empty send buffer.\<close>

definition accepts :: "tcp_transport \<Rightarrow> bool" where
  "accepts t \<longleftrightarrow> m_connected (tt_peer t) \<and> sk_sends (tt_peer t) = [] \<and> wf_buffer (m_sendBuffer t)
     \<and> m_storedLength (mb_storage (m_sendBuffer t)) = 0 \<and> 329 \<le> capacity (m_sendBuffer t)"

definition subject_of :: "listener \<Rightarrow> nat \<Rightarrow> byte list" where
  "subject_of l p = sb_subject (ml_subscribers l (me_subscriber (event_of l p)))"

lemma subscribe_sends:
  assumes "accepts (ml_transports l tr)" "nul_free subject" "length subject < 256"
  obtains l' where "subscribe ident tr subject l = Inr l'" "l' = set_transport tr (ml_transports l' tr) l"
    "sk_sent (tt_peer (ml_transports l' tr)) =
       sk_sent (tt_peer (ml_transports l tr)) @ wire_message (register_message subject ident)"
    "accepts (ml_transports l' tr)"
proof -
  let ?m = "register_message subject ident" and ?t = "ml_transports l tr"
  have t: "m_connected (tt_peer ?t)" "sk_sends (tt_peer ?t) = []" "wf_buffer (m_sendBuffer ?t)"
    "m_storedLength (mb_storage (m_sendBuffer ?t)) = 0" "329 \<le> capacity (m_sendBuffer ?t)"
    using assms(1) by (simp_all add: accepts_def)
  have vis: "visible (m_sendBuffer ?t) = []" using t(4) by (simp add: visible_def content_def)
  have room: "send_room ?m (m_sendBuffer ?t)"
    using t(3-5) assms(3) register_wire(2) [OF assms(2,3), of ident] by (simp add: send_room_def)
  have obs: "observer_message ''_FP.REGISTER.OBSERVER'' subject ident = Inr ?m"
    by (rule register_message [OF assms(2,3), of ident])
  obtain l' b where l': "send_on tr ?m l = Inr l'" "l' = set_transport tr (ml_transports l' tr) l"
    "sk_sent (tt_peer (ml_transports l' tr)) = sk_sent (tt_peer ?t) @ wire_message ?m"
    "m_connected (tt_peer (ml_transports l' tr))" "sk_sends (tt_peer (ml_transports l' tr)) = []"
    and b: "m_sendBuffer (ml_transports l' tr) = b" "wf_buffer b" "visible b = []" "capacity b = capacity (m_sendBuffer ?t)"
      "m_storedLength (mb_storage b) = 0"
    by (rule send_on_accepted [OF t(1,2) register_wire(1) [OF assms(2,3)] room vis])
  have "accepts (ml_transports l' tr)" unfolding accepts_def using l'(4,5) b t(5) by simp
  then show thesis using that [OF _ l'(2,3)] obs l'(1) by (simp add: subscribe_def)
qed

lemma set_transport_simps [simp]:
  "ml_heap (set_transport tr t l) = ml_heap l" "ml_subscribers (set_transport tr t l) = ml_subscribers l"
  "ml_transports (set_transport tr t l) tr = t"
  by (simp_all add: set_transport_def)

lemma resubscribe_sends:
  assumes "accepts (ml_transports l tr)"
    and "\<forall>p \<in> set ps. ml_heap l p \<noteq> None \<and> nul_free (subject_of l p) \<and> length (subject_of l p) < 256"
  shows "\<exists>l'. resubscribe ident tr ps l = Inr l' \<and> sk_sent (tt_peer (ml_transports l' tr)) =
     sk_sent (tt_peer (ml_transports l tr)) @ wires (map (\<lambda>p. register_message (subject_of l p) ident) ps)"
  using assms
proof (induction ps arbitrary: l)
  case (Cons p ps)
  obtain e where e: "ml_heap l p = Some e" using Cons.prems(2) by auto
  have s: "subject_of l p = sb_subject (ml_subscribers l (me_subscriber e))"
    using e by (simp add: subject_of_def event_of_def)
  obtain l1 where l1: "subscribe ident tr (subject_of l p) l = Inr l1" "l1 = set_transport tr (ml_transports l1 tr) l"
    "sk_sent (tt_peer (ml_transports l1 tr)) =
       sk_sent (tt_peer (ml_transports l tr)) @ wire_message (register_message (subject_of l p) ident)"
    "accepts (ml_transports l1 tr)"
    using subscribe_sends [OF Cons.prems(1), of "subject_of l p" ident] Cons.prems(2) by auto
  have same: "ml_heap l1 = ml_heap l" "subject_of l1 = subject_of l"
    by (subst l1(2), simp) (subst l1(2), simp add: subject_of_def event_of_def fun_eq_iff)
  have "\<exists>l'. resubscribe ident tr ps l1 = Inr l' \<and> sk_sent (tt_peer (ml_transports l' tr)) =
      sk_sent (tt_peer (ml_transports l1 tr)) @ wires (map (\<lambda>p. register_message (subject_of l1 p) ident) ps)"
    using Cons.IH [OF l1(4)] Cons.prems(2) same by auto
  then show ?case using l1(1,3) e s same by (auto simp: deref_me_def)
qed simp

section \<open>Properties\<close>

text \<open>
  Distribution: a message a transport received is queued exactly once for every observer of
  that transport whose subscription matches its subject, in the order of the observers, on the
  queue of that observer, and for nobody else, provided the queues have room.
\<close>

theorem message_queued_for_interested:
  assumes "map_of (m_observers l) tr = Some ps" "\<forall>p \<in> set ps. ml_heap l p \<noteq> None" "queues_ok l"
    and "\<forall>q. length (queued_messages l q) + length (addressed l msg ps q) \<le> ml_qsize l - 1"
  shows "\<exists>l'. handleMessage tr msg l = Inr l'
    \<and> (\<forall>q. queued_messages l' q = queued_messages l q @ map (\<lambda>p. (p, msg)) (addressed l msg ps q))"
  using notify_observers_spec [OF assms(2-4)] assms(1) by (auto simp: handleMessage_def)

text \<open>
  Subscribing end to end: the bytes \<^verbatim>\<open>subscribe\<close> puts on the client's connection, cut into
  reads in any way, make the router's connection to that client interested in what the
  subscription matches, in addition to what it was interested in before, and leave the other
  connections as they are.
\<close>

theorem subscribe_reaches_router:
  assumes "nul_free subject" "subject \<noteq> []" "length subject < 256"
    and "m_connected (tt_peer (ml_transports l tr))" "sk_sends (tt_peer (ml_transports l tr)) = []"
    and "sk_sent (tt_peer (ml_transports l tr)) = []" "wf_buffer (m_sendBuffer (ml_transports l tr))"
    and "m_storedLength (mb_storage (m_sendBuffer (ml_transports l tr))) = 0" "329 \<le> capacity (m_sendBuffer (ml_transports l tr))"
    and "distinct (map tp_id r)" "peer_of this r = Inr p"
  shows "\<exists>l'. subscribe ident tr subject l = Inr l'
    \<and> (\<forall>cs. (\<forall>c \<in> set cs. c \<noteq> [] \<and> length c \<le> 1500) \<longrightarrow> concat cs = sk_sent (tt_peer (ml_transports l' tr)) \<longrightarrow>
         (\<exists>b r'. data_handler (length cs + 1) 2 this (with_io this (MessageBuffer_new a 4500) (map RecvData cs) r) = Inr (with_io this b [] r')
            \<and> (\<exists>p'. r' = set_peer p' r \<and> tp_id p' = this
                 \<and> (\<forall>s. is_interested s p' \<longleftrightarrow> is_interested s p \<or> matches (subscription_new string_hash subject) s))))"
proof -
  let ?m = "register_message subject ident" and ?p = "add_subscription (subject @ [0]) p"
  have acc: "accepts (ml_transports l tr)" using assms(4,5,7-9) by (simp add: accepts_def)
  obtain l' where l': "subscribe ident tr subject l = Inr l'" "sk_sent (tt_peer (ml_transports l' tr)) = wire_message ?m"
    by (rule subscribe_sends [OF acc assms(1,3), of ident]) (use assms(6) in simp)
  have "tp_id ?p = this" using peer_of_id [OF assms(11)] by (simp add: add_subscription_def)
  moreover have "is_interested s ?p \<longleftrightarrow> is_interested s p \<or> matches (subscription_new string_hash subject) s" for s
    using subscription_of_c_string [OF assms(1), of string_hash] by (auto simp: add_subscription_def is_interested_def)
  moreover note router_handler_registers [OF assms(1,3,10,11), of _ ident a]
  ultimately show ?thesis using l'(2) unfolding l'(1) by (intro exI [of _ l'] conjI refl allI impI) metis
qed

text \<open>
  After a reconnection the router is told everything again: the connection event makes the
  listener watch the new descriptor and send, on the new connection, the registration of every
  observer of the transport, in order.
\<close>

theorem reconnect_resubscribes:
  assumes "container_of tr l = Inr i" "map_of (m_observers l) tr = Some ps" "accepts (ml_transports l tr)"
    and "\<forall>p \<in> set ps. ml_heap l p \<noteq> None \<and> nul_free (subject_of l p) \<and> length (subject_of l p) < 256"
  shows "\<exists>l'. notification_handler ident tr em CONNECTED l = Inr l' \<and> sk_sent (tt_peer (ml_transports l' tr)) =
     sk_sent (tt_peer (ml_transports l tr)) @ wires (map (\<lambda>p. register_message (subject_of l p) ident) ps)"
proof -
  define l1 where "l1 = watch em (createReceiverEvent (ml_transports l tr))
    (l\<lparr>ml_connections := (ml_connections l)[i := (tr, createReceiverEvent (ml_transports l tr))]\<rparr>)"
  have same: "ml_heap l1 = ml_heap l" "ml_transports l1 = ml_transports l" "m_observers l1 = m_observers l"
    "subject_of l1 = subject_of l"
    by (simp_all add: l1_def watch_def subject_of_def event_of_def fun_eq_iff split: option.splits)
  obtain l' where "resubscribe ident tr ps l1 = Inr l'" "sk_sent (tt_peer (ml_transports l' tr)) =
     sk_sent (tt_peer (ml_transports l1 tr)) @ wires (map (\<lambda>p. register_message (subject_of l1 p) ident) ps)"
    using resubscribe_sends [of l1 tr ps ident] assms(3,4) same by auto
  then show ?thesis
    using assms(1,2) same by (auto simp: notification_handler_def Let_def l1_def)
qed

text \<open>
  Removing an observer while one of its messages is still queued leaves the queue with an entry
  for a destroyed event: the removal reports success, and dispatching the entry uses the event
  after it was freed.
\<close>

theorem removed_observer_dangles:
  assumes "map_of (m_observers l) (sb_transport (ml_subscribers l sb)) = Some (p # ps)"
    and "ml_heap l p = Some e" "me_subscriber e = sb" "nul_free (sb_subject (ml_subscribers l sb))"
    and "length (sb_subject (ml_subscribers l sb)) < 256"
    and "\<not> m_connected (tt_peer (ml_transports l (sb_transport (ml_subscribers l sb))))"
    and "rb_pop (ml_qsize l) (ml_queues l q) = (Some (p, msg), q')"
  shows "\<exists>l'. removeObserver ident sb l = Inr (OK, l') \<and> dispatch_message q l' = Inl UseAfterFree"
proof -
  let ?tr = "sb_transport (ml_subscribers l sb)"
  have "nul_free (str_bytes ''_FP.UNREGISTER.OBSERVER'')" by code_simp
  then obtain m where "observer_message ''_FP.UNREGISTER.OBSERVER'' (sb_subject (ml_subscribers l sb)) ident = Inr m"
    using observer_message_eq [OF assms(4,5), of "''_FP.UNREGISTER.OBSERVER''" ident] by auto
  moreover have "send_on ?tr m l = Inr l"
    using assms(6) by (simp add: send_on_def sendMessage_def set_transport_def)
  moreover have "find (observes sb l) (p # ps) = Some p" using assms(2,3) by (simp add: observes_def)
  ultimately have "removeObserver ident sb l =
      Inr (OK, l\<lparr>m_observers := alter_key ?tr (remove1 p) (m_observers l), ml_heap := (ml_heap l)(p := None)\<rparr>)"
    using assms(1) by (simp add: removeObserver_def unsubscribe_def del: find.simps)
  then show ?thesis using assms(7) by (simp add: dispatch_message_def deref_me_def)
qed

text \<open>
  The notification handler of a transport keeps a reference to an element of the vector of
  connections. Registering a second transport moves the vector, and the next connection event of
  the first transport then writes through the dangling reference.
\<close>

theorem second_transport_dangles:
  assumes "ml_connections l = []" "ml_capacity l = 0" "ml_manager l t1 = None" "ml_manager l t2 = None" "t1 \<noteq> t2"
  shows "\<exists>l1 l2. registerTransport t1 em l = (True, l1) \<and> registerTransport t2 em l1 = (True, l2)
    \<and> notification_handler this t1 em CONNECTED l2 = Inl UseAfterFree
    \<and> notification_handler this t1 em DISCONNECTED l2 = Inl UseAfterFree"
  using assms
  by (cases "createReceiverEvent (ml_transports l t1)"; cases "createReceiverEvent (ml_transports l t2)")
    (simp_all add: registerTransport_def push_connection_def watch_def set_transport_def notification_handler_def
      container_of_def Let_def)


section \<open>Witnesses\<close>

definition demo_subscriber :: subscriber where
  "demo_subscriber = Subscriber_new 0 (str_bytes ''A'')"

text \<open>Two observers of one transport, both for the subject \<^verbatim>\<open>A\<close>, on different queues.\<close>

definition demo_listener :: listener where
  "demo_listener =
    \<lparr>ml_subscribers = (\<lambda>_. demo_subscriber),
     ml_heap = [0 \<mapsto> \<lparr>me_subscriber = 0, me_queue = 0, me_awaiting = 0\<rparr>, 1 \<mapsto> \<lparr>me_subscriber = 1, me_queue = 1, me_awaiting = 0\<rparr>],
     ml_next = 2, m_observers = [(0, [0, 1])], ml_connections = [(0, Some 3)], ml_vector = 1, ml_capacity = 1,
     ml_transports = (\<lambda>_. demo_transport [] []), ml_manager = [0 \<mapsto> 0], ml_captured = [0 \<mapsto> (1, 0)],
     ml_watched = [(0, 3)], ml_qsize = 4, ml_queues = (\<lambda>_. rb_new 4), ml_called = []\<rparr>"

lemma demo_subscriber_facts:
  "sb_subject demo_subscriber = str_bytes ''A''" "sb_transport demo_subscriber = 0"
  "sb_subscription demo_subscriber = subscription_new string_hash (str_bytes ''A'')"
  by (simp_all add: demo_subscriber_def Subscriber_new_def max_subject_length_def str_bytes_def c_string_def)

lemma demo_interested: "subscriber_interested (subject_new string_hash (subject_string demo_message)) demo_subscriber"
proof -
  have "matches (subscription_new string_hash (str_bytes ''A'')) (subject_new string_hash (str_bytes ''A''))" by code_simp
  then show ?thesis by (simp add: subscriber_interested_def demo_subscriber_facts demo_subject)
qed

lemma demo_ring:
  "rb_inv 4 (rb_new 4 :: (nat \<times> message) ringbuffer)" "rb_abs 4 (rb_new 4 :: (nat \<times> message) ringbuffer) = []"
  using rb_inv_new [of 4] by auto

lemma demo_queues: "queues_ok demo_listener" "queued_messages demo_listener q = []"
  using demo_ring by (simp_all add: queues_ok_def queued_messages_def demo_listener_def)

lemma demo_accepts: "accepts (ml_transports demo_listener 0)"
proof -
  have "1024 \<le> capacity (MessageBuffer_new (\<lambda>_. 0) 1024)" by (rule demo_capacity) simp_all
  then show ?thesis
    using demo_buffer by (simp add: accepts_def demo_listener_def demo_transport_def socket_new_def)
qed

lemma demo_events:
  "wants demo_listener demo_message p" "subject_of demo_listener p = str_bytes ''A''"
  "me_queue (event_of demo_listener 0) = 0" "me_queue (event_of demo_listener 1) = 1"
  using demo_interested by (simp_all add: wants_def event_of_def demo_listener_def subject_of_def demo_subscriber_facts)

theorem message_queued_for_interested_witness:
  "\<exists>l'. handleMessage 0 demo_message demo_listener = Inr l'
     \<and> queued_messages l' 0 = [(0, demo_message)] \<and> queued_messages l' 1 = [(1, demo_message)] \<and> queued_messages l' 2 = []"
proof -
  have ad: "addressed demo_listener demo_message [0, 1] q = (if q = 0 then [0] else if q = 1 then [1] else [])" for q
    using demo_events by (auto simp: addressed_def)
  have l: "map_of (m_observers demo_listener) 0 = Some [0, 1]" "\<forall>p \<in> set [0, 1]. ml_heap demo_listener p \<noteq> None"
    "\<forall>q. length (queued_messages demo_listener q) + length (addressed demo_listener demo_message [0, 1] q) \<le> ml_qsize demo_listener - 1"
    using demo_queues(2) ad by (simp_all add: demo_listener_def)
  show ?thesis
    using message_queued_for_interested [OF l(1,2) demo_queues(1) l(3)] demo_queues(2) ad by fastforce
qed

theorem subscribe_reaches_router_witness:
  "\<exists>l' b r'. subscribe 7 0 (str_bytes ''A'') demo_listener = Inr l'
     \<and> data_handler 2 2 0 (with_io 0 (MessageBuffer_new (\<lambda>_. 0) 4500) [RecvData (sk_sent (tt_peer (ml_transports l' 0)))] demo_router)
       = Inr (with_io 0 b [] r')
     \<and> (\<exists>p'. r' = set_peer p' demo_router \<and> is_interested (subject_new string_hash (str_bytes ''A'')) p')"
proof -
  let ?t = "ml_transports demo_listener 0" and ?a = "\<lambda>_. 0 :: byte"
  have nf: "nul_free (str_bytes ''A'')" by code_simp
  have p: "peer_of 0 demo_router = Inr (tcp_peer_new ?a 0 (socket_new 3 True))"
    by (simp add: peer_of_def demo_router_def tcp_peer_new_def)
  have acc: "m_connected (tt_peer ?t)" "sk_sends (tt_peer ?t) = []" "wf_buffer (m_sendBuffer ?t)"
    "m_storedLength (mb_storage (m_sendBuffer ?t)) = 0" "329 \<le> capacity (m_sendBuffer ?t)"
    using demo_accepts by (simp_all add: accepts_def)
  have sent: "sk_sent (tt_peer ?t) = []" by (simp add: demo_listener_def demo_transport_def socket_new_def)
  have "str_bytes ''A'' \<noteq> []" "length (str_bytes ''A'') < 256" by (simp_all add: str_bytes_def)
  from subscribe_reaches_router [OF nf this acc(1,2) sent acc(3-5) demo_router_ok(1) p, of 7 ?a]
  obtain l' where l': "subscribe 7 0 (str_bytes ''A'') demo_listener = Inr l'"
    and rest: "\<And>cs. \<forall>c \<in> set cs. c \<noteq> [] \<and> length c \<le> 1500 \<Longrightarrow> concat cs = sk_sent (tt_peer (ml_transports l' 0)) \<Longrightarrow>
       \<exists>b r'. data_handler (length cs + 1) 2 0 (with_io 0 (MessageBuffer_new ?a 4500) (map RecvData cs) demo_router) = Inr (with_io 0 b [] r')
         \<and> (\<exists>p'. r' = set_peer p' demo_router \<and> tp_id p' = 0 \<and> (\<forall>s. is_interested s p' \<longleftrightarrow>
              is_interested s (tcp_peer_new ?a 0 (socket_new 3 True)) \<or> matches (subscription_new string_hash (str_bytes ''A'')) s))"
    by blast
  have "sk_sent (tt_peer (ml_transports l' 0)) = wire_message (register_message (str_bytes ''A'') 7)"
    by (rule subscribe_sends [OF demo_accepts nf, of 7]) (use l' sent in \<open>simp_all add: str_bytes_def\<close>)
  then have len: "length (sk_sent (tt_peer (ml_transports l' 0))) = 74"
    using register_wire(2) [OF nf, of 7] by (simp add: str_bytes_def)
  have "matches (subscription_new string_hash (str_bytes ''A'')) (subject_new string_hash (str_bytes ''A''))" by code_simp
  moreover have "\<forall>c \<in> set [sk_sent (tt_peer (ml_transports l' 0))]. c \<noteq> [] \<and> length c \<le> 1500" using len by auto
  ultimately show ?thesis using l' rest [of "[sk_sent (tt_peer (ml_transports l' 0))]"] by (simp add: numeral_2_eq_2 del: data_handler.simps) blast
qed

theorem reconnect_resubscribes_witness:
  "\<exists>l'. notification_handler 7 0 0 CONNECTED demo_listener = Inr l' \<and> sk_sent (tt_peer (ml_transports l' 0)) =
     wire_message (register_message (str_bytes ''A'') 7) @ wire_message (register_message (str_bytes ''A'') 7)"
proof -
  have c: "container_of 0 demo_listener = Inr 0" "map_of (m_observers demo_listener) 0 = Some [0, 1]"
    by (simp_all add: container_of_def demo_listener_def)
  have nf: "nul_free (str_bytes ''A'')" by code_simp
  have sent: "sk_sent (tt_peer (ml_transports demo_listener 0)) = []"
    by (simp add: demo_listener_def demo_transport_def socket_new_def)
  have "\<forall>p \<in> set [0, 1]. ml_heap demo_listener p \<noteq> None \<and> nul_free (subject_of demo_listener p) \<and> length (subject_of demo_listener p) < 256"
    using nf demo_events(2) by (simp add: demo_listener_def str_bytes_def)
  from reconnect_resubscribes [OF c demo_accepts this, of 7 0] show ?thesis
    using demo_events(2) sent by simp
qed

theorem removed_observer_dangles_witness:
  "\<exists>l l'. removeObserver 7 0 l = Inr (OK, l') \<and> dispatch_message 0 l' = Inl UseAfterFree"
proof -
  let ?l = "demo_listener\<lparr>ml_transports := (\<lambda>_. (demo_transport [] [])\<lparr>tt_peer := socket_new 3 False\<rparr>),
    ml_queues := (\<lambda>_. snd (rb_push 4 (0 :: nat, demo_message) (rb_new 4)))\<rparr>"
  obtain q' where "rb_pop 4 (snd (rb_push 4 (0 :: nat, demo_message) (rb_new 4))) = (Some (0, demo_message), q')"
  proof -
    have "rb_inv 4 (snd (rb_push 4 (0 :: nat, demo_message) (rb_new 4)))"
      "rb_abs 4 (snd (rb_push 4 (0 :: nat, demo_message) (rb_new 4))) = [(0 :: nat, demo_message)]"
      using rb.push_room [OF demo_ring(1), of "(0, demo_message)"] demo_ring(2) by (simp_all del: length_rb_abs)
    then show thesis using that by (auto elim: rb.pop_cases)
  qed
  moreover have "nul_free (str_bytes ''A'')" by code_simp
  ultimately have "\<exists>l'. removeObserver 7 0 ?l = Inr (OK, l') \<and> dispatch_message 0 l' = Inl UseAfterFree"
    by (intro removed_observer_dangles [of ?l 0 0 "[1]" "\<lparr>me_subscriber = 0, me_queue = 0, me_awaiting = 0\<rparr>" 0 demo_message q'])
      (simp_all add: demo_listener_def demo_subscriber_facts socket_new_def str_bytes_def)
  then show ?thesis by blast
qed

theorem second_transport_dangles_witness:
  "\<exists>l l1 l2. registerTransport 0 0 l = (True, l1) \<and> registerTransport 1 0 l1 = (True, l2)
     \<and> notification_handler 7 0 0 CONNECTED l2 = Inl UseAfterFree"
  using second_transport_dangles [of "demo_listener\<lparr>ml_connections := [], ml_capacity := 0, ml_manager := (\<lambda>_. None)\<rparr>" 0 1 0 7]
  by (simp add: demo_listener_def) blast


end
