(* ===== verification/Arena.thy ===== *)
theory Arena
  imports FP_Prelude "HOL-Library.Multiset"
begin

text \<open>
  The arena the fields of a message live in (\<^verbatim>\<open>utils/fast_linear_allocator.h\<close>) and the polymorphic
  allocation on top of it (\<^verbatim>\<open>utils/allocate_polymorphic.h\<close>). Addresses are natural numbers; a slab
  is a block of memory obtained from \<^verbatim>\<open>malloc\<close>, which is an argument of the operation that obtains it:
  the address for a number of bytes, 0 when there is none. \<open>m_allocated\<close> is a \<^verbatim>\<open>size_t\<close>. The
  blocks the clients hold are kept beside the arena as lists of address and size, so that one can
  say that they do not overlap.
\<close>

section \<open>Slabs\<close>

record slab =
  sl_content :: nat
  sl_size :: nat
  sl_allocated :: size_t
  sl_head :: nat

definition pointer_in_buffer :: "slab \<Rightarrow> nat \<Rightarrow> bool" where
  "pointer_in_buffer s p \<longleftrightarrow> sl_content s \<le> p \<and> p \<le> sl_head s"

text \<open>The size is rounded up to a multiple of 16 for \<^verbatim>\<open>malloc\<close>, in 64 bits; its result is not checked.\<close>

definition align_up :: "nat \<Rightarrow> nat" where
  "align_up n = unat ((word_of_nat n + 15 :: size_t) AND NOT 15)"

definition slab_new :: "(nat \<Rightarrow> nat) \<Rightarrow> nat \<Rightarrow> slab" where
  "slab_new malloc n = (let content = malloc (align_up n) in \<lparr>sl_content = content, sl_size = n, sl_allocated = 0, sl_head = content\<rparr>)"

definition slab_free :: "slab \<Rightarrow> nat" where
  "slab_free s = sl_size s - (sl_head s - sl_content s)"

definition slab_allocate :: "nat \<Rightarrow> slab \<Rightarrow> (nat \<times> slab) outcome" where
  "slab_allocate n s =
    bind_outcome (assert_that (slab_free s \<ge> n)) (\<lambda>_.
    Inr (sl_head s, s\<lparr>sl_head := sl_head s + n, sl_allocated := sl_allocated s + word_of_nat n\<rparr>))"

definition slab_deallocate :: "nat \<Rightarrow> nat \<Rightarrow> slab \<Rightarrow> slab outcome" where
  "slab_deallocate p n s =
    bind_outcome (assert_that (pointer_in_buffer s p)) (\<lambda>_.
    let s = s\<lparr>sl_allocated := sl_allocated s - word_of_nat n\<rparr>
    in Inr (if sl_allocated s = 0 then s\<lparr>sl_head := sl_content s\<rparr>
            else if p + n = sl_head s then s\<lparr>sl_head := p\<rparr> else s))"

section \<open>The arena\<close>

text \<open>The chain of slabs from the root on; \<open>ar_current\<close> is the position of \<^verbatim>\<open>m_current_slab\<close>.\<close>

record arena =
  ar_initial_size :: nat
  ar_slabs :: "slab list"
  ar_current :: nat

definition arena_new :: "(nat \<Rightarrow> nat) \<Rightarrow> nat \<Rightarrow> arena" where
  "arena_new malloc initial_size =
    \<lparr>ar_initial_size = initial_size, ar_slabs = [slab_new malloc initial_size], ar_current = 0\<rparr>"

fun find_slab :: "(slab \<Rightarrow> bool) \<Rightarrow> slab list \<Rightarrow> nat option" where
  "find_slab P [] = None"
| "find_slab P (s # ss) = (if P s then Some 0 else map_option Suc (find_slab P ss))"

definition find_slab_with_space :: "nat \<Rightarrow> arena \<Rightarrow> nat option" where
  "find_slab_with_space n ar = find_slab (\<lambda>s. slab_free s \<ge> n) (ar_slabs ar)"

definition find_slab_containing :: "nat \<Rightarrow> arena \<Rightarrow> nat option" where
  "find_slab_containing p ar = find_slab (\<lambda>s. pointer_in_buffer s p) (ar_slabs ar)"

definition arena_allocate :: "(nat \<Rightarrow> nat) \<Rightarrow> nat \<Rightarrow> arena \<Rightarrow> (nat \<times> arena) outcome" where
  "arena_allocate malloc n ar =
    (case find_slab_with_space n ar of
       Some i \<Rightarrow>
         bind_outcome (slab_allocate n (ar_slabs ar ! i)) (\<lambda>(p, s).
         Inr (p, ar\<lparr>ar_slabs := (ar_slabs ar)[i := s]\<rparr>))
     | None \<Rightarrow>
         bind_outcome (slab_allocate n (slab_new malloc (max n (ar_initial_size ar)))) (\<lambda>(p, s).
         Inr (p, ar\<lparr>ar_slabs := take (ar_current ar + 1) (ar_slabs ar) @ [s], ar_current := ar_current ar + 1\<rparr>)))"

definition arena_deallocate :: "nat \<Rightarrow> nat \<Rightarrow> arena \<Rightarrow> arena outcome" where
  "arena_deallocate p n ar =
    (case find_slab_containing p ar of
       None \<Rightarrow> Inl AssertFailed
     | Some i \<Rightarrow>
         bind_outcome (slab_deallocate p n (ar_slabs ar ! i)) (\<lambda>s.
         Inr (ar\<lparr>ar_slabs := (ar_slabs ar)[i := s]\<rparr>)))"

text \<open>
  \<^verbatim>\<open>~arena\<close>: the loop moves to the next slab and deletes that one, so that its next step reads a
  deleted slab, and the root slab is never deleted. The result is the list of slabs leaked.
\<close>

fun destroy_loop :: "slab list \<Rightarrow> slab list outcome" where
  "destroy_loop [] = Inr []"
| "destroy_loop [s] = Inr [s]"
| "destroy_loop (s # t # ss) = Inl UseAfterFree"

definition arena_destroy :: "arena \<Rightarrow> slab list outcome" where
  "arena_destroy ar = destroy_loop (ar_slabs ar)"

text \<open>The figures \<^verbatim>\<open>operator<<\<close> prints: allocated, capacity, allocatable, blocks.\<close>

definition totals :: "arena \<Rightarrow> size_t \<times> nat \<times> nat \<times> nat" where
  "totals ar = (sum_list (map sl_allocated (ar_slabs ar)), sum_list (map sl_size (ar_slabs ar)),
    sum_list (map slab_free (ar_slabs ar)), length (ar_slabs ar))"

section \<open>Polymorphic allocation\<close>

text \<open>
  A block carries the size of its object in a \<^verbatim>\<open>size_t\<close> in front of it; \<open>info\<close> is the memory
  these headers are in.
\<close>

definition header_size :: nat where "header_size = 8"

definition allocate_polymorphic ::
  "(nat \<Rightarrow> nat) \<Rightarrow> nat \<Rightarrow> arena \<times> (nat \<Rightarrow> nat) \<Rightarrow> (nat \<times> arena \<times> (nat \<Rightarrow> nat)) outcome" where
  "allocate_polymorphic malloc sizeof_T m =
    (case m of (ar, info) \<Rightarrow>
       bind_outcome (arena_allocate malloc (sizeof_T + header_size) ar) (\<lambda>(p, ar).
       Inr (p + header_size, ar, info(p := sizeof_T))))"

definition deallocate_polymorphic :: "nat \<Rightarrow> arena \<times> (nat \<Rightarrow> nat) \<Rightarrow> (arena \<times> (nat \<Rightarrow> nat)) outcome" where
  "deallocate_polymorphic ptr m =
    (case m of (ar, info) \<Rightarrow>
       let p = ptr - header_size; info = info(p := info p + header_size)
       in bind_outcome (arena_deallocate p (info p) ar) (\<lambda>ar. Inr (ar, info)))"

section \<open>The blocks in use\<close>

type_synonym block = "nat \<times> nat"

definition apart :: "block \<Rightarrow> block \<Rightarrow> bool" where
  "apart x y \<longleftrightarrow> fst x + snd x \<le> fst y \<or> fst y + snd y \<le> fst x"

text \<open>A slab with the blocks handed out from it; an unused slab has all of its space.\<close>

definition slab_inv :: "slab \<Rightarrow> block list \<Rightarrow> bool" where
  "slab_inv s bs \<longleftrightarrow> sl_content s \<le> sl_head s \<and> sl_head s \<le> sl_content s + sl_size s \<and> sl_size s < 2 ^ 64
     \<and> (\<forall>(p, n) \<in> set bs. 0 < n \<and> sl_content s \<le> p \<and> p + n \<le> sl_head s) \<and> sorted_wrt apart bs
     \<and> unat (sl_allocated s) = sum_list (map snd bs) \<and> sum_list (map snd bs) \<le> sl_head s - sl_content s
     \<and> (bs = [] \<longrightarrow> sl_head s = sl_content s)"

text \<open>
  Different slabs do not touch, not even by the address behind the last byte, which
  \<^verbatim>\<open>pointer_in_buffer\<close> includes (the allocator keeps its own data between blocks).
\<close>

definition separate :: "block \<Rightarrow> block \<Rightarrow> bool" where
  "separate s t \<longleftrightarrow> fst s + snd s < fst t \<or> fst t + snd t < fst s"

definition extents :: "arena \<Rightarrow> block list" where
  "extents ar = map (\<lambda>s. (sl_content s, sl_size s)) (ar_slabs ar)"

definition arena_inv :: "arena \<Rightarrow> block list list \<Rightarrow> bool" where
  "arena_inv ar bss \<longleftrightarrow> list_all2 slab_inv (ar_slabs ar) bss \<and> ar_slabs ar \<noteq> []
     \<and> ar_current ar = length (ar_slabs ar) - 1
     \<and> sorted_wrt separate (extents ar) \<and> ar_initial_size ar < 2 ^ 64"

lemma apart_sym: "apart x y \<longleftrightarrow> apart y x"
  by (auto simp: apart_def)

lemma apart_remove1: "sorted_wrt apart xs \<Longrightarrow> sorted_wrt apart (remove1 x xs)"
  by (induction xs) (auto simp: list_all_iff dest: notin_set_remove1)

lemma apart_remove1_other:
  assumes "sorted_wrt apart xs" "x \<in> set xs" "y \<in> set (remove1 x xs)"
  shows "apart x y"
  using assms
proof (induction xs)
  case (Cons z zs)
  then show ?case
    by (cases "z = x") (auto simp: list_all_iff apart_sym)
qed simp

lemma sum_remove1: "x \<in> set xs \<Longrightarrow> sum_list (map snd (remove1 x xs)) + snd x = sum_list (map snd xs)"
  for xs :: "block list"
  by (induction xs) auto

lemma slab_allocate_spec:
  assumes "slab_inv s bs" "0 < n" "n \<le> slab_free s"
  obtains s' where "slab_allocate n s = Inr (sl_head s, s')" "slab_inv s' ((sl_head s, n) # bs)"
    "sl_content s' = sl_content s" "sl_size s' = sl_size s"
proof -
  define s' where "s' = s\<lparr>sl_head := sl_head s + n, sl_allocated := sl_allocated s + word_of_nat n\<rparr>"
  have i: "sl_content s \<le> sl_head s" "sl_head s \<le> sl_content s + sl_size s" "sl_size s < 2 ^ 64"
    "unat (sl_allocated s) = sum_list (map snd bs)" "sum_list (map snd bs) \<le> sl_head s - sl_content s"
    using assms(1) by (simp_all add: slab_inv_def)
  have n: "sl_head s + n \<le> sl_content s + sl_size s"
    using assms(3) i(1,2) by (simp add: slab_free_def)
  then have "n < 2 ^ 64" "unat (sl_allocated s) + n < 2 ^ 64" using i by linarith+
  then have "unat (sl_allocated s + word_of_nat n) = unat (sl_allocated s) + n"
    by (simp add: unat_word_ariths)
  moreover have "\<forall>x \<in> set bs. apart (sl_head s, n) x"
    using assms(1) by (auto simp: slab_inv_def list_all_iff apart_def)
  ultimately have "slab_inv s' ((sl_head s, n) # bs)"
    using assms(1,2) n i by (auto simp: slab_inv_def s'_def)
  then show thesis using that [of s'] assms(3) by (simp add: slab_allocate_def s'_def)
qed

lemma slab_deallocate_spec:
  assumes inv: "slab_inv s bs" and b: "(p, n) \<in> set bs"
  obtains s' where "slab_deallocate p n s = Inr s'" "slab_inv s' (remove1 (p, n) bs)"
    "sl_content s' = sl_content s" "sl_size s' = sl_size s"
proof -
  let ?bs = "remove1 (p, n) bs"
  have i: "sl_content s \<le> sl_head s" "sl_head s \<le> sl_content s + sl_size s" "sl_size s < 2 ^ 64"
    "unat (sl_allocated s) = sum_list (map snd bs)" "sum_list (map snd bs) \<le> sl_head s - sl_content s"
    "0 < n" "sl_content s \<le> p" "p + n \<le> sl_head s" "sorted_wrt apart bs"
    using inv b by (auto simp: slab_inv_def)
  have sum: "sum_list (map snd ?bs) + n = sum_list (map snd bs)" using sum_remove1 [OF b] by simp
  have sub: "set ?bs \<subseteq> set bs" by (rule set_remove1_subset)
  have ap: "sorted_wrt apart ?bs" using apart_remove1 [OF i(9)] .
  have n64: "n < 2 ^ 64" using i(2,3,7,8) by linarith
  have al: "unat (sl_allocated s - word_of_nat n) = sum_list (map snd ?bs)"
    using sum i(4) n64 unat_sub [of "word_of_nat n" "sl_allocated s"] by (simp add: word_le_nat_alt)
  have zero: "sl_allocated s - word_of_nat n = 0 \<longleftrightarrow> ?bs = []"
  proof
    assume "sl_allocated s - word_of_nat n = 0"
    then have "sum_list (map snd ?bs) = 0" using al by simp
    moreover have "\<forall>(q, m) \<in> set ?bs. 0 < m" using inv sub by (auto simp: slab_inv_def)
    ultimately show "?bs = []" by (cases ?bs) auto
  next
    assume "?bs = []"
    then show "sl_allocated s - word_of_nat n = 0" using al by (simp add: unat_eq_zero)
  qed
  define s' where "s' = s\<lparr>sl_allocated := sl_allocated s - word_of_nat n,
    sl_head := (if ?bs = [] then sl_content s else if p + n = sl_head s then p else sl_head s)\<rparr>"
  have run: "slab_deallocate p n s = Inr s'"
    using i zero by (auto simp: slab_deallocate_def pointer_in_buffer_def s'_def Let_def)
  have "q + m \<le> sl_head s'" if "(q, m) \<in> set ?bs" for q m
  proof -
    have "apart (p, n) (q, m)" by (rule apart_remove1_other [OF i(9) b that])
    moreover have "q + m \<le> sl_head s" "0 < m" using inv sub that by (auto simp: slab_inv_def)
    ultimately show ?thesis using that by (auto simp: s'_def apart_def)
  qed
  moreover have "0 < m \<and> sl_content s \<le> q" if "(q, m) \<in> set ?bs" for q m
    using inv sub that by (auto simp: slab_inv_def)
  moreover have "sum_list (map snd ?bs) \<le> sl_head s' - sl_content s'" using sum i by (auto simp: s'_def)
  ultimately have "slab_inv s' ?bs"
    unfolding slab_inv_def using al ap i by (auto simp: s'_def)
  then show thesis using that run by (simp add: s'_def)
qed


section \<open>The chain of slabs\<close>

lemma find_slab_Some: "find_slab P ss = Some i \<Longrightarrow> i < length ss \<and> P (ss ! i)"
  by (induction ss arbitrary: i) (auto split: if_splits)

lemma find_slab_None: "find_slab P ss = None \<longleftrightarrow> (\<forall>s \<in> set ss. \<not> P s)"
  by (induction ss) auto

lemma concat_update:
  "i < length xss \<Longrightarrow> mset (concat (xss[i := ys])) + mset (xss ! i) = mset ys + mset (concat xss)"
proof (induction xss arbitrary: i)
  case (Cons xs xss)
  then show ?case by (cases i) (auto simp: ac_simps)
qed simp

lemma multiset_cancel: "A + B = C + D \<Longrightarrow> B = add_mset x C \<Longrightarrow> D = add_mset x A" for A :: "'a multiset"
  by (simp add: ac_simps)

lemma sorted_wrt_permuted:
  assumes "\<And>x y. R x y \<Longrightarrow> R y x" "sorted_wrt R xs" "mset ys = mset xs"
  shows "sorted_wrt R ys"
  using assms(2,3)
proof (induction ys arbitrary: xs)
  case (Cons y ys)
  then have "y \<in> set xs" using mset_eq_setD [OF Cons.prems(2)] by auto
  then obtain us vs where xs: "xs = us @ y # vs" by (meson split_list)
  have "sorted_wrt R (us @ vs)" "mset ys = mset (us @ vs)" using Cons.prems by (auto simp: xs sorted_wrt_append)
  moreover have "\<forall>z \<in> set (us @ vs). R y z" using Cons.prems(1) assms(1) by (auto simp: xs sorted_wrt_append)
  ultimately show ?case using Cons.IH [of "us @ vs"] mset_eq_setD [of ys "us @ vs"] by simp
qed simp

lemma blocks_inside:
  assumes "slab_inv s bs" "x \<in> set bs"
  shows "sl_content s \<le> fst x" "fst x + snd x \<le> sl_content s + sl_size s" "0 < snd x"
  using assms by (auto simp: slab_inv_def)

lemma concat_apart:
  assumes "list_all2 slab_inv ss bss" "sorted_wrt separate (map (\<lambda>s. (sl_content s, sl_size s)) ss)"
  shows "sorted_wrt apart (concat bss)"
  using assms
proof (induction rule: list_all2_induct)
  case (Cons s ss bs bss)
  have "apart x y" if x: "x \<in> set bs" and y: "y \<in> set (concat bss)" for x y
  proof -
    obtain cs where cs: "cs \<in> set bss" "y \<in> set cs" using y by auto
    obtain t where t: "t \<in> set ss" "slab_inv t cs"
      using Cons.hyps(2) cs(1) by (metis in_set_conv_nth list_all2_conv_all_nth)
    then have "separate (sl_content s, sl_size s) (sl_content t, sl_size t)" using Cons.prems by simp
    then show ?thesis
      using blocks_inside [OF Cons.hyps(1) x] blocks_inside [OF t(2) cs(2)] by (auto simp: separate_def apart_def)
  qed
  then show ?case using Cons by (auto simp: sorted_wrt_append slab_inv_def)
qed simp

lemma arena_blocks_apart: "arena_inv ar bss \<Longrightarrow> sorted_wrt apart (concat bss)"
  by (rule concat_apart) (auto simp: arena_inv_def extents_def)

text \<open>Replacing a slab by one of the same extent.\<close>

lemma arena_inv_update:
  assumes "arena_inv ar bss" "i < length (ar_slabs ar)" "slab_inv s bs"
    "sl_content s = sl_content (ar_slabs ar ! i)" "sl_size s = sl_size (ar_slabs ar ! i)"
  shows "arena_inv (ar\<lparr>ar_slabs := (ar_slabs ar)[i := s]\<rparr>) (bss[i := bs])"
proof -
  have "extents (ar\<lparr>ar_slabs := (ar_slabs ar)[i := s]\<rparr>) = extents ar"
    unfolding extents_def by (rule nth_equalityI) (use assms in \<open>auto simp: nth_list_update\<close>)
  then show ?thesis using assms by (auto simp: arena_inv_def list_all2_update_cong)
qed

text \<open>What \<^verbatim>\<open>malloc\<close> promises of the memory of a new slab: it is away from every slab.\<close>

definition obtains_memory :: "(nat \<Rightarrow> nat) \<Rightarrow> nat \<Rightarrow> bool" where
  "obtains_memory malloc n \<longleftrightarrow> malloc (align_up n) \<noteq> 0 \<and> n \<le> align_up n"

definition fresh :: "(nat \<Rightarrow> nat) \<Rightarrow> nat \<Rightarrow> arena \<Rightarrow> bool" where
  "fresh malloc n ar \<longleftrightarrow> (let size = max n (ar_initial_size ar)
     in obtains_memory malloc size \<and> (\<forall>e \<in> set (extents ar). separate e (malloc (align_up size), align_up size)))"

lemmas memory_simps = obtains_memory_def fresh_def align_up_def extents_def separate_def Let_def

lemma fresh_extents:
  assumes "fresh malloc n ar" "e \<in> set (extents ar)"
  shows "separate e (malloc (align_up (max n (ar_initial_size ar))), max n (ar_initial_size ar))"
  using assms by (force simp: fresh_def obtains_memory_def separate_def Let_def)

lemma slab_new_inv: "n < 2 ^ 64 \<Longrightarrow> slab_inv (slab_new malloc n) []"
  by (simp add: slab_inv_def slab_new_def Let_def)

lemma arena_allocate_spec:
  assumes inv: "arena_inv ar bss" and n: "0 < n" "n < 2 ^ 64" and fr: "fresh malloc n ar"
  obtains p ar' bss' where "arena_allocate malloc n ar = Inr (p, ar')" "arena_inv ar' bss'"
    "mset (concat bss') = add_mset (p, n) (mset (concat bss))"
proof (cases "find_slab_with_space n ar")
  case (Some i)
  let ?s = "ar_slabs ar ! i"
  have i: "i < length (ar_slabs ar)" "n \<le> slab_free ?s"
    using find_slab_Some Some unfolding find_slab_with_space_def by blast+
  then have "slab_inv ?s (bss ! i)" "length bss = length (ar_slabs ar)"
    using inv by (auto simp: arena_inv_def list_all2_conv_all_nth)
  then obtain s where s: "slab_allocate n ?s = Inr (sl_head ?s, s)" "slab_inv s ((sl_head ?s, n) # bss ! i)"
      "sl_content s = sl_content ?s" "sl_size s = sl_size ?s" and l: "i < length bss"
    using slab_allocate_spec n(1) i by metis
  show thesis
    by (rule that [OF _ arena_inv_update [OF inv i(1) s(2-4)]])
       (use s(1) Some concat_update [OF l, of "(sl_head ?s, n) # bss ! i"] in \<open>simp_all add: arena_allocate_def\<close>)
next
  case None
  let ?s = "slab_new malloc (max n (ar_initial_size ar))"
  have "slab_inv ?s []" using inv n by (simp add: slab_new_inv arena_inv_def)
  then obtain s where s: "slab_allocate n ?s = Inr (sl_head ?s, s)" "slab_inv s [(sl_head ?s, n)]"
      "sl_content s = malloc (align_up (max n (ar_initial_size ar)))" "sl_size s = max n (ar_initial_size ar)"
    by (rule slab_allocate_spec [where n = n]) (use n in \<open>auto simp: slab_new_def slab_free_def Let_def\<close>)
  define ar' where "ar' = ar\<lparr>ar_slabs := ar_slabs ar @ [s], ar_current := ar_current ar + 1\<rparr>"
  have cur: "take (ar_current ar + 1) (ar_slabs ar) = ar_slabs ar" using inv by (simp add: arena_inv_def)
  have "sorted_wrt separate (extents ar')"
    using inv fresh_extents [OF fr] s by (auto simp: ar'_def arena_inv_def extents_def sorted_wrt_append)
  then have "arena_inv ar' (bss @ [[(sl_head ?s, n)]])"
    using inv s(2) by (auto simp: arena_inv_def ar'_def list_all2_appendI neq_Nil_conv)
  then show thesis using that None s(1) cur by (simp add: arena_allocate_def ar'_def)
qed

lemma arena_deallocate_spec:
  assumes inv: "arena_inv ar bss" and b: "(p, n) \<in> set (concat bss)"
  obtains ar' bss' where "arena_deallocate p n ar = Inr ar'" "arena_inv ar' bss'"
    "mset (concat bss) = add_mset (p, n) (mset (concat bss'))"
proof -
  have l: "length bss = length (ar_slabs ar)" using inv by (auto simp: arena_inv_def dest: list_all2_lengthD)
  obtain k where k: "k < length bss" "(p, n) \<in> set (bss ! k)" using b
    by (metis UN_E in_set_conv_nth set_concat)
  let ?s = "ar_slabs ar ! k"
  have s: "slab_inv ?s (bss ! k)" using inv k(1) by (auto simp: arena_inv_def list_all2_conv_all_nth)
  have pk: "pointer_in_buffer ?s p" using s k(2) by (auto simp: slab_inv_def pointer_in_buffer_def)
  have uniq: "i = k" if i: "i < length bss" "pointer_in_buffer (ar_slabs ar ! i) p" for i
  proof (rule ccontr)
    assume "i \<noteq> k"
    then have "separate (extents ar ! i) (extents ar ! k) \<or> separate (extents ar ! k) (extents ar ! i)"
      using inv i(1) k(1) l sorted_wrt_nth_less [of separate "extents ar"]
      by (cases i k rule: linorder_cases) (auto simp: arena_inv_def extents_def)
    moreover have "slab_inv (ar_slabs ar ! i) (bss ! i)"
      using inv i(1) by (auto simp: arena_inv_def list_all2_conv_all_nth)
    ultimately show False
      using i k(1) l s pk by (auto simp: extents_def separate_def slab_inv_def pointer_in_buffer_def)
  qed
  have "find_slab_containing p ar = Some k"
  proof (cases "find_slab_containing p ar")
    case None
    then show ?thesis using pk k(1) l by (auto simp: find_slab_containing_def find_slab_None)
  next
    case (Some i)
    then show ?thesis using uniq find_slab_Some l by (metis find_slab_containing_def)
  qed
  moreover obtain s' where s': "slab_deallocate p n ?s = Inr s'" "slab_inv s' (remove1 (p, n) (bss ! k))"
      "sl_content s' = sl_content ?s" "sl_size s' = sl_size ?s"
    by (rule slab_deallocate_spec [OF s k(2)])
  moreover have "mset (bss ! k) = add_mset (p, n) (mset (remove1 (p, n) (bss ! k)))" using k(2) by simp
  then have "mset (concat bss) = add_mset (p, n) (mset (concat (bss[k := remove1 (p, n) (bss ! k)])))"
    using concat_update [OF k(1), of "remove1 (p, n) (bss ! k)"] multiset_cancel by metis
  ultimately show thesis
    using that arena_inv_update [OF inv k(1) [unfolded l] s'(2-4)] by (simp add: arena_deallocate_def)
qed


section \<open>Any use of an arena\<close>

text \<open>
  The arenas a client can reach: it allocates objects of at least one byte and gives back, each
  with its size, blocks it holds.
\<close>

inductive arena_reach :: "arena \<Rightarrow> block list \<Rightarrow> bool" where
  new: "initial_size < 2 ^ 64 \<Longrightarrow> obtains_memory malloc initial_size \<Longrightarrow> arena_reach (arena_new malloc initial_size) []"
| alloc: "arena_reach ar bs \<Longrightarrow> 0 < n \<Longrightarrow> n < 2 ^ 64 \<Longrightarrow> fresh malloc n ar \<Longrightarrow>
    arena_allocate malloc n ar = Inr (p, ar') \<Longrightarrow> arena_reach ar' ((p, n) # bs)"
| dealloc: "arena_reach ar bs \<Longrightarrow> (p, n) \<in> set bs \<Longrightarrow> arena_deallocate p n ar = Inr ar' \<Longrightarrow>
    arena_reach ar' (remove1 (p, n) bs)"

lemma arena_reach_inv:
  assumes "arena_reach ar bs"
  obtains bss where "arena_inv ar bss" "mset bs = mset (concat bss)"
  using assms
proof (induction arbitrary: thesis rule: arena_reach.induct)
  case (new initial_size malloc)
  have "arena_inv (arena_new malloc initial_size) [[]]"
    using new(1) by (simp add: arena_inv_def arena_new_def extents_def slab_new_inv)
  then show ?case by (rule new(3)) simp
next
  case (alloc ar bs n malloc p ar')
  obtain bss where bss: "arena_inv ar bss" "mset bs = mset (concat bss)" by (rule alloc.IH)
  obtain q ar'' bss' where "arena_allocate malloc n ar = Inr (q, ar'')" "arena_inv ar'' bss'"
      "mset (concat bss') = add_mset (q, n) (mset (concat bss))"
    by (rule arena_allocate_spec [OF bss(1) alloc.hyps(2-4)])
  then show ?case using alloc.hyps(5) alloc.prems bss(2) by simp
next
  case (dealloc ar bs p n ar')
  obtain bss where bss: "arena_inv ar bss" "mset bs = mset (concat bss)" by (rule dealloc.IH)
  then have "(p, n) \<in> set (concat bss)" using dealloc.hyps(2) mset_eq_setD by blast
  then obtain ar'' bss' where "arena_deallocate p n ar = Inr ar''" "arena_inv ar'' bss'"
      "mset (concat bss) = add_mset (p, n) (mset (concat bss'))"
    by (rule arena_deallocate_spec [OF bss(1)])
  then show ?case using dealloc.hyps(3) dealloc.prems bss(2) by simp
qed

lemma arena_allocate_apart:
  assumes "arena_reach ar bs" "0 < n" "n < 2 ^ 64" "fresh malloc n ar"
  shows "\<exists>p ar'. arena_allocate malloc n ar = Inr (p, ar') \<and> arena_reach ar' ((p, n) # bs)
    \<and> (\<forall>b \<in> set bs. apart (p, n) b)"
proof -
  obtain bss where bss: "arena_inv ar bss" "mset bs = mset (concat bss)" by (rule arena_reach_inv [OF assms(1)])
  obtain p ar' bss' where p: "arena_allocate malloc n ar = Inr (p, ar')" "arena_inv ar' bss'"
      "mset (concat bss') = add_mset (p, n) (mset (concat bss))"
    by (rule arena_allocate_spec [OF bss(1) assms(2-4)])
  have "sorted_wrt apart ((p, n) # bs)"
    by (rule sorted_wrt_permuted [OF _ arena_blocks_apart [OF p(2)]]) (use p(3) bss(2) apart_sym in auto)
  then show ?thesis using p(1) arena_reach.alloc [OF assms p(1)] by auto
qed

lemma arena_deallocate_succeeds:
  assumes "arena_reach ar bs" "(p, n) \<in> set bs"
  obtains ar' where "arena_deallocate p n ar = Inr ar'"
proof -
  obtain bss where bss: "arena_inv ar bss" "mset bs = mset (concat bss)" by (rule arena_reach_inv [OF assms(1)])
  then have "(p, n) \<in> set (concat bss)" using assms(2) mset_eq_setD by blast
  then show thesis using that arena_deallocate_spec [OF bss(1)] by blast
qed



text \<open>
  A block in use can always be given back, and when the last one is, every slab of the arena
  has all of its space again, although a block that is not the last of its slab is only counted
  when it is returned.
\<close>

theorem arena_returns_space:
  assumes "arena_reach ar bs" "(p, n) \<in> set bs"
  shows "\<exists>ar'. arena_deallocate p n ar = Inr ar'
    \<and> (bs = [(p, n)] \<longrightarrow> (\<forall>s \<in> set (ar_slabs ar'). slab_free s = sl_size s \<and> sl_allocated s = 0))"
proof -
  obtain bss where bss: "arena_inv ar bss" "mset bs = mset (concat bss)" by (rule arena_reach_inv [OF assms(1)])
  then have "(p, n) \<in> set (concat bss)" using assms(2) mset_eq_setD by blast
  then obtain ar' bss' where r: "arena_deallocate p n ar = Inr ar'" "arena_inv ar' bss'"
      "mset (concat bss) = add_mset (p, n) (mset (concat bss'))"
    by (rule arena_deallocate_spec [OF bss(1)])
  have "slab_free s = sl_size s \<and> sl_allocated s = 0" if e: "bs = [(p, n)]" and s: "s \<in> set (ar_slabs ar')" for s
  proof -
    have "concat bss' = []" using r(3) bss(2) e by simp
    then have "\<forall>cs \<in> set bss'. cs = []" by simp
    then have "slab_inv s []" using r(2) s unfolding arena_inv_def by (metis in_set_conv_nth list_all2_conv_all_nth)
    then show ?thesis by (simp add: slab_inv_def slab_free_def unat_eq_zero)
  qed
  then show ?thesis using r(1) by blast
qed

definition two_blocks :: "arena outcome" where
  "two_blocks = bind_outcome (arena_allocate (\<lambda>_. 5000) 4 (arena_new (\<lambda>_. 1000) 8)) (\<lambda>(_, ar).
     bind_outcome (arena_allocate (\<lambda>_. 5000) 2 ar) (\<lambda>(_, ar). arena_deallocate 1000 4 ar))"

theorem arena_returns_space_witness:
  "\<exists>ar ar'. two_blocks = Inr ar \<and> arena_deallocate 1004 2 ar = Inr ar' \<and> (\<forall>s \<in> set (ar_slabs ar'). slab_free s = sl_size s)"
proof -
  let ?s = "\<lambda>h a. \<lparr>ar_initial_size = 8, ar_slabs = [\<lparr>sl_content = 1000, sl_size = 8, sl_allocated = a, sl_head = h\<rparr>], ar_current = 0\<rparr>"
  note defs = memory_simps arena_new_def slab_new_def arena_allocate_def find_slab_with_space_def slab_free_def slab_allocate_def
    arena_deallocate_def find_slab_containing_def pointer_in_buffer_def slab_deallocate_def
  have 1: "arena_reach (?s 1000 0) []" using arena_reach.new [of 8 "\<lambda>_. 1000"] by (simp add: defs)
  have 2: "arena_reach (?s 1004 4) [(1000, 4)]" by (rule arena_reach.alloc [OF 1, of _ "\<lambda>_. 5000"]) (simp_all add: defs)
  have 3: "arena_reach (?s 1006 6) [(1004, 2), (1000, 4)]" by (rule arena_reach.alloc [OF 2, of _ "\<lambda>_. 5000"]) (simp_all add: defs)
  have "arena_reach (?s 1006 2) (remove1 (1000, 4) [(1004, 2), (1000, 4)])"
    by (rule arena_reach.dealloc [OF 3]) (simp_all add: defs)
  then have "arena_reach (?s 1006 2) [(1004, 2)]" by simp
  moreover have "two_blocks = Inr (?s 1006 2)" by (simp add: two_blocks_def defs)
  ultimately show ?thesis using arena_returns_space [of "?s 1006 2" "[(1004, 2)]" 1004 2] by auto
qed

text \<open>
  Destroying an arena never releases its root slab, and as soon as a second slab was chained
  on, the loop reads the link of a slab it has just deleted.
\<close>

theorem arena_destroy_leaks_or_faults:
  assumes "arena_reach ar bs"
  shows "arena_destroy ar = (case ar_slabs ar of [s] \<Rightarrow> Inr [s] | _ \<Rightarrow> Inl UseAfterFree)"
proof -
  obtain bss where "arena_inv ar bss" by (rule arena_reach_inv [OF assms])
  then have "ar_slabs ar \<noteq> []" by (simp add: arena_inv_def)
  then show ?thesis unfolding arena_destroy_def
    by (cases "ar_slabs ar" rule: destroy_loop.cases) auto
qed

theorem arena_destroy_leaks_or_faults_witness:
  "\<exists>s. arena_destroy (arena_new (\<lambda>_. 1000) 1024) = Inr [s]"
  using arena_destroy_leaks_or_faults [OF arena_reach.new [of 1024 "\<lambda>_. 1000"]] by (simp add: arena_new_def memory_simps)

section \<open>Objects of any type\<close>

text \<open>
  An object allocated with its size in front of it can be deleted through a pointer to its
  base class: the header is read back and exactly the block that was allocated is returned.
\<close>

theorem polymorphic_returns_block:
  assumes "arena_reach ar bs" "sizeof_T + header_size < 2 ^ 64" "fresh malloc (sizeof_T + header_size) ar"
  shows "\<exists>ptr ar' info' ar'' info''. allocate_polymorphic malloc sizeof_T (ar, info) = Inr (ptr, ar', info')
    \<and> arena_reach ar' ((ptr - header_size, sizeof_T + header_size) # bs)
    \<and> deallocate_polymorphic ptr (ar', info') = Inr (ar'', info'') \<and> arena_reach ar'' bs"
proof -
  let ?n = "sizeof_T + header_size"
  have pos: "0 < ?n" by (simp add: header_size_def)
  obtain bss where bss: "arena_inv ar bss" "mset bs = mset (concat bss)" by (rule arena_reach_inv [OF assms(1)])
  obtain p ar' bss' where p: "arena_allocate malloc ?n ar = Inr (p, ar')" "arena_inv ar' bss'"
      "mset (concat bss') = add_mset (p, ?n) (mset (concat bss))"
    by (rule arena_allocate_spec [OF bss(1) pos assms(2,3)])
  have r: "arena_reach ar' ((p, ?n) # bs)" by (rule arena_reach.alloc [OF assms(1) pos assms(2,3) p(1)])
  have "(p, ?n) \<in> set (concat bss')" using p(3) by (metis set_mset_mset union_single_eq_member)
  then obtain ar'' where d: "arena_deallocate p ?n ar' = Inr ar''" by (rule arena_deallocate_spec [OF p(2)])
  have "arena_reach ar'' bs" using arena_reach.dealloc [OF r _ d] by simp
  then show ?thesis using p(1) r d
    by (simp add: allocate_polymorphic_def deallocate_polymorphic_def Let_def)
qed

theorem polymorphic_returns_block_witness:
  "\<exists>ptr ar' info' ar'' info''. allocate_polymorphic (\<lambda>_. 5000) 40 (arena_new (\<lambda>_. 1000) 1024, \<lambda>_. 0) = Inr (ptr, ar', info')
    \<and> deallocate_polymorphic ptr (ar', info') = Inr (ar'', info'')"
  using polymorphic_returns_block [OF arena_reach.new [of 1024 "\<lambda>_. 1000"], of 40 "\<lambda>_. 5000" "\<lambda>_. 0"]
  by (auto simp: header_size_def memory_simps arena_new_def slab_new_def)

end
