(* ===== verification/Options.thy ===== *)
theory Options
  imports FP_Prelude
begin

text \<open>
  The command line options of the programs (\<^verbatim>\<open>utils/tfoptions.h\<close>): registration, the parser and
  the getters. An \<^verbatim>\<open>option_exception\<close> leaves the parser where it is, with the options read so
  far stored, so that \<open>parse\<close> gives the text of the exception, if there is one, beside the
  state. The map of the results is a function from keys, since only printing depends on its
  order. The getter that converts with \<^verbatim>\<open>operator>>\<close> and the two print functions are left out.
\<close>

section \<open>Registration\<close>

record option_spec =
  op_key :: string
  op_description :: string
  op_required :: bool
  op_requiresArg :: bool
  op_longName :: string
  op_shortName :: char

record option_result =
  or_option :: option_spec
  or_args :: "string list"

record options =
  m_options :: "option_spec list"
  m_args :: "string \<rightharpoonup> option_result"

definition options_new :: options where
  "options_new = \<lparr>m_options = [], m_args = Map.empty\<rparr>"

definition register_option :: "option_spec \<Rightarrow> options \<Rightarrow> options" where
  "register_option sp os = os\<lparr>m_options := m_options os @ [sp]\<rparr>"

section \<open>Parsing\<close>

definition add_arg :: "string \<Rightarrow> option_result \<Rightarrow> option_result" where
  "add_arg arg r = r\<lparr>or_args := or_args r @ [arg]\<rparr>"

text \<open>\<^verbatim>\<open>emplace\<close> keeps a result that is already there.\<close>

definition start_option :: "option_spec \<Rightarrow> options \<Rightarrow> options" where
  "start_option sp os =
    (if m_args os (op_key sp) = None
     then os\<lparr>m_args := (m_args os)(op_key sp \<mapsto> \<lparr>or_option = sp, or_args = []\<rparr>)\<rparr> else os)"

definition find_option :: "string \<Rightarrow> options \<Rightarrow> option_spec option" where
  "find_option arg os =
    (if take 2 arg = ''--'' then find (\<lambda>sp. drop 2 arg = op_longName sp) (m_options os)
     else find (\<lambda>sp. arg ! 1 = op_shortName sp) (m_options os))"

text \<open>
  The loop over the arguments; \<open>current\<close> is the key of the result \<^verbatim>\<open>current\<close> points to. The
  character at position 0 of an empty argument is NUL.
\<close>

fun parse_loop :: "string option \<Rightarrow> string list \<Rightarrow> options \<Rightarrow> string option \<times> options" where
  "parse_loop current [] os = (None, os)"
| "parse_loop current (arg # args) os =
    (if take 1 arg = ''-'' then
       if length arg \<le> 1 then (Some ([CHR 0x27, CHR ''-'', CHR 0x27] @ '' on it'' @ [CHR 0x27] @ ''s own doesn'' @ [CHR 0x27] @ ''t make sense''), os)
       else if arg = ''--'' then (None, os)
       else case find_option arg os of
              None \<Rightarrow> (Some (''Invalid option '' @ [CHR 0x27] @ arg @ [CHR 0x27]), os)
            | Some sp \<Rightarrow> parse_loop (Some (op_key sp)) args (start_option sp os)
     else case current of
            Some k \<Rightarrow> parse_loop current args (os\<lparr>m_args := (m_args os)(k := map_option (add_arg arg) (m_args os k))\<rparr>)
          | None \<Rightarrow> (Some (''First argument must start with '' @ [CHR 0x27, CHR ''-'', CHR 0x27]), os))"

definition option_names :: "option_spec \<Rightarrow> string" where
  "option_names sp = ''-'' @ [op_shortName sp] @ '', --'' @ op_longName sp"

fun validate :: "option_spec list \<Rightarrow> (string \<rightharpoonup> option_result) \<Rightarrow> string option" where
  "validate [] args = None"
| "validate (sp # sps) args =
    (if op_required sp \<and> args (op_key sp) = None then Some (option_names sp @ '' is required'')
     else if op_requiresArg sp \<and> (\<exists>r. args (op_key sp) = Some r \<and> or_args r = [])
     then Some (option_names sp @ '' requires an argument'')
     else validate sps args)"

text \<open>\<open>argv\<close> is the argument vector behind the program name.\<close>

definition parse :: "string list \<Rightarrow> options \<Rightarrow> string option \<times> options" where
  "parse argv os =
    (case parse_loop None argv os of
       (Some e, os) \<Rightarrow> (Some e, os)
     | (None, os) \<Rightarrow> (validate (m_options os) (m_args os), os))"

section \<open>Getters\<close>

text \<open>The getters with a result parameter give \<open>None\<close> where the parameter is not assigned.\<close>

definition get_flag :: "string \<Rightarrow> options \<Rightarrow> bool" where
  "get_flag key os \<longleftrightarrow> m_args os key \<noteq> None"

definition get_args :: "string \<Rightarrow> options \<Rightarrow> string list option" where
  "get_args key os = map_option or_args (m_args os key)"

definition get_arg :: "string \<Rightarrow> nat \<Rightarrow> options \<Rightarrow> string option" where
  "get_arg key index os =
    (case m_args os key of
       None \<Rightarrow> None
     | Some r \<Rightarrow> if index < length (or_args r) then Some (or_args r ! index) else None)"

definition getWithDefault :: "string \<Rightarrow> string \<Rightarrow> nat \<Rightarrow> options \<Rightarrow> string" where
  "getWithDefault key defaultValue index os =
    (case get_arg key index os of Some v \<Rightarrow> v | None \<Rightarrow> defaultValue)"

section \<open>Command lines\<close>

text \<open>
  What a user means: a sequence of options, each named by its long or its short name, with
  arguments; and the words typed for it.
\<close>

datatype naming = Long | Short

type_synonym use = "option_spec \<times> naming \<times> string list"

fun words_of :: "use \<Rightarrow> string list" where
  "words_of (sp, Long, args) = (''--'' @ op_longName sp) # args"
| "words_of (sp, Short, args) = [CHR ''-'', op_shortName sp] # args"

definition args_of :: "string \<Rightarrow> use list \<Rightarrow> string list" where
  "args_of k us = concat (map (\<lambda>(sp, _, args). if op_key sp = k then args else []) us)"

definition used :: "string \<Rightarrow> use list \<Rightarrow> bool" where
  "used k us \<longleftrightarrow> (\<exists>(sp, _, _) \<in> set us. op_key sp = k)"

text \<open>The options can be told apart, and no argument looks like an option.\<close>

definition distinct_options :: "option_spec list \<Rightarrow> bool" where
  "distinct_options sps \<longleftrightarrow> distinct (map op_key sps) \<and> distinct (map op_longName sps) \<and> distinct (map op_shortName sps)
     \<and> list_all (\<lambda>sp. op_longName sp \<noteq> [] \<and> op_shortName sp \<noteq> CHR ''-'') sps"

definition use_ok :: "option_spec list \<Rightarrow> use \<Rightarrow> bool" where
  "use_ok sps = (\<lambda>(sp, _, args). sp \<in> set sps \<and> list_all (\<lambda>arg. take 1 arg \<noteq> ''-'') args)"

lemma find_distinct:
  assumes "distinct (map f xs)" "x \<in> set xs"
  shows "find (\<lambda>y. f x = f y) xs = Some x"
  using assms
proof (induction xs)
  case (Cons y ys)
  then show ?case by (cases "x = y") (auto, metis image_eqI)
qed simp

lemma parse_plain_args:
  assumes "list_all (\<lambda>arg. take 1 arg \<noteq> ''-'') args" "m_args os k = Some r"
  shows "parse_loop (Some k) (args @ rest) os =
    parse_loop (Some k) rest (os\<lparr>m_args := (m_args os)(k \<mapsto> r\<lparr>or_args := or_args r @ args\<rparr>)\<rparr>)"
  using assms
proof (induction args arbitrary: os r)
  case Nil
  then have "(m_args os)(k \<mapsto> r) = m_args os" by (simp add: fun_upd_idem)
  then show ?case by simp
next
  case (Cons arg args)
  let ?r = "r\<lparr>or_args := or_args r @ [arg]\<rparr>"
  let ?os = "os\<lparr>m_args := (m_args os)(k \<mapsto> ?r)\<rparr>"
  have "parse_loop (Some k) ((arg # args) @ rest) os = parse_loop (Some k) (args @ rest) ?os"
    using Cons.prems by (simp add: add_arg_def)
  also have "\<dots> = parse_loop (Some k) rest (?os\<lparr>m_args := (m_args ?os)(k \<mapsto> ?r\<lparr>or_args := or_args ?r @ args\<rparr>)\<rparr>)"
    by (rule Cons.IH) (use Cons.prems in auto)
  also have "?os\<lparr>m_args := (m_args ?os)(k \<mapsto> ?r\<lparr>or_args := or_args ?r @ args\<rparr>)\<rparr> =
      os\<lparr>m_args := (m_args os)(k \<mapsto> r\<lparr>or_args := or_args r @ arg # args\<rparr>)\<rparr>" by simp
  finally show ?case .
qed

text \<open>One use of an option: its words lead to the state with its arguments added.\<close>

definition apply_use :: "use \<Rightarrow> options \<Rightarrow> options" where
  "apply_use = (\<lambda>(sp, _, args) os.
     let os = start_option sp os
     in os\<lparr>m_args := (m_args os)(op_key sp := map_option (\<lambda>r. r\<lparr>or_args := or_args r @ args\<rparr>) (m_args os (op_key sp)))\<rparr>)"

lemma m_options_apply_use [simp]: "m_options (apply_use u os) = m_options os"
  by (auto simp: apply_use_def start_option_def Let_def split: prod.split)

lemma find_option_use:
  assumes "distinct_options (m_options os)" "sp \<in> set (m_options os)"
  shows "find_option (''--'' @ op_longName sp) os = Some sp" "find_option [CHR ''-'', op_shortName sp] os = Some sp"
    "op_longName sp \<noteq> []" "op_shortName sp \<noteq> CHR ''-''"
  using assms find_distinct [of op_longName "m_options os" sp] find_distinct [of op_shortName "m_options os" sp]
  by (auto simp: find_option_def distinct_options_def list_all_iff numeral_2_eq_2)

lemma parse_use:
  assumes "distinct_options (m_options os)" "use_ok (m_options os) u"
  shows "\<exists>k. parse_loop current (words_of u @ rest) os = parse_loop (Some k) rest (apply_use u os)"
proof -
  obtain sp n args where u: "u = (sp, n, args)" by (cases u)
  have sp: "sp \<in> set (m_options os)" and args: "list_all (\<lambda>arg. take 1 arg \<noteq> ''-'') args"
    using assms(2) by (auto simp: use_ok_def u)
  obtain r where r: "m_args (start_option sp os) (op_key sp) = Some r"
    by (cases "m_args os (op_key sp)") (auto simp: start_option_def)
  have "parse_loop current (words_of u @ rest) os =
      parse_loop (Some (op_key sp)) (args @ rest) (start_option sp os)"
    using find_option_use [OF assms(1) sp] by (cases n) (auto simp: u)
  then show ?thesis
    using parse_plain_args [OF args r, of rest] r by (auto simp: apply_use_def u Let_def)
qed

lemma parse_uses:
  assumes "distinct_options (m_options os)" "list_all (use_ok (m_options os)) us"
  shows "parse_loop current (concat (map words_of us)) os = (None, fold apply_use us os)"
  using assms
proof (induction us arbitrary: os current)
  case (Cons u us)
  then obtain k where "parse_loop current (words_of u @ concat (map words_of us)) os =
      parse_loop (Some k) (concat (map words_of us)) (apply_use u os)"
    using parse_use [of os u current "concat (map words_of us)"] by auto
  then show ?case using Cons by simp
qed simp

lemma get_args_apply_use:
  "get_args k (apply_use (sp, n, args) os) =
    (if op_key sp = k then Some (case get_args k os of None \<Rightarrow> args | Some as \<Rightarrow> as @ args) else get_args k os)"
  by (auto simp: get_args_def apply_use_def start_option_def Let_def split: option.split)

lemma used_simps [simp]:
  "used k [] \<longleftrightarrow> False" "used k ((sp, n, args) # us) \<longleftrightarrow> op_key sp = k \<or> used k us"
  "args_of k [] = []" "args_of k ((sp, n, args) # us) = (if op_key sp = k then args else []) @ args_of k us"
  by (auto simp: used_def args_of_def)

lemma args_of_unused: "\<not> used k us \<Longrightarrow> args_of k us = []"
  by (induction us) auto

lemma get_args_uses:
  "get_args k (fold apply_use us os) =
    (if used k us then Some (case get_args k os of None \<Rightarrow> args_of k us | Some as \<Rightarrow> as @ args_of k us) else get_args k os)"
proof (induction us arbitrary: os)
  case (Cons u us)
  obtain sp n args where u: "u = (sp, n, args)" by (cases u)
  show ?case
    by (cases "get_args k os") (auto simp: u Cons.IH get_args_apply_use args_of_unused)
qed simp

lemma validate_None:
  "validate sps args = None \<longleftrightarrow>
    (\<forall>sp \<in> set sps. (op_required sp \<longrightarrow> args (op_key sp) \<noteq> None) \<and>
       (op_requiresArg sp \<longrightarrow> (\<forall>r. args (op_key sp) = Some r \<longrightarrow> or_args r \<noteq> [])))"
  by (induction sps) auto

lemma m_options_fold [simp]: "m_options (fold apply_use us os) = m_options os"
  by (induction us arbitrary: os) auto

lemma parse_words:
  assumes "distinct_options sps" "list_all (use_ok sps) us"
    "\<forall>sp \<in> set sps. op_required sp \<longrightarrow> used (op_key sp) us"
    "\<forall>sp \<in> set sps. op_requiresArg sp \<longrightarrow> used (op_key sp) us \<longrightarrow> args_of (op_key sp) us \<noteq> []"
  shows "\<exists>os. parse (concat (map words_of us)) (fold register_option sps options_new) = (None, os)
    \<and> (\<forall>k. get_args k os = (if used k us then Some (args_of k us) else None))"
proof -
  let ?os0 = "fold register_option sps options_new"
  have "m_options (fold register_option sps o0) = m_options o0 @ sps" for o0 :: options
    by (induction sps arbitrary: o0) (auto simp: register_option_def)
  then have sps: "m_options ?os0 = sps" by (simp add: options_new_def)
  have "m_args (fold register_option sps o0) = m_args o0" for o0 :: options
    by (induction sps arbitrary: o0) (auto simp: register_option_def)
  then have "get_args k ?os0 = None" for k by (simp add: get_args_def options_new_def)
  then have g: "get_args k (fold apply_use us ?os0) = (if used k us then Some (args_of k us) else None)" for k
    by (simp add: get_args_uses)
  have "parse_loop None (concat (map words_of us)) ?os0 = (None, fold apply_use us ?os0)"
    by (rule parse_uses) (use assms sps in auto)
  moreover have "validate sps (m_args (fold apply_use us ?os0)) = None"
  proof (unfold validate_None, intro ballI conjI impI allI)
    fix sp assume sp: "sp \<in> set sps"
    show "m_args (fold apply_use us ?os0) (op_key sp) \<noteq> None" if "op_required sp"
      using g [of "op_key sp"] assms(3) sp that by (auto simp: get_args_def)
    show "or_args r \<noteq> []" if "op_requiresArg sp" "m_args (fold apply_use us ?os0) (op_key sp) = Some r" for r
      using g [of "op_key sp"] assms(4) sp that by (auto simp: get_args_def split: if_splits)
  qed
  ultimately show ?thesis using g sps by (simp add: parse_def)
qed

text \<open>
  C34 Parsing a command line gives back what the user meant: for options that can be told
  apart, the words of a sequence of uses, by long or short name, are accepted when every
  required option is used and every option that needs an argument and is used has one, and
  then the getters give for every key the arguments of all its uses in order. No argument starts
  with a dash, which would make it an option.
\<close>

theorem options_roundtrip:
  assumes "distinct_options sps" "list_all (use_ok sps) us"
    "\<forall>sp \<in> set sps. op_required sp \<longrightarrow> used (op_key sp) us"
    "\<forall>sp \<in> set sps. op_requiresArg sp \<longrightarrow> used (op_key sp) us \<longrightarrow> args_of (op_key sp) us \<noteq> []"
  shows "\<exists>os. parse (concat (map words_of us)) (fold register_option sps options_new) = (None, os)
    \<and> (\<forall>k. get_args k os = (if used k us then Some (args_of k us) else None))"
  by (rule parse_words [OF assms])

definition listen_option :: option_spec where
  "listen_option = \<lparr>op_key = ''interface'', op_description = '''', op_required = True, op_requiresArg = True,
     op_longName = ''interface'', op_shortName = CHR ''i''\<rparr>"

theorem options_roundtrip_witness:
  "\<exists>os. parse [''-i'', ''a'', ''--interface'', ''b''] (register_option listen_option options_new) = (None, os)
    \<and> get_args ''interface'' os = Some [''a'', ''b'']"
  using options_roundtrip [of "[listen_option]" "[(listen_option, Short, [''a'']), (listen_option, Long, [''b''])]"]
  by (auto simp: listen_option_def distinct_options_def use_ok_def)

text \<open>
  After a successful parse of any command line every required option is present, and every
  option that needs an argument and is present has a first argument to get.
\<close>

theorem parsed_options_valid:
  assumes "parse argv os = (None, os')" "sp \<in> set (m_options os')"
  shows "(op_required sp \<longrightarrow> get_flag (op_key sp) os')
    \<and> (op_requiresArg sp \<longrightarrow> get_flag (op_key sp) os' \<longrightarrow> (\<exists>v. get_arg (op_key sp) 0 os' = Some v))"
proof -
  have "validate (m_options os') (m_args os') = None"
    using assms(1) by (auto simp: parse_def split: prod.splits option.splits)
  then show ?thesis using assms(2) unfolding validate_None
    by (fastforce simp: get_flag_def get_arg_def split: option.split)
qed

theorem parsed_options_valid_witness:
  "\<exists>os. parse [''-i'', ''a''] (register_option listen_option options_new) = (None, os) \<and> get_flag ''interface'' os"
proof -
  obtain os where os: "parse [''-i'', ''a''] (register_option listen_option options_new) = (None, os)"
      "m_options os = [listen_option]"
    by (simp add: parse_def register_option_def options_new_def listen_option_def find_option_def start_option_def add_arg_def)
  then show ?thesis using parsed_options_valid [OF os(1), of listen_option] by (auto simp: listen_option_def)
qed

text \<open>
  Everything glued to a short option is dropped without a message: \<^verbatim>\<open>-p8080\<close> is read as
  \<^verbatim>\<open>-p\<close>.
\<close>

theorem short_option_drops_rest:
  assumes "c \<noteq> CHR ''-''"
  shows "parse ((CHR ''-'' # c # rest) # args) os = parse ([CHR ''-'', c] # args) os
    \<or> fst (parse ((CHR ''-'' # c # rest) # args) os) = Some (''Invalid option '' @ [CHR 0x27, CHR ''-'', c] @ rest @ [CHR 0x27])"
  using assms by (auto simp: parse_def find_option_def numeral_2_eq_2 split: option.split)

theorem short_option_drops_rest_witness:
  "parse [''-i8080'', ''a''] (register_option listen_option options_new) = parse [''-i'', ''a''] (register_option listen_option options_new)"
  using short_option_drops_rest [of "CHR ''i''" "''8080''" "[''a'']" "register_option listen_option options_new"]
  by (auto simp: parse_def register_option_def options_new_def listen_option_def find_option_def start_option_def add_arg_def)

end
