(* ===== verification/Semaphore.thy ===== *)
theory Semaphore
  imports Ring_Buffer
begin

text \<open>
  The lightweight semaphore (\<^verbatim>\<open>utils/semaphore_light.h\<close>, class \<^verbatim>\<open>LightweightSemaphore\<close>) and the
  blocking ring buffer on top of it (\<^verbatim>\<open>utils/blocking_ringbuffer.h\<close>). The kernel semaphore
  \<^verbatim>\<open>m_sema\<close> is the number of its tokens: \<^verbatim>\<open>signal\<close> adds, \<^verbatim>\<open>wait\<close> needs one. Threads advance one
  atomic operation at a time, with sequentially consistent memory; each thread is at a point of
  the call it makes, with the values it has loaded. \<open>acquired\<close> and \<open>signalled\<close> count the permits
  given out and put in, and no operation reads them. \<open>m_count\<close> is the value of a signed integer of
  64 bits that wraps around, as the atomic operations of C++ do; the number of tokens to post is
  cast to 32 bits.
\<close>

section \<open>Points of a call\<close>

datatype point =
    Outside
  | Try bool nat               \<comment> \<open>load of \<open>tryWait\<close>, \<open>tryWaitMany max\<close>; whether the caller blocks afterwards\<close>
  | TryCas bool nat int        \<comment> \<open>its \<open>compare_exchange_weak\<close> with the value loaded\<close>
  | Spin nat nat               \<comment> \<open>the spinning loop, with the rounds left\<close>
  | SpinCas nat nat int        \<comment> \<open>its \<open>compare_exchange_strong\<close>\<close>
  | Sleep nat                  \<comment> \<open>in \<open>m_sema.wait\<close>\<close>
  | Post nat                   \<comment> \<open>in \<open>m_sema.signal\<close>, with the tokens left to post\<close>

record sema =
  m_count :: int
  tokens :: nat
  points :: "point list"
  acquired :: nat
  signalled :: nat

definition sema_new :: "nat \<Rightarrow> nat \<Rightarrow> sema" where
  "sema_new initialCount threads =
    \<lparr>m_count = int initialCount, tokens = 0, points = replicate threads Outside, acquired = 0, signalled = initialCount\<rparr>"

definition goto :: "nat \<Rightarrow> point \<Rightarrow> sema \<Rightarrow> sema" where
  "goto i p s = s\<lparr>points := (points s)[i := p]\<rparr>"

section \<open>The operations\<close>

definition wrap_ssize :: "int \<Rightarrow> int" where
  "wrap_ssize c = (c + 2 ^ 63) mod 2 ^ 64 - 2 ^ 63"

definition cast_int :: "int \<Rightarrow> int" where
  "cast_int c = (c + 2 ^ 31) mod 2 ^ 32 - 2 ^ 31"

definition spin_count :: nat where "spin_count = 10000"

text \<open>\<^verbatim>\<open>newCount\<close> of \<^verbatim>\<open>tryWaitMany\<close>; for \<open>max = 1\<close> it is the decrement of \<^verbatim>\<open>tryWait\<close>.\<close>

definition new_count :: "nat \<Rightarrow> int \<Rightarrow> int" where
  "new_count mx old = (if old > int mx then old - int mx else 0)"

definition take_permits :: "nat \<Rightarrow> int \<Rightarrow> sema \<Rightarrow> sema" where
  "take_permits mx old s =
    s\<lparr>m_count := new_count mx old, acquired := acquired s + nat (old - new_count mx old)\<rparr>"

text \<open>Where a call goes when the count is not positive, and what \<^verbatim>\<open>tryWait\<close> does with a count.\<close>

definition give_up :: "bool \<Rightarrow> nat \<Rightarrow> point" where
  "give_up block mx = (if block \<and> mx > 0 then Spin mx spin_count else Outside)"

definition try_with :: "bool \<Rightarrow> nat \<Rightarrow> int \<Rightarrow> point" where
  "try_with block mx old = (if old > 0 then TryCas block mx old else give_up block mx)"

text \<open>After one permit: \<^verbatim>\<open>waitMany\<close> tries for the rest without blocking.\<close>

definition rest_of :: "nat \<Rightarrow> point" where
  "rest_of mx = (if mx > 1 then Try False (mx - 1) else Outside)"

text \<open>\<^verbatim>\<open>tryWait\<close>, \<^verbatim>\<open>wait\<close>, \<^verbatim>\<open>tryWaitMany\<close>, \<^verbatim>\<open>waitMany\<close>: the call is entered.\<close>

definition start_wait :: "nat \<Rightarrow> bool \<Rightarrow> nat \<Rightarrow> sema \<Rightarrow> sema" where
  "start_wait i block mx s = goto i (Try block mx) s"

definition signal :: "nat \<Rightarrow> nat \<Rightarrow> sema \<Rightarrow> sema" where
  "signal i count s =
    (let oldCount = m_count s; released = wrap_ssize (- oldCount);
         toRelease = (if released < int count then released else int count)
     in goto i (if toRelease > 0 then Post (nat (cast_int toRelease)) else Outside)
          (s\<lparr>m_count := wrap_ssize (oldCount + int count), signalled := signalled s + count\<rparr>))"

text \<open>
  One atomic operation of thread \<open>i\<close>; \<open>None\<close> when it is outside a call or blocked. \<open>spurious\<close> is
  a failure of \<^verbatim>\<open>compare_exchange_weak\<close> without a reason, after which the call goes on with the
  value that is there.
\<close>

definition sema_next :: "bool \<Rightarrow> nat \<Rightarrow> sema \<Rightarrow> sema option" where
  "sema_next spurious i s =
    (case points s ! i of
       Outside \<Rightarrow> None
     | Try block mx \<Rightarrow> Some (goto i (try_with block mx (m_count s)) s)
     | TryCas block mx old \<Rightarrow>
         if m_count s = old \<and> \<not> spurious then Some (goto i Outside (take_permits mx old s))
         else Some (goto i (try_with block mx (m_count s)) s)
     | Spin mx (Suc n) \<Rightarrow> Some (goto i (if m_count s > 0 then SpinCas mx n (m_count s) else Spin mx n) s)
     | SpinCas mx n old \<Rightarrow>
         if m_count s = old then Some (goto i Outside (take_permits mx old s)) else Some (goto i (Spin mx n) s)
     | Spin mx 0 \<Rightarrow>
         let oldCount = m_count s; s = s\<lparr>m_count := wrap_ssize (oldCount - 1)\<rparr>
         in Some (if oldCount \<le> 0 then goto i (Sleep mx) s else goto i (rest_of mx) (s\<lparr>acquired := acquired s + 1\<rparr>))
     | Sleep mx \<Rightarrow>
         if tokens s = 0 then None
         else Some (goto i (rest_of mx) (s\<lparr>tokens := tokens s - 1, acquired := acquired s + 1\<rparr>))
     | Post 0 \<Rightarrow> Some (goto i Outside s)
     | Post (Suc n) \<Rightarrow> Some (goto i (Post n) (s\<lparr>tokens := tokens s + 1\<rparr>)))"

definition availableApprox :: "sema \<Rightarrow> int" where
  "availableApprox s = (if m_count s > 0 then m_count s else 0)"

text \<open>All interleavings of the calls of \<open>n\<close> threads.\<close>

inductive sema_reach :: "nat \<Rightarrow> nat \<Rightarrow> sema \<Rightarrow> bool" for initialCount n where
  new: "sema_reach initialCount n (sema_new initialCount n)"
| wait: "sema_reach initialCount n s \<Longrightarrow> i < n \<Longrightarrow> points s ! i = Outside \<Longrightarrow>
    sema_reach initialCount n (start_wait i block mx s)"
| signal: "sema_reach initialCount n s \<Longrightarrow> i < n \<Longrightarrow> points s ! i = Outside \<Longrightarrow>
    sema_reach initialCount n (signal i count s)"
| step: "sema_reach initialCount n s \<Longrightarrow> i < n \<Longrightarrow> sema_next spurious i s = Some t \<Longrightarrow>
    sema_reach initialCount n t"

section \<open>Where the permits are\<close>

fun sleeping :: "point \<Rightarrow> nat" where
  "sleeping (Sleep mx) = 1" | "sleeping _ = 0"

fun posting :: "point \<Rightarrow> nat" where
  "posting (Post r) = r" | "posting _ = 0"

fun loaded_ok :: "point \<Rightarrow> bool" where
  "loaded_ok (TryCas block mx old) \<longleftrightarrow> old > 0" | "loaded_ok (SpinCas mx n old) \<longleftrightarrow> old > 0" | "loaded_ok _ \<longleftrightarrow> True"

definition sleepers :: "sema \<Rightarrow> nat" where "sleepers s = sum_list (map sleeping (points s))"
definition posts :: "sema \<Rightarrow> nat" where "posts s = sum_list (map posting (points s))"

text \<open>
  The sleepers are those a token or a post is meant for and those the negative count stands
  for; the permits put in are those acquired, the positive count, the tokens and the posts.
\<close>

definition sema_inv :: "nat \<Rightarrow> sema \<Rightarrow> bool" where
  "sema_inv n s \<longleftrightarrow> length (points s) = n \<and> list_all loaded_ok (points s)
     \<and> int (sleepers s) = int (tokens s) + int (posts s) + max 0 (- m_count s)
     \<and> int (signalled s) = int (acquired s) + max 0 (m_count s) + int (tokens s) + int (posts s)"

lemma sum_update:
  "i < length xs \<Longrightarrow> sum_list (map w (xs[i := x])) + w (xs ! i) = w x + sum_list (map w xs)" for w :: "'a \<Rightarrow> nat"
proof (induction xs arbitrary: i)
  case (Cons y ys)
  then show ?case by (cases i) auto
qed simp

lemma goto_sums:
  assumes "i < length (points s)"
  shows "sleepers (goto i p s) + sleeping (points s ! i) = sleeping p + sleepers s"
    "posts (goto i p s) + posting (points s ! i) = posting p + posts s"
  using assms sum_update by (auto simp: goto_def sleepers_def posts_def)

lemma goto_loaded: "list_all loaded_ok (points s) \<Longrightarrow> loaded_ok p \<Longrightarrow> list_all loaded_ok (points (goto i p s))"
  by (auto simp: goto_def list_all_iff dest: set_update_subset_insert [THEN subsetD])

lemma goto_frame [simp]:
  "m_count (goto i p s) = m_count s" "tokens (goto i p s) = tokens s" "acquired (goto i p s) = acquired s"
  "signalled (goto i p s) = signalled s" "length (points (goto i p s)) = length (points s)"
  by (simp_all add: goto_def)

lemma sums_frame [simp]:
  "sleepers (s\<lparr>m_count := c\<rparr>) = sleepers s" "posts (s\<lparr>m_count := c\<rparr>) = posts s"
  "sleepers (s\<lparr>tokens := k\<rparr>) = sleepers s" "posts (s\<lparr>tokens := k\<rparr>) = posts s"
  "sleepers (s\<lparr>acquired := a\<rparr>) = sleepers s" "posts (s\<lparr>acquired := a\<rparr>) = posts s"
  "sleepers (s\<lparr>signalled := a\<rparr>) = sleepers s" "posts (s\<lparr>signalled := a\<rparr>) = posts s"
  by (simp_all add: sleepers_def posts_def)

text \<open>A step that moves thread \<open>i\<close> to \<open>p\<close> and changes the numbers of \<open>s\<close> into those of \<open>t\<close>.\<close>

lemma sema_inv_goto:
  assumes "sema_inv n s" "i < n" "points t = points s" "loaded_ok p"
    "int (sleeping p) - int (sleeping (points s ! i)) =
      (int (tokens t) - int (tokens s)) + (int (posting p) - int (posting (points s ! i))) + max 0 (- m_count t) - max 0 (- m_count s)"
    "int (signalled t) - int (signalled s) = (int (acquired t) - int (acquired s)) + max 0 (m_count t) - max 0 (m_count s)
      + (int (tokens t) - int (tokens s)) + (int (posting p) - int (posting (points s ! i)))"
  shows "sema_inv n (goto i p t)"
proof -
  have s: "length (points s) = n" "list_all loaded_ok (points s)"
    "int (sleepers s) = int (tokens s) + int (posts s) + max 0 (- m_count s)"
    "int (signalled s) = int (acquired s) + max 0 (m_count s) + int (tokens s) + int (posts s)"
    using assms(1) by (auto simp: sema_inv_def)
  have t: "sleepers t = sleepers s" "posts t = posts s" using assms(3) by (simp_all add: sleepers_def posts_def)
  have "sleepers (goto i p t) + sleeping (points s ! i) = sleeping p + sleepers s"
    "posts (goto i p t) + posting (points s ! i) = posting p + posts s"
    using goto_sums [of i t p] assms(2,3) s(1) t by simp_all
  then show ?thesis
    unfolding sema_inv_def using s assms(3-6) goto_loaded [of t p i] by (auto simp del: max_def)
qed

lemma sema_inv_new: "sema_inv n (sema_new c n)"
  by (simp add: sema_inv_def sema_new_def sleepers_def posts_def list_all_iff)

lemma sema_inv_start: "sema_inv n s \<Longrightarrow> i < n \<Longrightarrow> points s ! i = Outside \<Longrightarrow> sema_inv n (start_wait i block mx s)"
  unfolding start_wait_def by (rule sema_inv_goto [of n s]) auto

text \<open>
  Where the count stays as long as fewer than \<open>2 ^ 63\<close> permits were put in, with fewer than \<open>2 ^ 31\<close>
  threads: no operation wraps around, and the cast keeps its value.
\<close>

definition in_range :: "nat \<Rightarrow> sema \<Rightarrow> bool" where
  "in_range n s \<longleftrightarrow> n < 2 ^ 31 \<and> signalled s < 2 ^ 63"

lemma wrap_ssize_id: "- (2 ^ 63) \<le> c \<Longrightarrow> c < 2 ^ 63 \<Longrightarrow> wrap_ssize c = c"
  by (simp add: wrap_ssize_def)

lemma cast_int_id: "- (2 ^ 31) \<le> c \<Longrightarrow> c < 2 ^ 31 \<Longrightarrow> cast_int c = c"
  by (simp add: cast_int_def)

lemma sleepers_le: "sleepers s \<le> length (points s)"
proof -
  have one: "sleeping p \<le> 1" for p by (cases p) simp_all
  have "sum_list (map sleeping ps) \<le> length ps" for ps
  proof (induction ps)
    case (Cons p ps)
    then show ?case using one [of p] by simp
  qed simp
  then show ?thesis by (simp add: sleepers_def)
qed

lemma m_count_bounds:
  assumes "sema_inv n s"
  shows "- int n \<le> m_count s \<and> m_count s \<le> int (signalled s)"
  using assms sleepers_le [of s] by (auto simp: sema_inv_def)

lemma sema_inv_signal:
  assumes "sema_inv n s" "i < n" "points s ! i = Outside" "in_range n (signal i count s)"
  shows "sema_inv n (signal i count s)"
proof -
  have rng: "n < 2 ^ 31" "signalled s + count < 2 ^ 63"
    using assms(4) by (simp_all add: in_range_def signal_def Let_def goto_def)
  have b: "- int n \<le> m_count s" "m_count s \<le> int (signalled s)" using m_count_bounds [OF assms(1)] by auto
  have w: "wrap_ssize (- m_count s) = - m_count s" by (rule wrap_ssize_id) (use b rng in simp_all)
  have w': "wrap_ssize (m_count s + int count) = m_count s + int count" by (rule wrap_ssize_id) (use b rng in simp_all)
  have "cast_int (if - m_count s < int count then - m_count s else int count) = (if - m_count s < int count then - m_count s else int count)"
    if "0 < (if - m_count s < int count then - m_count s else int count)"
    using that b rng by (intro cast_int_id) (auto split: if_splits)
  then show ?thesis
    unfolding signal_def Let_def w w' by (intro sema_inv_goto [OF assms(1,2)]) (use assms(3) in auto)
qed

lemma new_count_pos: "0 < old \<Longrightarrow> 0 \<le> new_count mx old \<and> new_count mx old \<le> old"
  by (simp add: new_count_def)

lemma point_facts [simp]:
  "loaded_ok (try_with block mx c)" "sleeping (try_with block mx c) = 0" "posting (try_with block mx c) = 0"
  "loaded_ok (rest_of mx)" "sleeping (rest_of mx) = 0" "posting (rest_of mx) = 0"
  by (auto simp: try_with_def give_up_def rest_of_def)

lemma take_permits_frame [simp]:
  "points (take_permits mx old s) = points s" "m_count (take_permits mx old s) = new_count mx old"
  "tokens (take_permits mx old s) = tokens s" "signalled (take_permits mx old s) = signalled s"
  "acquired (take_permits mx old s) = acquired s + nat (old - new_count mx old)"
  by (simp_all add: take_permits_def)

lemma sema_inv_next:
  assumes inv: "sema_inv n s" and i: "i < n" and step: "sema_next spurious i s = Some t" and rng: "in_range n s"
  shows "sema_inv n t"
proof -
  have w: "wrap_ssize (m_count s - 1) = m_count s - 1"
    using m_count_bounds [OF inv] rng by (intro wrap_ssize_id) (auto simp: in_range_def)
  have ok: "loaded_ok (points s ! i)" using inv i by (auto simp: sema_inv_def list_all_length)
  have go: "sema_inv n (goto i p t)"
    if "points t = points s" "loaded_ok p"
    "int (sleeping p) - int (sleeping (points s ! i)) =
      (int (tokens t) - int (tokens s)) + (int (posting p) - int (posting (points s ! i))) + max 0 (- m_count t) - max 0 (- m_count s)"
    "int (signalled t) - int (signalled s) = (int (acquired t) - int (acquired s)) + max 0 (m_count t) - max 0 (m_count s)
      + (int (tokens t) - int (tokens s)) + (int (posting p) - int (posting (points s ! i)))" for p t
    by (rule sema_inv_goto [OF inv i that])
  show ?thesis
  proof (cases "points s ! i")
    case (TryCas block mx old)
    then show ?thesis using step ok new_count_pos [of old mx]
      by (auto simp: sema_next_def intro!: go split: if_splits)
  next
    case (SpinCas mx k old)
    then show ?thesis using step ok new_count_pos [of old mx]
      by (auto simp: sema_next_def intro!: go split: if_splits)
  next
    case (Spin mx k)
    then show ?thesis using step w by (cases k) (auto simp: sema_next_def Let_def intro!: go split: if_splits)
  next
    case (Post k)
    then show ?thesis using step by (cases k) (auto simp: sema_next_def intro!: go)
  qed (use step in \<open>auto simp: sema_next_def intro!: go split: if_splits\<close>)
qed

lemma signalled_next: "sema_next spurious i s = Some t \<Longrightarrow> signalled t = signalled s"
  by (auto simp: sema_next_def Let_def split: point.splits nat.splits if_splits)

lemma signalled_frame [simp]:
  "signalled (start_wait i block mx s) = signalled s" "signalled (signal i count s) = signalled s + count"
  by (simp_all add: start_wait_def signal_def Let_def)

lemma points_next: "sema_next spurious i s = Some t \<Longrightarrow> \<exists>p. points t = (points s)[i := p]"
  by (auto simp: sema_next_def goto_def Let_def split: point.splits if_splits nat.splits)

lemma sema_reach_length: "sema_reach c n s \<Longrightarrow> length (points s) = n"
  by (induction rule: sema_reach.induct)
    (auto simp: sema_new_def start_wait_def signal_def Let_def goto_def dest: points_next)

lemma sema_reach_inv: "sema_reach c n s \<Longrightarrow> in_range n s \<Longrightarrow> sema_inv n s"
proof (induction rule: sema_reach.induct)
  case (signal s i count)
  then have "in_range n s" by (simp add: in_range_def)
  then show ?case using signal sema_inv_signal by blast
next
  case (step s i spurious t)
  then have "in_range n s" by (auto simp: in_range_def dest: signalled_next)
  then show ?case using step sema_inv_next by blast
qed (auto intro: sema_inv_new sema_inv_start simp: in_range_def)

text \<open>
  C16 No permit is lost and none is invented, in any interleaving of waits for one or many permits,
  spinning or sleeping, and signals, by fewer than \<open>2 ^ 31\<close> threads and as long as
  fewer than \<open>2 ^ 63\<close> permits were put in altogether, so that the 64 bits of the count
  do not wrap around: those acquired, those still in the positive count and those on their way to a
  sleeper through the kernel semaphore are together exactly the initial ones and those signalled.
\<close>

theorem semaphore_conserves_permits:
  assumes "sema_reach initialCount n s" "n < 2 ^ 31" "signalled s < 2 ^ 63"
  shows "int (signalled s) = int (acquired s) + availableApprox s + int (tokens s) + int (posts s)"
  using sema_reach_inv [OF assms(1)] assms(2,3) by (auto simp: in_range_def sema_inv_def availableApprox_def)

text \<open>
  The bound is needed: after two signals of \<open>2 ^ 62\<close> permits the count has wrapped around to its least
  value, no permit is available, and a thread that waits goes to sleep.
\<close>

theorem signals_wrap_around:
  assumes "i < n"
  shows "let s = signal i (2 ^ 62) (signal i (2 ^ 62) (sema_new 0 n)) in
    signalled s = 2 ^ 63 \<and> availableApprox s = 0 \<and> m_count s = - (2 ^ 63) \<and> tokens s = 0 \<and> posts s = 0 \<and> acquired s = 0"
proof -
  have "(replicate n Outside)[i := Outside] = replicate n Outside" by (metis assms list_update_id nth_replicate)
  then show ?thesis
    by (simp add: Let_def signal_def sema_new_def goto_def availableApprox_def posts_def wrap_ssize_def sum_list_replicate)
qed

theorem signals_wrap_around_witness:
  "availableApprox (signal 0 (2 ^ 62) (signal 0 (2 ^ 62) (sema_new 0 1))) = 0
    \<and> signalled (signal 0 (2 ^ 62) (signal 0 (2 ^ 62) (sema_new 0 1))) = 2 ^ 63"
  using signals_wrap_around [of 0 1] by (simp add: Let_def)

text \<open>
  No wake-up is lost, within the same bounds: a thread sleeps in the kernel semaphore, with no
  token there and no signal under way, only when every permit that was put in has been acquired.
\<close>

theorem semaphore_no_lost_wakeup:
  assumes "sema_reach initialCount n s" "i < n" "points s ! i = Sleep mx" "posts s = 0" "sema_next spurious i s = None"
    "in_range n s"
  shows "acquired s = signalled s"
proof -
  have inv: "sema_inv n s" by (rule sema_reach_inv [OF assms(1,6)])
  then have "i < length (points s)" using assms(2) by (simp add: sema_inv_def)
  then have "sleeping (points s ! i) \<le> sleepers s"
    unfolding sleepers_def by (intro member_le_sum_list) (auto intro!: imageI)
  moreover have "tokens s = 0" using assms(3,5) by (auto simp: sema_next_def split: if_splits)
  ultimately show ?thesis using inv assms(3,4) by (auto simp: sema_inv_def)
qed

text \<open>A thread alone goes through the spinning loop to sleep.\<close>

lemma spin_to_sleep:
  assumes "sema_reach c n s" "i < n" "points s ! i = Spin mx k" "m_count s \<le> 0" "- (2 ^ 63) < m_count s"
  shows "sema_reach c n (goto i (Sleep mx) (s\<lparr>m_count := m_count s - 1\<rparr>))"
  using assms
proof (induction k arbitrary: s)
  case 0
  then show ?case using sema_reach.step [OF 0(1,2), of False] by (simp add: sema_next_def Let_def wrap_ssize_id)
next
  case (Suc k)
  have len: "length (points s) = n" by (rule sema_reach_length [OF Suc.prems(1)])
  have "sema_reach c n (goto i (Spin mx k) s)"
    using sema_reach.step [OF Suc.prems(1,2), of False] Suc.prems(3,4) by (simp add: sema_next_def)
  then have "sema_reach c n (goto i (Sleep mx) ((goto i (Spin mx k) s)\<lparr>m_count := m_count s - 1\<rparr>))"
    using Suc.IH [of "goto i (Spin mx k) s"] Suc.prems(2,4,5) len by (simp add: goto_def)
  then show ?case by (simp add: goto_def)
qed

theorem semaphore_no_lost_wakeup_witness:
  "acquired (sema_new 0 1\<lparr>m_count := -1, points := [Sleep 1]\<rparr>) = 0"
proof -
  let ?s = "\<lambda>p. sema_new 0 1\<lparr>points := [p]\<rparr>"
  have 1: "sema_reach 0 1 (?s (Try True 1))"
    using sema_reach.wait [OF sema_reach.new [of 0 1], of 0 True 1] by (simp add: sema_new_def start_wait_def goto_def)
  have 2: "sema_reach 0 1 (?s (Spin 1 spin_count))"
    using sema_reach.step [OF 1, of 0 False] by (simp add: sema_next_def goto_def try_with_def give_up_def sema_new_def)
  have "sema_reach 0 1 (sema_new 0 1\<lparr>m_count := -1, points := [Sleep 1]\<rparr>)"
    using spin_to_sleep [OF 2, of 0 1 spin_count] by (simp add: goto_def sema_new_def)
  from semaphore_no_lost_wakeup [OF this, of 0 1 False] show ?thesis
    by (simp add: sema_next_def posts_def sema_new_def in_range_def)
qed

theorem semaphore_conserves_permits_witness:
  "\<exists>s. sema_reach 0 2 s \<and> points s = [Sleep 1, Post 1] \<and> m_count s = 1
    \<and> int (signalled s) = int (acquired s) + availableApprox s + int (tokens s) + int (posts s)"
proof -
  let ?s = "\<lambda>c p q g. \<lparr>m_count = c, tokens = 0, points = [p, q], acquired = 0, signalled = g\<rparr>"
  have new: "sema_reach 0 2 (?s 0 Outside Outside 0)"
    using sema_reach.new [of 0 2] by (simp add: sema_new_def numeral_2_eq_2)
  have "sema_reach 0 2 (?s 0 (Try True 1) Outside 0)"
    using sema_reach.wait [OF new, of 0 True 1] by (simp add: start_wait_def goto_def)
  from sema_reach.step [OF this, of 0 False] have "sema_reach 0 2 (?s 0 (Spin 1 spin_count) Outside 0)"
    by (simp add: sema_next_def goto_def try_with_def give_up_def)
  from spin_to_sleep [OF this, of 0 1 spin_count] have "sema_reach 0 2 (?s (-1) (Sleep 1) Outside 0)" by (simp add: goto_def)
  from sema_reach.signal [OF this, of 1 2] have r: "sema_reach 0 2 (?s 1 (Sleep 1) (Post 1) 2)"
    by (simp add: signal_def Let_def goto_def wrap_ssize_def cast_int_def numeral_2_eq_2)
  show ?thesis
    by (intro exI [of _ "?s 1 (Sleep 1) (Post 1) 2"] conjI r semaphore_conserves_permits [OF r]) simp_all
qed


section \<open>The blocking ring buffer\<close>

text \<open>
  One consumer (thread 0) in \<^verbatim>\<open>pop_wait\<close> and one producer (thread 1) in \<^verbatim>\<open>push\<close>, over and over.
  The ring's own \<^verbatim>\<open>push\<close> and \<^verbatim>\<open>pop\<close> are single steps here; the interleaving of their accesses is
  the subject of the theory of the ring, and the overload of \<^verbatim>\<open>push\<close> is the one that moves, which
  the queues of the library call. \<open>br_in\<close> and \<open>br_out\<close> record the elements accepted and taken.
\<close>

datatype consumer_at = Popping | Waiting
datatype producer_at = Pushing | Signalling | InSignal

record 'a blocking_ringbuffer =
  br_ring :: "'a ringbuffer"
  m_semaphore :: sema
  br_consumer :: consumer_at
  br_producer :: producer_at
  br_in :: "'a list"
  br_out :: "'a list"

definition blocking_new :: "nat \<Rightarrow> 'a blocking_ringbuffer" where
  "blocking_new n = \<lparr>br_ring = rb_new n, m_semaphore = sema_new 0 2, br_consumer = Popping,
     br_producer = Pushing, br_in = [], br_out = []\<rparr>"

definition pop_wait_step :: "nat \<Rightarrow> bool \<Rightarrow> 'a blocking_ringbuffer \<Rightarrow> 'a blocking_ringbuffer option" where
  "pop_wait_step n spurious b =
    (case br_consumer b of
       Popping \<Rightarrow>
         (case rb_pop n (br_ring b) of
            (Some x, q) \<Rightarrow> Some (b\<lparr>br_ring := q, br_out := br_out b @ [x]\<rparr>)
          | (None, q) \<Rightarrow> Some (b\<lparr>br_ring := q, br_consumer := Waiting, m_semaphore := start_wait 0 True 1 (m_semaphore b)\<rparr>))
     | Waiting \<Rightarrow>
         if points (m_semaphore b) ! 0 = Outside then Some (b\<lparr>br_consumer := Popping\<rparr>)
         else map_option (\<lambda>s. b\<lparr>m_semaphore := s\<rparr>) (sema_next spurious 0 (m_semaphore b)))"

definition push_step :: "nat \<Rightarrow> bool \<Rightarrow> 'a \<Rightarrow> 'a blocking_ringbuffer \<Rightarrow> 'a blocking_ringbuffer option" where
  "push_step n spurious x b =
    (case br_producer b of
       Pushing \<Rightarrow>
         (let (v, q) = rb_push n x (br_ring b)
          in Some (b\<lparr>br_ring := q, br_producer := Signalling, br_in := (if v then br_in b @ [x] else br_in b)\<rparr>))
     | Signalling \<Rightarrow> Some (b\<lparr>m_semaphore := signal 1 1 (m_semaphore b), br_producer := InSignal\<rparr>)
     | InSignal \<Rightarrow>
         if points (m_semaphore b) ! 1 = Outside then Some (b\<lparr>br_producer := Pushing\<rparr>)
         else map_option (\<lambda>s. b\<lparr>m_semaphore := s\<rparr>) (sema_next spurious 1 (m_semaphore b)))"

inductive blocking_reach :: "nat \<Rightarrow> 'a blocking_ringbuffer \<Rightarrow> bool" for n where
  new: "blocking_reach n (blocking_new n)"
| pop: "blocking_reach n b \<Longrightarrow> pop_wait_step n spurious b = Some b' \<Longrightarrow> blocking_reach n b'"
| push: "blocking_reach n b \<Longrightarrow> push_step n spurious x b = Some b' \<Longrightarrow> blocking_reach n b'"

text \<open>The points the two threads can be at, and the effect of their steps on the permits.\<close>

fun waiting_point :: "point \<Rightarrow> bool" where
  "waiting_point (Try block mx) \<longleftrightarrow> block \<and> mx = 1"
| "waiting_point (TryCas block mx old) \<longleftrightarrow> block \<and> mx = 1"
| "waiting_point (Spin mx n) \<longleftrightarrow> mx = 1"
| "waiting_point (SpinCas mx n old) \<longleftrightarrow> mx = 1"
| "waiting_point (Sleep mx) \<longleftrightarrow> mx = 1"
| "waiting_point _ \<longleftrightarrow> False"

fun posting_point :: "point \<Rightarrow> bool" where
  "posting_point (Post r) \<longleftrightarrow> True" | "posting_point Outside \<longleftrightarrow> True" | "posting_point _ \<longleftrightarrow> False"

lemma waiter_step:
  assumes "sema_next spurious 0 s = Some t" "waiting_point (points s ! 0)" "length (points s) = 2"
  shows "points t ! 0 = Outside \<or> waiting_point (points t ! 0) \<and> acquired t = acquired s"
    "points t ! 1 = points s ! 1" "signalled t = signalled s"
proof -
  have "(points t ! 0 = Outside \<or> waiting_point (points t ! 0) \<and> acquired t = acquired s)
      \<and> points t ! 1 = points s ! 1 \<and> signalled t = signalled s"
  proof (cases "points s ! 0")
    case (Spin mx k)
    then show ?thesis using assms
      by (cases k) (auto simp: sema_next_def goto_def rest_of_def Let_def split: if_splits)
  qed (use assms in \<open>auto simp: sema_next_def goto_def try_with_def give_up_def rest_of_def Let_def split: if_splits\<close>)
  then show "points t ! 0 = Outside \<or> waiting_point (points t ! 0) \<and> acquired t = acquired s"
    "points t ! 1 = points s ! 1" "signalled t = signalled s" by auto
qed

lemma poster_step:
  assumes "sema_next spurious 1 s = Some t" "posting_point (points s ! 1)" "length (points s) = 2"
  shows "posting_point (points t ! 1) \<and> points t ! 0 = points s ! 0 \<and> acquired t = acquired s \<and> signalled t = signalled s"
proof (cases "points s ! 1")
  case (Post r)
  then show ?thesis using assms by (cases r) (auto simp: sema_next_def goto_def)
qed (use assms in \<open>auto simp: sema_next_def\<close>)

definition blocking_inv :: "nat \<Rightarrow> 'a blocking_ringbuffer \<Rightarrow> bool" where
  "blocking_inv n b \<longleftrightarrow> (let s = m_semaphore b in rb_inv n (br_ring b) \<and> br_in b = br_out b @ rb_abs n (br_ring b)
     \<and> sema_inv 2 s
     \<and> (points s ! 0 = Outside \<or> br_consumer b = Waiting \<and> waiting_point (points s ! 0))
     \<and> posting_point (points s ! 1) \<and> (br_producer b \<noteq> InSignal \<longrightarrow> points s ! 1 = Outside)
     \<and> (points s ! 0 \<noteq> Outside \<longrightarrow> rb_abs n (br_ring b) \<noteq> [] \<longrightarrow> br_producer b \<noteq> Signalling \<longrightarrow> acquired s < signalled s))"

lemma sema_inv_length: "sema_inv n s \<Longrightarrow> length (points s) = n"
  by (simp add: sema_inv_def)

lemma pop_wait_inv:
  assumes "blocking_inv n b" "pop_wait_step n spurious b = Some b'" "in_range 2 (m_semaphore b)"
  shows "blocking_inv n b'"
proof (cases "br_consumer b")
  case Popping
  have i: "rb_inv n (br_ring b)" using assms(1) by (simp add: blocking_inv_def Let_def)
  show ?thesis
  proof (cases rule: rb.pop_cases [OF i])
    case (1 q' x)
    then show ?thesis using assms Popping by (auto simp: pop_wait_step_def blocking_inv_def Let_def)
  next
    case 2
    then have "b' = b\<lparr>br_consumer := Waiting, m_semaphore := start_wait 0 True 1 (m_semaphore b)\<rparr>"
      using assms(2) Popping by (simp add: pop_wait_step_def)
    then show ?thesis
      using assms(1) Popping 2 sema_inv_start [of 2 "m_semaphore b" 0 True 1] sema_inv_length [of 2 "m_semaphore b"]
      by (auto simp: blocking_inv_def Let_def start_wait_def goto_def)
  qed
next
  case Waiting
  show ?thesis
  proof (cases "points (m_semaphore b) ! 0 = Outside")
    case True
    then show ?thesis using assms Waiting by (auto simp: pop_wait_step_def blocking_inv_def Let_def)
  next
    case False
    then obtain t where t: "sema_next spurious 0 (m_semaphore b) = Some t" "b' = b\<lparr>m_semaphore := t\<rparr>"
      using assms(2) Waiting by (auto simp: pop_wait_step_def)
    have rng: "in_range 2 (m_semaphore b)" by (rule assms(3))
    have w: "waiting_point (points (m_semaphore b) ! 0)" "length (points (m_semaphore b)) = 2" "sema_inv 2 (m_semaphore b)"
      using assms(1) False sema_inv_length by (auto simp: blocking_inv_def Let_def)
    show ?thesis
      using assms(1) Waiting False waiter_step [OF t(1) w(1,2)] sema_inv_next [OF w(3) _ t(1) rng]
      by (auto simp: blocking_inv_def Let_def t(2))
  qed
qed

lemma push_inv:
  assumes "blocking_inv n b" "push_step n spurious x b = Some b'" "in_range 2 (m_semaphore b')"
  shows "blocking_inv n b'"
proof (cases "br_producer b")
  case Pushing
  have i: "rb_inv n (br_ring b)" using assms(1) by (simp add: blocking_inv_def Let_def)
  show ?thesis
    by (cases rule: rb.push_cases [OF i, of x])
       (use assms Pushing in \<open>auto simp: push_step_def blocking_inv_def Let_def\<close>)
next
  case Signalling
  have s: "points (m_semaphore b) ! 1 = Outside" "sema_inv 2 (m_semaphore b)" "length (points (m_semaphore b)) = 2"
    "int (signalled (m_semaphore b)) = int (acquired (m_semaphore b)) + max 0 (m_count (m_semaphore b))
      + int (tokens (m_semaphore b)) + int (posts (m_semaphore b))"
    using assms(1) Signalling by (auto simp: blocking_inv_def Let_def sema_inv_def)
  then have "acquired (m_semaphore b) \<le> signalled (m_semaphore b)" by linarith
  moreover have "in_range 2 (signal 1 1 (m_semaphore b))" using assms(2,3) Signalling by (auto simp: push_step_def)
  ultimately show ?thesis
    using assms Signalling s(3) sema_inv_signal [OF s(2) _ s(1), of 1]
    by (auto simp: push_step_def blocking_inv_def Let_def signal_def goto_def)
next
  case InSignal
  show ?thesis
  proof (cases "points (m_semaphore b) ! 1 = Outside")
    case True
    then show ?thesis using assms InSignal by (auto simp: push_step_def blocking_inv_def Let_def)
  next
    case False
    then obtain t where t: "sema_next spurious 1 (m_semaphore b) = Some t" "b' = b\<lparr>m_semaphore := t\<rparr>"
      using assms(2) InSignal by (auto simp: push_step_def)
    have rng: "in_range 2 (m_semaphore b)" using assms(3) t signalled_next by (fastforce simp: in_range_def)
    have w: "posting_point (points (m_semaphore b) ! 1)" "length (points (m_semaphore b)) = 2" "sema_inv 2 (m_semaphore b)"
      using assms(1) sema_inv_length by (auto simp: blocking_inv_def Let_def)
    show ?thesis
      using assms(1) InSignal poster_step [OF t(1) w(1,2)] sema_inv_next [OF w(3) _ t(1) rng]
      by (auto simp: blocking_inv_def Let_def t(2))
  qed
qed

lemma blocking_pop_signalled:
  assumes "pop_wait_step n spurious b = Some b'"
  shows "signalled (m_semaphore b') = signalled (m_semaphore b)"
proof (cases "br_consumer b")
  case Popping
  then show ?thesis using assms
    by (cases "rb_pop n (br_ring b)"; cases "fst (rb_pop n (br_ring b))") (auto simp: pop_wait_step_def)
next
  case Waiting
  then show ?thesis using assms signalled_next [of spurious 0 "m_semaphore b"]
    by (cases "points (m_semaphore b) ! 0 = Outside") (auto simp: pop_wait_step_def)
qed

lemma blocking_push_signalled:
  assumes "push_step n spurious x b = Some b'"
  shows "signalled (m_semaphore b) \<le> signalled (m_semaphore b')"
proof (cases "br_producer b")
  case InSignal
  then show ?thesis using assms signalled_next [of spurious 1 "m_semaphore b"]
    by (cases "points (m_semaphore b) ! 1 = Outside") (auto simp: push_step_def)
qed (use assms in \<open>auto simp: push_step_def split_beta Let_def\<close>)

lemma blocking_reach_inv:
  "blocking_reach n (b :: 'a blocking_ringbuffer) \<Longrightarrow> 0 < n \<Longrightarrow> in_range 2 (m_semaphore b) \<Longrightarrow> blocking_inv n b"
proof (induction rule: blocking_reach.induct)
  case new
  then show ?case using rb_inv_new [where 'a = 'a and 'b = 'a and n = n] sema_inv_new [of 2 0]
    by (auto simp: blocking_inv_def blocking_new_def Let_def sema_new_def numeral_2_eq_2)
next
  case (pop b spurious b')
  have "in_range 2 (m_semaphore b)"
    using pop.prems(2) by (simp add: in_range_def blocking_pop_signalled [OF pop.hyps(2)])
  then show ?case by (intro pop_wait_inv [OF _ pop.hyps(2)] pop.IH pop.prems(1))
next
  case (push b spurious x b')
  have "in_range 2 (m_semaphore b)"
    using push.prems(2) blocking_push_signalled [OF push.hyps(2)] by (simp add: in_range_def)
  then show ?case by (intro push_inv [OF _ push.hyps(2) push.prems(2)] push.IH push.prems(1))
qed

text \<open>
  C17 A consumer never sleeps on a ring that holds something: whenever an element is in the ring and
  the producer is not inside a call, the consumer can take a step, however it got to wait; and it
  takes the elements in the order they were accepted. As many as \<open>2 ^ 63 - 1\<close> signals,
  one for each call of \<^verbatim>\<open>push\<close>, are covered; with more the count of the
  semaphore may wrap around.
\<close>

theorem blocking_pop_not_stuck:
  assumes "blocking_reach n b" "0 < n" "rb_abs n (br_ring b) \<noteq> []" "br_producer b = Pushing" "signalled (m_semaphore b) < 2 ^ 63"
  shows "(\<exists>b'. pop_wait_step n spurious b = Some b') \<and> br_in b = br_out b @ rb_abs n (br_ring b)"
proof -
  let ?s = "m_semaphore b"
  have inv: "blocking_inv n b" by (rule blocking_reach_inv [OF assms(1,2)]) (use assms(5) in \<open>simp add: in_range_def\<close>)
  have "sema_next spurious 0 ?s \<noteq> None" if w: "br_consumer b = Waiting" "points ?s ! 0 \<noteq> Outside"
  proof
    assume stuck: "sema_next spurious 0 ?s = None"
    have s: "waiting_point (points ?s ! 0)" "points ?s ! 1 = Outside" "acquired ?s < signalled ?s" "sema_inv 2 ?s"
      using inv assms(3,4) w by (auto simp: blocking_inv_def Let_def)
    have pt: "points ?s ! 0 = Sleep 1" "tokens ?s = 0"
      using stuck s(1) by (auto simp: sema_next_def Let_def split: point.splits nat.splits if_splits)
    have "length (points ?s) = 2" using s(4) by (simp add: sema_inv_def)
    then have "points ?s = [Sleep 1, Outside]"
      by (intro nth_equalityI) (use pt s(2) in \<open>auto simp: less_2_cases_iff\<close>)
    then show False using s(3,4) pt(2) by (auto simp: sema_inv_def sleepers_def posts_def)
  qed
  then show ?thesis using inv
    by (auto simp: pop_wait_step_def blocking_inv_def Let_def split: consumer_at.split prod.split option.split)
qed

theorem blocking_pop_not_stuck_witness:
  "\<exists>b b'. pop_wait_step 4 False b = Some b' \<and> br_in b = [CHR ''x''] \<and> br_out b = []"
proof -
  let ?b0 = "blocking_new 4 :: char blocking_ringbuffer"
  note defs = blocking_new_def push_step_def rb_push_def rb_new_def rb_next_def sema_new_def signal_def goto_def wrap_ssize_def
  obtain b1 where b1: "push_step 4 False (CHR ''x'') ?b0 = Some b1" by (auto simp: defs Let_def)
  obtain b2 where b2: "push_step 4 False (CHR ''x'') b1 = Some b2" using b1 by (auto simp: defs Let_def)
  obtain b3 where b3: "push_step 4 False (CHR ''x'') b2 = Some b3" using b1 b2 by (auto simp: defs Let_def)
  have r: "blocking_reach 4 b3"
    by (rule blocking_reach.push [OF blocking_reach.push [OF blocking_reach.push [OF blocking_reach.new b1] b2] b3])
  have p: "rb_abs 4 (br_ring b3) = [CHR ''x'']" "br_producer b3 = Pushing" "br_out b3 = []" "signalled (m_semaphore b3) = 1"
    using b1 b2 b3 by (auto simp: defs Let_def rb_abs_def rb_size_def)
  show ?thesis using blocking_pop_not_stuck [OF r, of False] p by auto
qed

end
