(* ===== verification/Lock_Holders.thy ===== *)
theory Lock_Holders
  imports RW_Lock "HOL-Library.Multiset"
begin

text \<open>
  The objects that hold a lock for a scope: \<^verbatim>\<open>read_holder\<close>, \<^verbatim>\<open>upgraded_holder\<close> and \<^verbatim>\<open>write_holder\<close> of
  \<^verbatim>\<open>utils/rwlock.h\<close>, and the spin lock of \<^verbatim>\<open>utils/tfspinlock.h\<close> with its guard. A holder has a
  kind and the lock it points to, if any; the holders that can be alive are the entries of a
  list, and the locks are words by address. A constructor or \<^verbatim>\<open>reset\<close> that spins on a taken lock
  is given a number of attempts and gives \<open>None\<close> when all of them fail. The operations of
  different holders interleave as wholes; the atomic operations inside them interleave in the
  theory of the lock, whose invariant carries over to each lock here.
\<close>

section \<open>Holders\<close>

datatype holder_kind = ReadHolder | UpgradedHolder | WriteHolder

record holding =
  words :: "nat \<Rightarrow> u32"
  holders :: "(holder_kind \<times> nat option) list"

definition put_holder :: "nat \<Rightarrow> holder_kind \<times> nat option \<Rightarrow> holding \<Rightarrow> holding" where
  "put_holder i h s = s\<lparr>holders := (holders s)[i := h]\<rparr>"

definition put_word :: "nat \<Rightarrow> u32 \<Rightarrow> holding \<Rightarrow> holding" where
  "put_word p b s = s\<lparr>words := (words s)(p := b)\<rparr>"

primrec acquire :: "holder_kind \<Rightarrow> nat \<Rightarrow> u32 \<Rightarrow> u32 option" where
  "acquire ReadHolder = lock_shared"
| "acquire UpgradedHolder = lock_upgrade"
| "acquire WriteHolder = lock"

primrec release :: "holder_kind \<Rightarrow> u32 \<Rightarrow> u32" where
  "release ReadHolder = unlock_shared"
| "release UpgradedHolder = unlock_upgrade"
| "release WriteHolder = unlock"

text \<open>
  The constructors from a pointer or a reference, in place \<open>i\<close>; the destructor; \<^verbatim>\<open>reset\<close>; the move
  constructor; move assignment and \<^verbatim>\<open>swap\<close>, which exchange the locks.
\<close>

definition holder_new :: "nat \<Rightarrow> nat \<Rightarrow> holder_kind \<Rightarrow> nat option \<Rightarrow> holding \<Rightarrow> holding option" where
  "holder_new fuel i k lck s =
    (case lck of
       None \<Rightarrow> Some (put_holder i (k, None) s)
     | Some p \<Rightarrow> map_option (\<lambda>b. put_holder i (k, Some p) (put_word p b s)) (acquire k fuel (words s p)))"

definition holder_destroy :: "nat \<Rightarrow> holding \<Rightarrow> holding" where
  "holder_destroy i s =
    (case holders s ! i of
       (k, None) \<Rightarrow> s
     | (k, Some p) \<Rightarrow> put_holder i (k, None) (put_word p (release k (words s p)) s))"

definition holder_reset :: "nat \<Rightarrow> nat \<Rightarrow> nat option \<Rightarrow> holding \<Rightarrow> holding option" where
  "holder_reset fuel i lck s =
    (if lck = snd (holders s ! i) then Some s
     else holder_new fuel i (fst (holders s ! i)) lck (holder_destroy i s))"

definition holder_swap :: "nat \<Rightarrow> nat \<Rightarrow> holding \<Rightarrow> holding" where
  "holder_swap i j s = put_holder i (holders s ! j) (put_holder j (holders s ! i) s)"

definition holder_move :: "nat \<Rightarrow> nat \<Rightarrow> holding \<Rightarrow> holding" where
  "holder_move i j s = put_holder i (holders s ! j) (put_holder j (fst (holders s ! j), None) s)"

text \<open>The constructors from a holder of another kind: the lock changes hands and is up- or downgraded.\<close>

definition unlock_and_lock_shared :: "u32 \<Rightarrow> u32" where
  "unlock_and_lock_shared b = unlock_and_lock_shared_2 (unlock_and_lock_shared_1 b)"

definition unlock_and_lock_upgrade :: "u32 \<Rightarrow> u32" where
  "unlock_and_lock_upgrade b = unlock_and_lock_upgrade_2 (unlock_and_lock_upgrade_1 b)"

fun convert :: "holder_kind \<Rightarrow> holder_kind \<Rightarrow> nat \<Rightarrow> u32 \<Rightarrow> u32 option" where
  "convert UpgradedHolder ReadHolder fuel b = Some (unlock_upgrade_and_lock_shared b)"
| "convert WriteHolder ReadHolder fuel b = Some (unlock_and_lock_shared b)"
| "convert WriteHolder UpgradedHolder fuel b = Some (unlock_and_lock_upgrade b)"
| "convert UpgradedHolder WriteHolder fuel b = unlock_upgrade_and_lock fuel b"
| "convert _ _ fuel b = None"

definition holder_from :: "nat \<Rightarrow> nat \<Rightarrow> holder_kind \<Rightarrow> nat \<Rightarrow> holding \<Rightarrow> holding option" where
  "holder_from fuel i k j s =
    (case holders s ! j of
       (k', None) \<Rightarrow> Some (put_holder i (k, None) s)
     | (k', Some p) \<Rightarrow>
         map_option (\<lambda>b. put_holder i (k, Some p) (put_holder j (k', None) (put_word p b s))) (convert k' k fuel (words s p)))"

text \<open>All sequences of these operations on \<open>n\<close> places; a new holder goes to a place that holds nothing.\<close>

inductive holder_reach :: "nat \<Rightarrow> holding \<Rightarrow> bool" for n where
  start: "holder_reach n \<lparr>words = (\<lambda>_. 0), holders = replicate n (ReadHolder, None)\<rparr>"
| new: "holder_reach n s \<Longrightarrow> i < n \<Longrightarrow> snd (holders s ! i) = None \<Longrightarrow>
    holder_new fuel i k lck s = Some t \<Longrightarrow> holder_reach n t"
| destroy: "holder_reach n s \<Longrightarrow> i < n \<Longrightarrow> holder_reach n (holder_destroy i s)"
| reset: "holder_reach n s \<Longrightarrow> i < n \<Longrightarrow> holder_reset fuel i lck s = Some t \<Longrightarrow> holder_reach n t"
| swap: "holder_reach n s \<Longrightarrow> i < n \<Longrightarrow> j < n \<Longrightarrow> fst (holders s ! i) = fst (holders s ! j) \<Longrightarrow>
    holder_reach n (holder_swap i j s)"
| move: "holder_reach n s \<Longrightarrow> i < n \<Longrightarrow> j < n \<Longrightarrow> i \<noteq> j \<Longrightarrow> snd (holders s ! i) = None \<Longrightarrow>
    holder_reach n (holder_move i j s)"
| convert: "holder_reach n s \<Longrightarrow> i < n \<Longrightarrow> j < n \<Longrightarrow> i \<noteq> j \<Longrightarrow> snd (holders s ! i) = None \<Longrightarrow>
    holder_from fuel i k j s = Some t \<Longrightarrow> holder_reach n t"

section \<open>What one lock sees\<close>

primrec role_of :: "holder_kind \<Rightarrow> role" where
  "role_of ReadHolder = Reader" | "role_of UpgradedHolder = Upgrader" | "role_of WriteHolder = Writer"

definition role_at :: "nat \<Rightarrow> holder_kind \<times> nat option \<Rightarrow> role" where
  "role_at p h = (if snd h = Some p then role_of (fst h) else Idle)"

definition proj :: "nat \<Rightarrow> holding \<Rightarrow> locked" where
  "proj p s = \<lparr>m_bits = words s p, roles = map (role_at p) (holders s)\<rparr>"

lemma proj_put [simp]:
  "proj p (put_holder i h s) = (proj p s)\<lparr>roles := (roles (proj p s))[i := role_at p h]\<rparr>"
  "proj p (put_word q b s) = (if p = q then (proj p s)\<lparr>m_bits := b\<rparr> else proj p s)"
  by (simp_all add: proj_def put_holder_def put_word_def map_update)

lemma set_role_simps [simp]:
  "set_role i r b (set_role i r' b' L) = set_role i r b L" "m_bits (set_role i r b L) = b"
  "roles (set_role i r b L) = (roles L)[i := r]"
  by (simp_all add: set_role_def)

lemma set_role_same: "roles L ! i = r \<Longrightarrow> set_role i r (m_bits L) L = L"
  using list_update_id [of "roles L" i] by (simp add: set_role_def)

text \<open>A spinning call keeps the invariant of the lock.\<close>

lemma spin_inv:
  assumes "lock_inv L" "i < length (roles L)" "roles L ! i = r0" "spin attempt undo fuel (m_bits L) = Some b"
    and "\<And>L ok b. lock_inv L \<Longrightarrow> i < length (roles L) \<Longrightarrow> roles L ! i = r0 \<Longrightarrow> attempt (m_bits L) = (ok, b) \<Longrightarrow>
      lock_inv (if ok then set_role i r b L else set_role i r0 (undo b) L)"
  shows "lock_inv (set_role i r b L)"
  using assms(1-4)
proof (induction fuel arbitrary: L)
  case (Suc fuel)
  obtain ok b' where a: "attempt (m_bits L) = (ok, b')" by force
  have step: "lock_inv (if ok then set_role i r b' L else set_role i r0 (undo b') L)"
    by (rule assms(5) [OF Suc.prems(1-3) a])
  show ?case
  proof (cases ok)
    case True
    then show ?thesis using step Suc.prems(4) a by simp
  next
    case False
    then show ?thesis
      using Suc.IH [of "set_role i r0 (undo b') L"] step Suc.prems a by simp
  qed
qed simp

lemmas lock_stepped = lock_step_inv [OF lock_step.intros(1)] lock_step_inv [OF lock_step.intros(2)]
  lock_step_inv [OF lock_step.intros(3)] lock_step_inv [OF lock_step.intros(4)] lock_step_inv [OF lock_step.intros(5)]
  lock_step_inv [OF lock_step.intros(6)] lock_step_inv [OF lock_step.intros(7)] lock_step_inv [OF lock_step.intros(8)]
  lock_step_inv [OF lock_step.intros(9)] lock_step_inv [OF lock_step.intros(10)] lock_step_inv [OF lock_step.intros(11)]
  lock_step_inv [OF lock_step.intros(12)] lock_step_inv [OF lock_step.intros(13)]

lemma attempt_inv:
  assumes "lock_inv L" "i < length (roles L)"
  shows "roles L ! i = Idle \<Longrightarrow> try_lock (m_bits L) = (ok, b) \<Longrightarrow>
      lock_inv (if ok then set_role i Writer b L else set_role i Idle (id b) L)"
    and "roles L ! i = Idle \<Longrightarrow> try_lock_upgrade (m_bits L) = (ok, b) \<Longrightarrow>
      lock_inv (if ok then set_role i Upgrader b L else set_role i Idle (id b) L)"
    and "roles L ! i = Idle \<Longrightarrow> try_lock_shared (m_bits L) = (ok, b) \<Longrightarrow>
      lock_inv (if ok then set_role i Reader b L else set_role i Idle (backout_shared b) L)"
    and "roles L ! i = Upgrader \<Longrightarrow> try_unlock_upgrade_and_lock (m_bits L) = (ok, b) \<Longrightarrow>
      lock_inv (if ok then set_role i Writer b L else set_role i Upgrader (id b) L)"
proof -
  show "lock_inv (if ok then set_role i Writer b L else set_role i Idle (id b) L)"
    if "roles L ! i = Idle" "try_lock (m_bits L) = (ok, b)"
    using lock_stepped(1) [OF assms(2) that assms(1)] by (cases ok) auto
  show "lock_inv (if ok then set_role i Upgrader b L else set_role i Idle (id b) L)"
    if "roles L ! i = Idle" "try_lock_upgrade (m_bits L) = (ok, b)"
    using lock_stepped(4) [OF assms(2) that assms(1)] by (cases ok) auto
  show "lock_inv (if ok then set_role i Writer b L else set_role i Upgrader (id b) L)"
    if "roles L ! i = Upgrader" "try_unlock_upgrade_and_lock (m_bits L) = (ok, b)"
    using lock_stepped(5) [OF assms(2) that assms(1)] by (cases ok) auto
  show "lock_inv (if ok then set_role i Reader b L else set_role i Idle (backout_shared b) L)"
    if "roles L ! i = Idle" "try_lock_shared (m_bits L) = (ok, b)"
  proof -
    have 1: "lock_inv (set_role i (if ok then Reader else Backout) b L)"
      by (rule lock_stepped(2) [OF assms(2) that assms(1)])
    then show ?thesis using lock_stepped(3) [OF _ _ 1, of i] assms(2) by (cases ok) auto
  qed
qed

lemma acquire_inv:
  assumes "lock_inv L" "i < length (roles L)" "roles L ! i = Idle" "acquire k fuel (m_bits L) = Some b"
  shows "lock_inv (set_role i (role_of k) b L)"
proof (cases k)
  case ReadHolder
  have "lock_inv (set_role i Reader b L)"
    by (rule spin_inv [OF assms(1-3), of try_lock_shared backout_shared fuel, OF _ attempt_inv(3)])
       (use assms(4) ReadHolder in \<open>simp_all add: lock_shared_def\<close>)
  then show ?thesis by (simp add: ReadHolder)
next
  case UpgradedHolder
  have "lock_inv (set_role i Upgrader b L)"
    by (rule spin_inv [OF assms(1-3), of try_lock_upgrade id fuel, OF _ attempt_inv(2)])
       (use assms(4) UpgradedHolder in \<open>simp_all add: lock_upgrade_def\<close>)
  then show ?thesis by (simp add: UpgradedHolder)
next
  case WriteHolder
  have "lock_inv (set_role i Writer b L)"
    by (rule spin_inv [OF assms(1-3), of try_lock id fuel, OF _ attempt_inv(1)])
       (use assms(4) WriteHolder in \<open>simp_all add: lock_def\<close>)
  then show ?thesis by (simp add: WriteHolder)
qed

lemma release_inv:
  assumes "lock_inv L" "i < length (roles L)" "roles L ! i = role_of k"
  shows "lock_inv (set_role i Idle (release k (m_bits L)) L)"
  using assms(3) lock_stepped(6,7,9) [OF assms(2) _ assms(1)] by (cases k) auto

lemma convert_inv:
  assumes "lock_inv L" "i < length (roles L)" "roles L ! i = role_of k'" "convert k' k fuel (m_bits L) = Some b"
  shows "lock_inv (set_role i (role_of k) b L)"
proof -
  consider "k' = UpgradedHolder" "k = ReadHolder" | "k' = WriteHolder" "k = ReadHolder"
    | "k' = WriteHolder" "k = UpgradedHolder" | "k' = UpgradedHolder" "k = WriteHolder"
    using assms(4) by (cases "(k', k, fuel, m_bits L)" rule: convert.cases) auto
  then show ?thesis
  proof cases
    case 1
    then show ?thesis using lock_stepped(8) [OF assms(2) _ assms(1)] assms(3,4) by simp
  next
    case 2
    have 1: "lock_inv (set_role i ToShared (unlock_and_lock_shared_1 (m_bits L)) L)"
      using lock_stepped(10) [OF assms(2) _ assms(1)] 2 assms(3) by simp
    show ?thesis
      using lock_stepped(11) [OF _ _ 1, of i] 2 assms(2,4) by (auto simp: unlock_and_lock_shared_def)
  next
    case 3
    have 1: "lock_inv (set_role i ToUpgrade (unlock_and_lock_upgrade_1 (m_bits L)) L)"
      using lock_stepped(12) [OF assms(2) _ assms(1)] 3 assms(3) by simp
    show ?thesis
      using lock_stepped(13) [OF _ _ 1, of i] 3 assms(2,4) by (auto simp: unlock_and_lock_upgrade_def)
  next
    case 4
    have "lock_inv (set_role i Writer b L)"
      by (rule spin_inv [OF assms(1,2), of Upgrader try_unlock_upgrade_and_lock id fuel, OF _ _ attempt_inv(4)])
         (use assms(3,4) 4 in \<open>simp_all add: unlock_upgrade_and_lock_def\<close>)
    then show ?thesis by (simp add: 4)
  qed
qed

text \<open>The lock does not know its holders by name: two places may change their roles.\<close>

lemma lock_inv_permuted:
  assumes "lock_inv L" "mset (roles M) = mset (roles L)" "m_bits M = m_bits L"
  shows "lock_inv M"
proof -
  have "total f (roles M) = total f (roles L)" for f
    using assms(2) by (simp add: total_def flip: sum_mset_sum_list)
  moreover have "length (roles M) = length (roles L)" using assms(2) by (rule mset_eq_length)
  ultimately show ?thesis using assms(1,3) by (simp add: lock_inv_def counts_ok_def)
qed


section \<open>Every lock of a program\<close>

definition holder_inv :: "nat \<Rightarrow> holding \<Rightarrow> bool" where
  "holder_inv n s \<longleftrightarrow> length (holders s) = n \<and> (\<forall>p. lock_inv (proj p s))"

lemma proj_length [simp]: "length (roles (proj p s)) = length (holders s)"
  by (simp add: proj_def)

lemma proj_nth [simp]: "i < length (holders s) \<Longrightarrow> roles (proj p s) ! i = role_at p (holders s ! i)"
  by (simp add: proj_def)

lemma proj_bits [simp]: "m_bits (proj p s) = words s p"
  by (simp add: proj_def)

lemma put_length [simp]:
  "length (holders (put_holder i h s)) = length (holders s)" "holders (put_word p b s) = holders s"
  by (simp_all add: put_holder_def put_word_def)

text \<open>
  Place \<open>i\<close> changes from \<open>h\<close> to \<open>h'\<close> and only the lock \<open>q\<close> is concerned.
\<close>

lemma holder_inv_put:
  assumes "holder_inv n s" "i < n" "\<And>p. p \<noteq> q \<Longrightarrow> role_at p h = role_at p (holders s ! i)"
    "lock_inv (set_role i (role_at q h) b (proj q s))"
  shows "holder_inv n (put_holder i h (put_word q b s))"
proof -
  have len: "length (holders s) = n" and inv: "lock_inv (proj p s)" for p using assms(1) by (auto simp: holder_inv_def)
  have "lock_inv (proj p (put_holder i h (put_word q b s)))" for p
  proof (cases "p = q")
    case True
    then show ?thesis using assms(4) by (simp add: set_role_def)
  next
    case False
    then have "(proj p s)\<lparr>roles := (roles (proj p s))[i := role_at p h]\<rparr> = proj p s"
      using assms(2,3) len list_update_id [of "roles (proj p s)" i] by simp
    then show ?thesis using False inv by simp
  qed
  then show ?thesis using len by (simp add: holder_inv_def)
qed

lemma put_word_same: "put_word p (words s p) s = s"
  by (simp add: put_word_def)

lemma holder_inv_kind:
  assumes "holder_inv n s" "i < n" "snd (holders s ! i) = None"
  shows "holder_inv n (put_holder i (k, None) s)"
  using holder_inv_put [OF assms(1,2), of 0 "(k, None)" "words s 0"] assms set_role_same [of "proj 0 s" i Idle]
  by (simp add: put_word_same role_at_def holder_inv_def)

lemma holder_new_inv:
  assumes "holder_inv n s" "i < n" "snd (holders s ! i) = None" "holder_new fuel i k lck s = Some t"
  shows "holder_inv n t"
proof (cases lck)
  case None
  then show ?thesis using assms(4) holder_inv_kind [OF assms(1-3), of k] by (simp add: holder_new_def)
next
  case (Some q)
  obtain b where b: "acquire k fuel (words s q) = Some b" "t = put_holder i (k, Some q) (put_word q b s)"
    using assms(4) Some by (auto simp: holder_new_def)
  have "lock_inv (set_role i (role_of k) b (proj q s))"
    by (rule acquire_inv) (use assms b(1) in \<open>auto simp: holder_inv_def role_at_def\<close>)
  then show ?thesis unfolding b(2)
    by (intro holder_inv_put assms) (use assms(3) in \<open>auto simp: role_at_def\<close>)
qed

lemma holder_destroy_inv:
  assumes "holder_inv n s" "i < n"
  shows "holder_inv n (holder_destroy i s)" "snd (holders (holder_destroy i s) ! i) = None"
    "fst (holders (holder_destroy i s) ! i) = fst (holders s ! i)"
proof -
  obtain k lck where h: "holders s ! i = (k, lck)" by force
  have len: "length (holders s) = n" using assms(1) by (simp add: holder_inv_def)
  show "holder_inv n (holder_destroy i s)"
  proof (cases lck)
    case (Some q)
    have "lock_inv (set_role i Idle (release k (m_bits (proj q s))) (proj q s))"
      by (rule release_inv) (use assms h Some in \<open>auto simp: holder_inv_def role_at_def\<close>)
    then have "holder_inv n (put_holder i (k, None) (put_word q (release k (words s q)) s))"
      by (intro holder_inv_put assms) (use h Some in \<open>auto simp: role_at_def\<close>)
    then show ?thesis by (simp add: holder_destroy_def h Some)
  qed (use assms h in \<open>simp add: holder_destroy_def\<close>)
  show "snd (holders (holder_destroy i s) ! i) = None" "fst (holders (holder_destroy i s) ! i) = fst (holders s ! i)"
    using assms(2) len h by (auto simp: holder_destroy_def put_holder_def put_word_def split: option.split)
qed

lemma holder_swap_inv:
  assumes "holder_inv n s" "i < n" "j < n"
  shows "holder_inv n (holder_swap i j s)"
proof -
  have len: "length (holders s) = n" and inv: "lock_inv (proj p s)" for p using assms(1) by (auto simp: holder_inv_def)
  have "lock_inv (proj p (holder_swap i j s))" for p
    by (rule lock_inv_permuted [OF inv [of p]])
       (use assms(2,3) len mset_swap [of i "roles (proj p s)" j] in
         \<open>simp_all add: holder_swap_def list_update_swap [of i j]\<close>)
  then show ?thesis using len by (simp add: holder_inv_def holder_swap_def)
qed

text \<open>Moving is exchanging with an empty holder, up to the kind of the empty one.\<close>

lemma holder_move_inv:
  assumes "holder_inv n s" "i < n" "j < n" "i \<noteq> j" "snd (holders s ! i) = None"
  shows "holder_inv n (holder_move i j s)"
proof -
  have len: "length (holders s) = n" using assms(1) by (simp add: holder_inv_def)
  have "holder_inv n (put_holder j (fst (holders s ! j), None) (holder_swap i j s))"
    by (rule holder_inv_kind [OF holder_swap_inv [OF assms(1-3)] assms(3)])
       (use assms len in \<open>simp add: holder_swap_def put_holder_def\<close>)
  moreover have "put_holder j (fst (holders s ! j), None) (holder_swap i j s) = holder_move i j s"
    using assms(4) by (simp add: holder_swap_def holder_move_def put_holder_def list_update_swap [of j i])
  ultimately show ?thesis by simp
qed

lemma holder_from_inv:
  assumes "holder_inv n s" "i < n" "j < n" "i \<noteq> j" "snd (holders s ! i) = None" "holder_from fuel i k j s = Some t"
  shows "holder_inv n t"
proof -
  obtain k' lck where h: "holders s ! j = (k', lck)" by force
  have len: "length (holders s) = n" using assms(1) by (simp add: holder_inv_def)
  show ?thesis
  proof (cases lck)
    case None
    then show ?thesis using assms(6) h holder_inv_kind [OF assms(1,2,5), of k] by (simp add: holder_from_def)
  next
    case (Some q)
    obtain b where b: "convert k' k fuel (words s q) = Some b"
        "t = put_holder i (k, Some q) (put_holder j (k', None) (put_word q b s))"
      using assms(6) Some h by (auto simp: holder_from_def)
    define u where "u = put_holder j (k, Some q) (put_word q b s)"
    have "lock_inv (set_role j (role_of k) b (proj q s))"
      by (rule convert_inv [where k' = k' and fuel = fuel]) (use assms h Some b(1) in \<open>auto simp: holder_inv_def role_at_def\<close>)
    then have u: "holder_inv n u" unfolding u_def
      by (intro holder_inv_put assms) (use h Some in \<open>auto simp: role_at_def\<close>)
    have ui: "snd (holders u ! i) = None" using assms(4,5) by (simp add: u_def put_holder_def put_word_def)
    have m: "holder_inv n (holder_move i j u)" by (rule holder_move_inv [OF u assms(2-4) ui])
    have "snd (holders (holder_move i j u) ! j) = None"
      using assms(3,4) len by (simp add: holder_move_def u_def put_holder_def put_word_def)
    from holder_inv_kind [OF m assms(3) this, of k'] have "holder_inv n (put_holder j (k', None) (holder_move i j u))" .
    moreover have "put_holder j (k', None) (holder_move i j u) = t"
      unfolding b(2) using assms(3,4) len
      by (simp add: holder_move_def u_def put_holder_def put_word_def list_update_swap [of j i])
    ultimately show ?thesis by simp
  qed
qed

lemma holder_reach_inv: "holder_reach n s \<Longrightarrow> n < 2 ^ 28 \<Longrightarrow> holder_inv n s"
proof (induction rule: holder_reach.induct)
  case start
  have "lock_inv (proj p \<lparr>words = \<lambda>_. 0, holders = replicate n (ReadHolder, None)\<rparr>)" for p
    using lock_reach_inv [OF lock_reach_init start] by (simp add: proj_def role_at_def)
  then show ?case by (simp add: holder_inv_def)
next
  case (reset s i fuel lck t)
  then have s: "holder_inv n s" by simp
  show ?case
  proof (cases "lck = snd (holders s ! i)")
    case True
    then show ?thesis using reset.hyps(3) s by (simp add: holder_reset_def)
  next
    case False
    then have "holder_new fuel i (fst (holders s ! i)) lck (holder_destroy i s) = Some t"
      using reset.hyps(3) by (simp add: holder_reset_def)
    then show ?thesis
      by (rule holder_new_inv [OF holder_destroy_inv(1) [OF s reset.hyps(2)] reset.hyps(2)
            holder_destroy_inv(2) [OF s reset.hyps(2)]])
  qed
next
  case (new s i fuel k lck t)
  then show ?case by (intro holder_new_inv [of n s i fuel k lck t]) simp_all
next
  case (convert s i j fuel k t)
  then show ?case by (intro holder_from_inv [of n s i j fuel k t]) simp_all
next
  case (swap s i j)
  then show ?case by (intro holder_swap_inv) simp_all
next
  case (move s i j)
  then show ?case by (intro holder_move_inv) simp_all
next
  case (destroy s i)
  then show ?case by (intro holder_destroy_inv(1)) simp_all
qed

text \<open>
  C22 The holders keep what they promise: while a \<^verbatim>\<open>write_holder\<close> points to
  a lock, no other holder does, and at most one \<^verbatim>\<open>upgraded_holder\<close> does,
  whatever holders were constructed, moved, swapped, reset, up- or downgraded and destroyed before;
  and a lock no holder points to is free.
\<close>

theorem holders_exclusive:
  assumes "holder_reach n s" "n < 2 ^ 28" "i < n" "j < n" "i \<noteq> j"
  shows "(holders s ! i = (WriteHolder, Some p) \<longrightarrow> snd (holders s ! j) \<noteq> Some p)
    \<and> \<not> (holders s ! i = (UpgradedHolder, Some p) \<and> holders s ! j = (UpgradedHolder, Some p))
    \<and> ((\<forall>h \<in> set (holders s). snd h \<noteq> Some p) \<longrightarrow> words s p = 0)"
proof -
  let ?rs = "roles (proj p s)"
  have inv: "holder_inv n s" by (rule holder_reach_inv [OF assms(1,2)])
  have len: "length (holders s) = n" using inv by (simp add: holder_inv_def)
  have c: "counts_ok (words s p) ?rs" using inv by (auto simp: holder_inv_def lock_inv_def)
  have t: "f (role_at p (holders s ! i)) + f (role_at p (holders s ! j)) \<le> total f ?rs" for f
    using total_two [of i ?rs j f] assms(3-5) len by simp
  have "ex (role_at p (holders s ! i)) + ex (role_at p (holders s ! j)) \<le> 1" using t [of ex] c by (simp add: counts_ok_def)
  moreover have "wr (role_at p (holders s ! i)) = 0 \<or> dr (role_at p (holders s ! j)) = 0"
    using t [of wr] t [of dr] c by (auto simp: counts_ok_def)
  moreover have "words s p = 0" if "\<forall>h \<in> set (holders s). snd h \<noteq> Some p"
  proof -
    have "?rs = map (\<lambda>_. Idle) (holders s)" using that by (auto simp: proj_def role_at_def)
    then have "total f ?rs = 0" if "f Idle = 0" for f using that by (simp add: total_def)
    then show ?thesis using c by (simp add: counts_ok_def bits_zero)
  qed
  ultimately show ?thesis
    by (cases "fst (holders s ! j)") (auto simp: role_at_def)
qed

theorem holders_exclusive_witness:
  "\<exists>s. holder_new 1 0 WriteHolder (Some 7) \<lparr>words = \<lambda>_. 0, holders = replicate 2 (ReadHolder, None)\<rparr> = Some s
    \<and> holders s ! 0 = (WriteHolder, Some 7) \<and> snd (holders s ! 1) \<noteq> Some 7"
proof -
  let ?s0 = "\<lparr>words = \<lambda>_. 0, holders = replicate 2 (ReadHolder, None)\<rparr> :: holding"
  obtain s where s: "holder_new 1 0 WriteHolder (Some 7) ?s0 = Some s" "holders s ! 0 = (WriteHolder, Some 7)"
    by (auto simp: holder_new_def lock_def try_lock_def put_holder_def put_word_def numeral_2_eq_2)
  have "holder_reach 2 s" by (rule holder_reach.new [OF holder_reach.start _ _ s(1)]) auto
  from holders_exclusive [OF this, of 0 1 7] s show ?thesis by auto
qed

section \<open>The spin lock\<close>

text \<open>
  \<^verbatim>\<open>tf::spinlock\<close>: \<^verbatim>\<open>test_and_set\<close> gives the old value; a thread that finds the flag set tries
  again. \<open>inside\<close> says which threads are between \<^verbatim>\<open>lock\<close> and \<^verbatim>\<open>unlock\<close>, that is which hold a
  \<^verbatim>\<open>spinlock_auto\<close>.
\<close>

record spinlock =
  m_locked :: bool
  inside :: "bool list"

definition test_and_set :: "nat \<Rightarrow> spinlock \<Rightarrow> spinlock" where
  "test_and_set i s = (if m_locked s then s else s\<lparr>m_locked := True, inside := (inside s)[i := True]\<rparr>)"

definition spin_unlock :: "nat \<Rightarrow> spinlock \<Rightarrow> spinlock" where
  "spin_unlock i s = s\<lparr>m_locked := False, inside := (inside s)[i := False]\<rparr>"

inductive spinlock_reach :: "nat \<Rightarrow> spinlock \<Rightarrow> bool" for n where
  start: "spinlock_reach n \<lparr>m_locked = False, inside = replicate n False\<rparr>"
| try_lock: "spinlock_reach n s \<Longrightarrow> i < n \<Longrightarrow> \<not> inside s ! i \<Longrightarrow> spinlock_reach n (test_and_set i s)"
| unlock: "spinlock_reach n s \<Longrightarrow> i < n \<Longrightarrow> inside s ! i \<Longrightarrow> spinlock_reach n (spin_unlock i s)"

lemma spinlock_reach_inv:
  "spinlock_reach n s \<Longrightarrow> length (inside s) = n \<and> (m_locked s \<longleftrightarrow> True \<in> set (inside s))
    \<and> (\<forall>i j. i < n \<longrightarrow> j < n \<longrightarrow> inside s ! i \<longrightarrow> inside s ! j \<longrightarrow> i = j)"
proof (induction rule: spinlock_reach.induct)
  case (try_lock s i)
  then show ?case
    by (auto simp: test_and_set_def nth_list_update set_conv_nth split: if_splits)
next
  case (unlock s i)
  then show ?case by (auto simp: spin_unlock_def nth_list_update in_set_conv_nth split: if_splits)
qed auto

text \<open>
  At most one thread is inside the spin lock, and when none is, the next attempt succeeds.
\<close>

theorem spinlock_exclusive:
  assumes "spinlock_reach n s" "i < n" "j < n"
  shows "(inside s ! i \<longrightarrow> inside s ! j \<longrightarrow> i = j) \<and> (True \<notin> set (inside s) \<longrightarrow> inside (test_and_set i s) ! i)"
  using spinlock_reach_inv [OF assms(1)] assms(2,3) by (auto simp: test_and_set_def)

theorem spinlock_exclusive_witness:
  "inside (test_and_set 1 \<lparr>m_locked = False, inside = [False, False]\<rparr>) ! 1"
  using spinlock_exclusive [OF spinlock_reach.start [of 2], of 1 0] by (simp add: numeral_2_eq_2)

end
