(* ===== verification/Event_Locking.thy ===== *)
theory Event_Locking
  imports RW_Lock
begin

text \<open>
  How the global event manager (\<^verbatim>\<open>event/GlobalEventManager.cpp\<close>) uses its reader-writer lock. An
  operation is the sequence of its calls on the lock and its accesses to the handler tables;
  \<open>run_locks\<close> runs one on the word of the lock without interference, where a spinning call gets
  \<open>fuel\<close> attempts.
\<close>

datatype lock_call =
    LockShared | UnlockShared | LockUpgrade | UnlockUpgrade | LockWriter | UnlockWriter
  | ReadTable | WriteTable

definition register_locks :: "lock_call list" where
  "register_locks = [LockWriter, WriteTable, UnlockWriter]"

text \<open>The removal of the last handler of a descriptor, of a timer, and of a signal (which erases first).\<close>

definition unregister_io_locks :: "lock_call list" where
  "unregister_io_locks = [LockShared, ReadTable, LockUpgrade, WriteTable, UnlockUpgrade, UnlockShared]"

definition unregister_signal_locks :: "lock_call list" where
  "unregister_signal_locks = [LockShared, ReadTable, WriteTable, LockUpgrade, UnlockUpgrade, UnlockShared]"

text \<open>The loop over the handlers of an event, with what their callbacks do.\<close>

definition foreach_locks :: "lock_call list \<Rightarrow> lock_call list" where
  "foreach_locks callback = [LockShared, ReadTable] @ callback @ [UnlockShared]"

fun lock_call_effect :: "nat \<Rightarrow> lock_call \<Rightarrow> u32 \<Rightarrow> u32 option" where
  "lock_call_effect fuel LockShared b = lock_shared fuel b"
| "lock_call_effect fuel UnlockShared b = Some (unlock_shared b)"
| "lock_call_effect fuel LockUpgrade b = lock_upgrade fuel b"
| "lock_call_effect fuel UnlockUpgrade b = Some (unlock_upgrade b)"
| "lock_call_effect fuel LockWriter b = lock fuel b"
| "lock_call_effect fuel UnlockWriter b = Some (unlock b)"
| "lock_call_effect fuel ReadTable b = Some b"
| "lock_call_effect fuel WriteTable b = Some b"

fun run_locks :: "nat \<Rightarrow> lock_call list \<Rightarrow> u32 \<Rightarrow> u32 option" where
  "run_locks fuel [] b = Some b"
| "run_locks fuel (c # cs) b = Option.bind (lock_call_effect fuel c b) (run_locks fuel cs)"

lemma lock_stuck: "b \<noteq> 0 \<Longrightarrow> lock fuel b = None"
  unfolding lock_def by (induction fuel) (simp_all add: try_lock_def)

lemma lock_shared_nonzero:
  assumes "lock_shared fuel b = Some b'" "high b + 1 < 2 ^ 30"
  shows "b' \<noteq> 0"
  using assms(1) unfolding lock_shared_def
proof (induction fuel)
  case (Suc fuel)
  have "backout_shared (b + 4) = b" by (simp add: backout_shared_def)
  then show ?case using Suc add_reader [OF assms(2)] bits_zero [of "b + 4"]
    by (auto simp: try_lock_shared_def split: if_splits)
qed simp

text \<open>
  A callback that the event loop runs must not register a handler: the loop over the
  handlers holds the lock shared, and the registration asks for it exclusively, so that it
  never returns, whatever the state of the lock was. A transport whose connection is lost and
  at once made again does this, through its notification handler.
\<close>

theorem callback_registration_deadlocks:
  assumes "high b + 1 < 2 ^ 30"
  shows "run_locks fuel (foreach_locks register_locks) b = None"
  using lock_shared_nonzero [OF _ assms] lock_stuck
  by (cases "lock_shared fuel b") (auto simp: foreach_locks_def register_locks_def)

theorem callback_registration_deadlocks_witness: "run_locks 1000 (foreach_locks register_locks) 0 = None"
  using callback_registration_deadlocks [of 0 1000] by (simp add: high_def)

text \<open>
  Everything else a callback may do on the lock comes back: outside a callback a handler is
  registered, and inside one handlers are removed, with the lock free again afterwards.
\<close>

theorem event_locks_balanced:
  assumes "0 < fuel"
  shows "run_locks fuel register_locks 0 = Some 0 \<and> run_locks fuel (foreach_locks []) 0 = Some 0
    \<and> run_locks fuel (foreach_locks unregister_io_locks) 0 = Some 0
    \<and> run_locks fuel (foreach_locks unregister_signal_locks) 0 = Some 0"
proof -
  obtain k where "fuel = Suc k" using assms gr0_implies_Suc by blast
  then show ?thesis
    by (simp add: register_locks_def foreach_locks_def unregister_io_locks_def unregister_signal_locks_def
        lock_def lock_shared_def lock_upgrade_def lock_bits unlock_def)
qed

theorem event_locks_balanced_witness: "run_locks 1 (foreach_locks unregister_io_locks) 0 = Some 0"
  using event_locks_balanced [of 1] by simp

text \<open>
  The upgrade does not exclude the readers that are already there: the state in which thread 0
  walks over the handlers of a descriptor while thread 1, which holds the lock shared and
  upgradable (its two holds are the places 1 and 2), erases an entry, is reachable.
\<close>

theorem erase_races_with_loop:
  "\<exists>s. lock_reach 3 s \<and> roles s = [Reader, Reader, Upgrader]"
proof -
  let ?s = "\<lambda>b rs. \<lparr>m_bits = b, roles = rs\<rparr> :: locked"
  have 0: "lock_reach 3 (?s 0 [Idle, Idle, Idle])" using lock_reach_init [of 3] by (simp add: numeral_3_eq_3)
  have 1: "lock_reach 3 (?s 4 [Reader, Idle, Idle])"
    using lock_reach_step [OF 0 lock_step.intros(2) [of 0 _ True 4]] by (simp add: lock_bits set_role_def)
  have 2: "lock_reach 3 (?s 8 [Reader, Reader, Idle])"
    using lock_reach_step [OF 1 lock_step.intros(2) [of 1 _ True 8]] by (simp add: lock_bits set_role_def)
  have "lock_reach 3 (?s 10 [Reader, Reader, Upgrader])"
    using lock_reach_step [OF 2 lock_step.intros(4) [of 2 _ True 10]] by (simp add: lock_bits set_role_def)
  then show ?thesis by force
qed

end
