(* ===== verification/Session.thy ===== *)
theory Session
  imports FP_Prelude Status
begin

text \<open>
  The session (\<^verbatim>\<open>event/Session.cpp\<close>): starting and stopping the thread that runs the global event
  manager, together with \<^verbatim>\<open>GlobalEventManager::notify\<close> and the flag of
  \<^verbatim>\<open>EventManager::waitForEvent\<close>, which decide whether a waiting thread wakes up. The thread that
  calls \<^verbatim>\<open>start\<close> and \<^verbatim>\<open>stop\<close> and the event loop take turns, one access to shared data at a time;
  an action names who moves. \<open>None\<close> means that the action is not possible: the thread is
  blocked, or there is nothing for it to do. The wait on the condition variable may end without a
  notification, and \<^verbatim>\<open>start\<close> waits without a predicate.
\<close>

datatype caller_at =
    Outside
  | AtWait                      \<comment> \<open>\<open>start\<close>, in \<open>condition.wait\<close>\<close>
  | AtNotify                    \<comment> \<open>\<open>stop\<close>, before \<open>notify\<close> looks at \<open>m_in_event_wait\<close>\<close>
  | AtWrite                     \<comment> \<open>in \<open>notify\<close>, before the write to the notifier\<close>
  | AtJoin

datatype loop_at =
    NoThread
  | AtMutex                     \<comment> \<open>before the lock guard and \<open>notify_all\<close>\<close>
  | AtCheck                     \<comment> \<open>before the test of \<open>m_shutdown\<close>\<close>
  | AtEnter                     \<comment> \<open>in \<open>waitForEvent\<close>, before \<open>m_in_event_wait\<close> is set\<close>
  | Polling
  | AtLeave                     \<comment> \<open>before \<open>m_in_event_wait\<close> is cleared\<close>
  | AtClear                     \<comment> \<open>before \<open>m_shutdown.store(false)\<close>\<close>
  | AtReset                     \<comment> \<open>before \<open>m_eventManager.reset\<close>\<close>
  | Finished

record session =
  m_started :: bool
  m_shutdown :: bool
  se_manager :: bool            \<comment> \<open>\<open>m_eventManager\<close> is not null\<close>
  m_in_event_wait :: bool
  se_notified :: bool           \<comment> \<open>the notifier of the event manager is readable\<close>
  se_sync :: bool               \<comment> \<open>the mutex and the condition of \<open>start\<close> exist\<close>
  se_woken :: bool              \<comment> \<open>\<open>notify_all\<close> was called\<close>
  se_caller :: caller_at
  se_loop :: loop_at
  se_returned :: "status list"

definition session_new :: session where
  "session_new = \<lparr>m_started = False, m_shutdown = False, se_manager = False, m_in_event_wait = False,
     se_notified = False, se_sync = False, se_woken = False, se_caller = Outside, se_loop = NoThread, se_returned = []\<rparr>"

text \<open>\<^verbatim>\<open>start\<close> up to the wait: the caller holds the mutex from before the thread is created until it waits.\<close>

definition start :: "session \<Rightarrow> session" where
  "start s =
    (if m_started s then s\<lparr>se_returned := se_returned s @ [OK]\<rparr>
     else s\<lparr>se_manager := True, m_in_event_wait := False, se_notified := False, se_sync := True, se_woken := False,
            se_loop := AtMutex, se_caller := AtWait\<rparr>)"

definition started :: "session \<Rightarrow> session" where
  "started s = s\<lparr>m_started := True, se_sync := False, se_caller := Outside, se_returned := se_returned s @ [OK]\<rparr>"

definition stop :: "session \<Rightarrow> session" where
  "stop s =
    (if \<not> m_started s then s\<lparr>se_returned := se_returned s @ [EVM_NOTRUNNING]\<rparr>
     else s\<lparr>m_shutdown := True, se_caller := AtNotify\<rparr>)"

definition stopped :: "session \<Rightarrow> session" where
  "stopped s = s\<lparr>m_started := False, se_loop := NoThread, se_caller := Outside, se_returned := se_returned s @ [OK]\<rparr>"

text \<open>\<^verbatim>\<open>GlobalEventManager::notify\<close>, in two steps, through the pointer of the session.\<close>

definition notify_step :: "session \<Rightarrow> session outcome" where
  "notify_step s =
    (if \<not> se_manager s then Inl UseAfterFree
     else if se_caller s = AtNotify then Inr (s\<lparr>se_caller := if m_in_event_wait s then AtWrite else AtJoin\<rparr>)
     else Inr (s\<lparr>se_notified := True, se_caller := AtJoin\<rparr>))"

text \<open>\<open>spurious\<close>: the wait ends although nobody called \<^verbatim>\<open>notify_all\<close>.\<close>

definition caller_step :: "bool \<Rightarrow> session \<Rightarrow> session outcome option" where
  "caller_step spurious s =
    (case se_caller s of
       Outside \<Rightarrow> None
     | AtWait \<Rightarrow> if se_woken s \<or> spurious then Some (Inr (started s)) else None
     | AtNotify \<Rightarrow> Some (notify_step s)
     | AtWrite \<Rightarrow> Some (notify_step s)
     | AtJoin \<Rightarrow> if se_loop s = Finished then Some (Inr (stopped s)) else None)"

text \<open>The event loop; \<open>event\<close> says whether a registered event arrives while it polls.\<close>

definition loop_step :: "bool \<Rightarrow> session \<Rightarrow> session outcome option" where
  "loop_step event s =
    (case se_loop s of
       NoThread \<Rightarrow> None
     | AtMutex \<Rightarrow> if se_sync s then Some (Inr (s\<lparr>se_woken := True, se_loop := AtCheck\<rparr>)) else Some (Inl UseAfterFree)
     | AtCheck \<Rightarrow> Some (Inr (s\<lparr>se_loop := if m_shutdown s then AtClear else AtEnter\<rparr>))
     | AtEnter \<Rightarrow> Some (Inr (s\<lparr>m_in_event_wait := True, se_loop := Polling\<rparr>))
     | Polling \<Rightarrow> if se_notified s \<or> event then Some (Inr (s\<lparr>se_loop := AtLeave\<rparr>)) else None
     | AtLeave \<Rightarrow> Some (Inr (s\<lparr>m_in_event_wait := False, se_loop := AtCheck\<rparr>))
     | AtClear \<Rightarrow> Some (Inr (s\<lparr>m_shutdown := False, se_loop := AtReset\<rparr>))
     | AtReset \<Rightarrow> Some (Inr (s\<lparr>se_manager := False, se_loop := Finished\<rparr>))
     | Finished \<Rightarrow> None)"

datatype action = Start | Stop | Caller bool | Loop bool

fun session_step :: "action \<Rightarrow> session \<Rightarrow> session outcome option" where
  "session_step Start s = (if se_caller s = Outside then Some (Inr (start s)) else None)"
| "session_step Stop s = (if se_caller s = Outside then Some (Inr (stop s)) else None)"
| "session_step (Caller spurious) s = caller_step spurious s"
| "session_step (Loop event) s = loop_step event s"

text \<open>The runs, with or without wake-ups that are spurious.\<close>

inductive session_reach :: "bool \<Rightarrow> session \<Rightarrow> bool" for spurious where
  new: "session_reach spurious session_new"
| step: "session_reach spurious s \<Longrightarrow> (a = Caller True \<longrightarrow> spurious) \<Longrightarrow> session_step a s = Some (Inr t) \<Longrightarrow> session_reach spurious t"

text \<open>Where the two threads can be together.\<close>

fun running :: "loop_at \<Rightarrow> bool" where
  "running AtCheck \<longleftrightarrow> True" | "running AtEnter \<longleftrightarrow> True" | "running Polling \<longleftrightarrow> True" | "running AtLeave \<longleftrightarrow> True"
| "running _ \<longleftrightarrow> False"

text \<open>After a spurious wake-up the new thread is about to lock a mutex that is gone.\<close>

definition doomed :: "bool \<Rightarrow> session \<Rightarrow> bool" where
  "doomed spurious s \<longleftrightarrow> spurious \<and> se_loop s = AtMutex \<and> \<not> se_sync s \<and> se_manager s"

definition session_inv :: "bool \<Rightarrow> session \<Rightarrow> bool" where
  "session_inv spurious s \<longleftrightarrow>
     (case se_caller s of
        Outside \<Rightarrow> if m_started s then (running (se_loop s) \<or> doomed spurious s) \<and> se_manager s \<and> \<not> m_shutdown s
                   else se_loop s = NoThread \<and> \<not> se_manager s \<and> \<not> m_shutdown s
      | AtWait \<Rightarrow> \<not> m_started s \<and> se_manager s \<and> \<not> m_shutdown s \<and> se_sync s
                  \<and> (if se_woken s then running (se_loop s) else se_loop s = AtMutex)
      | _ \<Rightarrow> m_started s \<and> (running (se_loop s) \<or> se_loop s = AtClear \<longrightarrow> m_shutdown s \<and> se_manager s)
              \<and> (se_loop s = AtReset \<longrightarrow> \<not> m_shutdown s \<and> se_manager s)
              \<and> (se_loop s = Finished \<longrightarrow> \<not> m_shutdown s \<and> \<not> se_manager s)
              \<and> (running (se_loop s) \<or> se_loop s \<in> {AtClear, AtReset, Finished} \<or> doomed spurious s))"

lemmas session_defs = start_def started_def stop_def stopped_def notify_step_def caller_step_def loop_step_def

lemma caller_step_inv:
  assumes "session_inv b s" "spurious \<longrightarrow> b" "caller_step spurious s = Some (Inr t)"
  shows "session_inv b t"
proof (cases "se_caller s")
  case AtWait
  then show ?thesis using assms by (auto simp: caller_step_def started_def session_inv_def doomed_def split: if_splits)
next
  case AtNotify
  then show ?thesis using assms by (auto simp: caller_step_def notify_step_def session_inv_def doomed_def split: if_splits)
next
  case AtWrite
  then show ?thesis using assms by (auto simp: caller_step_def notify_step_def session_inv_def doomed_def split: if_splits)
next
  case AtJoin
  then show ?thesis using assms by (auto simp: caller_step_def stopped_def session_inv_def doomed_def split: if_splits)
qed (use assms in \<open>simp add: caller_step_def\<close>)

lemma loop_step_inv:
  assumes "session_inv b s" "loop_step event s = Some (Inr t)"
  shows "session_inv b t"
proof -
  note d = loop_step_def session_inv_def doomed_def
  show ?thesis
  proof (cases "se_caller s")
    case Outside
    then show ?thesis using assms by (cases "m_started s"; cases "se_loop s") (auto simp: d split: if_splits)
  next
    case AtWait
    then show ?thesis using assms by (cases "se_woken s"; cases "se_loop s") (auto simp: d split: if_splits)
  next
    case AtNotify
    then show ?thesis using assms by (cases "se_loop s") (auto simp: d split: if_splits)
  next
    case AtWrite
    then show ?thesis using assms by (cases "se_loop s") (auto simp: d split: if_splits)
  next
    case AtJoin
    then show ?thesis using assms by (cases "se_loop s") (auto simp: d split: if_splits)
  qed
qed

lemma session_step_inv:
  assumes "session_inv b s" "a = Caller True \<longrightarrow> b" "session_step a s = Some (Inr t)"
  shows "session_inv b t"
proof (cases a)
  case Start
  then show ?thesis using assms by (auto simp: session_inv_def doomed_def start_def split: if_splits)
next
  case Stop
  then show ?thesis using assms by (auto simp: session_inv_def doomed_def stop_def split: if_splits)
next
  case (Caller spurious)
  then show ?thesis using assms caller_step_inv [of b s spurious t] by simp
next
  case (Loop event)
  then show ?thesis using assms loop_step_inv by simp
qed

lemma session_reach_inv: "session_reach b s \<Longrightarrow> session_inv b s"
proof (induction rule: session_reach.induct)
  case new
  show ?case by (simp add: session_inv_def doomed_def session_new_def)
next
  case (step s a t)
  show ?case by (rule session_step_inv [OF step.IH step.hyps(2,3)])
qed

text \<open>A schedule, run from the beginning.\<close>

fun run_actions :: "action list \<Rightarrow> session \<Rightarrow> session outcome option" where
  "run_actions [] s = Some (Inr s)"
| "run_actions (a # as) s =
    (case session_step a s of Some (Inr t) \<Rightarrow> run_actions as t | r \<Rightarrow> r)"

lemma run_actions_reach:
  "run_actions as s = Some (Inr t) \<Longrightarrow> (Caller True \<in> set as \<longrightarrow> b) \<Longrightarrow> session_reach b s \<Longrightarrow> session_reach b t"
proof (induction as arbitrary: s)
  case (Cons a as)
  then obtain u where u: "session_step a s = Some (Inr u)" "run_actions as u = Some (Inr t)"
    by (auto split: option.splits sum.splits)
  have "session_reach b u" by (rule session_reach.step [OF Cons.prems(3) _ u(1)]) (use Cons.prems(2) in auto)
  then show ?case using Cons.IH [OF u(2)] Cons.prems(2) by auto
qed simp

definition up :: "action list" where "up = [Start, Loop False, Caller False]"

text \<open>The actions of a \<^verbatim>\<open>stop\<close> that finds the loop polling.\<close>

definition down :: "action list" where
  "down = [Stop, Caller False, Caller False, Loop False, Loop False, Loop False, Loop False, Loop False, Caller False]"

text \<open>
  C30 Between calls the session is up or down. After a \<^verbatim>\<open>stop\<close> that returned
  there is no thread, no event manager and no left-over request to shut down, so that it can be
  started again. After a \<^verbatim>\<open>start\<close> the event manager exists, no shutdown is
  pending, and the event loop runs; or else the wait of \<^verbatim>\<open>start\<close> ended with
  a spurious wake-up, and then the next step of the new thread is to use the mutex of
  \<^verbatim>\<open>start\<close>, which is gone. Without spurious wake-ups the event loop runs.
\<close>

theorem session_up_or_down:
  assumes "session_reach spurious s" "se_caller s = Outside"
  shows "\<not> m_shutdown s
    \<and> (if m_started s then se_manager s \<and> (running (se_loop s) \<or> spurious \<and> session_step (Loop event) s = Some (Inl UseAfterFree))
       else se_loop s = NoThread \<and> \<not> se_manager s)"
  using session_reach_inv [OF assms(1)] assms(2)
  by (auto simp: session_inv_def doomed_def loop_step_def split: if_splits)

theorem session_up_or_down_witness:
  "\<exists>s t. run_actions (up @ [Loop False, Loop False]) session_new = Some (Inr s) \<and> running (se_loop s) \<and> se_manager s
    \<and> run_actions (up @ [Loop False, Loop False] @ down) session_new = Some (Inr t) \<and> se_loop t = NoThread \<and> \<not> se_manager t"
proof -
  obtain s where s: "run_actions (up @ [Loop False, Loop False]) session_new = Some (Inr s)" "se_caller s = Outside" "m_started s"
    by (simp add: up_def session_defs session_new_def)
  obtain t where t: "run_actions (up @ [Loop False, Loop False] @ down) session_new = Some (Inr t)" "se_caller t = Outside" "\<not> m_started t"
    by (simp add: up_def down_def session_defs session_new_def)
  have "session_reach False s" "session_reach False t"
    by (rule run_actions_reach [OF s(1) _ session_reach.new], simp add: up_def)
      (rule run_actions_reach [OF t(1) _ session_reach.new], simp add: up_def down_def)
  then show ?thesis
    using s t session_up_or_down [of False s] session_up_or_down [of False t] by auto
qed

text \<open>
  \<^verbatim>\<open>start\<close> can fault: when the wait ends with a spurious wake-up, it returns and destroys the mutex and the
  condition before the new thread locks the one and notifies the other.
\<close>

theorem spurious_start_faults:
  "\<exists>s. session_reach True s \<and> se_caller s = Outside \<and> m_started s \<and> last (se_returned s) = OK
    \<and> session_step (Loop event) s = Some (Inl UseAfterFree)"
proof -
  obtain s where s: "run_actions [Start, Caller True] session_new = Some (Inr s)" "se_caller s = Outside" "m_started s"
      "last (se_returned s) = OK" "se_loop s = AtMutex" "\<not> se_sync s"
    by (simp add: session_defs session_new_def)
  have "session_reach True s" by (rule run_actions_reach [OF s(1) _ session_reach.new]) simp
  then show ?thesis using s by (intro exI [of _ s]) (simp add: loop_step_def)
qed

text \<open>
  \<^verbatim>\<open>stop\<close> can hang: the event loop tests \<^verbatim>\<open>m_shutdown\<close>, then \<^verbatim>\<open>stop\<close> sets it and finds
  \<^verbatim>\<open>m_in_event_wait\<close> not yet set, so that it does not write to the notifier, and then the loop
  goes to poll; \<^verbatim>\<open>stop\<close> waits for the thread, which waits for an event that nobody sends.
\<close>

theorem stop_can_hang:
  "\<exists>s. session_reach False s \<and> se_caller s = AtJoin \<and> m_shutdown s
    \<and> (\<forall>a. a = Loop True \<or> session_step a s = None)"
proof -
  obtain s where s: "run_actions (up @ [Loop False, Stop, Caller False, Loop False]) session_new = Some (Inr s)"
      "se_caller s = AtJoin" "se_loop s = Polling" "\<not> se_notified s" "m_shutdown s"
    by (simp add: up_def session_defs session_new_def)
  have "a = Loop True \<or> session_step a s = None" for a
    using s(2-4) by (cases a) (auto simp: caller_step_def loop_step_def)
  then show ?thesis
    by (intro exI [of _ s] conjI allI run_actions_reach [OF s(1) _ session_reach.new] s(2,5)) (simp add: up_def)
qed

text \<open>
  \<^verbatim>\<open>stop\<close> can fault: once it has set \<^verbatim>\<open>m_shutdown\<close> the event loop may finish and destroy the event
  manager before \<^verbatim>\<open>stop\<close> calls \<^verbatim>\<open>notify\<close> on it.
\<close>

theorem stop_can_fault:
  "\<exists>s. session_reach False s \<and> se_caller s = AtNotify \<and> session_step (Caller False) s = Some (Inl UseAfterFree)"
proof -
  obtain s where s: "run_actions (up @ [Stop, Loop False, Loop False, Loop False]) session_new = Some (Inr s)"
      "se_caller s = AtNotify" "\<not> se_manager s"
    by (simp add: up_def session_defs session_new_def)
  have "session_step (Caller False) s = Some (Inl UseAfterFree)" using s(2,3) by (simp add: caller_step_def notify_step_def)
  then show ?thesis by (intro exI [of _ s] conjI run_actions_reach [OF s(1) _ session_reach.new] s(2)) (simp add: up_def)
qed

text \<open>
  \<^verbatim>\<open>stop\<close> works as meant when the loop is polling: it is notified, leaves the poll, finishes, and
  \<^verbatim>\<open>stop\<close> returns \<^verbatim>\<open>OK\<close> with the session down.
\<close>

theorem stop_of_polling_session:
  assumes "session_reach False s" "se_caller s = Outside" "m_started s" "se_loop s = Polling" "m_in_event_wait s"
  shows "\<exists>t. run_actions down s = Some (Inr t)
    \<and> se_caller t = Outside \<and> \<not> m_started t \<and> se_loop t = NoThread \<and> last (se_returned t) = OK"
  using session_reach_inv [OF assms(1)] assms(2-5) by (auto simp: session_inv_def down_def session_defs)

theorem stop_of_polling_session_witness:
  "\<exists>s t. run_actions (up @ [Loop False, Loop False]) session_new = Some (Inr s)
    \<and> run_actions down s = Some (Inr t) \<and> \<not> m_started t"
proof -
  obtain s where s: "run_actions (up @ [Loop False, Loop False]) session_new = Some (Inr s)"
      "se_caller s = Outside" "m_started s" "se_loop s = Polling" "m_in_event_wait s"
    by (simp add: up_def session_defs session_new_def)
  then show ?thesis using stop_of_polling_session [OF run_actions_reach [OF s(1) _ session_reach.new] s(2-5)] by (auto simp: up_def)
qed

end
