(* ===== verification/Shm_Transport.thy ===== *)
theory Shm_Transport
  imports Router_Correct Tcp_Transport Ring_Buffer
begin

text \<open>
  The transport through shared memory: the queues of a segment (\<^verbatim>\<open>SharedMemoryBuffer.h\<close>,
  \<^verbatim>\<open>SharedMemoryManager.h\<close>), the client (\<^verbatim>\<open>SHMTransport.cpp\<close>, \<^verbatim>\<open>InterprocessNotifierClient.cpp\<close>)
  and the router's connection to it (\<^verbatim>\<open>shm_peer_connection.cpp\<close>), together with the dispatch of
  \<^verbatim>\<open>bootstrap.cpp\<close> to connections of both kinds.

  The queue, \<^verbatim>\<open>boost::lockfree::spsc_queue\<close>, is a parameter: \<open>spsc_ops\<close> has its operations, and what
  its documentation promises is the interface \<open>bounded_fifo\<close>. Its elements are shared pointers to
  a buffer (bytes of the block and length), of which \<open>None\<close> is the null pointer. The segment
  holds the queues by the process number in their name; a queue that was destroyed is gone.
  The notifiers are the numbers in them.
\<close>

section \<open>The segment\<close>

type_synonym container = "byte list \<times> nat"

record 'q spsc_ops =
  sq_new :: 'q
  sq_push :: "container option \<Rightarrow> 'q \<Rightarrow> bool \<times> 'q"
  sq_pop :: "'q \<Rightarrow> container option option \<times> 'q"

record 'q shm_segment =
  sg_client :: "int \<rightharpoonup> 'q"           \<comment> \<open>\<open>ClientQueue_<pid>\<close>\<close>
  sg_server :: "int \<rightharpoonup> 'q"           \<comment> \<open>\<open>ServerQueue_<pid>\<close>\<close>
  sg_to_client :: "int \<Rightarrow> nat"
  sg_to_router :: "int \<Rightarrow> nat"

text \<open>\<^verbatim>\<open>find_or_construct\<close>, \<^verbatim>\<open>destroy_ptr\<close>, and \<^verbatim>\<open>notify\<close>, which ignores whether the queue was full.\<close>

definition open_queue :: "'q spsc_ops \<Rightarrow> 'q option \<Rightarrow> 'q option" where
  "open_queue ops slot = (case slot of None \<Rightarrow> Some (sq_new ops) | Some q \<Rightarrow> Some q)"

definition destroy_queue :: "'q option \<Rightarrow> 'q option outcome" where
  "destroy_queue slot = (case slot of None \<Rightarrow> Inl UseAfterFree | Some q \<Rightarrow> Inr None)"

definition shm_notify :: "'q spsc_ops \<Rightarrow> container option \<Rightarrow> 'q option \<Rightarrow> 'q option outcome" where
  "shm_notify ops ptr slot =
    (case slot of None \<Rightarrow> Inl UseAfterFree | Some q \<Rightarrow> Inr (Some (snd (sq_push ops ptr q))))"

text \<open>
  \<^verbatim>\<open>retrieve\<close>: the front element is looked at, given to the callback and then popped. The queue
  is a part of the state, which \<open>get\<close> and \<open>put\<close> reach.
\<close>

fun retrieve ::
  "'q spsc_ops \<Rightarrow> ('s \<Rightarrow> 'q option) \<Rightarrow> ('q \<Rightarrow> 's \<Rightarrow> 's) \<Rightarrow> nat \<Rightarrow> (container \<Rightarrow> 's \<Rightarrow> 's outcome) \<Rightarrow> 's \<Rightarrow> 's outcome" where
  "retrieve ops get put 0 callback st = Inl OutOfFuel"
| "retrieve ops get put (Suc fuel) callback st =
    (case get st of
       None \<Rightarrow> Inl UseAfterFree
     | Some q \<Rightarrow>
         (case fst (sq_pop ops q) of
            None \<Rightarrow> Inr st
          | Some None \<Rightarrow> Inl OutOfBounds
          | Some (Some c) \<Rightarrow>
              bind_outcome (callback c st) (\<lambda>st.
              case get st of
                None \<Rightarrow> Inl UseAfterFree
              | Some q \<Rightarrow> retrieve ops get put fuel callback (put (snd (sq_pop ops q)) st))))"

text \<open>\<^verbatim>\<open>getInterprocessBuffer\<close>: the block of the storage changes hands.\<close>

definition getInterprocessBuffer :: "byte_storage \<Rightarrow> container" where
  "getInterprocessBuffer s = (m_bytes s, m_storedLength s)"

definition shared_storage :: "container \<Rightarrow> byte_storage outcome" where
  "shared_storage c = ByteStorage_bytes (\<lambda>_. 0) (fst c) (snd c) TRANSIENT"

section \<open>The client\<close>

record shm_client =
  cl_pid :: int
  cl_notifier :: bool              \<comment> \<open>\<open>m_connected\<close> of the notifier\<close>
  cl_connected :: bool
  cl_shouldDisconnect :: bool
  cl_delivered :: "message list"

type_synonym 'q client_state = "'q shm_segment \<times> shm_client"

text \<open>\<^verbatim>\<open>InterprocessNotifierClient::connect\<close>; \<open>answer\<close> is what the socket answers.\<close>

definition notifier_connect :: "bool \<Rightarrow> shm_client \<Rightarrow> bool \<times> shm_client" where
  "notifier_connect answer c =
    (if \<not> cl_notifier c \<and> answer then (True, c\<lparr>cl_notifier := True\<rparr>) else (False, c))"

text \<open>\<^verbatim>\<open>InterprocessNotifierClient::notify\<close>; \<open>written\<close> says whether the write succeeds.\<close>

definition notifier_notify :: "bool \<Rightarrow> 'q client_state \<Rightarrow> bool \<times> 'q client_state" where
  "notifier_notify written = (\<lambda>(seg, c).
    let seg = (if written then seg\<lparr>sg_to_router := (sg_to_router seg)(cl_pid c := sg_to_router seg (cl_pid c) + 1)\<rparr> else seg);
        c = (if written then c else c\<lparr>cl_notifier := False\<rparr>)
    in (cl_notifier c, seg, c))"

definition on_connect :: "'q spsc_ops \<Rightarrow> 'q client_state \<Rightarrow> 'q client_state" where
  "on_connect ops = (\<lambda>(seg, c).
    (seg\<lparr>sg_client := (sg_client seg)(cl_pid c := open_queue ops (sg_client seg (cl_pid c))),
         sg_server := (sg_server seg)(cl_pid c := open_queue ops (sg_server seg (cl_pid c)))\<rparr>,
     c\<lparr>cl_connected := True\<rparr>))"

text \<open>
  The constructor; \<open>stop\<close> is the value \<^verbatim>\<open>m_shouldDisconnect\<close> happens to have, since nothing
  initialises it. When the router does not answer, a thread goes on with \<open>shm_connect\<close>.
\<close>

definition SHMTransport_new :: "'q spsc_ops \<Rightarrow> bool \<Rightarrow> bool \<Rightarrow> int \<Rightarrow> 'q shm_segment \<Rightarrow> 'q client_state" where
  "SHMTransport_new ops stop answer pid seg =
    (let c = \<lparr>cl_pid = pid, cl_notifier = False, cl_connected = False, cl_shouldDisconnect = stop, cl_delivered = []\<rparr>;
         (ok, c) = notifier_connect answer c
     in if ok then on_connect ops (seg, c) else (seg, c))"

text \<open>\<^verbatim>\<open>__connect\<close> on its thread; the answers of the system, none left: it refuses.\<close>

fun shm_connect_loop :: "nat \<Rightarrow> bool list \<Rightarrow> shm_client \<Rightarrow> shm_client outcome" where
  "shm_connect_loop 0 answers c = Inl OutOfFuel"
| "shm_connect_loop (Suc fuel) answers c =
    (if \<not> cl_notifier c \<and> \<not> cl_shouldDisconnect c
     then let (_, c) = notifier_connect (answers \<noteq> [] \<and> hd answers) c in shm_connect_loop fuel (tl answers) c
     else Inr c)"

definition shm_connect :: "'q spsc_ops \<Rightarrow> nat \<Rightarrow> bool list \<Rightarrow> 'q client_state \<Rightarrow> 'q client_state outcome" where
  "shm_connect ops fuel answers = (\<lambda>(seg, c).
    bind_outcome (shm_connect_loop fuel answers c) (\<lambda>c.
    Inr (if \<not> cl_shouldDisconnect c then on_connect ops (seg, c) else (seg, c))))"

text \<open>\<^verbatim>\<open>__disconnect\<close>: the receiving queue is destroyed, the sending one only let go.\<close>

definition shm_disconnect :: "'q client_state \<Rightarrow> 'q client_state outcome" where
  "shm_disconnect = (\<lambda>(seg, c).
    if cl_connected c
    then bind_outcome (destroy_queue (sg_client seg (cl_pid c))) (\<lambda>slot.
         Inr (seg\<lparr>sg_client := (sg_client seg)(cl_pid c := slot)\<rparr>, c\<lparr>cl_connected := False, cl_shouldDisconnect := True\<rparr>))
    else Inr (seg, c\<lparr>cl_shouldDisconnect := True\<rparr>))"

definition shm_valid :: "shm_client \<Rightarrow> bool" where
  "shm_valid c \<longleftrightarrow> cl_notifier c \<and> cl_connected c"

definition shm_sendMessage ::
  "'q spsc_ops \<Rightarrow> (nat \<Rightarrow> byte) \<Rightarrow> bool \<Rightarrow> message \<Rightarrow> 'q client_state \<Rightarrow> (status \<times> 'q client_state) outcome" where
  "shm_sendMessage ops a written msg = (\<lambda>(seg, c).
    if cl_connected c \<and> cl_notifier c then
      bind_outcome (encode_message msg (ByteStorage_alloc a 2048)) (\<lambda>(_, storage).
      bind_outcome (shm_notify ops (Some (getInterprocessBuffer storage)) (sg_server seg (cl_pid c))) (\<lambda>slot.
      let (ok, st) = notifier_notify written (seg\<lparr>sg_server := (sg_server seg)(cl_pid c := slot)\<rparr>, c)
      in Inr (if ok then OK else CANNOT_SEND, st)))
    else Inr (CANNOT_SEND, (seg, c)))"

text \<open>The receiver: every message of the queue is decoded and handed to the callback.\<close>

definition shm_deliver :: "container \<Rightarrow> 'q client_state \<Rightarrow> 'q client_state outcome" where
  "shm_deliver ptr = (\<lambda>(seg, c).
    bind_outcome (shared_storage ptr) (\<lambda>v.
    bind_outcome (noexcept (decode_message Message_new v)) (\<lambda>(ok, m, _).
    Inr (seg, if ok then c\<lparr>cl_delivered := cl_delivered c @ [m]\<rparr> else c))))"

definition shm_receive :: "'q spsc_ops \<Rightarrow> nat \<Rightarrow> 'q client_state \<Rightarrow> 'q client_state outcome" where
  "shm_receive ops fuel st =
    retrieve ops (\<lambda>(seg, c). sg_client seg (cl_pid c))
      (\<lambda>q (seg, c). (seg\<lparr>sg_client := (sg_client seg)(cl_pid c \<mapsto> q)\<rparr>, c)) fuel shm_deliver st"

section \<open>The router\<close>

record shm_peer = peer_connection +
  sp_process_id :: int

datatype peer = TcpPeer tcp_peer | ShmPeer shm_peer

type_synonym 'q shm_router = "'q shm_segment \<times> peer list"

primrec peer_id :: "peer \<Rightarrow> nat" where
  "peer_id (TcpPeer p) = tp_id p"
| "peer_id (ShmPeer p) = tp_id p"

definition shm_peer_new :: "'q spsc_ops \<Rightarrow> nat \<Rightarrow> int \<Rightarrow> 'q shm_router \<Rightarrow> 'q shm_router" where
  "shm_peer_new ops ident pid = (\<lambda>(seg, ps).
    (seg\<lparr>sg_client := (sg_client seg)(pid := open_queue ops (sg_client seg pid)),
         sg_server := (sg_server seg)(pid := open_queue ops (sg_server seg pid))\<rparr>,
     ps @ [ShmPeer \<lparr>tp_id = ident, tp_subscriptions = [], sp_process_id = pid\<rparr>]))"

text \<open>
  \<^verbatim>\<open>message_wrapper\<close>: the encoded bytes of a message and, when it came through shared memory, the pointer
  to its buffer. \<^verbatim>\<open>getSharedPtrBuffer\<close> logs that it should create a buffer when there is none, and returns the
  null pointer.
\<close>

record message_wrapper =
  mw_byte_storage :: "byte list"
  mw_shared_ptr :: "container option"

definition message_wrapper_new :: "byte list \<Rightarrow> message_wrapper" where
  "message_wrapper_new buffer = \<lparr>mw_byte_storage = buffer, mw_shared_ptr = None\<rparr>"

definition message_wrapper_shared :: "byte list \<Rightarrow> container option \<Rightarrow> message_wrapper" where
  "message_wrapper_shared buffer shared_ptr = \<lparr>mw_byte_storage = buffer, mw_shared_ptr = shared_ptr\<rparr>"

definition getEncodedBuffer :: "message_wrapper \<Rightarrow> byte list" where
  "getEncodedBuffer w = mw_byte_storage w"

definition getSharedPtrBuffer :: "message_wrapper \<Rightarrow> container option" where
  "getSharedPtrBuffer w = (case mw_shared_ptr w of Some c \<Rightarrow> Some c | None \<Rightarrow> None)"

definition shm_sendBuffer :: "'q spsc_ops \<Rightarrow> message_wrapper \<Rightarrow> shm_peer \<Rightarrow> 'q shm_segment \<Rightarrow> 'q shm_segment outcome" where
  "shm_sendBuffer ops wrapper p seg =
    (let pid = sp_process_id p
     in bind_outcome (shm_notify ops (getSharedPtrBuffer wrapper) (sg_client seg pid)) (\<lambda>slot.
        Inr (seg\<lparr>sg_client := (sg_client seg)(pid := slot), sg_to_client := (sg_to_client seg)(pid := sg_to_client seg pid + 1)\<rparr>)))"

text \<open>\<^verbatim>\<open>bootstrap::message_handler\<close> on connections of both kinds.\<close>

fun dispatch_peers ::
  "'q spsc_ops \<Rightarrow> size_t subject \<Rightarrow> message_wrapper \<Rightarrow> 'q shm_segment \<Rightarrow> peer list \<Rightarrow> 'q shm_router outcome" where
  "dispatch_peers ops subject msgData seg [] = Inr (seg, [])"
| "dispatch_peers ops subject msgData seg (TcpPeer p # ps) =
    bind_outcome (if is_interested subject p then sendBuffer (getEncodedBuffer msgData) p else Inr p) (\<lambda>p'.
    bind_outcome (dispatch_peers ops subject msgData seg ps) (\<lambda>(seg, ps'). Inr (seg, TcpPeer p' # ps')))"
| "dispatch_peers ops subject msgData seg (ShmPeer p # ps) =
    bind_outcome (if is_interested subject p then shm_sendBuffer ops msgData p seg else Inr seg) (\<lambda>seg.
    bind_outcome (dispatch_peers ops subject msgData seg ps) (\<lambda>(seg, ps'). Inr (seg, ShmPeer p # ps')))"

definition replace_peer :: "peer \<Rightarrow> peer list \<Rightarrow> peer list" where
  "replace_peer p' ps = map (\<lambda>p. if peer_id p = peer_id p' then p' else p) ps"

text \<open>The callback of \<^verbatim>\<open>notificationHandler\<close> for one message of the connection \<open>this\<close>.\<close>

definition shm_process :: "'q spsc_ops \<Rightarrow> shm_peer \<Rightarrow> container \<Rightarrow> 'q shm_router \<Rightarrow> 'q shm_router outcome" where
  "shm_process ops this c = (\<lambda>(seg, ps).
    bind_outcome (shared_storage c) (\<lambda>v.
    let v = mark v
    in bind_outcome (addressing_details v 0) (\<lambda>(status, a, v).
       if status \<noteq> CompleteMessage then Inr (seg, ps)
       else let v = resetRead v
            in bind_outcome (case a_subject a of None \<Rightarrow> Inl OutOfBounds | Some off \<Rightarrow> string_at v off) (\<lambda>str.
               let subject = subject_new string_hash str
               in if m_is_admin subject then
                    bind_outcome (noexcept (decode_message Message_new v)) (\<lambda>(ok, m, _).
                    if ok then
                      (case find (\<lambda>p. peer_id p = tp_id this) ps of
                         Some (ShmPeer p) \<Rightarrow>
                           bind_outcome (handle_admin_message subject m p) (\<lambda>p'. Inr (seg, replace_peer (ShmPeer p') ps))
                       | _ \<Rightarrow> Inl UseAfterFree)
                    else Inr (seg, ps))
                  else dispatch_peers ops subject (message_wrapper_shared (content v) (Some c)) seg ps))))"

text \<open>
  \<^verbatim>\<open>tcp_peer_connection::process_buffer\<close> on connections of both kinds: the message of a TCP connection is
  handed on in a wrapper without a shared pointer.
\<close>

definition both_process_buffer ::
  "'q spsc_ops \<Rightarrow> nat \<Rightarrow> byte_storage \<Rightarrow> 'q shm_router \<Rightarrow> (MessageDecodeStatus \<times> byte_storage \<times> 'q shm_router) outcome" where
  "both_process_buffer ops this buffer = (\<lambda>(seg, ps).
    let buffer = mark buffer
    in bind_outcome (addressing_details buffer 0) (\<lambda>(status, a, buffer).
       if status = CompleteMessage then
         let buffer = resetRead buffer
         in case a_subject a of
              None \<Rightarrow> Inr (CorruptMessage, buffer, seg, ps)
            | Some off \<Rightarrow>
                if a_subject_length a > 0 then
                  bind_outcome (string_at buffer off) (\<lambda>str.
                  let subject = subject_new string_hash str
                  in bind_outcome (segment (a_msg_length a) buffer) (\<lambda>(msgData, buffer).
                     bind_outcome
                       (if m_is_admin subject then
                          bind_outcome (noexcept (decode_message Message_new msgData)) (\<lambda>(ok, msg, _).
                          if ok then
                            (case find (\<lambda>p. peer_id p = this) ps of
                               Some (TcpPeer p) \<Rightarrow>
                                 bind_outcome (handle_admin_message subject msg p) (\<lambda>p'.
                                 Inr (CompleteMessage, seg, replace_peer (TcpPeer p') ps))
                             | _ \<Rightarrow> Inl UseAfterFree)
                          else Inr (CorruptMessage, seg, ps))
                        else bind_outcome (dispatch_peers ops subject (message_wrapper_new (content msgData)) seg ps)
                               (\<lambda>r'. Inr (CompleteMessage, r')))
                       (\<lambda>(status, r'). Inr (status, mark buffer, r'))))
                else Inr (CorruptMessage, buffer, seg, ps)
       else Inr (status, resetRead buffer, seg, ps)))"

text \<open>
  The destructor of the connection destroys both queues; \<^verbatim>\<open>disconnection_handler\<close> erases the
  connection, which runs it.
\<close>

definition shm_peer_destroy :: "shm_peer \<Rightarrow> 'q shm_segment \<Rightarrow> 'q shm_segment outcome" where
  "shm_peer_destroy p seg =
    (let pid = sp_process_id p
     in bind_outcome (destroy_queue (sg_server seg pid)) (\<lambda>sv.
        bind_outcome (destroy_queue (sg_client seg pid)) (\<lambda>cl.
        Inr (seg\<lparr>sg_server := (sg_server seg)(pid := sv), sg_client := (sg_client seg)(pid := cl)\<rparr>))))"

definition shm_disconnection_handler :: "shm_peer \<Rightarrow> 'q shm_router \<Rightarrow> 'q shm_router outcome" where
  "shm_disconnection_handler this = (\<lambda>(seg, ps).
    if \<exists>p \<in> set ps. peer_id p = tp_id this
    then bind_outcome (shm_peer_destroy this seg) (\<lambda>seg. Inr (seg, erase_first (\<lambda>p. peer_id p = tp_id this) ps))
    else Inr (seg, ps))"

text \<open>\<^verbatim>\<open>notificationHandler\<close>; \<open>reset\<close> says whether the notifier could be read.\<close>

definition notificationHandler ::
  "'q spsc_ops \<Rightarrow> nat \<Rightarrow> bool \<Rightarrow> shm_peer \<Rightarrow> 'q shm_router \<Rightarrow> 'q shm_router outcome" where
  "notificationHandler ops fuel reset this = (\<lambda>(seg, ps).
    if \<not> reset then shm_disconnection_handler this (seg, ps)
    else let pid = sp_process_id this
         in retrieve ops (\<lambda>(seg, ps). sg_server seg pid) (\<lambda>q (seg, ps). (seg\<lparr>sg_server := (sg_server seg)(pid \<mapsto> q)\<rparr>, ps))
              fuel (shm_process ops this) (seg\<lparr>sg_to_router := (sg_to_router seg)(pid := 0)\<rparr>, ps))"

text \<open>
  The handler of the connection's socket: it reads until the socket is closed; the \<^verbatim>\<open>break\<close> of the
  other cases leaves the \<^verbatim>\<open>switch\<close> only.
\<close>

fun socketEvent :: "nat \<Rightarrow> shm_peer \<Rightarrow> socket \<Rightarrow> 'q shm_router \<Rightarrow> (socket \<times> 'q shm_router) outcome" where
  "socketEvent 0 this sock r = Inl OutOfFuel"
| "socketEvent (Suc fuel) this sock r =
    (case socket_read 255 sock of
       (Closed, _, sock) \<Rightarrow> bind_outcome (shm_disconnection_handler this r) (\<lambda>r. Inr (sock, r))
     | (_, _, sock) \<Rightarrow> socketEvent fuel this sock r)"

end
