(* ===== verification/Shm_Correct.thy ===== *)
theory Shm_Correct
  imports Shm_Transport
begin

text \<open>
  Correctness of the transport through shared memory, for any queue with the documented
  behaviour of a bounded queue: a message a client sends arrives at the interested clients; and
  what goes wrong when a message comes from a TCP connection, when a queue is full and when a
  client disconnects.
\<close>

section \<open>One message in a shared buffer\<close>

definition holds_message :: "container \<Rightarrow> message \<Rightarrow> bool" where
  "holds_message c m \<longleftrightarrow> (\<exists>v. shared_storage c = Inr v \<and> at v (wire_message m) \<and> content v = wire_message m
     \<and> m_read_ptr v = 0 \<and> 0 < m_storedLength v)"

lemma encoded_buffer:
  assumes "wf_message m" "length (wire_message m) \<le> 2048"
  obtains s where "encode_message m (ByteStorage_alloc a 2048) = Inr (length (wire_message m), s)"
    "holds_message (getInterprocessBuffer s) m"
proof -
  let ?s0 = "ByteStorage_alloc a 2048"
  have n: "(2048 :: nat) \<le> 2 ^ 62" by simp
  have wf: "wf_storage ?s0" by (rule wf_storage_alloc [OF n])
  have room: "m_storedLength ?s0 + length (wire_message m) \<le> m_capacity ?s0"
    using assms(2) allocateStorage_capacity(1) [OF n]
    by (simp add: ByteStorage_alloc_def Let_def allocateStorage_simps)
  obtain s where s: "encode_message m ?s0 = Inr (length (wire_message m), s)" "extends ?s0 s (wire_message m)"
    using encode_message_extends [OF assms(1) wf room] by blast
  have c: "content s = wire_message m" "wf_storage s" "m_storedLength s = length (wire_message m)"
    using extendsD [OF s(2)] content_alloc [of a 2048] length_content [OF wf] length_content [OF extendsD(1) [OF s(2)]]
    by simp_all
  let ?v = "\<lparr>m_allocator = (\<lambda>_. 0), m_block = 0, m_bytes = m_bytes s, m_capacity = 0,
    m_storedLength = m_storedLength s, m_options = TRANSIENT, m_read_ptr = 0, m_mark_ptr = 0\<rparr>"
  have "shared_storage (getInterprocessBuffer s) = Inr ?v"
    by (simp add: shared_storage_def getInterprocessBuffer_def ByteStorage_bytes_def Let_def TRANSIENT_def COPY_ON_CONSTRUCT_def)
  moreover have "at ?v (wire_message m)" "content ?v = wire_message m" "0 < m_storedLength ?v"
    using c assms(1) by (auto simp: at_def content_def wf_storage_def wf_message_def length_wire_message)
  ultimately have "holds_message (getInterprocessBuffer s) m"
    unfolding holds_message_def by (intro exI [of _ ?v]) simp
  then show thesis using that s(1) by blast
qed

lemma shm_deliver_message:
  assumes "holds_message c m" "wf_message m"
  shows "shm_deliver c (seg, cl) = Inr (seg, cl\<lparr>cl_delivered := cl_delivered cl @ [delivered m]\<rparr>)"
proof -
  obtain v where v: "shared_storage c = Inr v" "at v (wire_message m)" "0 < m_storedLength v"
    using assms(1) by (auto simp: holds_message_def)
  then show ?thesis using decode_message_at [OF v(2) assms(2) v(3), of Message_new]
    by (simp add: shm_deliver_def noexcept_def delivered_def)
qed

lemma shm_process_message:
  assumes "holds_message c m" "wf_message m" "\<not> m_is_admin (subject_new string_hash (subject_string m))"
  shows "shm_process ops this c (seg, ps) =
    dispatch_peers ops (subject_new string_hash (subject_string m)) (message_wrapper_shared (wire_message m) (Some c)) seg ps"
proof -
  obtain v where v: "shared_storage c = Inr v" "at v (wire_message m)" "content v = wire_message m" "m_read_ptr v = 0"
    using assms(1) by (auto simp: holds_message_def)
  have am: "at (mark v) (wire_message m)" using v(2) by simp
  have str: "string_at (mark v) 16 = Inr (subject_string m)" using string_at_message [OF am] v(4) by simp
  show ?thesis
    using v(1,3,4) addressing_details_at [OF am assms(2), of 0] str assms(3)
    by (simp add: shm_process_def Let_def content_def)
qed

section \<open>Queues with the documented behaviour\<close>

text \<open>\<open>queue_holds qok cont slot xs\<close>: the queue exists and holds \<open>xs\<close>.\<close>

definition queue_holds :: "('q \<Rightarrow> bool) \<Rightarrow> ('q \<Rightarrow> container option list) \<Rightarrow> 'q option \<Rightarrow> container option list \<Rightarrow> bool" where
  "queue_holds qok cont slot xs \<longleftrightarrow> (\<exists>q. slot = Some q \<and> qok q \<and> cont q = xs)"

lemma shm_notify_room:
  assumes "bounded_fifo qok cont cap (sq_push ops) (sq_pop ops)" "queue_holds qok cont slot xs" "length xs < cap"
  shows "\<exists>slot'. shm_notify ops ptr slot = Inr slot' \<and> queue_holds qok cont slot' (xs @ [ptr])"
proof -
  obtain q where q: "slot = Some q" "qok q" "cont q = xs" using assms(2) by (auto simp: queue_holds_def)
  have "qok (snd (sq_push ops ptr q)) \<and> cont (snd (sq_push ops ptr q)) = cont q @ [ptr]"
    using bounded_fifo.push_room [OF assms(1) q(2), of ptr] q(3) assms(3) by blast
  then show ?thesis using q by (auto simp: shm_notify_def queue_holds_def)
qed

lemma retrieve_one:
  assumes "bounded_fifo qok cont cap (sq_push ops) (sq_pop ops)" "queue_holds qok cont (get st) [Some c]"
    "callback c st = Inr st'" "get st' = get st" "\<And>q. get (put q st') = Some q"
  shows "\<exists>q. retrieve ops get put (Suc (Suc n)) callback st = Inr (put q st') \<and> qok q \<and> cont q = []"
proof -
  obtain q where q: "get st = Some q" "qok q" "cont q = [Some c]" using assms(2) by (auto simp: queue_holds_def)
  have p: "fst (sq_pop ops q) = Some (Some c)" "qok (snd (sq_pop ops q))" "cont (snd (sq_pop ops q)) = []"
    using bounded_fifo.pop_some [OF assms(1) q(2,3)] by auto
  have "sq_pop ops (snd (sq_pop ops q)) = (None, snd (sq_pop ops q))"
    by (rule bounded_fifo.pop_empty [OF assms(1) p(2,3)])
  then show ?thesis using q p assms(3-5) by (intro exI [of _ "snd (sq_pop ops q)"]) simp
qed

lemma retrieve_none:
  assumes "bounded_fifo qok cont cap (sq_push ops) (sq_pop ops)" "queue_holds qok cont (get st) []"
  shows "retrieve ops get put (Suc n) callback st = Inr st"
proof -
  obtain q where q: "get st = Some q" "qok q" "cont q = []" using assms(2) by (auto simp: queue_holds_def)
  then show ?thesis using bounded_fifo.pop_empty [OF assms(1) q(2,3)] by simp
qed

text \<open>The dispatch, on connections of both kinds: what the TCP connections send, and what is put on the queues.\<close>

lemma wrapper_simps [simp]:
  "getEncodedBuffer (message_wrapper_new bytes) = bytes" "getSharedPtrBuffer (message_wrapper_new bytes) = None"
  "getEncodedBuffer (message_wrapper_shared bytes ptr) = bytes" "getSharedPtrBuffer (message_wrapper_shared bytes ptr) = ptr"
  by (simp_all add: getEncodedBuffer_def getSharedPtrBuffer_def message_wrapper_new_def message_wrapper_shared_def split: option.split)

fun shm_peers :: "peer list \<Rightarrow> shm_peer list" where
  "shm_peers [] = []"
| "shm_peers (TcpPeer p # ps) = shm_peers ps"
| "shm_peers (ShmPeer s # ps) = s # shm_peers ps"

lemma shm_peers_map [simp]: "shm_peers (map ShmPeer ss) = ss"
  by (induction ss) simp_all

definition after_dispatch :: "size_t subject \<Rightarrow> byte list \<Rightarrow> peer \<Rightarrow> peer" where
  "after_dispatch subject bytes p =
    (case p of TcpPeer t \<Rightarrow> TcpPeer (if is_interested subject t then give bytes t else t) | ShmPeer s \<Rightarrow> ShmPeer s)"

lemma shm_send_client:
  assumes "bounded_fifo qok cont cap (sq_push ops) (sq_pop ops)" "0 < cap" "queue_holds qok cont (sg_client seg (sp_process_id s)) []"
  obtains seg' where "(if is_interested subject s then shm_sendBuffer ops w s seg else Inr seg) = Inr seg'"
    "sg_server seg' = sg_server seg" "\<forall>pid. pid \<noteq> sp_process_id s \<longrightarrow> sg_client seg' pid = sg_client seg pid"
    "queue_holds qok cont (sg_client seg' (sp_process_id s)) (if is_interested subject s then [getSharedPtrBuffer w] else [])"
proof (cases "is_interested subject s")
  case True
  let ?p = "sp_process_id s"
  obtain slot where "shm_notify ops (getSharedPtrBuffer w) (sg_client seg ?p) = Inr slot" "queue_holds qok cont slot [getSharedPtrBuffer w]"
    using shm_notify_room [OF assms(1,3)] assms(2) by auto
  then show thesis using True that
    [of "seg\<lparr>sg_client := (sg_client seg)(?p := slot), sg_to_client := (sg_to_client seg)(?p := sg_to_client seg ?p + 1)\<rparr>"]
    by (simp add: shm_sendBuffer_def Let_def)
next
  case False
  then show thesis using that [of seg] assms(3) by simp
qed

lemma dispatch_to_both:
  assumes "bounded_fifo qok cont cap (sq_push ops) (sq_pop ops)" "0 < cap" "distinct (map sp_process_id (shm_peers ps))"
    "\<forall>s \<in> set (shm_peers ps). queue_holds qok cont (sg_client seg (sp_process_id s)) []" "\<forall>p. TcpPeer p \<in> set ps \<longrightarrow> healthy p"
  shows "\<exists>seg'. dispatch_peers ops subject w seg ps = Inr (seg', map (after_dispatch subject (getEncodedBuffer w)) ps)
    \<and> sg_server seg' = sg_server seg \<and> (\<forall>pid. pid \<notin> sp_process_id ` set (shm_peers ps) \<longrightarrow> sg_client seg' pid = sg_client seg pid)
    \<and> (\<forall>s \<in> set (shm_peers ps). queue_holds qok cont (sg_client seg' (sp_process_id s))
         (if is_interested subject s then [getSharedPtrBuffer w] else []))"
  using assms(3-5)
proof (induction ps arbitrary: seg rule: shm_peers.induct)
  case (2 t ps)
  then have "healthy t" by simp
  then have "(if is_interested subject t then sendBuffer (getEncodedBuffer w) t else Inr t)
      = Inr (if is_interested subject t then give (getEncodedBuffer w) t else t)" by (simp add: sendBuffer_healthy)
  moreover obtain seg' where "dispatch_peers ops subject w seg ps = Inr (seg', map (after_dispatch subject (getEncodedBuffer w)) ps)"
    "sg_server seg' = sg_server seg" "\<forall>pid. pid \<notin> sp_process_id ` set (shm_peers ps) \<longrightarrow> sg_client seg' pid = sg_client seg pid"
    "\<forall>s \<in> set (shm_peers ps). queue_holds qok cont (sg_client seg' (sp_process_id s)) (if is_interested subject s then [getSharedPtrBuffer w] else [])"
    using 2(1) [of seg] 2(2-4) by simp blast
  ultimately show ?case by (intro exI [of _ seg']) (simp add: after_dispatch_def)
next
  case (3 s ps)
  obtain seg1 where seg1: "(if is_interested subject s then shm_sendBuffer ops w s seg else Inr seg) = Inr seg1"
    "sg_server seg1 = sg_server seg" "\<forall>pid. pid \<noteq> sp_process_id s \<longrightarrow> sg_client seg1 pid = sg_client seg pid"
    "queue_holds qok cont (sg_client seg1 (sp_process_id s)) (if is_interested subject s then [getSharedPtrBuffer w] else [])"
    by (rule shm_send_client [OF assms(1,2), of seg s subject w]) (use 3(3) in auto)
  have "\<forall>t \<in> set (shm_peers ps). queue_holds qok cont (sg_client seg1 (sp_process_id t)) []"
    using 3(2,3) seg1(3) by (auto simp: image_iff)
  then obtain seg2 where seg2: "dispatch_peers ops subject w seg1 ps = Inr (seg2, map (after_dispatch subject (getEncodedBuffer w)) ps)"
    "sg_server seg2 = sg_server seg1" "\<forall>pid. pid \<notin> sp_process_id ` set (shm_peers ps) \<longrightarrow> sg_client seg2 pid = sg_client seg1 pid"
    "\<forall>s \<in> set (shm_peers ps). queue_holds qok cont (sg_client seg2 (sp_process_id s)) (if is_interested subject s then [getSharedPtrBuffer w] else [])"
    using 3(1) [of seg1] 3(2,4) by auto
  show ?case
    by (rule exI [of _ seg2]) (use seg1 seg2 3(2) in \<open>auto simp: after_dispatch_def\<close>)
qed simp

lemma dispatch_to_clients:
  assumes "bounded_fifo qok cont cap (sq_push ops) (sq_pop ops)" "0 < cap" "distinct (map sp_process_id ss)"
    "\<forall>s \<in> set ss. queue_holds qok cont (sg_client seg (sp_process_id s)) []"
  shows "\<exists>seg'. dispatch_peers ops subject w seg (map ShmPeer ss) = Inr (seg', map ShmPeer ss)
    \<and> sg_server seg' = sg_server seg \<and> (\<forall>pid. pid \<notin> sp_process_id ` set ss \<longrightarrow> sg_client seg' pid = sg_client seg pid)
    \<and> (\<forall>s \<in> set ss. queue_holds qok cont (sg_client seg' (sp_process_id s)) (if is_interested subject s then [getSharedPtrBuffer w] else []))"
proof -
  have "map (after_dispatch subject (getEncodedBuffer w)) (map ShmPeer ss) = map ShmPeer ss" by (simp add: after_dispatch_def)
  note eqs = this shm_peers_map
  show ?thesis by (rule dispatch_to_both [OF assms(1,2), of "map ShmPeer ss" seg subject w, unfolded eqs]) (use assms(3,4) in auto)
qed

text \<open>On TCP connections alone the dispatch is the one of the router's theory.\<close>

lemma dispatch_tcp_only:
  "dispatch_peers ops subject w seg (map TcpPeer ps) =
    bind_outcome (message_handler subject (getEncodedBuffer w) ps) (\<lambda>ps'. Inr (seg, map TcpPeer ps'))"
  by (induction ps) (simp_all add: bind_outcome_assoc)

text \<open>A message from a TCP connection.\<close>

lemma both_process_message:
  assumes a: "at v (wire_message m)" and m: "wf_message m" "\<not> m_is_admin (subject_new string_hash (subject_string m))"
  shows "both_process_buffer ops this v (seg, ps) =
    bind_outcome (dispatch_peers ops (subject_new string_hash (subject_string m)) (message_wrapper_new (wire_message m)) seg ps) (\<lambda>r'.
      Inr (CompleteMessage, mark (advanceRead (length (wire_message m)) (mark v)), r'))"
proof -
  have am: "at (mark v) (wire_message m)" using a by simp
  obtain msg where msg: "segment (length (wire_message m)) (mark v) = Inr (msg, advanceRead (length (wire_message m)) (mark v))"
    "content msg = wire_message m"
    using segment_message [OF am refl] by blast
  have str: "string_at (mark v) (m_read_ptr v + 16) = Inr (subject_string m)"
    using string_at_message [OF am] by simp
  show ?thesis
    using addressing_details_at [OF am m(1), of 0] msg str wire_message_pos [of m] m(2)
    by (simp add: both_process_buffer_def Let_def bind_outcome_assoc)
qed

section \<open>The three steps of a message\<close>

lemma shm_send_step:
  assumes "bounded_fifo qok cont cap (sq_push ops) (sq_pop ops)" "0 < cap" "wf_message m" "length (wire_message m) \<le> 2048"
    "shm_valid A" "queue_holds qok cont (sg_server seg (cl_pid A)) []"
  obtains c seg1 where "shm_sendMessage ops a True m (seg, A) = Inr (OK, (seg1, A))" "holds_message c m"
    "sg_client seg1 = sg_client seg" "queue_holds qok cont (sg_server seg1 (cl_pid A)) [Some c]"
    "\<forall>pid. pid \<noteq> cl_pid A \<longrightarrow> sg_server seg1 pid = sg_server seg pid"
proof -
  obtain x where x: "encode_message m (ByteStorage_alloc a 2048) = Inr (length (wire_message m), x)"
      "holds_message (getInterprocessBuffer x) m" by (rule encoded_buffer [OF assms(3,4)])
  let ?c = "getInterprocessBuffer x"
  obtain slot where slot: "shm_notify ops (Some ?c) (sg_server seg (cl_pid A)) = Inr slot" "queue_holds qok cont slot [Some ?c]"
    using shm_notify_room [OF assms(1,6), of "Some ?c"] assms(2) by auto
  let ?seg1 = "seg\<lparr>sg_server := (sg_server seg)(cl_pid A := slot),
    sg_to_router := (sg_to_router seg)(cl_pid A := sg_to_router seg (cl_pid A) + 1)\<rparr>"
  have "shm_sendMessage ops a True m (seg, A) = Inr (OK, (?seg1, A))"
    using assms(5) x(1) slot(1) by (simp add: shm_sendMessage_def shm_valid_def notifier_notify_def Let_def)
  then show thesis using that [of ?seg1 ?c] x(2) slot(2) by simp
qed

lemma shm_router_step:
  assumes "bounded_fifo qok cont cap (sq_push ops) (sq_pop ops)" "0 < cap" "holds_message c m" "wf_message m"
    "\<not> m_is_admin (subject_new string_hash (subject_string m))"
    "queue_holds qok cont (sg_server seg (sp_process_id this)) [Some c]"
    "distinct (map sp_process_id ss)" "\<forall>s \<in> set ss. queue_holds qok cont (sg_client seg (sp_process_id s)) []"
  obtains seg' where "notificationHandler ops 2 True this (seg, map ShmPeer ss) = Inr (seg', map ShmPeer ss)"
    "\<forall>s \<in> set ss. queue_holds qok cont (sg_client seg' (sp_process_id s))
       (if is_interested (subject_new string_hash (subject_string m)) s then [Some c] else [])"
proof -
  let ?subject = "subject_new string_hash (subject_string m)" and ?p = "sp_process_id this"
  define seg1 where "seg1 = seg\<lparr>sg_to_router := (sg_to_router seg)(?p := 0)\<rparr>"
  have same: "sg_client seg1 = sg_client seg" "sg_server seg1 = sg_server seg" by (simp_all add: seg1_def)
  obtain seg2 where seg2: "dispatch_peers ops ?subject (message_wrapper_shared (wire_message m) (Some c)) seg1 (map ShmPeer ss) = Inr (seg2, map ShmPeer ss)"
    "sg_server seg2 = sg_server seg1"
    "\<forall>s \<in> set ss. queue_holds qok cont (sg_client seg2 (sp_process_id s)) (if is_interested ?subject s then [Some c] else [])"
    using dispatch_to_clients [OF assms(1,2,7), of seg1 ?subject "message_wrapper_shared (wire_message m) (Some c)", unfolded wrapper_simps] assms(8) same(1) by auto
  define get :: "'a shm_router \<Rightarrow> 'a option" where "get = (\<lambda>(seg, ps). sg_server seg ?p)"
  define put :: "'a \<Rightarrow> 'a shm_router \<Rightarrow> 'a shm_router" where
    "put = (\<lambda>q (seg, ps). (seg\<lparr>sg_server := (sg_server seg)(?p \<mapsto> q)\<rparr>, ps))"
  have "\<exists>q. retrieve ops get put (Suc (Suc 0)) (shm_process ops this) (seg1, map ShmPeer ss) = Inr (put q (seg2, map ShmPeer ss))
      \<and> qok q \<and> cont q = []"
    by (rule retrieve_one [OF assms(1), where c = c])
       (use assms(6) same seg2 shm_process_message [OF assms(3-5), of ops this seg1 "map ShmPeer ss"] in
         \<open>simp_all add: get_def put_def\<close>)
  then obtain q where "notificationHandler ops 2 True this (seg, map ShmPeer ss) =
      Inr (seg2\<lparr>sg_server := (sg_server seg2)(?p \<mapsto> q)\<rparr>, map ShmPeer ss)"
    by (auto simp: notificationHandler_def get_def put_def seg1_def Let_def numeral_2_eq_2)
  then show thesis using that seg2(3) by simp
qed

text \<open>A registration changes the subscriptions of its connection and nothing else.\<close>

lemma shm_process_admin:
  assumes "holds_message c m" "wf_message m" "m_is_admin (subject_new string_hash (subject_string m))"
    and "find (\<lambda>p. peer_id p = tp_id this) ps = Some (ShmPeer p)"
    and "handle_admin_message (subject_new string_hash (subject_string m)) (delivered m) p = Inr p'"
  shows "shm_process ops this c (seg, ps) = Inr (seg, replace_peer (ShmPeer p') ps)"
proof -
  obtain v where v: "shared_storage c = Inr v" "at v (wire_message m)" "content v = wire_message m" "m_read_ptr v = 0" "0 < m_storedLength v"
    using assms(1) by (auto simp: holds_message_def)
  have am: "at (mark v) (wire_message m)" using v(2) by simp
  have str: "string_at (mark v) 16 = Inr (subject_string m)" using string_at_message [OF am] v(4) by simp
  show ?thesis
    using v(1,4,5) addressing_details_at [OF am assms(2), of 0] str assms(3-5) decode_message_at [OF am assms(2), of Message_new]
    by (simp add: shm_process_def Let_def noexcept_def delivered_def)
qed

lemma shm_admin_step:
  assumes "bounded_fifo qok cont cap (sq_push ops) (sq_pop ops)" "holds_message c m" "wf_message m"
    and "m_is_admin (subject_new string_hash (subject_string m))" "queue_holds qok cont (sg_server seg (sp_process_id this)) [Some c]"
    and "find (\<lambda>p. peer_id p = tp_id this) ps = Some (ShmPeer p)"
    and "handle_admin_message (subject_new string_hash (subject_string m)) (delivered m) p = Inr p'"
  obtains seg' where "notificationHandler ops 2 True this (seg, ps) = Inr (seg', replace_peer (ShmPeer p') ps)"
    "sg_client seg' = sg_client seg" "queue_holds qok cont (sg_server seg' (sp_process_id this)) []"
    "\<forall>pid. pid \<noteq> sp_process_id this \<longrightarrow> sg_server seg' pid = sg_server seg pid"
proof -
  let ?p = "sp_process_id this"
  define seg1 where "seg1 = seg\<lparr>sg_to_router := (sg_to_router seg)(?p := 0)\<rparr>"
  define get :: "'a shm_router \<Rightarrow> 'a option" where "get = (\<lambda>(seg, ps). sg_server seg ?p)"
  define put :: "'a \<Rightarrow> 'a shm_router \<Rightarrow> 'a shm_router" where
    "put = (\<lambda>q (seg, ps). (seg\<lparr>sg_server := (sg_server seg)(?p \<mapsto> q)\<rparr>, ps))"
  have "\<exists>q. retrieve ops get put (Suc (Suc 0)) (shm_process ops this) (seg1, ps) = Inr (put q (seg1, replace_peer (ShmPeer p') ps))
      \<and> qok q \<and> cont q = []"
    by (rule retrieve_one [OF assms(1), where c = c])
       (use assms(5) shm_process_admin [OF assms(2-4,6,7), of ops seg1] in \<open>simp_all add: get_def put_def seg1_def\<close>)
  then obtain q where "notificationHandler ops 2 True this (seg, ps) =
      Inr (seg1\<lparr>sg_server := (sg_server seg1)(?p \<mapsto> q)\<rparr>, replace_peer (ShmPeer p') ps)" "qok q" "cont q = []"
    by (auto simp: notificationHandler_def get_def put_def seg1_def Let_def numeral_2_eq_2)
  then show thesis using that by (simp add: queue_holds_def seg1_def)
qed

lemma shm_receive_step:
  assumes "bounded_fifo qok cont cap (sq_push ops) (sq_pop ops)" "holds_message c m" "wf_message m"
    "queue_holds qok cont (sg_client seg (cl_pid B)) (if mine then [Some c] else [])"
  shows "\<exists>seg'. shm_receive ops 2 (seg, B) =
    Inr (seg', B\<lparr>cl_delivered := cl_delivered B @ (if mine then [delivered m] else [])\<rparr>)"
proof -
  define get :: "'a client_state \<Rightarrow> 'a option" where "get = (\<lambda>(seg, c). sg_client seg (cl_pid c))"
  define put :: "'a \<Rightarrow> 'a client_state \<Rightarrow> 'a client_state" where
    "put = (\<lambda>q (seg, c). (seg\<lparr>sg_client := (sg_client seg)(cl_pid c \<mapsto> q)\<rparr>, c))"
  have recv: "shm_receive ops 2 (seg, B) = retrieve ops get put (Suc (Suc 0)) shm_deliver (seg, B)"
    by (simp add: shm_receive_def get_def put_def numeral_2_eq_2 del: retrieve.simps)
  show ?thesis
  proof (cases mine)
    case True
    have "\<exists>q. retrieve ops get put (Suc (Suc 0)) shm_deliver (seg, B) =
        Inr (put q (seg, B\<lparr>cl_delivered := cl_delivered B @ [delivered m]\<rparr>)) \<and> qok q \<and> cont q = []"
      by (rule retrieve_one [OF assms(1), where c = c])
         (use assms(4) True shm_deliver_message [OF assms(2,3), of seg B] in \<open>simp_all add: get_def put_def\<close>)
    then show ?thesis unfolding recv using True by (auto simp: put_def)
  next
    case False
    have "retrieve ops get put (Suc (Suc 0)) shm_deliver (seg, B) = Inr (seg, B)"
      by (rule retrieve_none [OF assms(1)]) (use assms(4) False in \<open>simp add: get_def\<close>)
    then show ?thesis unfolding recv using False by simp
  qed
qed

lemma shm_delivers:
  assumes q: "bounded_fifo qok cont cap (sq_push ops) (sq_pop ops)" "0 < cap"
    and m: "wf_message m" "length (wire_message m) \<le> 2048" "\<not> m_is_admin (subject_new string_hash (subject_string m))"
    and A: "shm_valid A" "queue_holds qok cont (sg_server seg (cl_pid A)) []" "sp_process_id this = cl_pid A"
    and ss: "distinct (map sp_process_id ss)" "\<forall>s \<in> set ss. queue_holds qok cont (sg_client seg (sp_process_id s)) []"
    and B: "s \<in> set ss" "cl_pid B = sp_process_id s"
  shows "\<exists>st seg2 seg3. shm_sendMessage ops a True m (seg, A) = Inr (OK, st) \<and> snd st = A
    \<and> notificationHandler ops 2 True this (fst st, map ShmPeer ss) = Inr (seg2, map ShmPeer ss)
    \<and> shm_receive ops 2 (seg2, B) = Inr (seg3, B\<lparr>cl_delivered := cl_delivered B @
        (if is_interested (subject_new string_hash (subject_string m)) s then [delivered m] else [])\<rparr>)"
proof -
  obtain c seg1 where send: "shm_sendMessage ops a True m (seg, A) = Inr (OK, (seg1, A))" "holds_message c m"
      "sg_client seg1 = sg_client seg" "queue_holds qok cont (sg_server seg1 (cl_pid A)) [Some c]"
      "\<forall>pid. pid \<noteq> cl_pid A \<longrightarrow> sg_server seg1 pid = sg_server seg pid"
    by (rule shm_send_step [OF q m(1,2) A(1,2)])
  obtain seg2 where route: "notificationHandler ops 2 True this (seg1, map ShmPeer ss) = Inr (seg2, map ShmPeer ss)"
      "\<forall>s \<in> set ss. queue_holds qok cont (sg_client seg2 (sp_process_id s))
        (if is_interested (subject_new string_hash (subject_string m)) s then [Some c] else [])"
    by (rule shm_router_step [OF q send(2) m(1,3), where seg = seg1 and this = this and ss = ss])
       (use send(3,4) A(3) ss in simp_all)
  have "queue_holds qok cont (sg_client seg2 (cl_pid B))
      (if is_interested (subject_new string_hash (subject_string m)) s then [Some c] else [])"
    using route(2) B by simp
  from shm_receive_step [OF q(1) send(2) m(1) this] show ?thesis using send(1) route(1) by auto
qed

section \<open>Properties\<close>

text \<open>
  A message sent through shared memory arrives: after \<^verbatim>\<open>sendMessage\<close> of one client, the
  notification handler of the router and the receiver of another client, that client has been
  given the message, once, exactly when its subscriptions match the subject; whatever queue
  with the documented behaviour the segment uses.
\<close>

theorem shm_end_to_end:
  assumes q: "bounded_fifo qok cont cap (sq_push ops) (sq_pop ops)" "0 < cap"
    and m: "wf_message m" "length (wire_message m) \<le> 2048" "\<not> m_is_admin (subject_new string_hash (subject_string m))"
    and A: "shm_valid A" "queue_holds qok cont (sg_server seg (cl_pid A)) []" "sp_process_id this = cl_pid A"
    and ss: "distinct (map sp_process_id ss)" "\<forall>s \<in> set ss. queue_holds qok cont (sg_client seg (sp_process_id s)) []"
    and B: "s \<in> set ss" "cl_pid B = sp_process_id s"
  shows "\<exists>st seg2 seg3. shm_sendMessage ops a True m (seg, A) = Inr (OK, st)
    \<and> notificationHandler ops 2 True this (fst st, map ShmPeer ss) = Inr (seg2, map ShmPeer ss)
    \<and> shm_receive ops 2 (seg2, B) = Inr (seg3, B\<lparr>cl_delivered := cl_delivered B @
        (if is_interested (subject_new string_hash (subject_string m)) s then [delivered m] else [])\<rparr>)"
  using shm_delivers [OF assms, of a] by blast

text \<open>
  C39 A message that comes from a TCP connection crashes the clients on shared memory that subscribe
  to it, whatever other connections of either kind the router has: the connection wraps the
  message without a shared pointer, the router sends the bytes to the interested TCP connections
  and puts the null pointer on the queues of the interested clients, and the receiver of each of
  these clients dereferences it. The messages are well-formed and not administrative, the sockets
  accept what is sent, and the queues of the clients are empty before.
\<close>

theorem tcp_message_faults_shm_client:
  assumes "bounded_fifo qok cont cap (sq_push ops) (sq_pop ops)" "0 < cap"
    and "at v (wire_message m)" "wf_message m" "\<not> m_is_admin (subject_new string_hash (subject_string m))"
    and "\<forall>p. TcpPeer p \<in> set ps \<longrightarrow> healthy p" "distinct (map sp_process_id (shm_peers ps))"
    and "\<forall>s \<in> set (shm_peers ps). queue_holds qok cont (sg_client seg (sp_process_id s)) []"
  shows "\<exists>v' seg'. both_process_buffer ops this v (seg, ps) = Inr (CompleteMessage, v', seg',
        map (after_dispatch (subject_new string_hash (subject_string m)) (wire_message m)) ps)
    \<and> (\<forall>s \<in> set (shm_peers ps). is_interested (subject_new string_hash (subject_string m)) s \<longrightarrow>
        (\<forall>B. cl_pid B = sp_process_id s \<longrightarrow> shm_receive ops 1 (seg', B) = Inl OutOfBounds))"
proof -
  let ?subject = "subject_new string_hash (subject_string m)" and ?w = "message_wrapper_new (wire_message m)"
  obtain seg' where d: "dispatch_peers ops ?subject ?w seg ps = Inr (seg', map (after_dispatch ?subject (wire_message m)) ps)"
      "\<forall>s \<in> set (shm_peers ps). queue_holds qok cont (sg_client seg' (sp_process_id s)) (if is_interested ?subject s then [None] else [])"
    using dispatch_to_both [OF assms(1,2,7,8,6), of ?subject ?w, unfolded wrapper_simps] by blast
  have "shm_receive ops 1 (seg', B) = Inl OutOfBounds"
    if s: "s \<in> set (shm_peers ps)" "is_interested ?subject s" "cl_pid B = sp_process_id s" for s B
  proof -
    obtain q where q: "sg_client seg' (cl_pid B) = Some q" "qok q" "cont q = [None]"
      using bspec [OF d(2) s(1)] s(2,3) by (auto simp: queue_holds_def)
    then have "fst (sq_pop ops q) = Some None" using bounded_fifo.pop_some [OF assms(1) q(2,3)] by blast
    then show ?thesis using q(1) by (auto simp: shm_receive_def)
  qed
  then show ?thesis using both_process_message [OF assms(3-5), of ops this seg ps] d(1) by auto
qed

text \<open>
  A client whose router is not there yet connects in the end: when the system refuses some
  attempts and then accepts one, the thread returns with both queues open, provided the flag
  that nothing initialises is false; when it is true, it gives up at once.
\<close>

lemma shm_connect_loop_ends:
  assumes "\<not> cl_notifier c" "\<not> cl_shouldDisconnect c"
  shows "length fails + 1 < fuel \<Longrightarrow> set fails \<subseteq> {False} \<Longrightarrow>
    shm_connect_loop fuel (fails @ True # rest) c = Inr (c\<lparr>cl_notifier := True\<rparr>)"
proof (induction fails arbitrary: fuel)
  case Nil
  then obtain k where "fuel = Suc (Suc k)" by (cases fuel; cases "fuel - 1") auto
  then show ?case using assms by (simp add: notifier_connect_def)
next
  case (Cons b fails)
  then obtain k where "fuel = Suc k" "length fails + 1 < k" by (cases fuel) auto
  then show ?case using Cons assms by (simp add: notifier_connect_def)
qed

lemma shm_connect_gives_up:
  "\<not> cl_notifier c \<Longrightarrow> cl_shouldDisconnect c \<Longrightarrow> 0 < fuel \<Longrightarrow> shm_connect ops fuel answers (seg, c) = Inr (seg, c)"
  by (cases fuel) (simp_all add: shm_connect_def)

text \<open>
  A message that does not fit into the queue is lost, and \<^verbatim>\<open>sendMessage\<close> reports success all the
  same.
\<close>

theorem full_shm_queue_loses_message:
  assumes "bounded_fifo qok cont cap (sq_push ops) (sq_pop ops)" "wf_message m" "length (wire_message m) \<le> 2048"
    "shm_valid A" "queue_holds qok cont (sg_server seg (cl_pid A)) xs" "length xs = cap"
  shows "\<exists>st. shm_sendMessage ops a True m (seg, A) = Inr (OK, st) \<and> sg_server (fst st) = sg_server seg"
proof -
  obtain x where x: "encode_message m (ByteStorage_alloc a 2048) = Inr (length (wire_message m), x)"
    by (rule encoded_buffer [OF assms(2,3)])
  obtain q where q: "sg_server seg (cl_pid A) = Some q" "qok q" "cont q = xs" using assms(5) by (auto simp: queue_holds_def)
  have "snd (sq_push ops ptr q) = q" for ptr
    using bounded_fifo.push_full [OF assms(1) q(2), of ptr] q(3) assms(6) by simp
  then show ?thesis
    using assms(4) x q(1)
    by (auto simp: shm_sendMessage_def shm_valid_def notifier_notify_def Let_def shm_notify_def)
qed

text \<open>
  A client that disconnects destroys a queue the router still uses: the next message for it is
  written into freed memory, and when the router notices the disconnection its destructor
  destroys the queue again.
\<close>

theorem shm_disconnect_dangles:
  assumes "cl_connected c" "sg_client seg (cl_pid c) = Some q" "sg_server seg (cl_pid c) = Some q'"
    "sp_process_id s = cl_pid c" "is_interested subject s"
  shows "\<exists>seg' c'. shm_disconnect (seg, c) = Inr (seg', c')
    \<and> dispatch_peers ops subject w seg' (ShmPeer s # ps) = Inl UseAfterFree
    \<and> shm_disconnection_handler s (seg', ShmPeer s # ps) = Inl UseAfterFree"
  using assms
  by (auto simp: shm_disconnect_def destroy_queue_def shm_sendBuffer_def shm_notify_def Let_def
      shm_disconnection_handler_def shm_peer_destroy_def)

section \<open>A segment\<close>

definition demo_ops :: "(container option) ringbuffer spsc_ops" where
  "demo_ops = \<lparr>sq_new = rb_new 1025, sq_push = rb_push 1025, sq_pop = rb_pop 1025\<rparr>"

definition demo_segment :: "(container option) ringbuffer shm_segment" where
  "demo_segment = \<lparr>sg_client = (\<lambda>_. Some (rb_new 1025)), sg_server = (\<lambda>_. Some (rb_new 1025)),
     sg_to_client = (\<lambda>_. 0), sg_to_router = (\<lambda>_. 0)\<rparr>"

definition demo_client :: "int \<Rightarrow> shm_client" where
  "demo_client pid = \<lparr>cl_pid = pid, cl_notifier = True, cl_connected = True, cl_shouldDisconnect = False, cl_delivered = []\<rparr>"

definition demo_shm_peer :: "int \<Rightarrow> shm_peer" where
  "demo_shm_peer pid = \<lparr>tp_id = nat pid, tp_subscriptions = [subscription_new string_hash (str_bytes ''A'')], sp_process_id = pid\<rparr>"

lemma demo_contract: "bounded_fifo (rb_inv 1025) (rb_abs 1025) (1025 - 1) (sq_push demo_ops) (sq_pop demo_ops)"
  unfolding demo_ops_def spsc_ops.simps by (rule rb.bounded_fifo_axioms)

lemma demo_queue_holds:
  "queue_holds (rb_inv 1025) (rb_abs 1025) (sg_client demo_segment pid) []"
  "queue_holds (rb_inv 1025) (rb_abs 1025) (sg_server demo_segment pid) []"
proof -
  have "rb_inv 1025 (rb_new 1025 :: (container option) ringbuffer)" "rb_abs 1025 (rb_new 1025 :: (container option) ringbuffer) = []"
    using rb_inv_new [where 'a = "container option" and 'b = "container option" and n = 1025] by simp_all
  then show "queue_holds (rb_inv 1025) (rb_abs 1025) (sg_client demo_segment pid) []"
    "queue_holds (rb_inv 1025) (rb_abs 1025) (sg_server demo_segment pid) []"
    by (simp_all add: queue_holds_def demo_segment_def)
qed

lemma demo_shm_interested: "is_interested (subject_new string_hash (str_bytes ''A'')) (demo_shm_peer pid)"
proof -
  have "matches (subscription_new string_hash (str_bytes ''A'')) (subject_new string_hash (str_bytes ''A''))" by code_simp
  then show ?thesis by (simp add: is_interested_def demo_shm_peer_def)
qed

theorem shm_end_to_end_witness:
  "\<exists>st seg2 seg3 B. shm_sendMessage demo_ops (\<lambda>_. 0) True demo_message (demo_segment, demo_client 1) = Inr (OK, st)
    \<and> notificationHandler demo_ops 2 True (demo_shm_peer 1) (fst st, [ShmPeer (demo_shm_peer 1), ShmPeer (demo_shm_peer 2)])
       = Inr (seg2, [ShmPeer (demo_shm_peer 1), ShmPeer (demo_shm_peer 2)])
    \<and> shm_receive demo_ops 2 (seg2, demo_client 2) = Inr (seg3, B) \<and> cl_delivered B = [delivered demo_message]"
proof -
  have adm: "\<not> m_is_admin (subject_new string_hash (str_bytes ''A''))" by code_simp
  have pid: "sp_process_id (demo_shm_peer p) = p" "cl_pid (demo_client p) = p" "cl_delivered (demo_client p) = []"
    "shm_valid (demo_client p)" for p by (simp_all add: demo_shm_peer_def demo_client_def shm_valid_def)
  show ?thesis
    using shm_end_to_end [OF demo_contract _ demo_wf, where A = "demo_client 1" and B = "demo_client 2" and seg = demo_segment
        and this = "demo_shm_peer 1" and ss = "[demo_shm_peer 1, demo_shm_peer 2]" and s = "demo_shm_peer 2" and a = "\<lambda>_. 0"]
      demo_length demo_queue_holds demo_shm_interested [of 2] adm by (force simp: pid demo_subject)
qed

theorem tcp_message_faults_shm_client_witness:
  "\<exists>v v' seg ps. both_process_buffer demo_ops 0 v (demo_segment, [TcpPeer (demo_router ! 0), ShmPeer (demo_shm_peer 2)])
      = Inr (CompleteMessage, v', seg, ps) \<and> shm_receive demo_ops 1 (seg, demo_client 2) = Inl OutOfBounds"
proof -
  obtain x where "holds_message (getInterprocessBuffer x) demo_message"
    by (rule encoded_buffer [OF demo_wf, of "\<lambda>_. 0"]) (use demo_length in auto)
  then obtain v where v: "at v (wire_message demo_message)" by (auto simp: holds_message_def)
  have h: "healthy (demo_router ! 0)" using demo_router_ok by (simp add: demo_router_def)
  have pid: "sp_process_id (demo_shm_peer 2) = 2" "cl_pid (demo_client 2) = 2" by (simp_all add: demo_shm_peer_def demo_client_def)
  show ?thesis
    using tcp_message_faults_shm_client [OF demo_contract _ v demo_message_ok, of "[TcpPeer (demo_router ! 0), ShmPeer (demo_shm_peer 2)]"
        demo_segment 0] demo_queue_holds(1) demo_shm_interested [of 2] h pid by (fastforce simp: demo_subject)
qed

theorem shm_disconnect_dangles_witness:
  "\<exists>seg c. shm_disconnect (demo_segment, demo_client 2) = Inr (seg, c)
    \<and> dispatch_peers demo_ops (subject_new string_hash (str_bytes ''A'')) (message_wrapper_new []) seg [ShmPeer (demo_shm_peer 2)] = Inl UseAfterFree"
proof -
  have "cl_connected (demo_client 2)" "sg_client demo_segment (cl_pid (demo_client 2)) = Some (rb_new 1025)"
    "sg_server demo_segment (cl_pid (demo_client 2)) = Some (rb_new 1025)" "sp_process_id (demo_shm_peer 2) = cl_pid (demo_client 2)"
    by (simp_all add: demo_client_def demo_segment_def demo_shm_peer_def)
  from shm_disconnect_dangles [OF this demo_shm_interested, of demo_ops "message_wrapper_new []" "[]"] show ?thesis by blast
qed

end
