(* ===== verification/Multi_Ring_Threads.thy ===== *)
theory Multi_Ring_Threads
  imports Multi_Ring
begin

text \<open>
  Any number of threads on the ring of \<^verbatim>\<open>tfmultiringbuffer.h\<close>. Each thread runs \<^verbatim>\<open>push\<close> and \<^verbatim>\<open>pop\<close>
  and the accesses to shared memory interleave, one at a time: the load of the position, the load
  of the cell's sequence number, the \<^verbatim>\<open>compare_exchange_weak\<close>, the access to the data and the store
  that hands the cell on. Positions are the 64-bit words of the code.

  The theory shows that no two threads are ever at the data of one cell, that a pop returns the
  element pushed under its number, and that when the calls have returned the ring is the one
  of the sequential theory and holds what was pushed and not popped. The hypothesis is that the
  positions have not gone round the 64-bit range; a thread that sleeps while they do can be
  taken in by an equal position.
\<close>

section \<open>Threads\<close>

text \<open>The points of a call, each before its next access to shared memory.\<close>

datatype 'a mt_pc =
    MIdle
  | PSeq size_t 'a        \<comment> \<open>push: load the sequence number of the cell\<close>
  | PCas size_t 'a        \<comment> \<open>push: exchange the head\<close>
  | PReload 'a            \<comment> \<open>push: load the head again\<close>
  | PWrite size_t 'a      \<comment> \<open>push: assign the data\<close>
  | PPublish size_t 'a    \<comment> \<open>push: store the sequence number\<close>
  | CSeq size_t
  | CCas size_t
  | CReload
  | CRead size_t
  | CFree size_t 'a

text \<open>
  \<open>mt_claimed\<close> has the elements in the order of the successful exchanges of the head, \<open>mt_taken\<close>
  counts those of the tail, and \<open>mt_popped\<close> has what the calls of \<^verbatim>\<open>pop\<close> returned with the position
  each had.
\<close>

record 'a mpmc =
  mt_ring :: "'a multiringbuffer"
  mt_pc :: "nat \<Rightarrow> 'a mt_pc"
  mt_claimed :: "'a list"
  mt_taken :: nat
  mt_popped :: "(nat \<times> 'a) list"

definition mt_init :: "nat \<Rightarrow> 'a \<Rightarrow> 'a mpmc" where
  "mt_init k raw = \<lparr>mt_ring = mr_new k raw, mt_pc = (\<lambda>_. MIdle), mt_claimed = [], mt_taken = 0, mt_popped = []\<rparr>"

definition mt_goto :: "nat \<Rightarrow> 'a mt_pc \<Rightarrow> 'a mpmc \<Rightarrow> 'a mpmc" where
  "mt_goto i c s = s\<lparr>mt_pc := (mt_pc s)(i := c)\<rparr>"

definition mt_push_call :: "nat \<Rightarrow> 'a \<Rightarrow> 'a mpmc \<Rightarrow> 'a mpmc" where
  "mt_push_call i x s = mt_goto i (PSeq (mr_head (mt_ring s)) x) s"

definition mt_pop_call :: "nat \<Rightarrow> 'a mpmc \<Rightarrow> 'a mpmc" where
  "mt_pop_call i s = mt_goto i (CSeq (mr_tail (mt_ring s))) s"

definition set_cell :: "nat \<Rightarrow> size_t \<Rightarrow> ('a cell_t \<Rightarrow> 'a cell_t) \<Rightarrow> 'a multiringbuffer \<Rightarrow> 'a multiringbuffer" where
  "set_cell k pos f q = q\<lparr>mr_buffer := (mr_buffer q)[cell_index k pos := f (mr_buffer q ! cell_index k pos)]\<rparr>"

text \<open>The next access of thread \<open>i\<close>; \<open>ok\<close> says that \<^verbatim>\<open>compare_exchange_weak\<close> does not fail spuriously.\<close>

definition push_next :: "nat \<Rightarrow> bool \<Rightarrow> nat \<Rightarrow> 'a mpmc \<Rightarrow> 'a mpmc" where
  "push_next k ok i s =
    (let q = mt_ring s
     in case mt_pc s i of
          PSeq pos x \<Rightarrow>
            (let dif = sint (m_sequence (mr_buffer q ! cell_index k pos) - pos)
             in if dif = 0 then mt_goto i (PCas pos x) s
                else if dif < 0 then mt_goto i MIdle s
                else mt_goto i (PReload x) s)
        | PCas pos x \<Rightarrow>
            (if mr_head q = pos \<and> ok
             then mt_goto i (PWrite pos x) (s\<lparr>mt_ring := q\<lparr>mr_head := pos + 1\<rparr>, mt_claimed := mt_claimed s @ [x]\<rparr>)
             else mt_goto i (PSeq (mr_head q) x) s)
        | PReload x \<Rightarrow> mt_goto i (PSeq (mr_head q) x) s
        | PWrite pos x \<Rightarrow> mt_goto i (PPublish pos x) (s\<lparr>mt_ring := set_cell k pos (m_data_update (\<lambda>_. x)) q\<rparr>)
        | PPublish pos x \<Rightarrow> mt_goto i MIdle (s\<lparr>mt_ring := set_cell k pos (m_sequence_update (\<lambda>_. pos + 1)) q\<rparr>)
        | _ \<Rightarrow> s)"

definition pop_next :: "nat \<Rightarrow> bool \<Rightarrow> nat \<Rightarrow> 'a mpmc \<Rightarrow> 'a mpmc" where
  "pop_next k ok i s =
    (let q = mt_ring s
     in case mt_pc s i of
          CSeq pos \<Rightarrow>
            (let dif = sint (m_sequence (mr_buffer q ! cell_index k pos) - (pos + 1))
             in if dif = 0 then mt_goto i (CCas pos) s
                else if dif < 0 then mt_goto i MIdle s
                else mt_goto i CReload s)
        | CCas pos \<Rightarrow>
            (if mr_tail q = pos \<and> ok
             then mt_goto i (CRead pos) (s\<lparr>mt_ring := q\<lparr>mr_tail := pos + 1\<rparr>, mt_taken := mt_taken s + 1\<rparr>)
             else mt_goto i (CSeq (mr_tail q)) s)
        | CReload \<Rightarrow> mt_goto i (CSeq (mr_tail q)) s
        | CRead pos \<Rightarrow> mt_goto i (CFree pos (m_data (mr_buffer q ! cell_index k pos))) s
        | CFree pos v \<Rightarrow>
            mt_goto i MIdle (s\<lparr>mt_ring := set_cell k pos (m_sequence_update (\<lambda>_. pos + buffer_mask k + 1)) q,
                               mt_popped := mt_popped s @ [(unat pos, v)]\<rparr>)
        | _ \<Rightarrow> s)"

inductive mt_step :: "nat \<Rightarrow> 'a mpmc \<Rightarrow> 'a mpmc \<Rightarrow> bool" for k where
  begin_push: "mt_pc s i = MIdle \<Longrightarrow> mt_step k s (mt_push_call i x s)"
| begin_pop: "mt_pc s i = MIdle \<Longrightarrow> mt_step k s (mt_pop_call i s)"
| go_push: "mt_step k s (push_next k ok i s)"
| go_pop: "mt_step k s (pop_next k ok i s)"

inductive mt_reach :: "nat \<Rightarrow> 'a mpmc \<Rightarrow> bool" for k where
  mt_reach_init: "mt_reach k (mt_init k raw)"
| mt_reach_step: "mt_reach k s \<Longrightarrow> mt_step k s s' \<Longrightarrow> mt_reach k s'"

section \<open>The cells\<close>

text \<open>
  With \<open>h\<close> elements claimed and \<open>t\<close> taken, the cells are those of the positions from \<open>t\<close> to \<open>t + 2 ^ k\<close>.
  \<open>W\<close> has the positions whose data is being written, \<open>R\<close> those being read. \<open>seq_at\<close> is the sequence
  number of the cell of position \<open>p\<close> and \<open>elem_at\<close> the number of the element in it.
\<close>

definition seq_at :: "nat \<Rightarrow> nat \<Rightarrow> nat set \<Rightarrow> nat set \<Rightarrow> nat \<Rightarrow> nat" where
  "seq_at k h W R p =
    (if p < h then (if p \<in> W then p else p + 1)
     else if 2 ^ k \<le> p \<and> p - 2 ^ k \<in> R then p - 2 ^ k + 1 else p)"

definition elem_at :: "nat \<Rightarrow> nat \<Rightarrow> nat set \<Rightarrow> nat set \<Rightarrow> nat \<Rightarrow> nat option" where
  "elem_at k h W R p =
    (if p < h then (if p \<in> W then None else Some p)
     else if 2 ^ k \<le> p \<and> p - 2 ^ k \<in> R then Some (p - 2 ^ k) else None)"

definition cell_of :: "nat \<Rightarrow> 'a multiringbuffer \<Rightarrow> nat \<Rightarrow> 'a cell_t" where
  "cell_of k q p = mr_buffer q ! (p mod 2 ^ k)"

definition cells_ok :: "nat \<Rightarrow> 'a list \<Rightarrow> nat \<Rightarrow> nat set \<Rightarrow> nat set \<Rightarrow> 'a multiringbuffer \<Rightarrow> bool" where
  "cells_ok k xs t W R q \<longleftrightarrow>
    (\<forall>p. t \<le> p \<longrightarrow> p < t + 2 ^ k \<longrightarrow>
       m_sequence (cell_of k q p) = word_of_nat (seq_at k (length xs) W R p)
       \<and> (\<forall>n. elem_at k (length xs) W R p = Some n \<longrightarrow> m_data (cell_of k q p) = xs ! n))"

definition mt_counts_ok :: "nat \<Rightarrow> nat \<Rightarrow> nat \<Rightarrow> nat set \<Rightarrow> nat set \<Rightarrow> bool" where
  "mt_counts_ok k h t W R \<longleftrightarrow> t \<le> h \<and> h \<le> t + 2 ^ k \<and> W \<subseteq> {t..<h} \<and> R \<subseteq> {..<t} \<and> (\<forall>p\<in>R. h \<le> p + 2 ^ k)"

definition shared_ok :: "nat \<Rightarrow> 'a list \<Rightarrow> nat \<Rightarrow> nat set \<Rightarrow> nat set \<Rightarrow> 'a multiringbuffer \<Rightarrow> bool" where
  "shared_ok k xs t W R q \<longleftrightarrow>
    length (mr_buffer q) = 2 ^ k \<and> mr_head q = word_of_nat (length xs) \<and> mr_tail q = word_of_nat t
    \<and> mt_counts_ok k (length xs) t W R \<and> cells_ok k xs t W R q"

lemma word_of_nat_eq64: "a < 2 ^ 64 \<Longrightarrow> b < 2 ^ 64 \<Longrightarrow> (word_of_nat a :: size_t) = word_of_nat b \<longleftrightarrow> a = b"
  by (metis unat_of_nat64)

lemma window_eq:
  fixes p p' t n :: nat
  assumes "t \<le> p" "p < t + n" "t \<le> p'" "p' < t + n" "p mod n = p' mod n"
  shows "p = p'"
  using assms counters_empty_iff [of p p' n] counters_empty_iff [of p' p n] by (cases "p \<le> p'") auto

text \<open>A cell's number is known when its sequence number is.\<close>

lemma cells_okD:
  assumes "cells_ok k xs t W R q" "t \<le> p" "p < t + 2 ^ k"
  shows "m_sequence (cell_of k q p) = word_of_nat (seq_at k (length xs) W R p)"
    "elem_at k (length xs) W R p = Some n \<Longrightarrow> m_data (cell_of k q p) = xs ! n"
  using assms by (auto simp: cells_ok_def)

lemma cells_ok_update:
  assumes "cells_ok k xs t W R q" "t \<le> p" "p < t + 2 ^ k" "length (mr_buffer q) = 2 ^ k"
    "\<And>p'. t \<le> p' \<Longrightarrow> p' < t + 2 ^ k \<Longrightarrow> p' \<noteq> p \<Longrightarrow>
       seq_at k (length xs) W' R' p' = seq_at k (length xs) W R p' \<and> elem_at k (length xs) W' R' p' = elem_at k (length xs) W R p'"
    "m_sequence (f (cell_of k q p)) = word_of_nat (seq_at k (length xs) W' R' p)"
    "\<And>n. elem_at k (length xs) W' R' p = Some n \<Longrightarrow> m_data (f (cell_of k q p)) = xs ! n"
  shows "cells_ok k xs t W' R' (q\<lparr>mr_buffer := (mr_buffer q)[p mod 2 ^ k := f (mr_buffer q ! (p mod 2 ^ k))]\<rparr>)"
proof -
  let ?q = "q\<lparr>mr_buffer := (mr_buffer q)[p mod 2 ^ k := f (mr_buffer q ! (p mod 2 ^ k))]\<rparr>"
  have here: "cell_of k ?q p = f (cell_of k q p)" using assms(4) by (simp add: cell_of_def)
  have other: "cell_of k ?q p' = cell_of k q p'" if "t \<le> p'" "p' < t + 2 ^ k" "p' \<noteq> p" for p'
  proof -
    have "p mod 2 ^ k \<noteq> p' mod 2 ^ k" using window_eq [OF that(1,2) assms(2,3)] that(3) by auto
    then show ?thesis by (simp add: cell_of_def)
  qed
  show ?thesis unfolding cells_ok_def
  proof (intro allI impI)
    fix p' assume p': "t \<le> p'" "p' < t + 2 ^ k"
    show "m_sequence (cell_of k ?q p') = word_of_nat (seq_at k (length xs) W' R' p')
       \<and> (\<forall>n. elem_at k (length xs) W' R' p' = Some n \<longrightarrow> m_data (cell_of k ?q p') = xs ! n)"
    proof (cases "p' = p")
      case True
      then show ?thesis using here assms(6,7) by simp
    next
      case False
      then show ?thesis using other [OF p' False] assms(5) [OF p' False] cells_okD [OF assms(1) p'] by simp
    qed
  qed
qed


lemma set_cell_eq:
  assumes "k < 63" "p < 2 ^ 64"
  shows "set_cell k (word_of_nat p) f q = q\<lparr>mr_buffer := (mr_buffer q)[p mod 2 ^ k := f (mr_buffer q ! (p mod 2 ^ k))]\<rparr>"
  using assms by (simp add: set_cell_def cell_index_mod unat_of_nat64)

text \<open>The five accesses that change shared memory, each with the positions it changes.\<close>

lemma shared_claim:
  assumes ok: "shared_ok k xs t W R q" and room: "length xs < t + 2 ^ k" "\<not> (2 ^ k \<le> length xs \<and> length xs - 2 ^ k \<in> R)"
  shows "shared_ok k (xs @ [x]) t (insert (length xs) W) R (q\<lparr>mr_head := word_of_nat (length xs) + 1\<rparr>)"
proof -
  let ?q = "q\<lparr>mr_head := word_of_nat (length xs) + 1\<rparr>"
  have c: "mt_counts_ok k (length xs) t W R" and cells: "cells_ok k xs t W R q" using ok by (auto simp: shared_ok_def)
  have "length xs \<noteq> p + 2 ^ k" if "p \<in> R" for p using that room(2) by auto
  then have "\<forall>p \<in> R. Suc (length xs) \<le> p + 2 ^ k" using c by (auto simp: mt_counts_ok_def Suc_le_eq order_less_le)
  then have "mt_counts_ok k (length (xs @ [x])) t (insert (length xs) W) R"
    using c room(1) by (auto simp: mt_counts_ok_def subset_iff)
  moreover have "cells_ok k (xs @ [x]) t (insert (length xs) W) R ?q"
    unfolding cells_ok_def
  proof (intro allI impI)
    fix p assume p: "t \<le> p" "p < t + 2 ^ k"
    have "seq_at k (length (xs @ [x])) (insert (length xs) W) R p = seq_at k (length xs) W R p"
      using c room by (cases "p = length xs") (auto simp: seq_at_def mt_counts_ok_def)
    moreover have "elem_at k (length (xs @ [x])) (insert (length xs) W) R p = elem_at k (length xs) W R p"
      using c room by (cases "p = length xs") (auto simp: elem_at_def mt_counts_ok_def)
    moreover have "n < length xs" if "elem_at k (length xs) W R p = Some n" for n
      using that c by (auto simp: elem_at_def mt_counts_ok_def split: if_splits)
    ultimately show "m_sequence (cell_of k ?q p) = word_of_nat (seq_at k (length (xs @ [x])) (insert (length xs) W) R p) \<and>
      (\<forall>n. elem_at k (length (xs @ [x])) (insert (length xs) W) R p = Some n \<longrightarrow> m_data (cell_of k ?q p) = (xs @ [x]) ! n)"
      using cells_okD [OF cells p] by (auto simp: cell_of_def nth_append)
  qed
  ultimately show ?thesis using ok by (simp add: shared_ok_def)
qed

lemma shared_write:
  assumes "shared_ok k xs t W R q" "p \<in> W"
  shows "shared_ok k xs t W R (q\<lparr>mr_buffer := (mr_buffer q)[p mod 2 ^ k := (mr_buffer q ! (p mod 2 ^ k))\<lparr>m_data := x\<rparr>]\<rparr>)"
proof -
  have p: "t \<le> p" "p < length xs" "p < t + 2 ^ k" using assms by (auto simp: shared_ok_def mt_counts_ok_def)
  have "cells_ok k xs t W R (q\<lparr>mr_buffer := (mr_buffer q)[p mod 2 ^ k := (mr_buffer q ! (p mod 2 ^ k))\<lparr>m_data := x\<rparr>]\<rparr>)"
    by (rule cells_ok_update [where W = W and R = R and f = "m_data_update (\<lambda>_. x)"])
       (use assms p cells_okD(1) [of k xs t W R q p] in \<open>auto simp: shared_ok_def elem_at_def\<close>)
  then show ?thesis using assms(1) by (simp add: shared_ok_def)
qed

lemma shared_publish:
  assumes "shared_ok k xs t W R q" "p \<in> W" "m_data (cell_of k q p) = xs ! p"
  shows "shared_ok k xs t (W - {p}) R
    (q\<lparr>mr_buffer := (mr_buffer q)[p mod 2 ^ k := (mr_buffer q ! (p mod 2 ^ k))\<lparr>m_sequence := word_of_nat p + 1\<rparr>]\<rparr>)"
proof -
  have p: "t \<le> p" "p < length xs" "p < t + 2 ^ k" using assms by (auto simp: shared_ok_def mt_counts_ok_def)
  have "cells_ok k xs t (W - {p}) R
    (q\<lparr>mr_buffer := (mr_buffer q)[p mod 2 ^ k := (mr_buffer q ! (p mod 2 ^ k))\<lparr>m_sequence := word_of_nat p + 1\<rparr>]\<rparr>)"
    by (rule cells_ok_update [where W = W and R = R and f = "m_sequence_update (\<lambda>_. word_of_nat p + 1)"])
       (use assms p in \<open>auto simp: shared_ok_def elem_at_def seq_at_def\<close>)
  then show ?thesis using assms(1) by (auto simp: shared_ok_def mt_counts_ok_def)
qed

lemma shared_take:
  assumes ok: "shared_ok k xs t W R q" and some: "t < length xs" "t \<notin> W"
  shows "shared_ok k xs (t + 1) W (insert t R) (q\<lparr>mr_tail := word_of_nat t + 1\<rparr>)"
proof -
  let ?q = "q\<lparr>mr_tail := word_of_nat t + 1\<rparr>"
  have c: "mt_counts_ok k (length xs) t W R" and cells: "cells_ok k xs t W R q" using ok by (auto simp: shared_ok_def)
  have "Suc t \<le> p" if "p \<in> W" for p using that c some(2) by (cases "p = t") (auto simp: mt_counts_ok_def)
  then have "mt_counts_ok k (length xs) (t + 1) W (insert t R)"
    using c some(1) by (auto simp: mt_counts_ok_def subset_iff)
  moreover have "cells_ok k xs (t + 1) W (insert t R) ?q"
    unfolding cells_ok_def
  proof (intro allI impI)
    fix p assume p: "t + 1 \<le> p" "p < t + 1 + 2 ^ k"
    show "m_sequence (cell_of k ?q p) = word_of_nat (seq_at k (length xs) W (insert t R) p) \<and>
      (\<forall>n. elem_at k (length xs) W (insert t R) p = Some n \<longrightarrow> m_data (cell_of k ?q p) = xs ! n)"
    proof (cases "p = t + 2 ^ k")
      case True
      have "cell_of k ?q p = cell_of k q t" using True by (simp add: cell_of_def)
      then show ?thesis using True c some cells_okD [OF cells, of t]
        by (auto simp: seq_at_def elem_at_def mt_counts_ok_def)
    next
      case False
      then have "seq_at k (length xs) W (insert t R) p = seq_at k (length xs) W R p"
        "elem_at k (length xs) W (insert t R) p = elem_at k (length xs) W R p"
        by (auto simp: seq_at_def elem_at_def)
      then show ?thesis using cells_okD [OF cells, of p] p False by (simp add: cell_of_def)
    qed
  qed
  ultimately show ?thesis using ok by (simp add: shared_ok_def)
qed

lemma shared_free:
  assumes "shared_ok k xs t W R q" "p \<in> R"
  shows "shared_ok k xs t W (R - {p})
    (q\<lparr>mr_buffer := (mr_buffer q)[p mod 2 ^ k := (mr_buffer q ! (p mod 2 ^ k))\<lparr>m_sequence := word_of_nat p + buffer_mask k + 1\<rparr>]\<rparr>)"
proof -
  let ?q = "q\<lparr>mr_buffer := (mr_buffer q)[p mod 2 ^ k := (mr_buffer q ! (p mod 2 ^ k))\<lparr>m_sequence := word_of_nat p + buffer_mask k + 1\<rparr>]\<rparr>"
  have p: "length xs \<le> p + 2 ^ k" "p < t" "t \<le> p + 2 ^ k" using assms by (auto simp: shared_ok_def mt_counts_ok_def)
  have "cells_ok k xs t W (R - {p})
    (q\<lparr>mr_buffer := (mr_buffer q)[(p + 2 ^ k) mod 2 ^ k := m_sequence_update (\<lambda>_. word_of_nat p + buffer_mask k + 1) (mr_buffer q ! ((p + 2 ^ k) mod 2 ^ k))]\<rparr>)"
    by (rule cells_ok_update [where W = W and R = R])
       (use assms p in \<open>auto simp: shared_ok_def elem_at_def seq_at_def buffer_mask_def\<close>)
  then show ?thesis using assms(1) by (auto simp: shared_ok_def mt_counts_ok_def)
qed


section \<open>The threads\<close>

fun writing :: "'a mt_pc \<Rightarrow> nat option" where
  "writing (PWrite pos x) = Some (unat pos)"
| "writing (PPublish pos x) = Some (unat pos)"
| "writing _ = None"

fun reading :: "'a mt_pc \<Rightarrow> nat option" where
  "reading (CRead pos) = Some (unat pos)"
| "reading (CFree pos v) = Some (unat pos)"
| "reading _ = None"

text \<open>
  What a thread knows: before an exchange that may succeed, that the cell is free or full;
  afterwards, its element.
\<close>

fun thread_ok :: "nat \<Rightarrow> 'a list \<Rightarrow> nat \<Rightarrow> nat set \<Rightarrow> nat set \<Rightarrow> 'a multiringbuffer \<Rightarrow> 'a mt_pc \<Rightarrow> bool" where
  "thread_ok k xs t W R q (PSeq pos x) = (unat pos \<le> length xs)"
| "thread_ok k xs t W R q (PCas pos x) = (unat pos \<le> length xs \<and>
    (unat pos = length xs \<longrightarrow> length xs < t + 2 ^ k \<and> \<not> (2 ^ k \<le> length xs \<and> length xs - 2 ^ k \<in> R)))"
| "thread_ok k xs t W R q (PWrite pos x) = (unat pos \<in> W \<and> x = xs ! unat pos)"
| "thread_ok k xs t W R q (PPublish pos x) = (unat pos \<in> W \<and> x = xs ! unat pos \<and> m_data (cell_of k q (unat pos)) = x)"
| "thread_ok k xs t W R q (CSeq pos) = (unat pos \<le> t)"
| "thread_ok k xs t W R q (CCas pos) = (unat pos \<le> t \<and> (unat pos = t \<longrightarrow> t < length xs \<and> t \<notin> W))"
| "thread_ok k xs t W R q (CRead pos) = (unat pos \<in> R)"
| "thread_ok k xs t W R q (CFree pos v) = (unat pos \<in> R \<and> v = xs ! unat pos)"
| "thread_ok k xs t W R q _ = True"

definition positions :: "('a mt_pc \<Rightarrow> nat option) \<Rightarrow> (nat \<Rightarrow> 'a mt_pc) \<Rightarrow> nat set" where
  "positions f pcs = {p. \<exists>i. f (pcs i) = Some p}"

definition own_positions :: "('a mt_pc \<Rightarrow> nat option) \<Rightarrow> (nat \<Rightarrow> 'a mt_pc) \<Rightarrow> bool" where
  "own_positions f pcs \<longleftrightarrow> (\<forall>i j p. f (pcs i) = Some p \<longrightarrow> f (pcs j) = Some p \<longrightarrow> i = j)"

definition popped_ok :: "'a list \<Rightarrow> nat \<Rightarrow> nat set \<Rightarrow> (nat \<times> 'a) list \<Rightarrow> bool" where
  "popped_ok xs t R ps \<longleftrightarrow> distinct (map fst ps) \<and> set (map fst ps) = {..<t} - R \<and> (\<forall>pv \<in> set ps. snd pv = xs ! fst pv)"

definition mt_inv :: "nat \<Rightarrow> 'a mpmc \<Rightarrow> bool" where
  "mt_inv k s \<longleftrightarrow>
    (let W = positions writing (mt_pc s); R = positions reading (mt_pc s)
     in shared_ok k (mt_claimed s) (mt_taken s) W R (mt_ring s)
        \<and> (\<forall>i. thread_ok k (mt_claimed s) (mt_taken s) W R (mt_ring s) (mt_pc s i))
        \<and> own_positions writing (mt_pc s) \<and> own_positions reading (mt_pc s)
        \<and> popped_ok (mt_claimed s) (mt_taken s) R (mt_popped s))"

lemma positions_gain: "f (pcs i) = None \<Longrightarrow> f c = Some p \<Longrightarrow> positions f (pcs(i := c)) = insert p (positions f pcs)"
  by (auto simp: positions_def) (metis option.distinct(1))

lemma positions_keep: "f (pcs i) = f c \<Longrightarrow> positions f (pcs(i := c)) = positions f pcs"
  by (auto simp: positions_def) metis

lemma positions_lose:
  "own_positions f pcs \<Longrightarrow> f (pcs i) = Some p \<Longrightarrow> f c = None \<Longrightarrow> positions f (pcs(i := c)) = positions f pcs - {p}"
  by (auto simp: positions_def own_positions_def split: if_splits) (metis option.inject)

lemma own_positions_gain:
  "own_positions f pcs \<Longrightarrow> f c = Some p \<Longrightarrow> p \<notin> positions f pcs \<Longrightarrow> own_positions f (pcs(i := c))"
  by (auto simp: own_positions_def positions_def)

lemma own_positions_update:
  "own_positions f pcs \<Longrightarrow> f c = None \<or> f c = f (pcs i) \<Longrightarrow> own_positions f (pcs(i := c))"
  unfolding own_positions_def by (metis fun_upd_apply option.distinct(1))

lemma popped_less:
  assumes "popped_ok xs t R ps" "pv \<in> set ps"
  shows "fst pv < t"
proof -
  have "fst pv \<in> set (map fst ps)" using assms(2) by simp
  then have "fst pv \<in> {..<t} - R" using assms(1) by (simp only: popped_ok_def)
  then show ?thesis by simp
qed

lemma popped_ok_append:
  assumes "popped_ok xs t R ps" "t \<le> length xs"
  shows "popped_ok (xs @ ys) t R ps"
  using assms popped_less [OF assms(1)] by (fastforce simp: popped_ok_def nth_append)

text \<open>A step that changes no shared memory.\<close>

lemma mt_inv_goto:
  assumes inv: "mt_inv k s" and same: "writing c = writing (mt_pc s i)" "reading c = reading (mt_pc s i)"
    and ok: "thread_ok k (mt_claimed s) (mt_taken s) (positions writing (mt_pc s)) (positions reading (mt_pc s)) (mt_ring s) c"
  shows "mt_inv k (mt_goto i c s)"
proof -
  have "positions writing ((mt_pc s)(i := c)) = positions writing (mt_pc s)"
    "positions reading ((mt_pc s)(i := c)) = positions reading (mt_pc s)"
    using same by (simp_all add: positions_keep)
  then show ?thesis using inv ok same by (simp add: mt_inv_def mt_goto_def Let_def own_positions_update)
qed


text \<open>A step that changes shared memory.\<close>

lemma mt_inv_change:
  assumes "shared_ok k (mt_claimed s) (mt_taken s) W R (mt_ring s)" "popped_ok (mt_claimed s) (mt_taken s) R (mt_popped s)"
    "thread_ok k (mt_claimed s) (mt_taken s) W R (mt_ring s) c"
    "\<And>j. j \<noteq> i \<Longrightarrow> thread_ok k (mt_claimed s) (mt_taken s) W R (mt_ring s) (mt_pc s j)"
    "positions writing ((mt_pc s)(i := c)) = W" "positions reading ((mt_pc s)(i := c)) = R"
    "own_positions writing ((mt_pc s)(i := c))" "own_positions reading ((mt_pc s)(i := c))"
  shows "mt_inv k (mt_goto i c s)"
  using assms by (simp add: mt_inv_def mt_goto_def Let_def)

text \<open>What one thread does to shared memory leaves the knowledge of the others.\<close>

lemma thread_ok_claim:
  assumes "thread_ok k xs t W R q c" "mt_counts_ok k (length xs) t W R"
  shows "thread_ok k (xs @ [x]) t (insert (length xs) W) R (q\<lparr>mr_head := w\<rparr>) c"
  using assms by (cases c) (auto simp: nth_append cell_of_def mt_counts_ok_def subset_iff)

lemma thread_ok_take:
  assumes "thread_ok k xs t W R q c" "mt_counts_ok k (length xs) t W R"
  shows "thread_ok k xs (t + 1) W (insert t R) (q\<lparr>mr_tail := w\<rparr>) c"
  using assms by (cases c) (auto simp: cell_of_def mt_counts_ok_def subset_iff)

lemma thread_ok_cell:
  assumes ok: "thread_ok k xs t W R q c" and W': "\<And>p'. writing c = Some p' \<Longrightarrow> p' \<noteq> p"
    and R': "\<And>p'. reading c = Some p' \<Longrightarrow> p' \<in> R'" and sub: "R' \<subseteq> R" "W - {p} \<subseteq> W'" "W' \<subseteq> W"
    and q': "\<And>p'. writing c = Some p' \<Longrightarrow> m_data (cell_of k q' p') = m_data (cell_of k q p')"
  shows "thread_ok k xs t W' R' q' c"
  using assms by (cases c) auto

lemma data_other:
  assumes "mt_counts_ok k h t W R" "p \<in> W" "p' \<in> W" "p' \<noteq> p"
  shows "cell_of k (q\<lparr>mr_buffer := (mr_buffer q)[p mod 2 ^ k := v]\<rparr>) p' = cell_of k q p'"
proof -
  have "p mod 2 ^ k \<noteq> p' mod 2 ^ k"
    using assms window_eq [of t p "2 ^ k" p'] by (auto simp: mt_counts_ok_def subset_iff) fastforce
  then show ?thesis by (simp add: cell_of_def)
qed

lemma data_sequence [simp]:
  "m_data (cell_of k (q\<lparr>mr_buffer := (mr_buffer q)[n := (mr_buffer q ! n)\<lparr>m_sequence := w\<rparr>]\<rparr>) p) = m_data (cell_of k q p)"
  by (cases "n < length (mr_buffer q)") (auto simp: cell_of_def nth_list_update list_update_beyond)

section \<open>Every step keeps the invariant\<close>

definition mt_bounded :: "nat \<Rightarrow> 'a mpmc \<Rightarrow> bool" where
  "mt_bounded k s \<longleftrightarrow> length (mt_claimed s) + 2 ^ k < 2 ^ 64"

lemma mt_invD:
  assumes "mt_inv k s" "mt_bounded k s"
  shows "shared_ok k (mt_claimed s) (mt_taken s) (positions writing (mt_pc s)) (positions reading (mt_pc s)) (mt_ring s)"
    "thread_ok k (mt_claimed s) (mt_taken s) (positions writing (mt_pc s)) (positions reading (mt_pc s)) (mt_ring s) (mt_pc s i)"
    "own_positions writing (mt_pc s)" "own_positions reading (mt_pc s)"
    "popped_ok (mt_claimed s) (mt_taken s) (positions reading (mt_pc s)) (mt_popped s)"
    "mt_counts_ok k (length (mt_claimed s)) (mt_taken s) (positions writing (mt_pc s)) (positions reading (mt_pc s))"
    "unat (mr_head (mt_ring s)) = length (mt_claimed s)" "unat (mr_tail (mt_ring s)) = mt_taken s"
  using assms by (auto simp: mt_inv_def Let_def shared_ok_def mt_bounded_def mt_counts_ok_def unat_of_nat64)

lemma push_load_inv:
  assumes k: "0 < k" "k < 63" and inv: "mt_inv k s" "mt_bounded k s" and pc: "mt_pc s i = PSeq pos x"
    and seq: "m_sequence (mr_buffer (mt_ring s) ! cell_index k pos) = pos"
  shows "mt_inv k (mt_goto i (PCas pos x) s)"
proof -
  note D = mt_invD [OF inv]
  let ?h = "length (mt_claimed s)" and ?t = "mt_taken s" and ?R = "positions reading (mt_pc s)"
  have N: "(2::nat) \<le> 2 ^ k" using k(1) by (cases k) auto
  have pos: "unat pos \<le> ?h" using D(2) [of i] pc by simp
  have cell: "m_sequence (cell_of k (mt_ring s) (unat pos)) = word_of_nat (unat pos)"
    using seq k by (simp add: cell_of_def cell_index_mod)
  have cells: "cells_ok k (mt_claimed s) ?t (positions writing (mt_pc s)) ?R (mt_ring s)"
    using D(1) by (simp add: shared_ok_def)
  have "?h < ?t + 2 ^ k \<and> \<not> (2 ^ k \<le> ?h \<and> ?h - 2 ^ k \<in> ?R)" if "unat pos = ?h"
  proof -
    have c: "?t \<le> ?h" "?h \<le> ?t + 2 ^ k" using D(6) by (auto simp: mt_counts_ok_def)
    have room: "?h < ?t + 2 ^ k"
    proof (rule ccontr)
      assume "\<not> ?h < ?t + 2 ^ k"
      then have h: "?h = ?t + 2 ^ k" using c by simp
      then have "m_sequence (cell_of k (mt_ring s) ?t) = word_of_nat ?h" using cell that by (simp add: cell_of_def)
      moreover have "m_sequence (cell_of k (mt_ring s) ?t) = word_of_nat (seq_at k ?h (positions writing (mt_pc s)) ?R ?t)"
        by (rule cells_okD(1) [OF cells]) simp_all
      moreover have "seq_at k ?h (positions writing (mt_pc s)) ?R ?t \<le> ?t + 1" "?t < ?h" using h by (auto simp: seq_at_def)
      ultimately have "seq_at k ?h (positions writing (mt_pc s)) ?R ?t = ?h"
        using inv(2) word_of_nat_eq64 [of "seq_at k ?h (positions writing (mt_pc s)) ?R ?t" ?h]
        by (simp add: mt_bounded_def del: of_nat_add)
      then show False using \<open>_ \<le> ?t + 1\<close> h N by simp
    qed
    moreover have "word_of_nat (seq_at k ?h (positions writing (mt_pc s)) ?R ?h) = (word_of_nat ?h :: size_t)"
      using cells_okD(1) [OF cells c(1) room] cell that by simp
    moreover have "seq_at k ?h (positions writing (mt_pc s)) ?R ?h \<le> ?h" using N by (auto simp: seq_at_def)
    ultimately have "seq_at k ?h (positions writing (mt_pc s)) ?R ?h = ?h"
      using inv(2) by (simp add: mt_bounded_def word_of_nat_eq64)
    then show ?thesis using room N by (auto simp: seq_at_def split: if_splits)
  qed
  then show ?thesis using pc pos by (intro mt_inv_goto [OF inv(1)]) simp_all
qed


lemma pop_load_inv:
  assumes k: "0 < k" "k < 63" and inv: "mt_inv k s" "mt_bounded k s" and pc: "mt_pc s i = CSeq pos"
    and seq: "m_sequence (mr_buffer (mt_ring s) ! cell_index k pos) = pos + 1"
  shows "mt_inv k (mt_goto i (CCas pos) s)"
proof -
  note D = mt_invD [OF inv]
  let ?h = "length (mt_claimed s)" and ?t = "mt_taken s" and ?W = "positions writing (mt_pc s)"
  let ?seq = "seq_at k ?h ?W (positions reading (mt_pc s)) ?t"
  have N: "(2::nat) \<le> 2 ^ k" using k(1) by (cases k) auto
  have pos: "unat pos \<le> ?t" using D(2) [of i] pc by simp
  have "?t < ?h \<and> ?t \<notin> ?W" if t: "unat pos = ?t"
  proof -
    have pos': "pos = word_of_nat ?t" by (simp add: t [symmetric])
    have "m_sequence (cell_of k (mt_ring s) ?t) = word_of_nat (?t + 1)"
      using seq k t pos' by (simp add: cell_of_def cell_index_mod)
    moreover have "m_sequence (cell_of k (mt_ring s) ?t) = word_of_nat ?seq"
      by (rule cells_okD(1) [where t = ?t]) (use D(1) in \<open>simp_all add: shared_ok_def\<close>)
    moreover have "?seq \<le> ?t + 1" "?t \<le> ?h" using D(6) by (auto simp: seq_at_def mt_counts_ok_def)
    ultimately have "?seq = ?t + 1"
      using inv(2) N word_of_nat_eq64 [of ?seq "?t + 1"] by (simp add: mt_bounded_def del: of_nat_Suc)
    then show ?thesis using N by (auto simp: seq_at_def split: if_splits)
  qed
  then show ?thesis using pc pos by (intro mt_inv_goto [OF inv(1)]) simp_all
qed

lemma claim_inv:
  assumes inv: "mt_inv k s" "mt_bounded k s" and pc: "mt_pc s i = PCas pos x" and head: "mr_head (mt_ring s) = pos"
  shows "mt_inv k (mt_goto i (PWrite pos x) (s\<lparr>mt_ring := (mt_ring s)\<lparr>mr_head := pos + 1\<rparr>, mt_claimed := mt_claimed s @ [x]\<rparr>))"
proof -
  note D = mt_invD [OF inv]
  let ?h = "length (mt_claimed s)"
  have pos: "unat pos = ?h" "pos = word_of_nat ?h" using D(1,7) head by (auto simp: shared_ok_def)
  have room: "?h < mt_taken s + 2 ^ k" "\<not> (2 ^ k \<le> ?h \<and> ?h - 2 ^ k \<in> positions reading (mt_pc s))"
    using D(2) [of i] pc pos(1) by simp_all
  have new: "?h \<notin> positions writing (mt_pc s)" using D(6) by (auto simp: mt_counts_ok_def)
  have P: "positions writing ((mt_pc s)(i := PWrite pos x)) = insert ?h (positions writing (mt_pc s))"
    "positions reading ((mt_pc s)(i := PWrite pos x)) = positions reading (mt_pc s)"
    using pc pos by (simp_all add: positions_gain positions_keep)
  have popped: "popped_ok (mt_claimed s @ [x]) (mt_taken s) (positions reading (mt_pc s)) (mt_popped s)"
    by (rule popped_ok_append [OF D(5)]) (use D(6) in \<open>simp add: mt_counts_ok_def\<close>)
  show ?thesis
    by (rule mt_inv_change [where W = "insert ?h (positions writing (mt_pc s))" and R = "positions reading (mt_pc s)"])
       (use shared_claim [OF D(1) room, of x, folded pos(2)] thread_ok_claim [OF D(2) D(6)] new popped D(3,4) pc pos(1) P in
         \<open>simp_all add: own_positions_gain own_positions_update nth_append\<close>)
qed


lemma write_inv:
  assumes k: "k < 63" and inv: "mt_inv k s" "mt_bounded k s" and pc: "mt_pc s i = PWrite pos x"
  shows "mt_inv k (mt_goto i (PPublish pos x) (s\<lparr>mt_ring := set_cell k pos (m_data_update (\<lambda>_. x)) (mt_ring s)\<rparr>))"
proof -
  note D = mt_invD [OF inv]
  let ?W = "positions writing (mt_pc s)" and ?R = "positions reading (mt_pc s)" and ?p = "unat pos"
  let ?q = "set_cell k pos (m_data_update (\<lambda>_. x)) (mt_ring s)"
  have me: "?p \<in> ?W" "x = mt_claimed s ! ?p" using D(2) [of i] pc by simp_all
  have q: "?q = (mt_ring s)\<lparr>mr_buffer := (mr_buffer (mt_ring s))[?p mod 2 ^ k := (mr_buffer (mt_ring s) ! (?p mod 2 ^ k))\<lparr>m_data := x\<rparr>]\<rparr>"
    using k by (simp add: set_cell_def cell_index_mod)
  have P: "positions writing ((mt_pc s)(i := PPublish pos x)) = ?W" "positions reading ((mt_pc s)(i := PPublish pos x)) = ?R"
    using pc by (simp_all add: positions_keep)
  have mine: "m_data (cell_of k ?q ?p) = x" using D(1) unfolding q by (simp add: cell_of_def shared_ok_def)
  have others: "thread_ok k (mt_claimed s) (mt_taken s) ?W ?R ?q (mt_pc s j)" if "j \<noteq> i" for j
  proof (rule thread_ok_cell [OF D(2), where p = ?p])
    fix p' assume p': "writing (mt_pc s j) = Some p'"
    then show ne: "p' \<noteq> ?p" using D(3) pc that by (auto simp: own_positions_def)
    have "p' \<in> ?W" using p' by (auto simp: positions_def)
    then show "m_data (cell_of k ?q p') = m_data (cell_of k (mt_ring s) p')"
      unfolding q by (simp add: data_other [OF D(6) me(1) _ ne])
  qed (auto simp: positions_def)
  show ?thesis
    by (rule mt_inv_change [where W = ?W and R = ?R])
       (use shared_write [OF D(1) me(1), of x, folded q] others mine me D(3-5) pc P in
         \<open>simp_all add: own_positions_update\<close>)
qed

lemma publish_inv:
  assumes k: "k < 63" and inv: "mt_inv k s" "mt_bounded k s" and pc: "mt_pc s i = PPublish pos x"
  shows "mt_inv k (mt_goto i MIdle (s\<lparr>mt_ring := set_cell k pos (m_sequence_update (\<lambda>_. pos + 1)) (mt_ring s)\<rparr>))"
proof -
  note D = mt_invD [OF inv]
  let ?W = "positions writing (mt_pc s)" and ?R = "positions reading (mt_pc s)" and ?p = "unat pos"
  let ?q = "set_cell k pos (m_sequence_update (\<lambda>_. pos + 1)) (mt_ring s)"
  have me: "?p \<in> ?W" "x = mt_claimed s ! ?p" "m_data (cell_of k (mt_ring s) ?p) = mt_claimed s ! ?p"
    using D(2) [of i] pc by simp_all
  have q: "?q = (mt_ring s)\<lparr>mr_buffer := (mr_buffer (mt_ring s))[?p mod 2 ^ k := (mr_buffer (mt_ring s) ! (?p mod 2 ^ k))\<lparr>m_sequence := word_of_nat ?p + 1\<rparr>]\<rparr>"
    using k by (simp add: set_cell_def cell_index_mod)
  have P: "positions writing ((mt_pc s)(i := MIdle)) = ?W - {?p}" "positions reading ((mt_pc s)(i := MIdle)) = ?R"
    using pc D(3) by (simp_all add: positions_lose positions_keep)
  have others: "thread_ok k (mt_claimed s) (mt_taken s) (?W - {?p}) ?R ?q (mt_pc s j)" if "j \<noteq> i" for j
  proof (rule thread_ok_cell [OF D(2), where p = ?p])
    fix p' assume "writing (mt_pc s j) = Some p'"
    then show "p' \<noteq> ?p" using D(3) pc that by (auto simp: own_positions_def)
    show "m_data (cell_of k ?q p') = m_data (cell_of k (mt_ring s) p')" unfolding q by simp
  qed (auto simp: positions_def)
  show ?thesis
    by (rule mt_inv_change [where W = "?W - {?p}" and R = ?R])
       (use shared_publish [OF D(1) me(1,3), folded q] others D(3-5) pc P in \<open>simp_all add: own_positions_update\<close>)
qed

lemma take_inv:
  assumes inv: "mt_inv k s" "mt_bounded k s" and pc: "mt_pc s i = CCas pos" and tail: "mr_tail (mt_ring s) = pos"
  shows "mt_inv k (mt_goto i (CRead pos) (s\<lparr>mt_ring := (mt_ring s)\<lparr>mr_tail := pos + 1\<rparr>, mt_taken := mt_taken s + 1\<rparr>))"
proof -
  note D = mt_invD [OF inv]
  let ?t = "mt_taken s" and ?R = "positions reading (mt_pc s)"
  have pos: "unat pos = ?t" "pos = word_of_nat ?t" using D(1,8) tail by (auto simp: shared_ok_def)
  have some: "?t < length (mt_claimed s)" "?t \<notin> positions writing (mt_pc s)" using D(2) [of i] pc pos(1) by simp_all
  have new: "?t \<notin> ?R" using D(6) by (auto simp: mt_counts_ok_def)
  have P: "positions reading ((mt_pc s)(i := CRead pos)) = insert ?t ?R"
    "positions writing ((mt_pc s)(i := CRead pos)) = positions writing (mt_pc s)"
    using pc pos by (simp_all add: positions_gain positions_keep)
  have "{..<?t + 1} - insert ?t ?R = {..<?t} - ?R" by auto
  then have popped: "popped_ok (mt_claimed s) (?t + 1) (insert ?t ?R) (mt_popped s)"
    using D(5) unfolding popped_ok_def by simp
  show ?thesis
    by (rule mt_inv_change [where W = "positions writing (mt_pc s)" and R = "insert ?t ?R"])
       (use shared_take [OF D(1) some, folded pos(2)] thread_ok_take [OF D(2) D(6)] new popped D(3,4) pc pos(1) P in
         \<open>simp_all add: own_positions_gain own_positions_update\<close>)
qed

lemma read_value:
  assumes inv: "mt_inv k s" "mt_bounded k s" and k: "k < 63" and pc: "mt_pc s i = CRead pos"
  shows "m_data (mr_buffer (mt_ring s) ! cell_index k pos) = mt_claimed s ! unat pos"
proof -
  note D = mt_invD [OF inv]
  let ?p = "unat pos" and ?R = "positions reading (mt_pc s)"
  have p: "?p \<in> ?R" "?p < mt_taken s" "length (mt_claimed s) \<le> ?p + 2 ^ k" "mt_taken s \<le> ?p + 2 ^ k"
    using D(2) [of i] D(6) pc by (auto simp: mt_counts_ok_def)
  have "m_data (cell_of k (mt_ring s) (?p + 2 ^ k)) = mt_claimed s ! ?p"
    by (rule cells_okD(2) [where W = "positions writing (mt_pc s)" and R = ?R and t = "mt_taken s"])
       (use D(1) p in \<open>simp_all add: shared_ok_def elem_at_def\<close>)
  then show ?thesis using k by (simp add: cell_of_def cell_index_mod)
qed

lemma free_inv:
  assumes k: "k < 63" and inv: "mt_inv k s" "mt_bounded k s" and pc: "mt_pc s i = CFree pos v"
  shows "mt_inv k (mt_goto i MIdle (s\<lparr>mt_ring := set_cell k pos (m_sequence_update (\<lambda>_. pos + buffer_mask k + 1)) (mt_ring s),
      mt_popped := mt_popped s @ [(unat pos, v)]\<rparr>))"
proof -
  note D = mt_invD [OF inv]
  let ?W = "positions writing (mt_pc s)" and ?R = "positions reading (mt_pc s)" and ?p = "unat pos"
  let ?q = "set_cell k pos (m_sequence_update (\<lambda>_. pos + buffer_mask k + 1)) (mt_ring s)"
  have me: "?p \<in> ?R" "v = mt_claimed s ! ?p" "?p < mt_taken s" using D(2) [of i] D(6) pc by (auto simp: mt_counts_ok_def)
  have q: "?q = (mt_ring s)\<lparr>mr_buffer := (mr_buffer (mt_ring s))[?p mod 2 ^ k :=
      (mr_buffer (mt_ring s) ! (?p mod 2 ^ k))\<lparr>m_sequence := word_of_nat ?p + buffer_mask k + 1\<rparr>]\<rparr>"
    using k by (simp add: set_cell_def cell_index_mod)
  have P: "positions reading ((mt_pc s)(i := MIdle)) = ?R - {?p}" "positions writing ((mt_pc s)(i := MIdle)) = ?W"
    using pc D(4) by (simp_all add: positions_lose positions_keep)
  have others: "thread_ok k (mt_claimed s) (mt_taken s) ?W (?R - {?p}) ?q (mt_pc s j)" if "j \<noteq> i" for j
  proof (rule thread_ok_cell [OF D(2), where p = "length (mt_claimed s)"])
    fix p' assume "writing (mt_pc s j) = Some p'"
    then have "p' \<in> ?W" by (auto simp: positions_def)
    then show "p' \<noteq> length (mt_claimed s)" using D(6) by (auto simp: mt_counts_ok_def)
    show "m_data (cell_of k ?q p') = m_data (cell_of k (mt_ring s) p')" unfolding q by simp
  next
    fix p' assume "reading (mt_pc s j) = Some p'"
    then show "p' \<in> ?R - {?p}" using D(4) pc that by (auto simp: own_positions_def positions_def)
  qed auto
  have popped: "popped_ok (mt_claimed s) (mt_taken s) (?R - {?p}) (mt_popped s @ [(?p, v)])"
    using D(5) me by (auto simp: popped_ok_def)
  show ?thesis
    by (rule mt_inv_change [where W = ?W and R = "?R - {?p}"])
       (use shared_free [OF D(1) me(1), folded q] popped others D(3,4) pc P in \<open>simp_all add: own_positions_update\<close>)
qed


lemma reload_inv:
  assumes "mt_inv k s" "mt_bounded k s" "writing (mt_pc s i) = None" "reading (mt_pc s i) = None"
  shows "mt_inv k (mt_goto i (PSeq (mr_head (mt_ring s)) x) s)" "mt_inv k (mt_goto i (CSeq (mr_tail (mt_ring s))) s)"
    "mt_inv k (mt_goto i MIdle s)" "mt_inv k (mt_goto i (PReload x) s)" "mt_inv k (mt_goto i CReload s)"
  using assms mt_invD(7,8) [OF assms(1,2)] by (simp_all add: mt_inv_goto)

lemma sint_zero_iff: "sint (a - b :: size_t) = 0 \<longleftrightarrow> a = b"
  by (metis eq_iff_diff_eq_0 signed_eq_0_iff)

lemma push_next_inv:
  assumes "0 < k" "k < 63" "mt_inv k s" "mt_bounded k s"
  shows "mt_inv k (push_next k ok i s)"
proof (cases "mt_pc s i")
  case (PSeq pos x)
  then show ?thesis using push_load_inv [OF assms PSeq] reload_inv [OF assms(3,4), of i]
    by (simp add: push_next_def Let_def sint_zero_iff)
next
  case (PCas pos x)
  then show ?thesis using claim_inv [OF assms(3,4) PCas] reload_inv [OF assms(3,4), of i]
    by (simp add: push_next_def Let_def)
next
  case (PReload x)
  then show ?thesis using reload_inv [OF assms(3,4), of i] by (simp add: push_next_def Let_def)
next
  case (PWrite pos x)
  then show ?thesis using write_inv [OF assms(2-4) PWrite] by (simp add: push_next_def Let_def)
next
  case (PPublish pos x)
  then show ?thesis using publish_inv [OF assms(2-4) PPublish] by (simp add: push_next_def Let_def)
qed (use assms in \<open>simp_all add: push_next_def\<close>)

lemma pop_next_inv:
  assumes "0 < k" "k < 63" "mt_inv k s" "mt_bounded k s"
  shows "mt_inv k (pop_next k ok i s)"
proof (cases "mt_pc s i")
  case (CSeq pos)
  then show ?thesis using pop_load_inv [OF assms CSeq] reload_inv [OF assms(3,4), of i]
    by (simp add: pop_next_def Let_def sint_zero_iff)
next
  case (CCas pos)
  then show ?thesis using take_inv [OF assms(3,4) CCas] reload_inv [OF assms(3,4), of i]
    by (simp add: pop_next_def Let_def)
next
  case CReload
  then show ?thesis using reload_inv [OF assms(3,4), of i] by (simp add: pop_next_def Let_def)
next
  case (CRead pos)
  have "mt_inv k (mt_goto i (CFree pos (mt_claimed s ! unat pos)) s)"
    using mt_invD(2) [OF assms(3,4), of i] CRead by (intro mt_inv_goto [OF assms(3)]) simp_all
  then show ?thesis using read_value [OF assms(3,4,2) CRead] CRead by (simp add: pop_next_def Let_def)
next
  case (CFree pos v)
  then show ?thesis using free_inv [OF assms(2-4) CFree] by (simp add: pop_next_def Let_def)
qed (use assms in \<open>simp_all add: pop_next_def\<close>)

lemma mt_init_inv: "0 < k \<Longrightarrow> k < 63 \<Longrightarrow> mt_inv k (mt_init k raw)"
  by (auto simp: mt_inv_def mt_init_def Let_def shared_ok_def mr_new_def positions_def mt_counts_ok_def cells_ok_def
      seq_at_def elem_at_def cell_of_def own_positions_def popped_ok_def)

lemma claimed_grows: "mt_step k s s' \<Longrightarrow> length (mt_claimed s) \<le> length (mt_claimed s')"
  by (induction rule: mt_step.induct)
     (auto simp: mt_push_call_def mt_pop_call_def push_next_def pop_next_def mt_goto_def Let_def split: mt_pc.split)

lemma mt_reach_inv: "mt_reach k s \<Longrightarrow> 0 < k \<Longrightarrow> k < 63 \<Longrightarrow> mt_bounded k s \<Longrightarrow> mt_inv k s"
proof (induction rule: mt_reach.induct)
  case (mt_reach_step s s')
  then have b: "mt_bounded k s" using claimed_grows [of k s s'] by (simp add: mt_bounded_def)
  then have inv: "mt_inv k s" using mt_reach_step by simp
  from mt_reach_step.hyps(2) show ?case
    using reload_inv [OF inv b] push_next_inv [OF mt_reach_step.prems(1,2) inv b] pop_next_inv [OF mt_reach_step.prems(1,2) inv b]
    by cases (simp_all add: mt_push_call_def mt_pop_call_def)
qed (simp add: mt_init_inv)

section \<open>Properties\<close>

text \<open>The cell whose data a thread is about to read or assign.\<close>

fun data_access :: "nat \<Rightarrow> 'a mt_pc \<Rightarrow> nat option" where
  "data_access k (PWrite pos x) = Some (cell_index k pos)"
| "data_access k (CRead pos) = Some (cell_index k pos)"
| "data_access k _ = None"

lemma data_access_position:
  assumes "data_access k (mt_pc s i) = Some c" "mt_inv k s" "mt_bounded k s" "k < 63"
  obtains p where "mt_taken s \<le> p" "p < mt_taken s + 2 ^ k" "p mod 2 ^ k = c"
    "(writing (mt_pc s i) = Some p \<and> p < length (mt_claimed s)) \<or>
     (length (mt_claimed s) \<le> p \<and> 2 ^ k \<le> p \<and> reading (mt_pc s i) = Some (p - 2 ^ k))"
proof -
  note D = mt_invD(2,6) [OF assms(2,3)]
  show thesis
  proof (cases "mt_pc s i")
    case (PWrite pos x)
    then show thesis using that [of "unat pos"] D(1) [of i] D(2) assms(1,4)
      by (auto simp: mt_counts_ok_def cell_index_mod subset_iff)
  next
    case (CRead pos)
    then show thesis using that [of "unat pos + 2 ^ k"] D(1) [of i] D(2) assms(1,4)
      by (auto simp: mt_counts_ok_def cell_index_mod subset_iff)
  qed (use assms(1) in simp_all)
qed

lemma no_data_race:
  assumes "mt_inv k s" "mt_bounded k s" "k < 63" "data_access k (mt_pc s i) = Some c" "data_access k (mt_pc s j) = Some c"
  shows "i = j"
proof -
  note D = mt_invD(3,4) [OF assms(1,2)]
  obtain p where p: "mt_taken s \<le> p" "p < mt_taken s + 2 ^ k" "p mod 2 ^ k = c"
    "(writing (mt_pc s i) = Some p \<and> p < length (mt_claimed s)) \<or>
     (length (mt_claimed s) \<le> p \<and> 2 ^ k \<le> p \<and> reading (mt_pc s i) = Some (p - 2 ^ k))"
    by (rule data_access_position [OF assms(4,1-3)])
  obtain p' where p': "mt_taken s \<le> p'" "p' < mt_taken s + 2 ^ k" "p' mod 2 ^ k = c"
    "(writing (mt_pc s j) = Some p' \<and> p' < length (mt_claimed s)) \<or>
     (length (mt_claimed s) \<le> p' \<and> 2 ^ k \<le> p' \<and> reading (mt_pc s j) = Some (p' - 2 ^ k))"
    by (rule data_access_position [OF assms(5,1-3)])
  have "p = p'" using window_eq [OF p(1,2) p'(1,2)] p(3) p'(3) by simp
  then show ?thesis using p(4) p'(4) D by (auto simp: own_positions_def)
qed

text \<open>
  C13 Threads that push and pop at the same time on the sequence-number ring: no two of them are
  ever at the data of one cell; every pop returns the element that was pushed under its number and
  no number is returned twice; and never more than \<^verbatim>\<open>SIZE\<close> elements are
  claimed and not taken. This holds as long as the positions have not used up the 64-bit range.
\<close>

theorem mpmc_safe:
  assumes "mt_reach k s" "0 < k" "k < 63" "length (mt_claimed s) + 2 ^ k < 2 ^ 64"
  shows "(data_access k (mt_pc s i) = Some c \<longrightarrow> data_access k (mt_pc s j) = Some c \<longrightarrow> i = j)
    \<and> (\<forall>(p, v) \<in> set (mt_popped s). p < length (mt_claimed s) \<and> v = mt_claimed s ! p)
    \<and> distinct (map fst (mt_popped s))
    \<and> mt_taken s \<le> length (mt_claimed s) \<and> length (mt_claimed s) \<le> mt_taken s + 2 ^ k"
proof -
  have b: "mt_bounded k s" using assms(4) by (simp add: mt_bounded_def)
  have inv: "mt_inv k s" by (rule mt_reach_inv [OF assms(1-3) b])
  have c: "mt_taken s \<le> length (mt_claimed s)" "length (mt_claimed s) \<le> mt_taken s + 2 ^ k"
    using mt_invD(6) [OF inv b] by (auto simp: mt_counts_ok_def)
  have "fst pv < length (mt_claimed s) \<and> snd pv = mt_claimed s ! fst pv" if "pv \<in> set (mt_popped s)" for pv
    using popped_less [OF mt_invD(5) [OF inv b] that] mt_invD(5) [OF inv b] that c by (auto simp: popped_ok_def)
  then show ?thesis using no_data_race [OF inv b assms(3)] mt_invD(5) [OF inv b] c by (auto simp: popped_ok_def)
qed

text \<open>
  C14 Nothing is lost: when no call is in progress the concurrent ring satisfies the
  invariant of the sequential one, the numbers returned are exactly the first ones, and the ring
  holds the elements that were pushed after them, in the order of their numbers.
\<close>

theorem mpmc_quiescent:
  assumes "mt_reach k s" "0 < k" "k < 63" "length (mt_claimed s) + 2 ^ k < 2 ^ 64" "mt_pc s = (\<lambda>_. MIdle)"
  shows "mr_inv k (mt_ring s) \<and> mr_abs k (mt_ring s) = drop (mt_taken s) (mt_claimed s)
    \<and> fst ` set (mt_popped s) = {..<mt_taken s} \<and> length (mt_popped s) = mt_taken s"
proof -
  let ?h = "length (mt_claimed s)" and ?t = "mt_taken s" and ?q = "mt_ring s"
  have b: "mt_bounded k s" using assms(4) by (simp add: mt_bounded_def)
  have inv: "mt_inv k s" by (rule mt_reach_inv [OF assms(1-3) b])
  note D = mt_invD [OF inv b]
  have none: "positions writing (mt_pc s) = {}" "positions reading (mt_pc s) = {}"
    using assms(5) by (simp_all add: positions_def)
  have th: "?t \<le> ?h" "?h \<le> ?t + 2 ^ k" using D(6) by (auto simp: mt_counts_ok_def)
  have q: "length (mr_buffer ?q) = 2 ^ k" "mr_head ?q = word_of_nat ?h" "mr_tail ?q = word_of_nat ?t"
    using D(1) by (auto simp: shared_ok_def)
  have "mr_head ?q - mr_tail ?q = word_of_nat (?h - ?t)" using th(1) q by (simp add: of_nat_diff)
  then have count: "mr_count ?q = ?h - ?t" using assms(4) by (simp add: mr_count_def unat_of_nat64)
  have idx: "mr_cell k ?q i = cell_of k ?q (?t + i)" for i
    using assms(3) D(8) cell_index_add [of k "mr_tail ?q" i] by (simp add: mr_cell_def cell_of_def)
  have cell: "m_sequence (mr_cell k ?q i) = word_of_nat (if ?t + i < ?h then ?t + i + 1 else ?t + i)"
    "?t + i < ?h \<Longrightarrow> m_data (mr_cell k ?q i) = mt_claimed s ! (?t + i)" if "i < 2 ^ k" for i
    using cells_okD [of k "mt_claimed s" ?t "{}" "{}" ?q "?t + i"] D(1) that none
    by (auto simp: idx shared_ok_def seq_at_def elem_at_def)
  have "mr_inv k ?q"
    using assms(2,3) q count th cell(1) by (auto simp: mr_inv_def)
  moreover have "mr_abs k ?q = drop ?t (mt_claimed s)"
    using th cell(2) by (intro nth_equalityI) (auto simp: mr_abs_def count)
  moreover have f: "set (map fst (mt_popped s)) = {..<?t}" "distinct (map fst (mt_popped s))"
    using D(5) none by (auto simp: popped_ok_def)
  moreover have "length (mt_popped s) = ?t"
    using distinct_card [OF f(2)] by (simp only: f(1) card_lessThan length_map)
  ultimately show ?thesis by simp
qed


text \<open>A schedule of two threads: a push and a pop whose accesses alternate.\<close>

datatype 'a mt_action = BeginPush nat 'a | BeginPop nat | GoPush nat | GoPop nat

fun mt_act :: "nat \<Rightarrow> 'a mt_action \<Rightarrow> 'a mpmc \<Rightarrow> 'a mpmc" where
  "mt_act k (BeginPush i x) s = (if mt_pc s i = MIdle then mt_push_call i x s else s)"
| "mt_act k (BeginPop i) s = (if mt_pc s i = MIdle then mt_pop_call i s else s)"
| "mt_act k (GoPush i) s = push_next k True i s"
| "mt_act k (GoPop i) s = pop_next k True i s"

lemma mt_act_reach: "mt_reach k s \<Longrightarrow> mt_reach k (fold (mt_act k) acts s)"
proof (induction acts arbitrary: s)
  case (Cons a acts)
  have "mt_reach k (mt_act k a s)"
    using Cons.prems mt_reach_step [OF Cons.prems] by (cases a) (auto intro: mt_step.intros)
  then show ?case using Cons.IH by simp
qed simp

definition demo_schedule :: "nat mt_action list" where
  "demo_schedule = [BeginPush 0 7, BeginPush 2 8, GoPush 0, GoPush 2, GoPush 0, GoPush 2, GoPush 2, GoPush 0, GoPush 0,
    BeginPop 1, GoPop 1, GoPop 1, GoPush 2, GoPush 2, GoPush 2, GoPop 1, GoPop 1]"

lemma demo_schedule_run:
  "mt_popped (fold (mt_act 1) demo_schedule (mt_init 1 0)) = [(0, 7)]"
  "mt_claimed (fold (mt_act 1) demo_schedule (mt_init 1 0)) = [7, 8]"
  "mt_taken (fold (mt_act 1) demo_schedule (mt_init 1 0)) = 1"
  "mt_pc (fold (mt_act 1) demo_schedule (mt_init 1 0)) = (\<lambda>_. MIdle)"
  by (simp_all add: demo_schedule_def mt_init_def mr_new_def mt_push_call_def mt_pop_call_def push_next_def pop_next_def
      mt_goto_def set_cell_def cell_index_def buffer_mask_def Let_def numeral_2_eq_2 fun_eq_iff)

theorem mpmc_safe_witness:
  "mt_popped (fold (mt_act 1) demo_schedule (mt_init 1 0)) = [(0, 7)] \<and> [7, 8] ! 0 = (7 :: nat)"
  using mpmc_safe [OF mt_act_reach [OF mt_reach_init], of 1 demo_schedule 0] demo_schedule_run by simp

theorem mpmc_quiescent_witness:
  "mr_abs 1 (mt_ring (fold (mt_act 1) demo_schedule (mt_init 1 0))) = [8 :: nat]"
  using mpmc_quiescent [OF mt_act_reach [OF mt_reach_init], of 1 demo_schedule 0] demo_schedule_run by simp

end
