(* ===== verification/Multi_Ring_Solo.thy ===== *)
theory Multi_Ring_Solo
  imports Multi_Ring_Threads
begin

text \<open>
  Progress on the ring for several producers and consumers (\<^verbatim>\<open>utils/tfmultiringbuffer.h\<close>). The loops of
  \<^verbatim>\<open>push\<close> and \<^verbatim>\<open>pop\<close> have no bound of their own. Here a thread finishes its call within six accesses
  when the others stop, wherever they stop; and a producer that stops in the middle makes
  consumers see an empty ring, although later pushes have returned.
\<close>

section \<open>Runs of one thread\<close>

text \<open>A step function and a set of final states it does not leave.\<close>

locale finishing =
  fixes step :: "'s \<Rightarrow> 's" and final :: "'s \<Rightarrow> bool"
  assumes final_stays: "final s \<Longrightarrow> final (step s)"
begin

lemma later: "final ((step ^^ n) s) \<Longrightarrow> n \<le> m \<Longrightarrow> final ((step ^^ m) s)"
  by (rotate_tac, induction rule: dec_induct) (simp_all add: final_stays)

lemma one_more: "final ((step ^^ n) (step s)) \<Longrightarrow> final ((step ^^ Suc n) s)"
  by (simp add: funpow_swap1)

end

interpretation pusher: finishing "push_next k True i" "\<lambda>s. mt_pc s i = MIdle" for k i
  by unfold_locales (simp add: push_next_def)

interpretation popper: finishing "pop_next k True i" "\<lambda>s. mt_pc s i = MIdle" for k i
  by unfold_locales (simp add: pop_next_def)

section \<open>The cells at the two ends\<close>

text \<open>No sequence number is ahead of the end its cell is at, as the loops compare them.\<close>

lemma not_ahead:
  assumes "seq \<le> h" "h \<le> seq + 2 ^ k" "k < 63"
  shows "sint (word_of_nat seq - word_of_nat h :: size_t) \<le> 0"
proof (cases "seq = h")
  case False
  have "h - seq < 2 ^ 63" using assms(2) power_strict_increasing [OF assms(3), of "2 :: nat"] by simp
  then have "sint (- word_of_nat (h - seq) :: size_t) < 0" using False assms(1) by (intro sint_neg_small) simp_all
  moreover have "(word_of_nat seq - word_of_nat h :: size_t) = - word_of_nat (h - seq)" using assms(1) by (simp add: of_nat_diff)
  ultimately show ?thesis by simp
qed simp

lemma head_not_ahead:
  assumes k: "0 < k" "k < 63" and inv: "mt_inv k s" "mt_bounded k s"
  shows "sint (m_sequence (mr_buffer (mt_ring s) ! cell_index k (mr_head (mt_ring s))) - mr_head (mt_ring s)) \<le> 0"
proof -
  note D = mt_invD [OF inv]
  let ?h = "length (mt_claimed s)" and ?t = "mt_taken s"
  let ?p = "if ?h < ?t + 2 ^ k then ?h else ?t"
  let ?seq = "seq_at k ?h (positions writing (mt_pc s)) (positions reading (mt_pc s)) ?p"
  have N: "(2::nat) \<le> 2 ^ k" using k(1) by (cases k) auto
  have c: "?t \<le> ?h" "?h \<le> ?t + 2 ^ k" using D(6) by (auto simp: mt_counts_ok_def)
  have q: "mr_head (mt_ring s) = word_of_nat ?h" using D(1) by (simp add: shared_ok_def)
  have "m_sequence (cell_of k (mt_ring s) ?p) = word_of_nat ?seq"
    by (rule cells_okD(1) [where t = ?t]) (use D(1) c in \<open>simp_all add: shared_ok_def\<close>)
  moreover have "cell_of k (mt_ring s) ?p = mr_buffer (mt_ring s) ! cell_index k (mr_head (mt_ring s))"
    using c k D(7) by (auto simp: cell_of_def cell_index_mod dest: le_antisym)
  moreover have "?seq \<le> ?h" "?h \<le> ?seq + 2 ^ k" using c N by (auto simp: seq_at_def)
  ultimately show ?thesis using not_ahead [of ?seq ?h k] k(2) q by simp
qed

lemma tail_not_ahead:
  assumes k: "0 < k" "k < 63" and inv: "mt_inv k s" "mt_bounded k s"
  shows "sint (m_sequence (mr_buffer (mt_ring s) ! cell_index k (mr_tail (mt_ring s))) - (mr_tail (mt_ring s) + 1)) \<le> 0"
proof -
  note D = mt_invD [OF inv]
  let ?h = "length (mt_claimed s)" and ?t = "mt_taken s"
  let ?seq = "seq_at k ?h (positions writing (mt_pc s)) (positions reading (mt_pc s)) ?t"
  have c: "?t \<le> ?h" using D(6) by (auto simp: mt_counts_ok_def)
  have q: "mr_tail (mt_ring s) = word_of_nat ?t" using D(1) by (simp add: shared_ok_def)
  have "m_sequence (cell_of k (mt_ring s) ?t) = word_of_nat ?seq"
    by (rule cells_okD(1) [where t = ?t]) (use D(1) c in \<open>simp_all add: shared_ok_def\<close>)
  moreover have "cell_of k (mt_ring s) ?t = mr_buffer (mt_ring s) ! cell_index k (mr_tail (mt_ring s))"
    using k D(8) by (simp add: cell_of_def cell_index_mod)
  moreover have "?seq \<le> Suc ?t" "Suc ?t \<le> ?seq + 2 ^ k" by (auto simp: seq_at_def)
  ultimately show ?thesis using not_ahead [of ?seq "Suc ?t" k] k(2) q by (simp add: add.commute)
qed

section \<open>A call that runs alone\<close>

lemma push_from_head:
  assumes k: "0 < k" "k < 63" and inv: "mt_inv k s" "mt_bounded k s" and pc: "mt_pc s i = PSeq (mr_head (mt_ring s)) x"
  shows "mt_pc ((push_next k True i ^^ 4) s) i = MIdle"
proof -
  let ?s = "mt_goto i (PCas (mr_head (mt_ring s)) x) s"
  have "mt_pc ((push_next k True i ^^ 3) ?s) i = MIdle"
    by (simp add: numeral_eq_Suc push_next_def mt_goto_def Let_def)
  moreover have "push_next k True i s = ?s \<or> push_next k True i s = mt_goto i MIdle s"
    using head_not_ahead [OF k inv] pc by (auto simp: push_next_def Let_def)
  moreover have "mt_pc ((push_next k True i ^^ 3) (mt_goto i MIdle s)) i = MIdle"
    by (rule pusher.later [where n = 0]) (simp_all add: mt_goto_def)
  ultimately show ?thesis using pusher.one_more [of 3 k i s] by auto
qed

lemma pop_from_tail:
  assumes k: "0 < k" "k < 63" and inv: "mt_inv k s" "mt_bounded k s" and pc: "mt_pc s i = CSeq (mr_tail (mt_ring s))"
  shows "mt_pc ((pop_next k True i ^^ 4) s) i = MIdle"
proof -
  let ?s = "mt_goto i (CCas (mr_tail (mt_ring s))) s"
  have "mt_pc ((pop_next k True i ^^ 3) ?s) i = MIdle"
    by (simp add: numeral_eq_Suc pop_next_def mt_goto_def Let_def)
  moreover have "pop_next k True i s = ?s \<or> pop_next k True i s = mt_goto i MIdle s"
    using tail_not_ahead [OF k inv] pc by (auto simp: pop_next_def Let_def)
  moreover have "mt_pc ((pop_next k True i ^^ 3) (mt_goto i MIdle s)) i = MIdle"
    by (rule popper.later [where n = 0]) (simp_all add: mt_goto_def)
  ultimately show ?thesis using popper.one_more [of 3 k i s] by auto
qed

text \<open>From any point of the loops: at most two accesses lead back to the end, or out.\<close>

fun pushing :: "'a mt_pc \<Rightarrow> bool" where
  "pushing (PSeq pos x) = True" | "pushing (PCas pos x) = True" | "pushing (PReload x) = True"
| "pushing (PWrite pos x) = True" | "pushing (PPublish pos x) = True" | "pushing _ = False"

fun popping :: "'a mt_pc \<Rightarrow> bool" where
  "popping (CSeq pos) = True" | "popping (CCas pos) = True" | "popping CReload = True"
| "popping (CRead pos) = True" | "popping (CFree pos v) = True" | "popping _ = False"

lemma push_reload:
  assumes "0 < k" "k < 63" "mt_inv k s" "mt_bounded k s" "mt_pc s i = PReload x \<or> (\<exists>pos. mt_pc s i = PCas pos x)"
  shows "mt_pc ((push_next k True i ^^ 5) s) i = MIdle"
proof -
  let ?s = "mt_goto i (PSeq (mr_head (mt_ring s)) x) s"
  have "mt_inv k ?s" "mt_bounded k ?s"
    using reload_inv(1) [OF assms(3,4), of i x] assms(4,5) by (auto simp: mt_bounded_def mt_goto_def)
  then have alone: "mt_pc ((push_next k True i ^^ 4) ?s) i = MIdle"
    by (rule push_from_head [OF assms(1,2)]) (simp add: mt_goto_def)
  show ?thesis
  proof (cases "push_next k True i s = ?s")
    case True
    then show ?thesis using pusher.one_more [of 4 k i s] alone by auto
  next
    case False
    then obtain pos where pc: "mt_pc s i = PCas pos x" "mr_head (mt_ring s) = pos"
      using assms(5) by (auto simp: push_next_def Let_def split: if_splits)
    have "mt_pc ((push_next k True i ^^ 3) s) i = MIdle"
      using pc by (simp add: numeral_eq_Suc push_next_def mt_goto_def Let_def)
    then show ?thesis by (rule pusher.later) simp
  qed
qed

lemma pop_reload:
  assumes "0 < k" "k < 63" "mt_inv k s" "mt_bounded k s" "mt_pc s i = CReload \<or> (\<exists>pos. mt_pc s i = CCas pos)"
  shows "mt_pc ((pop_next k True i ^^ 5) s) i = MIdle"
proof -
  let ?s = "mt_goto i (CSeq (mr_tail (mt_ring s))) s"
  have "mt_inv k ?s" "mt_bounded k ?s"
    using reload_inv(2) [OF assms(3,4), of i] assms(4,5) by (auto simp: mt_bounded_def mt_goto_def)
  then have alone: "mt_pc ((pop_next k True i ^^ 4) ?s) i = MIdle"
    by (rule pop_from_tail [OF assms(1,2)]) (simp add: mt_goto_def)
  show ?thesis
  proof (cases "pop_next k True i s = ?s")
    case True
    then show ?thesis using popper.one_more [of 4 k i s] alone by auto
  next
    case False
    then obtain pos where pc: "mt_pc s i = CCas pos" "mr_tail (mt_ring s) = pos"
      using assms(5) by (auto simp: pop_next_def Let_def split: if_splits)
    have "mt_pc ((pop_next k True i ^^ 3) s) i = MIdle"
      using pc by (simp add: numeral_eq_Suc pop_next_def mt_goto_def Let_def)
    then show ?thesis by (rule popper.later) simp
  qed
qed

lemma push_alone:
  assumes "0 < k" "k < 63" "mt_inv k s" "mt_bounded k s" "pushing (mt_pc s i)"
  shows "mt_pc ((push_next k True i ^^ 6) s) i = MIdle"
proof (cases "mt_pc s i")
  case (PSeq pos x)
  let ?s = "push_next k True i s"
  have "mt_pc ((push_next k True i ^^ 5) ?s) i = MIdle"
  proof (cases "mt_pc ?s i = MIdle")
    case True
    then have "mt_pc ((push_next k True i ^^ 0) ?s) i = MIdle" by simp
    then show ?thesis by (rule pusher.later) simp
  next
    case False
    then have "mt_pc ?s i = PReload x \<or> (\<exists>pos. mt_pc ?s i = PCas pos x)" "mt_bounded k ?s"
      using PSeq assms(4) by (auto simp: push_next_def mt_goto_def mt_bounded_def Let_def)
    then show ?thesis using push_reload [OF assms(1,2) push_next_inv [OF assms(1-4)]] by simp
  qed
  then show ?thesis using pusher.one_more [of 5 k i s] by auto
next
  case (PCas pos x)
  then have "mt_pc ((push_next k True i ^^ 5) s) i = MIdle" using push_reload [OF assms(1-4), of i x] by simp
  then show ?thesis by (rule pusher.later) simp
next
  case (PReload x)
  then have "mt_pc ((push_next k True i ^^ 5) s) i = MIdle" using push_reload [OF assms(1-4), of i x] by simp
  then show ?thesis by (rule pusher.later) simp
next
  case (PWrite pos x)
  then have "mt_pc ((push_next k True i ^^ 2) s) i = MIdle" by (simp add: numeral_eq_Suc push_next_def mt_goto_def Let_def)
  then show ?thesis by (rule pusher.later) simp
next
  case (PPublish pos x)
  then have "mt_pc ((push_next k True i ^^ 1) s) i = MIdle" by (simp add: numeral_eq_Suc push_next_def mt_goto_def Let_def)
  then show ?thesis by (rule pusher.later) simp
qed (use assms(5) in simp_all)

lemma pop_alone:
  assumes "0 < k" "k < 63" "mt_inv k s" "mt_bounded k s" "popping (mt_pc s i)"
  shows "mt_pc ((pop_next k True i ^^ 6) s) i = MIdle"
proof (cases "mt_pc s i")
  case (CSeq pos)
  let ?s = "pop_next k True i s"
  have "mt_pc ((pop_next k True i ^^ 5) ?s) i = MIdle"
  proof (cases "mt_pc ?s i = MIdle")
    case True
    then have "mt_pc ((pop_next k True i ^^ 0) ?s) i = MIdle" by simp
    then show ?thesis by (rule popper.later) simp
  next
    case False
    then have "mt_pc ?s i = CReload \<or> (\<exists>pos. mt_pc ?s i = CCas pos)" "mt_bounded k ?s"
      using CSeq assms(4) by (auto simp: pop_next_def mt_goto_def mt_bounded_def Let_def)
    then show ?thesis using pop_reload [OF assms(1,2) pop_next_inv [OF assms(1-4)]] by simp
  qed
  then show ?thesis using popper.one_more [of 5 k i s] by auto
next
  case (CCas pos)
  then have "mt_pc ((pop_next k True i ^^ 5) s) i = MIdle" using pop_reload [OF assms(1-4), of i] by simp
  then show ?thesis by (rule popper.later) simp
next
  case CReload
  then have "mt_pc ((pop_next k True i ^^ 5) s) i = MIdle" using pop_reload [OF assms(1-4), of i] by simp
  then show ?thesis by (rule popper.later) simp
next
  case (CRead pos)
  then have "mt_pc ((pop_next k True i ^^ 2) s) i = MIdle" by (simp add: numeral_eq_Suc pop_next_def mt_goto_def Let_def)
  then show ?thesis by (rule popper.later) simp
next
  case (CFree pos v)
  then have "mt_pc ((pop_next k True i ^^ 1) s) i = MIdle" by (simp add: numeral_eq_Suc pop_next_def mt_goto_def Let_def)
  then show ?thesis by (rule popper.later) simp
qed (use assms(5) in simp_all)

section \<open>Properties\<close>

text \<open>
  C15 No thread needs the others: wherever they have stopped, a thread in the middle of
  \<^verbatim>\<open>push\<close> or \<^verbatim>\<open>pop\<close> that runs alone, with exchanges
  that do not fail spuriously, returns within six accesses.
\<close>

theorem ring_obstruction_free:
  assumes "mt_reach k s" "0 < k" "k < 63" "length (mt_claimed s) + 2 ^ k < 2 ^ 64"
  shows "(pushing (mt_pc s i) \<longrightarrow> mt_pc ((push_next k True i ^^ 6) s) i = MIdle)
    \<and> (popping (mt_pc s i) \<longrightarrow> mt_pc ((pop_next k True i ^^ 6) s) i = MIdle)"
proof -
  have b: "mt_bounded k s" using assms(4) by (simp add: mt_bounded_def)
  have "mt_inv k s" by (rule mt_reach_inv [OF assms(1-3) b])
  then show ?thesis using push_alone [OF assms(2,3)] pop_alone [OF assms(2,3)] b by blast
qed

text \<open>
  But a producer that stops between its exchange and its last store holds the consumers up:
  every \<^verbatim>\<open>pop\<close> returns false and leaves the ring as it was, even when pushes to the following
  cells have returned.
\<close>

theorem stalled_producer_blocks:
  assumes "mt_reach k s" "0 < k" "k < 63" "length (mt_claimed s) + 2 ^ k < 2 ^ 64"
    "writing (mt_pc s j) = Some (mt_taken s)" "mt_pc s i = MIdle"
  shows "pop_next k ok i (mt_pop_call i s) = s \<and> mt_taken s < length (mt_claimed s)"
proof -
  have b: "mt_bounded k s" using assms(4) by (simp add: mt_bounded_def)
  have inv: "mt_inv k s" by (rule mt_reach_inv [OF assms(1-3) b])
  note D = mt_invD [OF inv b]
  let ?h = "length (mt_claimed s)" and ?t = "mt_taken s" and ?W = "positions writing (mt_pc s)"
  have W: "?t \<in> ?W" using assms(5) by (auto simp: positions_def)
  then have th: "?t < ?h" using D(6) by (auto simp: mt_counts_ok_def)
  have q: "mr_tail (mt_ring s) = word_of_nat ?t" using D(1) by (simp add: shared_ok_def)
  have "m_sequence (cell_of k (mt_ring s) ?t) = word_of_nat (seq_at k ?h ?W (positions reading (mt_pc s)) ?t)"
    by (rule cells_okD(1) [where t = ?t]) (use D(1) in \<open>simp_all add: shared_ok_def\<close>)
  then have "m_sequence (mr_buffer (mt_ring s) ! cell_index k (mr_tail (mt_ring s))) = mr_tail (mt_ring s)"
    using W th q D(8) assms(3) by (simp add: seq_at_def cell_of_def cell_index_mod)
  moreover have "sint (mr_tail (mt_ring s) - (mr_tail (mt_ring s) + 1)) < 0" using sint_neg_small [of 1] by simp
  moreover have "mt_goto i MIdle (mt_goto i (CSeq (mr_tail (mt_ring s))) s) = s"
    using assms(6) by (simp add: mt_goto_def fun_upd_idem)
  ultimately show ?thesis using th
    by (auto simp: mt_pop_call_def pop_next_def Let_def) (simp_all add: mt_goto_def)
qed

text \<open>Thread 0 stops after its exchange, the push of thread 1 returns, thread 2 is in the middle of a pop.\<close>

definition stalled_schedule :: "nat mt_action list" where
  "stalled_schedule = [BeginPush 0 10, GoPush 0, GoPush 0, BeginPush 1 20, GoPush 1, GoPush 1, GoPush 1, GoPush 1, BeginPop 2]"

lemma stalled_run:
  defines "s \<equiv> fold (mt_act 1) stalled_schedule (mt_init 1 0)"
  shows "mt_reach 1 s" "mt_pc s 0 = PWrite 0 10" "mt_pc s 1 = MIdle" "mt_pc s 2 = CSeq 0" "mt_pc s 3 = MIdle"
    "mt_claimed s = [10, 20]" "mt_taken s = 0"
  unfolding s_def by (rule mt_act_reach [OF mt_reach_init]) (code_simp+)

theorem ring_obstruction_free_witness:
  "mt_pc ((pop_next 1 True 2 ^^ 6) (fold (mt_act 1) stalled_schedule (mt_init 1 0))) 2 = MIdle"
  using ring_obstruction_free [OF stalled_run(1), of 2] by (simp add: stalled_run del: One_nat_def)

theorem stalled_producer_blocks_witness:
  "pop_next 1 True 3 (mt_pop_call 3 (fold (mt_act 1) stalled_schedule (mt_init 1 0))) = fold (mt_act 1) stalled_schedule (mt_init 1 0)"
  using stalled_producer_blocks [OF stalled_run(1), of 0 3] by (simp add: stalled_run del: One_nat_def)

end
