(* ===== verification/Pool_Pointers.thy ===== *)
theory Pool_Pointers
  imports Object_Pool
begin

text \<open>
  The smart pointers: the shared and unique pointers a pool gives out
  (\<^verbatim>\<open>src/fastpath/utils/tfpool.h\<close>), by which the transports hold the messages they deliver, and the
  reference-counting pointer of \<^verbatim>\<open>src/fastpath/utils/ref_count_ptr.h\<close>.
\<close>

section \<open>Shared pointers of a pool\<close>

text \<open>
  \<open>sh_ptrs\<close> has the object of every live pointer, so that the use count of an object is how often it
  occurs. Destroying the last one calls the deleter, which is the pool's \<^verbatim>\<open>release\<close>.
\<close>

record 'a sharing =
  sh_pool :: "'a pool"
  sh_ptrs :: "nat list"

definition use_count :: "nat \<Rightarrow> 'a sharing \<Rightarrow> nat" where
  "use_count x s = count_list (sh_ptrs s) x"

definition allocate_shared_ptr :: "('a \<Rightarrow> 'a) \<Rightarrow> 'a \<Rightarrow> 'a sharing \<Rightarrow> (nat \<times> 'a sharing) outcome" where
  "allocate_shared_ptr prepare fresh s =
    bind_outcome (reusable_allocate prepare fresh (sh_pool s)) (\<lambda>(x, p).
    Inr (x, \<lparr>sh_pool = p, sh_ptrs = x # sh_ptrs s\<rparr>))"

definition copy_ptr :: "nat \<Rightarrow> 'a sharing \<Rightarrow> 'a sharing" where
  "copy_ptr x s = s\<lparr>sh_ptrs := x # sh_ptrs s\<rparr>"

definition drop_ptr :: "bool \<Rightarrow> nat \<Rightarrow> 'a sharing \<Rightarrow> 'a sharing outcome" where
  "drop_ptr chk x s =
    (let s = s\<lparr>sh_ptrs := remove1 x (sh_ptrs s)\<rparr>
     in if use_count x s = 0
        then bind_outcome (reusable_release chk (Some x) (sh_pool s)) (\<lambda>p. Inr (s\<lparr>sh_pool := p\<rparr>))
        else Inr s)"

text \<open>A unique pointer has one owner: \<open>allocate_unique_ptr\<close>, and its end.\<close>

definition allocate_unique_ptr :: "('a \<Rightarrow> 'a) \<Rightarrow> 'a \<Rightarrow> 'a pool \<Rightarrow> (nat \<times> 'a pool) outcome" where
  "allocate_unique_ptr prepare fresh p = reusable_allocate prepare fresh p"

text \<open>\<^verbatim>\<open>pool_release_fn\<close> returns \<^verbatim>\<open>m_deleter\<close>, which nothing sets; calling an empty function throws.\<close>

definition pool_release_fn :: "'a pool \<Rightarrow> nat \<Rightarrow> 'a pool outcome" where
  "pool_release_fn p x = Inl (FpException ''bad_function_call'')"

inductive share_reach :: "('a \<Rightarrow> 'a) \<Rightarrow> 'a \<Rightarrow> nat \<Rightarrow> 'a sharing \<Rightarrow> bool" for prepare fresh n where
  share_new: "share_reach prepare fresh n \<lparr>sh_pool = pool_new fresh n, sh_ptrs = []\<rparr>"
| share_allocate: "share_reach prepare fresh n s \<Longrightarrow> allocate_shared_ptr prepare fresh s = Inr (x, s') \<Longrightarrow>
    share_reach prepare fresh n s'"
| share_copy: "share_reach prepare fresh n s \<Longrightarrow> x \<in> set (sh_ptrs s) \<Longrightarrow> share_reach prepare fresh n (copy_ptr x s)"
| share_drop: "share_reach prepare fresh n s \<Longrightarrow> x \<in> set (sh_ptrs s) \<Longrightarrow> drop_ptr chk x s = Inr s' \<Longrightarrow>
    share_reach prepare fresh n s'"

definition share_inv :: "'a sharing \<Rightarrow> bool" where
  "share_inv s \<longleftrightarrow> pool_inv (sh_pool s) (remdups (sh_ptrs s)) \<and> 0 < p_poolSize (sh_pool s)"

lemma pool_inv_same: "pool_inv p out \<Longrightarrow> distinct out' \<Longrightarrow> set out' = set out \<Longrightarrow> pool_inv p out'"
  by (auto simp: pool_inv_def)

lemma count_list_remove1: "count_list (remove1 x xs) x = count_list xs x - 1"
  by (induction xs) auto

lemma use_count_zero: "use_count x s = 0 \<longleftrightarrow> x \<notin> set (sh_ptrs s)"
  by (simp add: use_count_def count_list_0_iff)

lemma still_used: "x \<in> set (remove1 x (sh_ptrs s)) \<longleftrightarrow> 1 < use_count x s"
  using use_count_zero [of x "s\<lparr>sh_ptrs := remove1 x (sh_ptrs s)\<rparr>"] by (simp add: use_count_def count_list_remove1) arith

lemma drop_ptr_inv:
  assumes inv: "share_inv s" and x: "x \<in> set (sh_ptrs s)"
  shows "\<exists>s'. drop_ptr chk x s = Inr s' \<and> share_inv s' \<and> sh_ptrs s' = remove1 x (sh_ptrs s)"
proof (cases "x \<in> set (remove1 x (sh_ptrs s))")
  case True
  then have "set (remove1 x (sh_ptrs s)) = set (sh_ptrs s)"
    using x by (metis insert_absorb notin_set_remove1 set_remove1_subset subset_antisym subsetI in_set_remove1)
  moreover have "use_count x (s\<lparr>sh_ptrs := remove1 x (sh_ptrs s)\<rparr>) \<noteq> 0" unfolding use_count_zero using True by simp
  ultimately show ?thesis using inv pool_inv_same [of "sh_pool s" "remdups (sh_ptrs s)" "remdups (remove1 x (sh_ptrs s))"]
    by (simp add: drop_ptr_def share_inv_def Let_def)
next
  case False
  have out: "x \<in> set (remdups (sh_ptrs s))" "pool_inv (sh_pool s) (remdups (sh_ptrs s))" using x inv by (simp_all add: share_inv_def)
  obtain q where q: "reusable_release chk (Some x) (sh_pool s) = Inr q" "pool_inv q (remove1 x (remdups (sh_ptrs s)))"
      "p_poolSize q = p_poolSize (sh_pool s)"
    using pool_release_inv [OF out(2,1), of chk] reusable_release_eq [OF out(2,1), of chk] by auto
  have "y \<in> set (remove1 x (sh_ptrs s)) \<longleftrightarrow> y \<in> set (sh_ptrs s) - {x}" for y using False by (cases "y = x") auto
  then have "set (remove1 x (sh_ptrs s)) = set (sh_ptrs s) - {x}" by blast
  then have "pool_inv q (remdups (remove1 x (sh_ptrs s)))"
    using q(2) by (intro pool_inv_same [OF q(2)]) (simp_all add: set_remove1_eq)
  moreover have "use_count x (s\<lparr>sh_ptrs := remove1 x (sh_ptrs s)\<rparr>) = 0" unfolding use_count_zero using False by simp
  ultimately show ?thesis using q inv by (simp add: drop_ptr_def share_inv_def Let_def)
qed

lemma allocate_shared_inv:
  assumes "share_inv s"
  shows "\<exists>x s'. allocate_shared_ptr prepare fresh s = Inr (x, s') \<and> share_inv s' \<and> x \<notin> set (sh_ptrs s) \<and> sh_ptrs s' = x # sh_ptrs s"
proof -
  obtain x q where "reusable_allocate prepare fresh (sh_pool s) = Inr (x, q)" "pool_inv q (x # remdups (sh_ptrs s))"
      "x \<notin> set (remdups (sh_ptrs s))" "0 < p_poolSize q"
    using reusable_allocate_inv [of "sh_pool s" "remdups (sh_ptrs s)" prepare fresh] assms by (auto simp: share_inv_def)
  then show ?thesis by (simp add: allocate_shared_ptr_def share_inv_def)
qed

lemma share_reach_inv:
  assumes "share_reach prepare fresh n s" "0 < n"
  shows "share_inv s"
  using assms
proof (induction rule: share_reach.induct)
  case share_new
  then show ?case using pool_inv_new [of fresh n] by (simp add: share_inv_def pool_new_def Let_def emplace_new_fields)
next
  case (share_allocate s x s')
  then show ?case using allocate_shared_inv [of s prepare fresh] by auto
next
  case (share_copy s x)
  then show ?case using pool_inv_same [of "sh_pool s"] by (auto simp: share_inv_def copy_ptr_def insert_absorb)
next
  case (share_drop s x chk s')
  then show ?case using drop_ptr_inv [of s x chk] by auto
qed

text \<open>
  C27 Messages held by shared pointers: however pointers are allocated, copied and destroyed, a new
  pointer never gets an object that a live pointer has; destroying a pointer passes the checks
  of the pool, and puts the object back exactly when it was the last one.
\<close>

theorem shared_pointers_return_once:
  assumes "share_reach prepare fresh n s" "0 < n"
  shows "(\<exists>x s'. allocate_shared_ptr prepare fresh s = Inr (x, s') \<and> x \<notin> set (sh_ptrs s) \<and> use_count x s' = 1)
    \<and> (\<forall>x \<in> set (sh_ptrs s). \<exists>s'. drop_ptr True x s = Inr s'
         \<and> (x \<in> set (p_freeAllocations (sh_pool s')) \<longleftrightarrow> use_count x s = 1))"
proof -
  have inv: "share_inv s" by (rule share_reach_inv [OF assms])
  have "\<exists>s'. drop_ptr True x s = Inr s' \<and> (x \<in> set (p_freeAllocations (sh_pool s')) \<longleftrightarrow> use_count x s = 1)"
    if x: "x \<in> set (sh_ptrs s)" for x
  proof -
    obtain s' where s': "drop_ptr True x s = Inr s'" "share_inv s'" "sh_ptrs s' = remove1 x (sh_ptrs s)"
      using drop_ptr_inv [OF inv x] by blast
    have pos: "0 < use_count x s" using x use_count_zero [of x s] by simp
    have cache: "p_objectCache (sh_pool s') = p_objectCache (sh_pool s)"
      using s'(1) by (auto simp: drop_ptr_def Let_def reusable_release_def bind_outcome_Inr split: if_splits)
    have "x \<in> set (p_objectCache (sh_pool s))" using inv x by (auto simp: share_inv_def pool_inv_def)
    then have "x \<in> set (p_freeAllocations (sh_pool s')) \<longleftrightarrow> x \<notin> set (sh_ptrs s')"
      using s'(2) cache by (auto simp: share_inv_def pool_inv_def)
    also have "\<dots> \<longleftrightarrow> use_count x s = 1"
      using still_used [of x s] pos s'(3) by auto
    finally show ?thesis using s'(1) by blast
  qed
  moreover have "\<exists>x s'. allocate_shared_ptr prepare fresh s = Inr (x, s') \<and> x \<notin> set (sh_ptrs s) \<and> use_count x s' = 1"
    using allocate_shared_inv [OF inv, of prepare fresh] by (auto simp: use_count_def count_list_0_iff)
  ultimately show ?thesis by blast
qed

section \<open>The reference-counting pointer\<close>

text \<open>
  The constructor takes a deleter and drops it. \<^verbatim>\<open>release\<close> compares the value before the subtraction
  with 0.
\<close>

record ref_count_ptr =
  rc_ref_counter :: u32
  rc_has_deleter :: bool

definition rc_new :: ref_count_ptr where
  "rc_new = \<lparr>rc_ref_counter = 1, rc_has_deleter = False\<rparr>"

definition rc_retain :: "ref_count_ptr \<Rightarrow> ref_count_ptr" where
  "rc_retain r = r\<lparr>rc_ref_counter := rc_ref_counter r + 1\<rparr>"

text \<open>The result says whether the object was deleted; an empty deleter throws out of a \<^verbatim>\<open>noexcept\<close> function.\<close>

definition rc_release :: "ref_count_ptr \<Rightarrow> (bool \<times> ref_count_ptr) outcome" where
  "rc_release r =
    (let old = rc_ref_counter r; r = r\<lparr>rc_ref_counter := old - 1\<rparr>
     in if old = 0 then if rc_has_deleter r then Inr (True, r) else Inl Terminate else Inr (False, r))"

fun rc_releases :: "nat \<Rightarrow> ref_count_ptr \<Rightarrow> (bool \<times> ref_count_ptr) outcome" where
  "rc_releases 0 r = Inr (False, r)"
| "rc_releases (Suc n) r =
    bind_outcome (rc_release r) (\<lambda>(d, r). bind_outcome (rc_releases n r) (\<lambda>(d', r). Inr (d \<or> d', r)))"

lemma rc_retains: "(rc_retain ^^ n) rc_new = \<lparr>rc_ref_counter = word_of_nat (Suc n), rc_has_deleter = False\<rparr>"
  by (induction n) (simp_all add: rc_new_def rc_retain_def)

lemma rc_releases_count:
  "n \<le> m \<Longrightarrow> m < 2 ^ 32 \<Longrightarrow> rc_releases n \<lparr>rc_ref_counter = word_of_nat m, rc_has_deleter = b\<rparr>
    = Inr (False, \<lparr>rc_ref_counter = word_of_nat (m - n), rc_has_deleter = b\<rparr>)"
proof (induction n arbitrary: m)
  case (Suc n)
  have "(word_of_nat m :: u32) \<noteq> 0"
  proof -
    have "unat (word_of_nat m :: u32) = m" using Suc.prems by (simp add: unat_of_nat)
    then show ?thesis using Suc.prems by (metis Suc_le_D nat.distinct(1) unat_0)
  qed
  moreover have "(word_of_nat m - 1 :: u32) = word_of_nat (m - 1)" using Suc.prems by (simp add: of_nat_diff)
  ultimately have "rc_release \<lparr>rc_ref_counter = word_of_nat m, rc_has_deleter = b\<rparr>
      = Inr (False, \<lparr>rc_ref_counter = word_of_nat (m - 1), rc_has_deleter = b\<rparr>)"
    by (simp add: rc_release_def Let_def del: of_nat_diff)
  moreover have "n \<le> m - 1" "m - 1 < 2 ^ 32" "m - 1 - n = m - Suc n" using Suc.prems by simp_all
  ultimately show ?case using Suc.IH [of "m - 1"] by (simp del: of_nat_diff)
qed simp

text \<open>
  The pointer never deletes its object: after any number of calls of \<^verbatim>\<open>retain\<close> as many calls of \<^verbatim>\<open>release\<close>
  as there are references leave it alive, and one more terminates the program.
\<close>

theorem ref_count_ptr_leaks:
  assumes "Suc n < 2 ^ 32"
  shows "\<exists>r. rc_releases (Suc n) ((rc_retain ^^ n) rc_new) = Inr (False, r) \<and> rc_release r = Inl Terminate"
  using rc_releases_count [of "Suc n" "Suc n" False] assms
  by (simp only: rc_retains) (simp add: rc_release_def)

section \<open>Witnesses\<close>

theorem shared_pointers_return_once_witness:
  "\<exists>x s. allocate_shared_ptr id (0 :: nat) \<lparr>sh_pool = pool_new 0 1, sh_ptrs = []\<rparr> = Inr (x, s) \<and> use_count x s = 1"
  using shared_pointers_return_once [OF share_new, of 1 id 0] by auto

theorem ref_count_ptr_leaks_witness:
  "\<exists>r. rc_releases 3 ((rc_retain ^^ 2) rc_new) = Inr (False, r) \<and> rc_release r = Inl Terminate"
  using ref_count_ptr_leaks [of 2] by simp

end
