(* ===== verification/Notifiers.thy ===== *)
theory Notifiers
  imports Endpoint_Sockets
begin

text \<open>
  The notifiers (\<^verbatim>\<open>src/fastpath/event/arch/linux/notifier.h\<close>, \<^verbatim>\<open>arch/mac/notifier.h\<close>) and the handshake that
  gives the router and a client on shared memory each an end of two of them
  (\<^verbatim>\<open>transport/sm/InterprocessNotifier*.cpp\<close>). The objects of the system are part of the state: the
  counters of the \<^verbatim>\<open>eventfd\<close>s, or the bytes in the pipes, and the descriptor tables of the
  processes. A descriptor sent over a socket arrives as another descriptor of the same object.

  The contract of a notifier is the locale \<open>wakeup\<close>, which both implementations interpret.
\<close>

section \<open>The contract\<close>

locale wakeup =
  fixes ok :: "'s \<Rightarrow> bool" and pend :: "'s \<Rightarrow> nat" and notify :: "'s \<Rightarrow> bool \<times> 's" and reset :: "'s \<Rightarrow> bool \<times> 's"
  assumes notify_true: "ok s \<Longrightarrow> notify s = (True, s') \<Longrightarrow> ok s' \<and> pend s' = Suc (pend s)"
    and notify_false: "ok s \<Longrightarrow> notify s = (False, s') \<Longrightarrow> s' = s"
    and reset_some: "ok s \<Longrightarrow> 0 < pend s \<Longrightarrow> \<exists>s'. reset s = (True, s') \<and> ok s' \<and> pend s' < pend s"
    and reset_none: "ok s \<Longrightarrow> pend s = 0 \<Longrightarrow> reset s = (False, s)"
begin

lemma woken: "ok s \<Longrightarrow> notify s = (True, s') \<Longrightarrow> \<exists>s''. reset s' = (True, s'')"
  using notify_true [of s s'] reset_some [of s'] by auto

fun drain :: "nat \<Rightarrow> 's \<Rightarrow> 's option" where
  "drain 0 s = None"
| "drain (Suc n) s = (case reset s of (True, s') \<Rightarrow> drain n s' | (False, s') \<Rightarrow> Some s')"

lemma drain_ends: "ok s \<Longrightarrow> pend s < n \<Longrightarrow> \<exists>s'. drain n s = Some s' \<and> ok s' \<and> pend s' = 0"
proof (induction n arbitrary: s)
  case (Suc n)
  show ?case
  proof (cases "pend s = 0")
    case True
    then show ?thesis using reset_none [OF Suc.prems(1)] Suc.prems(1) by simp
  next
    case False
    then obtain s' where "reset s = (True, s')" "ok s'" "pend s' < pend s"
      using reset_some [OF Suc.prems(1)] by auto
    then show ?thesis using Suc by simp
  qed
qed simp

end

section \<open>Linux\<close>

record world =
  w_counter :: "nat \<Rightarrow> size_t"                 \<comment> \<open>the counters of the eventfds\<close>
  w_table :: "int \<Rightarrow> int \<Rightarrow> nat option"        \<comment> \<open>process and descriptor: the eventfd\<close>

definition w_open :: "int \<Rightarrow> int \<Rightarrow> nat \<Rightarrow> world \<Rightarrow> world" where
  "w_open pid fd obj w = w\<lparr>w_table := (w_table w)(pid := (w_table w pid)(fd \<mapsto> obj))\<rparr>"

definition w_close :: "int \<Rightarrow> int \<Rightarrow> world \<Rightarrow> world" where
  "w_close pid fd w = w\<lparr>w_table := (w_table w)(pid := (w_table w pid)(fd := None))\<rparr>"

definition eventfd_max :: size_t where "eventfd_max = 0xFFFFFFFFFFFFFFFE"

text \<open>
  A notifier is its descriptor, of the process \<open>pid\<close>. \<^verbatim>\<open>eventfd\<close> answers \<open>fd\<close>, and \<open>obj\<close> is the new object.
  A write of 1 fails when the descriptor is not open or the counter is at its largest value,
  \<open>2 ^ 64 - 2\<close>; a read fails when the counter is 0.
\<close>

definition ln_new :: "int \<Rightarrow> int \<Rightarrow> nat \<Rightarrow> world \<Rightarrow> (int \<times> world) outcome" where
  "ln_new pid fd obj w =
    (if fd = -1 then Inl (FpException ''Failed to create eventfd'')
     else Inr (fd, w_open pid fd obj (w\<lparr>w_counter := (w_counter w)(obj := 0)\<rparr>)))"

datatype direction = pipe_read | pipe_write

definition ln_from_fd :: "int \<Rightarrow> direction \<Rightarrow> int" where
  "ln_from_fd fd d = fd"

definition ln_move :: "int \<Rightarrow> int \<times> int" where
  "ln_move other = (other, -1)"

definition ln_destroy :: "int \<Rightarrow> int \<Rightarrow> world \<Rightarrow> world" where
  "ln_destroy pid n w = (if n \<noteq> -1 then w_close pid n w else w)"

definition ln_close_handle :: "direction \<Rightarrow> int \<Rightarrow> world \<Rightarrow> int \<times> world" where
  "ln_close_handle d n w = (n, w)"

definition ln_notify :: "int \<Rightarrow> int \<Rightarrow> world \<Rightarrow> bool \<times> world" where
  "ln_notify pid n w =
    (case w_table w pid n of
       None \<Rightarrow> (False, w)
     | Some obj \<Rightarrow>
         if w_counter w obj < eventfd_max then (True, w\<lparr>w_counter := (w_counter w)(obj := w_counter w obj + 1)\<rparr>) else (False, w))"

definition ln_reset :: "int \<Rightarrow> int \<Rightarrow> world \<Rightarrow> bool \<times> world" where
  "ln_reset pid n w =
    (case w_table w pid n of
       None \<Rightarrow> (False, w)
     | Some obj \<Rightarrow>
         if w_counter w obj = 0 then (False, w) else (True, w\<lparr>w_counter := (w_counter w)(obj := 0)\<rparr>))"

definition ln_handle :: "int \<Rightarrow> int" where
  "ln_handle n = n"

text \<open>A descriptor of the writer and one of the reader that belong to the same object.\<close>

definition wired :: "int \<times> int \<Rightarrow> int \<times> int \<Rightarrow> world \<Rightarrow> bool" where
  "wired = (\<lambda>(p, n) (p', n') w. \<exists>obj. w_table w p n = Some obj \<and> w_table w p' n' = Some obj)"

definition ln_pending :: "int \<times> int \<Rightarrow> world \<Rightarrow> nat" where
  "ln_pending = (\<lambda>(p, n) w. case w_table w p n of None \<Rightarrow> 0 | Some obj \<Rightarrow> unat (w_counter w obj))"

lemma unat_Suc_small:
  assumes "x < eventfd_max"
  shows "unat (x + 1) = Suc (unat x)"
proof -
  have "1 + x \<noteq> 0"
  proof
    assume "1 + x = 0"
    then have "x = - 1" by (simp add: add_eq_0_iff)
    then show False using assms by (simp add: eventfd_max_def)
  qed
  then show ?thesis using unatSuc [of x] by (simp add: add.commute)
qed

interpretation ln: wakeup "wired (p, n) (p', n')" "ln_pending (p', n')" "ln_notify p n" "ln_reset p' n'" for p n p' n'
  by unfold_locales
     (auto simp: wired_def ln_pending_def ln_notify_def ln_reset_def unat_eq_0 word_neq_0_conv
       unat_gt_0 unat_Suc_small split: option.splits if_splits)


section \<open>Descriptors over a socket\<close>

text \<open>
  \<^verbatim>\<open>send_fds\<close>: the message has the process number as its data and the descriptors as ancillary
  data; in transit these are the objects. \<open>accepted\<close> says whether the socket takes it; the system
  refuses descriptors that are not open.
\<close>

record fd_message =
  fm_pid :: int
  fm_control :: "nat list option"      \<comment> \<open>\<open>None\<close>: no control message\<close>

definition MAX_FDS :: nat where "MAX_FDS = 960"

definition send_fds :: "int \<Rightarrow> bool \<Rightarrow> int list \<Rightarrow> world \<Rightarrow> (bool \<times> fd_message option) outcome" where
  "send_fds pid accepted fds w =
    (if \<not> length fds < MAX_FDS then Inl AssertFailed
     else Inr (case those (map (w_table w pid) fds) of
         None \<Rightarrow> (False, None)
       | Some objs \<Rightarrow> if accepted then (True, Some \<lparr>fm_pid = pid, fm_control = Some objs\<rparr>) else (False, None)))"

text \<open>
  \<^verbatim>\<open>receive_fd\<close>: \<open>answer\<close> is what \<^verbatim>\<open>recvmsg\<close> returns. The system opens as many descriptors as there is
  room for in the control buffer, with the numbers \<open>fresh\<close>.
\<close>

fun open_all :: "int \<Rightarrow> (int \<times> nat) list \<Rightarrow> world \<Rightarrow> world" where
  "open_all pid [] w = w"
| "open_all pid ((fd, obj) # xs) w = open_all pid xs (w_open pid fd obj w)"

datatype fd_answer = FdMessage fd_message | FdWouldBlock | FdFailed

primrec fd_result :: "fd_answer \<Rightarrow> recvmsg_result" where
  "fd_result (FdMessage m) = Received"
| "fd_result FdWouldBlock = WouldBlock"
| "fd_result FdFailed = Failed"

definition receive_fd ::
  "int \<Rightarrow> fd_answer \<Rightarrow> int list \<Rightarrow> nat \<Rightarrow> socket \<Rightarrow> world \<Rightarrow> ((int list \<times> int) option \<times> socket \<times> world) outcome" where
  "receive_fd pid answer fresh num_fds sock w =
    (if \<not> num_fds < MAX_FDS then Inl AssertFailed
     else let (result, sock) = read_ancillary (fd_result answer) sock
          in Inr (case (result, answer) of
              (MoreData, FdMessage m) \<Rightarrow>
                (case fm_control m of
                   None \<Rightarrow> (None, sock, w)
                 | Some objs \<Rightarrow>
                     let n = min num_fds (length objs)
                     in (Some (take n fresh, fm_pid m), sock, open_all pid (zip (take n fresh) objs) w))
            | _ \<Rightarrow> (None, sock, w)))"

section \<open>The client\<close>

record notifier_client =
  inbound_notification :: int
  outbound_notification :: int
  nc_connected :: bool

definition InterprocessNotifierClient_new :: "int \<Rightarrow> int \<times> nat \<Rightarrow> int \<times> nat \<Rightarrow> world \<Rightarrow> (notifier_client \<times> world) outcome" where
  "InterprocessNotifierClient_new pid fd_in fd_out w =
    bind_outcome (ln_new pid (fst fd_in) (snd fd_in) w) (\<lambda>(n_in, w).
    bind_outcome (ln_new pid (fst fd_out) (snd fd_out) w) (\<lambda>(n_out, w).
    Inr (\<lparr>inbound_notification = n_in, outbound_notification = n_out, nc_connected = False\<rparr>, w)))"

text \<open>\<^verbatim>\<open>connect\<close>; the result of \<^verbatim>\<open>send_fds\<close> is not looked at.\<close>

definition client_handshake ::
  "int \<Rightarrow> bool \<Rightarrow> bool \<Rightarrow> notifier_client \<Rightarrow> world \<Rightarrow> (bool \<times> notifier_client \<times> world \<times> fd_message option) outcome" where
  "client_handshake pid connects accepted c w =
    (if \<not> nc_connected c \<and> connects then
       bind_outcome (send_fds pid accepted [ln_handle (outbound_notification c), ln_handle (inbound_notification c)] w) (\<lambda>(_, m).
       let (n_out, w) = ln_close_handle pipe_read (outbound_notification c) w;
           (n_in, w) = ln_close_handle pipe_write (inbound_notification c) w
       in Inr (True, \<lparr>inbound_notification = n_in, outbound_notification = n_out, nc_connected = True\<rparr>, w, m))
     else Inr (False, c, w, None))"

definition client_notify :: "int \<Rightarrow> notifier_client \<Rightarrow> world \<Rightarrow> bool \<times> notifier_client \<times> world" where
  "client_notify pid c w =
    (let (ok, w) = ln_notify pid (outbound_notification c) w;
         c = (if ok then c else c\<lparr>nc_connected := False\<rparr>)
     in (nc_connected c, c, w))"

section \<open>The router\<close>

text \<open>
  The constructor of \<^verbatim>\<open>InterprocessNotifierServer\<close>, and the handler of its socket, which gives the pair
  of notifiers, the connection and the number of the client's process to the callback. A connection that was not handed on is closed.
\<close>

definition InterprocessNotifierServer_new :: "bool \<Rightarrow> bool \<Rightarrow> socket \<Rightarrow> kernel \<Rightarrow> (socket \<times> kernel) outcome" where
  "InterprocessNotifierServer_new binds listens sock k =
    (let k = UnixSocket_setOptions SocketOptionsNonBlocking (m_socket sock) k;
         (ok, sock, k) = UnixSocketServer_connect SocketOptionsNone binds listens sock k
     in if ok then Inr (sock, k) else Inl (FpException ''Failed to create server connection''))"

definition receivedClientConnection ::
  "int \<Rightarrow> fd_answer \<Rightarrow> int list \<Rightarrow> socket option \<Rightarrow> world \<Rightarrow> (((int \<times> int) \<times> socket \<times> int) option \<times> world) outcome" where
  "receivedClientConnection pid answer fresh connection w =
    (case connection of
       None \<Rightarrow> Inr (None, w)
     | Some sock \<Rightarrow>
         bind_outcome (receive_fd pid answer fresh 256 sock w) (\<lambda>(r, sock, w).
         case r of
           None \<Rightarrow> Inr (None, w)
         | Some (fds, sending_pid) \<Rightarrow>
             if length fds = 2
             then Inr (Some ((ln_from_fd (fds ! 0) pipe_read, ln_from_fd (fds ! 1) pipe_write), sock, sending_pid), w)
             else Inl AssertFailed))"

definition receiver_event ::
  "int \<Rightarrow> int \<Rightarrow> fd_answer \<Rightarrow> int list \<Rightarrow> kernel \<Rightarrow> world \<Rightarrow> (((int \<times> int) \<times> socket \<times> int) option \<times> kernel \<times> world) outcome" where
  "receiver_event pid newfd answer fresh k w =
    (let (connection, k) = acceptPendingConnection newfd k
     in bind_outcome (receivedClientConnection pid answer fresh connection w) (\<lambda>(peer, w).
        Inr (peer, if peer = None \<and> connection \<noteq> None then k_close newfd k else k, w)))"

section \<open>Properties\<close>

lemma client_handshake_message:
  "\<not> nc_connected c \<Longrightarrow> w_table w pid (inbound_notification c) = Some oi \<Longrightarrow> w_table w pid (outbound_notification c) = Some oo \<Longrightarrow>
    client_handshake pid True True c w =
      Inr (True, c\<lparr>nc_connected := True\<rparr>, w, Some \<lparr>fm_pid = pid, fm_control = Some [oo, oi]\<rparr>)"
  by (simp add: client_handshake_def send_fds_def ln_handle_def MAX_FDS_def ln_close_handle_def)

lemma received_message:
  "receivedClientConnection pid (FdMessage \<lparr>fm_pid = cpid, fm_control = Some [o0, o1]\<rparr>) [f0, f1] (Some sock) w
    = Inr (Some ((f0, f1), sock, cpid), w_open pid f1 o1 (w_open pid f0 o0 w))"
  by (simp add: receivedClientConnection_def receive_fd_def read_ancillary_def MAX_FDS_def ln_from_fd_def Let_def)

lemma opened_tables:
  assumes "rpid \<noteq> cpid" "f0 \<noteq> f1"
  shows "w_table (w_open rpid f1 o1 (w_open rpid f0 o0 w)) cpid = w_table w cpid"
    "w_table (w_open rpid f1 o1 (w_open rpid f0 o0 w)) rpid f0 = Some o0"
    "w_table (w_open rpid f1 o1 (w_open rpid f0 o0 w)) rpid f1 = Some o1"
    "w_counter (w_open rpid f1 o1 (w_open rpid f0 o0 w)) = w_counter w"
  using assms by (simp_all add: w_open_def)

text \<open>
  C9 The handshake wires both directions: after the client's \<^verbatim>\<open>connect\<close> and
  the router's handler the router's first notifier is woken by the client's
  \<^verbatim>\<open>notify\<close>, and the client's inbound notifier by the router's second one,
  and neither wakes the other direction.
\<close>

theorem handshake_wires_both_ways:
  assumes c: "w_table w cpid (inbound_notification c) = Some oi" "w_table w cpid (outbound_notification c) = Some oo" "oi \<noteq> oo"
      "\<not> nc_connected c"
    and r: "rpid \<noteq> cpid" "f0 \<noteq> f1"
    and idle: "w_counter w oi = 0" "w_counter w oo = 0"
  shows "\<exists>c' m w' sock. client_handshake cpid True True c w = Inr (True, c', w, Some m)
    \<and> receivedClientConnection rpid (FdMessage m) [f0, f1] (Some (socket_new fd True)) w = Inr (Some ((f0, f1), sock, cpid), w')
    \<and> (\<exists>w2. client_notify cpid c' w' = (True, c', w2) \<and> fst (ln_reset rpid f0 w2) \<and> \<not> fst (ln_reset cpid (inbound_notification c') w2))
    \<and> (\<exists>w3. ln_notify rpid f1 w' = (True, w3) \<and> fst (ln_reset cpid (inbound_notification c') w3) \<and> \<not> fst (ln_reset rpid f0 w3))"
proof -
  let ?c' = "c\<lparr>nc_connected := True\<rparr>" and ?m = "\<lparr>fm_pid = cpid, fm_control = Some [oo, oi]\<rparr>"
  let ?w' = "w_open rpid f1 oi (w_open rpid f0 oo w)"
  have 1: "client_handshake cpid True True c w = Inr (True, ?c', w, Some ?m)"
    by (rule client_handshake_message [OF c(4,1,2)])
  have 2: "receivedClientConnection rpid (FdMessage ?m) [f0, f1] (Some (socket_new fd True)) w
      = Inr (Some ((f0, f1), socket_new fd True, cpid), ?w')"
    by (rule received_message)
  note t = opened_tables [OF r, of oi oo w]
  have "\<exists>w2. client_notify cpid ?c' ?w' = (True, ?c', w2) \<and> fst (ln_reset rpid f0 w2) \<and> \<not> fst (ln_reset cpid (inbound_notification c) w2)"
    using t c idle by (auto simp: client_notify_def ln_notify_def ln_reset_def eventfd_max_def)
  moreover have "\<exists>w3. ln_notify rpid f1 ?w' = (True, w3) \<and> fst (ln_reset cpid (inbound_notification c) w3) \<and> \<not> fst (ln_reset rpid f0 w3)"
    using t c idle by (auto simp: ln_notify_def ln_reset_def eventfd_max_def)
  ultimately show ?thesis using 1 2 by auto
qed

text \<open>
  A client whose message with the descriptors could not be sent takes itself for connected all
  the same, and the router never hears of it.
\<close>

theorem handshake_failure_ignored:
  assumes "\<not> nc_connected c"
  shows "client_handshake pid True False c w = Inr (True, c\<lparr>nc_connected := True\<rparr>, w, None)"
  using assms by (cases "those (map (w_table w pid) [outbound_notification c, inbound_notification c])")
    (simp_all add: client_handshake_def send_fds_def MAX_FDS_def ln_handle_def ln_close_handle_def split: option.splits)

text \<open>
  The router's socket for these connections ends up blocking although the constructor makes it
  non-blocking first: \<^verbatim>\<open>connect\<close> sets the options again.
\<close>

theorem notifier_server_blocks:
  assumes "\<not> m_connected sock"
  shows "\<exists>sock' k'. InterprocessNotifierServer_new True True sock k = Inr (sock', k') \<and> m_socket sock' = m_socket sock
    \<and> m_socket sock' \<notin> set (k_nonblock k')"
  using assms by (simp add: InterprocessNotifierServer_new_def UnixSocketServer_connect_def UnixSocket_setOptions_def
      set_nonblocking_def has_option_def SocketOptionsNone_def SocketOptionsNonBlocking_def Let_def)


section \<open>macOS\<close>

text \<open>
  The notifier is a pipe and a flag. \<^verbatim>\<open>p_bytes\<close> counts the bytes in each pipe, which holds \<open>pipe_size\<close>
  of them; a process reaches its ends through descriptors.
\<close>

record pipes =
  p_bytes :: "nat \<Rightarrow> nat"
  p_table :: "int \<Rightarrow> int \<Rightarrow> (nat \<times> direction) option"

record mac_notifier =
  mn_read :: int
  mn_write :: int
  mn_locked :: bool

definition p_open :: "int \<Rightarrow> int \<Rightarrow> nat \<times> direction \<Rightarrow> pipes \<Rightarrow> pipes" where
  "p_open pid fd e w = w\<lparr>p_table := (p_table w)(pid := (p_table w pid)(fd \<mapsto> e))\<rparr>"

definition p_close :: "int \<Rightarrow> int \<Rightarrow> pipes \<Rightarrow> pipes" where
  "p_close pid fd w = w\<lparr>p_table := (p_table w)(pid := (p_table w pid)(fd := None))\<rparr>"

definition mac_new :: "int \<Rightarrow> (int \<times> int) option \<Rightarrow> nat \<Rightarrow> pipes \<Rightarrow> (mac_notifier \<times> pipes) outcome" where
  "mac_new pid answer obj w =
    (case answer of
       None \<Rightarrow> Inl (FpException ''Failed to create pipe'')
     | Some (r, wr) \<Rightarrow>
         Inr (\<lparr>mn_read = r, mn_write = wr, mn_locked = False\<rparr>,
              p_open pid wr (obj, pipe_write) (p_open pid r (obj, pipe_read) (w\<lparr>p_bytes := (p_bytes w)(obj := 0)\<rparr>))))"

definition mac_from_fd :: "int \<Rightarrow> direction \<Rightarrow> mac_notifier" where
  "mac_from_fd fd d =
    (case d of pipe_read \<Rightarrow> \<lparr>mn_read = fd, mn_write = -1, mn_locked = False\<rparr>
     | pipe_write \<Rightarrow> \<lparr>mn_read = -1, mn_write = fd, mn_locked = False\<rparr>)"

definition mac_move :: "mac_notifier \<Rightarrow> mac_notifier \<times> mac_notifier" where
  "mac_move other = (\<lparr>mn_read = mn_read other, mn_write = mn_write other, mn_locked = False\<rparr>,
     other\<lparr>mn_read := -1, mn_write := -1\<rparr>)"

definition mac_destroy :: "int \<Rightarrow> mac_notifier \<Rightarrow> pipes \<Rightarrow> pipes" where
  "mac_destroy pid n w =
    (let w = (if mn_read n \<noteq> -1 then p_close pid (mn_read n) w else w)
     in if mn_write n \<noteq> -1 then p_close pid (mn_write n) w else w)"

definition mac_close_handle :: "int \<Rightarrow> direction \<Rightarrow> mac_notifier \<Rightarrow> pipes \<Rightarrow> mac_notifier \<times> pipes" where
  "mac_close_handle pid d n w =
    (case d of pipe_read \<Rightarrow> (n\<lparr>mn_read := -1\<rparr>, p_close pid (mn_read n) w)
     | pipe_write \<Rightarrow> (n\<lparr>mn_write := -1\<rparr>, p_close pid (mn_write n) w))"

definition mac_notify :: "nat \<Rightarrow> int \<Rightarrow> mac_notifier \<Rightarrow> pipes \<Rightarrow> bool \<times> pipes" where
  "mac_notify pipe_size pid n w =
    (case p_table w pid (mn_write n) of
       Some (obj, pipe_write) \<Rightarrow>
         if p_bytes w obj < pipe_size then (True, w\<lparr>p_bytes := (p_bytes w)(obj := p_bytes w obj + 1)\<rparr>) else (False, w)
     | _ \<Rightarrow> (False, w))"

definition mac_read :: "int \<Rightarrow> mac_notifier \<Rightarrow> pipes \<Rightarrow> bool \<times> pipes" where
  "mac_read pid n w =
    (case p_table w pid (mn_read n) of
       Some (obj, pipe_read) \<Rightarrow> (0 < p_bytes w obj, w\<lparr>p_bytes := (p_bytes w)(obj := p_bytes w obj - 255)\<rparr>)
     | _ \<Rightarrow> (False, w))"

definition mac_reset :: "int \<Rightarrow> mac_notifier \<Rightarrow> pipes \<Rightarrow> bool \<times> mac_notifier \<times> pipes" where
  "mac_reset pid n w = (let (ok, w) = mac_read pid n w in (ok, n\<lparr>mn_locked := False\<rparr>, w))"

definition mac_wired :: "int \<times> mac_notifier \<Rightarrow> int \<times> mac_notifier \<Rightarrow> pipes \<Rightarrow> bool" where
  "mac_wired = (\<lambda>(p, n) (p', n') w.
    \<exists>obj. p_table w p (mn_write n) = Some (obj, pipe_write) \<and> p_table w p' (mn_read n') = Some (obj, pipe_read))"

definition mac_pending :: "int \<times> mac_notifier \<Rightarrow> pipes \<Rightarrow> nat" where
  "mac_pending = (\<lambda>(p, n) w. case p_table w p (mn_read n) of None \<Rightarrow> 0 | Some (obj, _) \<Rightarrow> p_bytes w obj)"

interpretation mn: wakeup "mac_wired (p, n) (p', n')" "mac_pending (p', n')" "mac_notify pipe_size p n" "mac_read p' n'"
  for pipe_size p n p' n'
  by unfold_locales (auto simp: mac_wired_def mac_pending_def mac_notify_def mac_read_def fun_upd_idem split: if_splits)

text \<open>
  \<^verbatim>\<open>notify_and_wait\<close> sets the flag, writes, and then tests the flag until it was set already. \<open>resets\<close>
  says, for each test, whether the other side has reset the notifier before it; the result is
  the number of tests.
\<close>

fun wait_tests :: "bool list \<Rightarrow> bool \<Rightarrow> nat option" where
  "wait_tests [] locked = None"
| "wait_tests (r # resets) locked =
    (let was_set = locked \<and> \<not> r in if \<not> was_set then map_option Suc (wait_tests resets True) else Some 1)"

definition notify_and_wait :: "nat \<Rightarrow> int \<Rightarrow> bool list \<Rightarrow> mac_notifier \<Rightarrow> pipes \<Rightarrow> nat option \<times> mac_notifier \<times> pipes" where
  "notify_and_wait pipe_size pid resets n w =
    (let n = n\<lparr>mn_locked := True\<rparr>; (_, w) = mac_notify pipe_size pid n w
     in (wait_tests resets (mn_locked n), n, w))"

text \<open>
  It does not wait: when nobody resets the notifier, the first test already ends the loop.
\<close>

theorem notify_and_wait_does_not_wait: "fst (notify_and_wait pipe_size pid (False # resets) n w) = Some 1"
  by (simp add: notify_and_wait_def Let_def split: prod.split)

text \<open>
  Notifications are not lost on either system: the reader of a notifier someone has
  notified is told so, and finds nothing more after finitely many resets.
\<close>

theorem notification_arrives:
  "wired (p, n) (p', n') w \<Longrightarrow> ln_notify p n w = (True, w') \<Longrightarrow> \<exists>w''. ln_reset p' n' w' = (True, w'') \<and> ln_pending (p', n') w'' = 0"
  "mac_wired (p, m) (p', m') v \<Longrightarrow> mac_notify pipe_size p m v = (True, v') \<Longrightarrow> \<exists>v''. mac_read p' m' v' = (True, v'')"
  using ln.woken [of p n p' n' w w'] mn.woken [of p m p' m' v pipe_size v']
  by (auto simp: ln_reset_def ln_pending_def split: option.splits if_splits)

section \<open>Witnesses\<close>

definition demo_world :: world where
  "demo_world = \<lparr>w_counter = (\<lambda>_. 0), w_table = (\<lambda>pid. if pid = 100 then [5 \<mapsto> 0, 6 \<mapsto> 1] else Map.empty)\<rparr>"

definition demo_notifier_client :: notifier_client where
  "demo_notifier_client = \<lparr>inbound_notification = 5, outbound_notification = 6, nc_connected = False\<rparr>"

theorem handshake_wires_both_ways_witness:
  "\<exists>c' m w' sock w2. client_handshake 100 True True demo_notifier_client demo_world = Inr (True, c', demo_world, Some m)
    \<and> receivedClientConnection 1 (FdMessage m) [8, 9] (Some (socket_new 7 True)) demo_world = Inr (Some ((8, 9), sock, 100), w')
    \<and> client_notify 100 c' w' = (True, c', w2) \<and> fst (ln_reset 1 8 w2)"
proof -
  have d: "w_table demo_world 100 (inbound_notification demo_notifier_client) = Some 0"
    "w_table demo_world 100 (outbound_notification demo_notifier_client) = Some 1"
    "(0 :: nat) \<noteq> 1" "\<not> nc_connected demo_notifier_client" "(1 :: int) \<noteq> 100" "(8 :: int) \<noteq> 9"
    "w_counter demo_world 0 = 0" "w_counter demo_world 1 = 0"
    by (simp_all add: demo_world_def demo_notifier_client_def)
  from handshake_wires_both_ways [OF d, of 7] show ?thesis by blast
qed

theorem handshake_failure_ignored_witness:
  "client_handshake 100 True False demo_notifier_client demo_world
    = Inr (True, demo_notifier_client\<lparr>nc_connected := True\<rparr>, demo_world, None)"
  by (rule handshake_failure_ignored) (simp add: demo_notifier_client_def)

theorem notifier_server_blocks_witness:
  "\<exists>sock' k'. InterprocessNotifierServer_new True True (socket_new 3 False) demo_kernel = Inr (sock', k') \<and> 3 \<notin> set (k_nonblock k')"
  using notifier_server_blocks [of "socket_new 3 False" demo_kernel] by (auto simp: socket_new_def)

end
