(* ===== verification/Poll_Variants.thy ===== *)
theory Poll_Variants
  imports Poll_Manager
begin

text \<open>
  The poll managers of the other systems: the one over \<^verbatim>\<open>kqueue\<close>
  (\<^verbatim>\<open>src/fastpath/event/arch/mac/PollManager.cpp\<close>) and the one over \<^verbatim>\<open>select\<close>
  (\<^verbatim>\<open>src/fastpath/event/PollManager_select.h\<close>). The answers of the system are arguments.
\<close>

section \<open>kqueue\<close>

text \<open>
  The filters are constants of \<^verbatim>\<open>sys/event.h\<close>, a parameter here; \<open>documented_filters\<close> gives the values
  that header documents. An accepted \<^verbatim>\<open>EV_ADD\<close> of an entry that exists changes it, and does not
  add a second one.
\<close>

record kq_filters =
  EVFILT_READ :: "16 word"
  EVFILT_WRITE :: "16 word"
  EVFILT_TIMER :: "16 word"
  EVFILT_SIGNAL :: "16 word"

definition documented_filters :: "kq_filters \<Rightarrow> bool" where
  "documented_filters c \<longleftrightarrow> EVFILT_READ c = -1 \<and> EVFILT_WRITE c = -2 \<and> EVFILT_TIMER c = -7 \<and> EVFILT_SIGNAL c = -6"

datatype kq_op = EV_ADD | EV_DELETE

type_synonym kq_list = "(int \<times> 16 word) list"

record kqueue =
  kq_events :: int
  kq_err_count :: nat
  kq_list :: kq_list
  kq_answer :: "kq_op \<Rightarrow> int \<times> 16 word \<Rightarrow> kq_list \<Rightarrow> errno option"

definition kq_new :: "(kq_op \<Rightarrow> int \<times> 16 word \<Rightarrow> kq_list \<Rightarrow> errno option) \<Rightarrow> kqueue" where
  "kq_new answer = \<lparr>kq_events = 0, kq_err_count = 0, kq_list = [], kq_answer = answer\<rparr>"

definition kevent_change :: "kq_op \<Rightarrow> int \<times> 16 word \<Rightarrow> kqueue \<Rightarrow> errno option \<times> kqueue" where
  "kevent_change op ke p =
    (case kq_answer p op ke (kq_list p) of
       Some e \<Rightarrow> (Some e, p)
     | None \<Rightarrow> (None, case op of
         EV_ADD \<Rightarrow> p\<lparr>kq_list := List.insert ke (kq_list p)\<rparr>
       | EV_DELETE \<Rightarrow> p\<lparr>kq_list := removeAll ke (kq_list p)\<rparr>))"

definition kq_add_timer :: "kq_filters \<Rightarrow> int \<Rightarrow> kqueue \<Rightarrow> bool \<times> kqueue" where
  "kq_add_timer c ident p =
    (let (r, p) = kevent_change EV_ADD (ident, EVFILT_TIMER c) p
     in if r \<noteq> None then (False, p) else (True, p\<lparr>kq_events := kq_events p + 1\<rparr>))"

definition kq_update_timer :: "kq_filters \<Rightarrow> int \<Rightarrow> kqueue \<Rightarrow> bool \<times> kqueue" where
  "kq_update_timer c ident p =
    (let (r, p) = kevent_change EV_ADD (ident, EVFILT_TIMER c) p in (r = None, p))"

definition kq_remove_timer :: "kq_filters \<Rightarrow> int \<Rightarrow> kqueue \<Rightarrow> bool \<times> kqueue" where
  "kq_remove_timer c ident p =
    (let (r, p) = kevent_change EV_DELETE (ident, EVFILT_TIMER c) p
     in if r \<noteq> None then (False, p) else (True, p\<lparr>kq_events := kq_events p - 1\<rparr>))"

definition kq_io_filter :: "kq_filters \<Rightarrow> u32 \<Rightarrow> 16 word" where
  "kq_io_filter c flt =
    (if flt AND ev_READ = ev_READ then EVFILT_READ c else 0) OR (if flt AND ev_WRITE = ev_WRITE then EVFILT_WRITE c else 0)"

definition kq_add_io :: "kq_filters \<Rightarrow> int \<Rightarrow> u32 \<Rightarrow> kqueue \<Rightarrow> bool \<times> kqueue" where
  "kq_add_io c fd flt p =
    (let (r, p) = kevent_change EV_ADD (fd, kq_io_filter c flt) p
     in if r \<noteq> None then (False, p) else (True, p\<lparr>kq_events := kq_events p + 1\<rparr>))"

definition kq_remove_io :: "kq_filters \<Rightarrow> int \<Rightarrow> u32 \<Rightarrow> kqueue \<Rightarrow> bool \<times> kqueue" where
  "kq_remove_io c fd flt p =
    (let (r, p) = kevent_change EV_DELETE (fd, kq_io_filter c flt) p
     in if r \<noteq> None \<and> r \<noteq> Some EBADF then (False, p) else (True, p\<lparr>kq_events := kq_events p - 1\<rparr>))"

definition kq_add_signal :: "kq_filters \<Rightarrow> int \<Rightarrow> kqueue \<Rightarrow> bool \<times> kqueue" where
  "kq_add_signal c signo p =
    (let (r, p) = kevent_change EV_ADD (signo, EVFILT_SIGNAL c) p
     in if r \<noteq> None then (False, p) else (True, p\<lparr>kq_events := kq_events p + 1\<rparr>))"

definition kq_remove_signal :: "kq_filters \<Rightarrow> int \<Rightarrow> kqueue \<Rightarrow> bool \<times> kqueue" where
  "kq_remove_signal c signo p =
    (let (r, p) = kevent_change EV_DELETE (signo, EVFILT_SIGNAL c) p
     in if r \<noteq> None then (False, p) else (True, p\<lparr>kq_events := kq_events p - 1\<rparr>))"

text \<open>
  \<^verbatim>\<open>run\<close> over the array \<open>arr\<close> of 256 entries, of which \<^verbatim>\<open>kevent\<close> has filled the first ones. The loops for
  timers and signals declare another \<^verbatim>\<open>i\<close>, with which they index the array.
\<close>

record kevent_entry =
  ke_ident :: int
  ke_filter :: "16 word"
  ke_data :: int

definition maxDispatchSize :: nat where "maxDispatchSize = 256"

function repeat_callback :: "(int \<Rightarrow> poll_element) \<Rightarrow> kevent_entry list \<Rightarrow> nat \<Rightarrow> poll_element list outcome" where
  "repeat_callback cb arr i =
    (if i < length arr then
       if int i < ke_data (arr ! i)
       then bind_outcome (repeat_callback cb arr (i + 1)) (\<lambda>cs. Inr (cb (ke_ident (arr ! i)) # cs))
       else Inr []
     else Inl OutOfBounds)"
  by pat_completeness auto
termination by (relation "measure (\<lambda>(_, arr, i). length arr - i)") auto

declare repeat_callback.simps [simp del]

definition kq_run_filter :: "kq_filters \<Rightarrow> 16 word \<Rightarrow> u32" where
  "kq_run_filter c flt =
    (if flt AND EVFILT_READ c = EVFILT_READ c then ev_READ else 0) OR (if flt AND EVFILT_WRITE c = EVFILT_WRITE c then ev_WRITE else 0)"

definition kq_dispatch :: "kq_filters \<Rightarrow> kevent_entry list \<Rightarrow> kevent_entry \<Rightarrow> poll_element list outcome" where
  "kq_dispatch c arr ke =
    (if kq_run_filter c (ke_filter ke) \<noteq> ev_NONE then Inr [IOElement (ke_ident ke) (kq_run_filter c (ke_filter ke))]
     else if ke_filter ke AND EVFILT_TIMER c = EVFILT_TIMER c then repeat_callback TimerElement arr 0
     else if ke_filter ke AND EVFILT_SIGNAL c = EVFILT_SIGNAL c then repeat_callback (SignalElement (-1)) arr 0
     else Inr [])"

fun kq_dispatch_all :: "kq_filters \<Rightarrow> kevent_entry list \<Rightarrow> kevent_entry list \<Rightarrow> poll_element list outcome" where
  "kq_dispatch_all c arr [] = Inr []"
| "kq_dispatch_all c arr (ke # kes) =
    bind_outcome (kq_dispatch c arr ke) (\<lambda>cs. bind_outcome (kq_dispatch_all c arr kes) (\<lambda>ds. Inr (cs @ ds)))"

datatype kq_result = KqEvents nat | KqError errno

definition kq_run :: "kq_filters \<Rightarrow> kq_result \<Rightarrow> kevent_entry list \<Rightarrow> kqueue \<Rightarrow> (int \<times> poll_element list \<times> kqueue) outcome" where
  "kq_run c result arr p =
    (if kq_events p \<noteq> 0 then
       (case result of
          KqEvents n \<Rightarrow>
            if 0 < n then bind_outcome (kq_dispatch_all c arr (take n arr)) (\<lambda>cs. Inr (0, cs, p\<lparr>kq_err_count := 0\<rparr>))
            else Inr (0, [], p)
        | KqError e \<Rightarrow>
            if e = EINTR \<and> kq_err_count p < 10 then Inr (0, [], p\<lparr>kq_err_count := kq_err_count p + 1\<rparr>)
            else Inr (-1, [], p))
     else Inr (0, [], p))"

section \<open>What \<open>kqueue\<close> gets wrong\<close>

text \<open>
  The filters are numbers and not sets of bits. A descriptor registered for reading and writing
  is registered for reading only; one that becomes readable is reported as readable and
  writable; only a descriptor for writing is treated as it should be.
\<close>

theorem kqueue_filters_overlap:
  assumes "documented_filters c"
  shows "kq_io_filter c (ev_READ OR ev_WRITE) = kq_io_filter c ev_READ
    \<and> kq_run_filter c (kq_io_filter c ev_READ) = ev_READ OR ev_WRITE
    \<and> kq_run_filter c (kq_io_filter c ev_WRITE) = ev_WRITE"
proof -
  have k: "(- 1 :: 16 word) AND - 2 = - 2" "(- 2 :: 16 word) AND - 1 = - 2" "(- 1 :: 16 word) OR - 2 = - 1" "(- 2 :: 16 word) \<noteq> - 1"
    by simp_all
  show ?thesis using assms k by (simp add: documented_filters_def kq_io_filter_def kq_run_filter_def)
qed

text \<open>
  A timer that is reported behind a descriptor calls the wrong timer: the callback gets the
  descriptor's number, and the timer that has expired gets none.
\<close>

theorem kqueue_timer_misdirected:
  assumes "documented_filters c" "kq_events p \<noteq> 0" "0 < d"
  shows "kq_run c (KqEvents 2)
      (\<lparr>ke_ident = fd, ke_filter = EVFILT_WRITE c, ke_data = d\<rparr> # \<lparr>ke_ident = t, ke_filter = EVFILT_TIMER c, ke_data = 1\<rparr> # rest) p
    = Inr (0, [IOElement fd ev_WRITE, TimerElement fd], p\<lparr>kq_err_count := 0\<rparr>)"
proof -
  have k: "kq_run_filter c (EVFILT_WRITE c) = ev_WRITE" "kq_run_filter c (EVFILT_TIMER c) = 0"
    using assms(1) by (simp_all add: documented_filters_def kq_run_filter_def)
  show ?thesis using assms(2,3) k
    by (simp add: kq_run_def kq_dispatch_def numeral_2_eq_2 repeat_callback.simps [where i = 0]
        repeat_callback.simps [where i = "Suc 0"])
qed


section \<open>select\<close>

text \<open>
  The descriptor sets as lists; \<^verbatim>\<open>FD_SET\<close> outside the 1024 descriptors a set has room for writes
  outside it.
\<close>

definition FD_SETSIZE :: int where "FD_SETSIZE = 1024"

record select_poll =
  m_readSet :: "int list"
  m_writeSet :: "int list"
  m_fdmax :: int

definition sel_new :: select_poll where
  "sel_new = \<lparr>m_readSet = [], m_writeSet = [], m_fdmax = 0\<rparr>"

definition fd_set_op :: "(int \<Rightarrow> int list \<Rightarrow> int list) \<Rightarrow> int \<Rightarrow> int list \<Rightarrow> int list outcome" where
  "fd_set_op f fd xs = (if 0 \<le> fd \<and> fd < FD_SETSIZE then Inr (f fd xs) else Inl OutOfBounds)"

definition wants :: "u32 \<Rightarrow> u32 \<Rightarrow> bool" where
  "wants flt flag \<longleftrightarrow> flt AND flag = flag"

definition update_sets :: "(int \<Rightarrow> int list \<Rightarrow> int list) \<Rightarrow> int \<Rightarrow> u32 \<Rightarrow> select_poll \<Rightarrow> select_poll outcome" where
  "update_sets f fd flt p =
    bind_outcome (if wants flt ev_READ then fd_set_op f fd (m_readSet p) else Inr (m_readSet p)) (\<lambda>r.
    bind_outcome (if wants flt ev_WRITE then fd_set_op f fd (m_writeSet p) else Inr (m_writeSet p)) (\<lambda>w.
    Inr (p\<lparr>m_readSet := r, m_writeSet := w\<rparr>)))"

definition sel_add :: "int \<Rightarrow> u32 \<Rightarrow> select_poll \<Rightarrow> (bool \<times> select_poll) outcome" where
  "sel_add fd flt p =
    bind_outcome (update_sets List.insert fd flt p) (\<lambda>p. Inr (True, p\<lparr>m_fdmax := max (m_fdmax p) fd\<rparr>))"

text \<open>The loop of \<^verbatim>\<open>remove\<close> that is to find the new largest descriptor.\<close>

definition new_fdmax :: "int \<Rightarrow> select_poll \<Rightarrow> int" where
  "new_fdmax fd p =
    fold (\<lambda>i m. if i \<in> set (m_readSet p) \<or> i \<in> set (m_writeSet p) then max i m else m) [0..fd - 1] (m_fdmax p)"

definition sel_remove :: "int \<Rightarrow> u32 \<Rightarrow> select_poll \<Rightarrow> (bool \<times> select_poll) outcome" where
  "sel_remove fd flt p =
    bind_outcome (update_sets removeAll fd flt p) (\<lambda>p.
    Inr (True, if m_fdmax p = fd then p\<lparr>m_fdmax := new_fdmax fd p\<rparr> else p))"

text \<open>
  The timeout: a duration in nanoseconds, \<open>None\<close> for \<^verbatim>\<open>DistantFuture\<close>; the result is seconds and
  microseconds. Division of the code truncates; durations are not negative here.
\<close>

definition sel_timeout :: "nat option \<Rightarrow> (nat \<times> nat) option" where
  "sel_timeout duration =
    map_option (\<lambda>ns. if ns = 0 then (0, 0) else (ns div 1000000000, ns div 1000 - ns div 1000000000 * 1000000)) duration"

text \<open>
  \<^verbatim>\<open>run\<close>: \<open>answers\<close> are the results of the successive calls of \<^verbatim>\<open>select\<close>; an interrupted one is repeated.
  The events go into an array of \<open>max_events\<close>, with no check.
\<close>

datatype sel_answer = SelReady "int list" "int list" | SelTimeout | SelInterrupted | SelError

fun select_loop :: "sel_answer list \<Rightarrow> sel_answer option" where
  "select_loop [] = None"
| "select_loop (SelInterrupted # as) = select_loop as"
| "select_loop (a # as) = Some a"

definition sel_filter :: "int list \<Rightarrow> int list \<Rightarrow> int \<Rightarrow> u32" where
  "sel_filter rs ws j = (if j \<in> set rs then ev_READ else 0) OR (if j \<in> set ws then ev_WRITE else 0)"

definition sel_events :: "int list \<Rightarrow> int list \<Rightarrow> int \<Rightarrow> (int \<times> u32) list" where
  "sel_events rs ws fdmax =
    List.map_filter (\<lambda>j. if sel_filter rs ws j \<noteq> ev_NONE then Some (j, sel_filter rs ws j) else None) [0..fdmax]"

definition sel_run :: "nat \<Rightarrow> sel_answer list \<Rightarrow> (int \<times> u32) list \<Rightarrow> select_poll \<Rightarrow> (int \<times> (int \<times> u32) list) outcome" where
  "sel_run max_events answers events p =
    (case select_loop answers of
       None \<Rightarrow> Inl OutOfFuel
     | Some SelError \<Rightarrow> Inr (-1, events)
     | Some (SelReady rs ws) \<Rightarrow>
         let new = sel_events rs ws (m_fdmax p)
         in if length new \<le> max_events then Inr (0, new) else Inl OutOfBounds
     | Some _ \<Rightarrow> Inr (0, events))"

section \<open>What \<open>select\<close> gets right\<close>

text \<open>Every registered descriptor is among those \<^verbatim>\<open>select\<close> is asked about, and within the sets.\<close>

definition sel_inv :: "select_poll \<Rightarrow> bool" where
  "sel_inv p \<longleftrightarrow> (\<forall>fd \<in> set (m_readSet p) \<union> set (m_writeSet p). 0 \<le> fd \<and> fd < FD_SETSIZE \<and> fd \<le> m_fdmax p)"

lemma new_fdmax_same: "new_fdmax (m_fdmax p) p = m_fdmax p"
proof -
  have "fold (\<lambda>i m. if P i then max i m else m) xs m = m" if "\<forall>x \<in> set xs. x \<le> m" for P :: "int \<Rightarrow> bool" and xs m
    using that by (induction xs) (auto simp: max_absorb2)
  then show ?thesis by (simp add: new_fdmax_def)
qed

lemma update_sets_spec:
  assumes "update_sets f fd flt p = Inr p'"
  shows "m_readSet p' = (if wants flt ev_READ then f fd (m_readSet p) else m_readSet p)"
    "m_writeSet p' = (if wants flt ev_WRITE then f fd (m_writeSet p) else m_writeSet p)" "m_fdmax p' = m_fdmax p"
    "wants flt ev_READ \<or> wants flt ev_WRITE \<Longrightarrow> 0 \<le> fd \<and> fd < FD_SETSIZE"
  using assms by (auto simp: update_sets_def fd_set_op_def bind_outcome_Inr split: if_splits)

lemma sel_add_inv:
  assumes "sel_inv p" "sel_add fd flt p = Inr (ok, p')"
  shows "sel_inv p'"
proof -
  obtain q where q: "update_sets List.insert fd flt p = Inr q" "p' = q\<lparr>m_fdmax := max (m_fdmax q) fd\<rparr>"
    using assms(2) by (auto simp: sel_add_def bind_outcome_Inr)
  show ?thesis using update_sets_spec [OF q(1)] assms(1) q(2)
    by (auto simp: sel_inv_def le_max_iff_disj split: if_splits)
qed

lemma sel_remove_spec:
  assumes "sel_remove fd flt p = Inr (ok, p')"
  shows "m_fdmax p' = m_fdmax p" "set (m_readSet p') \<subseteq> set (m_readSet p)" "set (m_writeSet p') \<subseteq> set (m_writeSet p)"
proof -
  obtain q where q: "update_sets removeAll fd flt p = Inr q" "p' = (if m_fdmax q = fd then q\<lparr>m_fdmax := new_fdmax fd q\<rparr> else q)"
    using assms by (auto simp: sel_remove_def bind_outcome_Inr)
  show "m_fdmax p' = m_fdmax p" "set (m_readSet p') \<subseteq> set (m_readSet p)" "set (m_writeSet p') \<subseteq> set (m_writeSet p)"
    using update_sets_spec [OF q(1)] q(2) new_fdmax_same [of q] by (auto split: if_splits)
qed

lemma sel_remove_inv: "sel_inv p \<Longrightarrow> sel_remove fd flt p = Inr (ok, p') \<Longrightarrow> sel_inv p'"
  using sel_remove_spec [of fd flt p ok p'] by (auto simp: sel_inv_def)

inductive sel_reach :: "select_poll \<Rightarrow> bool" where
  sel_reach_new: "sel_reach sel_new"
| sel_reach_add: "sel_reach p \<Longrightarrow> sel_add fd flt p = Inr (ok, p') \<Longrightarrow> sel_reach p'"
| sel_reach_remove: "sel_reach p \<Longrightarrow> sel_remove fd flt p = Inr (ok, p') \<Longrightarrow> sel_reach p'"

lemma sel_reach_inv: "sel_reach p \<Longrightarrow> sel_inv p"
  by (induction rule: sel_reach.induct) (simp add: sel_inv_def sel_new_def, blast intro: sel_add_inv, blast intro: sel_remove_inv)

text \<open>
  The \<^verbatim>\<open>select\<close> loop reports what the system says: for descriptors registered in any order of
  additions and removals, and an answer that names registered descriptors only, \<^verbatim>\<open>run\<close> reports
  every ready descriptor once, in ascending order and with its flags, and nothing else,
  provided the caller's array has room.
\<close>

theorem select_reports_ready:
  assumes "sel_reach p" "set rs \<subseteq> set (m_readSet p)" "set ws \<subseteq> set (m_writeSet p)"
    "card (set rs \<union> set ws) \<le> max_events" "set interrupts \<subseteq> {SelInterrupted}"
  shows "\<exists>new. sel_run max_events (interrupts @ [SelReady rs ws]) events p = Inr (0, new)
    \<and> map fst new = sorted_list_of_set (set rs \<union> set ws)
    \<and> (\<forall>(fd, flt) \<in> set new. (wants flt ev_READ \<longleftrightarrow> fd \<in> set rs) \<and> (wants flt ev_WRITE \<longleftrightarrow> fd \<in> set ws))"
proof -
  let ?new = "sel_events rs ws (m_fdmax p)"
  have inv: "0 \<le> fd" "fd \<le> m_fdmax p" if "fd \<in> set rs \<union> set ws" for fd
    using sel_reach_inv [OF assms(1)] assms(2,3) that by (auto simp: sel_inv_def)
  have nz: "sel_filter rs ws j \<noteq> 0 \<longleftrightarrow> j \<in> set rs \<union> set ws" for j by (simp add: sel_filter_def)
  have new: "?new = map (\<lambda>j. (j, sel_filter rs ws j)) (filter (\<lambda>j. j \<in> set rs \<union> set ws) [0..m_fdmax p])"
    unfolding sel_events_def map_filter_def by (simp add: nz comp_def cong: filter_cong)
  have fsts: "map fst ?new = filter (\<lambda>j. j \<in> set rs \<union> set ws) [0..m_fdmax p]"
    by (simp add: new comp_def)
  have s: "sorted (map fst ?new)" "distinct (map fst ?new)" unfolding fsts by (simp_all add: sorted_wrt_filter)
  moreover have "set (map fst ?new) = set rs \<union> set ws" unfolding fsts using inv by auto
  ultimately have l: "map fst ?new = sorted_list_of_set (set rs \<union> set ws)"
    by (metis sorted_list_of_set.idem_if_sorted_distinct)
  have "length ?new \<le> max_events" using assms(4) l by (metis length_map length_sorted_list_of_set)
  moreover have "select_loop (interrupts @ [SelReady rs ws]) = Some (SelReady rs ws)"
    using assms(5) by (induction interrupts) auto
  moreover have "\<forall>(fd, flt) \<in> set ?new. (wants flt ev_READ \<longleftrightarrow> fd \<in> set rs) \<and> (wants flt ev_WRITE \<longleftrightarrow> fd \<in> set ws)"
    by (auto simp: new wants_def sel_filter_def)
  ultimately show ?thesis using l by (simp add: sel_run_def Let_def)
qed

text \<open>The timeout is a valid one, and not longer than the duration.\<close>

theorem select_timeout_valid:
  assumes "sel_timeout (Some ns) = Some (sec, usec)"
  shows "usec < 1000000 \<and> sec * 1000000000 + usec * 1000 \<le> ns \<and> ns < sec * 1000000000 + usec * 1000 + 1000"
proof (cases "ns = 0")
  case True
  then show ?thesis using assms by (simp add: sel_timeout_def)
next
  case False
  define q where "q = ns div 1000"
  have t: "sec = ns div 1000000000" "usec = q - ns div 1000000000 * 1000000"
    using assms False by (auto simp: sel_timeout_def q_def)
  have d: "ns div 1000000000 = q div 1000000" by (simp add: q_def div_mult2_eq [symmetric])
  have usec: "usec = q mod 1000000" unfolding t(2) d by (rule minus_div_mult_eq_mod)
  have "sec * 1000000 + usec = q" unfolding t(1) d usec by (rule div_mult_mod_eq)
  moreover have "q * 1000 \<le> ns" "ns < q * 1000 + 1000"
    using dividend_less_div_times [of 1000 ns] by (simp_all add: q_def)
  moreover have "usec < 1000000" unfolding usec by (rule mod_less_divisor) simp
  ultimately show ?thesis by linarith
qed

text \<open>
  The largest descriptor never shrinks: \<^verbatim>\<open>remove\<close> takes the maximum with the value it is to
  replace. And a timeout leaves the count of the caller's events as it was.
\<close>

theorem select_fdmax_keeps: "sel_remove fd flt p = Inr (ok, p') \<Longrightarrow> m_fdmax p' = m_fdmax p"
  by (rule sel_remove_spec(1))

section \<open>Witnesses\<close>

definition demo_filters :: kq_filters where
  "demo_filters = \<lparr>EVFILT_READ = -1, EVFILT_WRITE = -2, EVFILT_TIMER = -7, EVFILT_SIGNAL = -6\<rparr>"

theorem kqueue_filters_overlap_witness: "kq_io_filter demo_filters (ev_READ OR ev_WRITE) = kq_io_filter demo_filters ev_READ"
  using kqueue_filters_overlap [of demo_filters] by (simp add: demo_filters_def documented_filters_def)

theorem kqueue_timer_misdirected_witness:
  "kq_run demo_filters (KqEvents 2)
      [\<lparr>ke_ident = 5, ke_filter = EVFILT_WRITE demo_filters, ke_data = 10\<rparr>, \<lparr>ke_ident = 1, ke_filter = EVFILT_TIMER demo_filters, ke_data = 1\<rparr>]
      (kq_new (\<lambda>_ _ _. None)\<lparr>kq_events := 2\<rparr>)
    = Inr (0, [IOElement 5 ev_WRITE, TimerElement 5], kq_new (\<lambda>_ _ _. None)\<lparr>kq_events := 2\<rparr>)"
proof -
  have "documented_filters demo_filters" by (simp add: demo_filters_def documented_filters_def)
  then show ?thesis
    using kqueue_timer_misdirected [of demo_filters "kq_new (\<lambda>_ _ _. None)\<lparr>kq_events := 2\<rparr>" 10 5 1 "[]"]
    by (simp add: kq_new_def)
qed

lemma demo_select: "sel_reach \<lparr>m_readSet = [3], m_writeSet = [3], m_fdmax = 3\<rparr>"
  using sel_reach_add [OF sel_reach_new, of 3 "ev_READ OR ev_WRITE" True]
  by (simp add: sel_add_def sel_new_def update_sets_def fd_set_op_def wants_def FD_SETSIZE_def)

theorem select_reports_ready_witness:
  "\<exists>new. sel_run 8 [SelInterrupted, SelReady [3] []] [] \<lparr>m_readSet = [3], m_writeSet = [3], m_fdmax = 3\<rparr> = Inr (0, new) \<and> map fst new = [3]"
  using select_reports_ready [OF demo_select, of "[3]" "[]" 8 "[SelInterrupted]" "[]"] by auto

theorem select_timeout_valid_witness: "sel_timeout (Some 1500000000) = Some (1, 500000) \<and> (500000 :: nat) < 1000000"
  using select_timeout_valid [of 1500000000 1 500000] by (simp add: sel_timeout_def)

theorem select_fdmax_keeps_witness:
  "\<exists>p'. sel_remove 3 (ev_READ OR ev_WRITE) \<lparr>m_readSet = [3], m_writeSet = [3], m_fdmax = 3\<rparr> = Inr (True, p') \<and> m_fdmax p' = 3"
proof -
  obtain p' where "sel_remove 3 (ev_READ OR ev_WRITE) \<lparr>m_readSet = [3], m_writeSet = [3], m_fdmax = 3\<rparr> = Inr (True, p')"
    by (simp add: sel_remove_def update_sets_def fd_set_op_def wants_def FD_SETSIZE_def)
  then show ?thesis using select_fdmax_keeps by fastforce
qed

end
