(* ===== verification/Router_Startup.thy ===== *)
theory Router_Startup
  imports Shm_Transport Notifiers
begin

text \<open>
  The start of the router and its main loop (\<^verbatim>\<open>src/fastpath/router/bootstrap.cpp\<close>), with the two transports
  that take connections (\<^verbatim>\<open>tcp_server_transport.cpp\<close>, \<^verbatim>\<open>shm_server_transport.cpp\<close>). The callback objects
  (\<^verbatim>\<open>std::function\<close>) have addresses, and the state knows which of them are alive. What the handlers
  of the connections do with their own events is the subject of the theories on the router; here
  such an event comes with its handler.
\<close>

section \<open>The rendezvous of shared-memory clients\<close>

text \<open>\<^verbatim>\<open>get_temp_directory\<close>: the first of four variables of the environment that is set.\<close>

definition env_locations :: "string list" where
  "env_locations = [''TMPDIR'', ''TMP'', ''TEMP'', ''TEMPDIR'']"

fun first_set :: "(string \<rightharpoonup> string) \<Rightarrow> string list \<Rightarrow> string option" where
  "first_set env [] = None"
| "first_set env (v # vs) = (case env v of None \<Rightarrow> first_set env vs | Some d \<Rightarrow> Some d)"

definition get_temp_directory :: "(string \<rightharpoonup> string) \<Rightarrow> string" where
  "get_temp_directory env = (case first_set env env_locations of None \<Rightarrow> ''/tmp/'' | Some d \<Rightarrow> d)"

definition ipc_file :: "(string \<rightharpoonup> string) \<Rightarrow> string \<Rightarrow> string" where
  "ipc_file env service = get_temp_directory env @ ''fprouter_'' @ service"

section \<open>State\<close>

record 'q boot =
  bt_router :: "'q shm_router"         \<comment> \<open>segment and \<open>m_connections\<close>\<close>
  bt_shutdown :: bool
  bt_functions :: "nat list"           \<comment> \<open>the callback objects that are alive\<close>
  bt_next :: nat                       \<comment> \<open>the next address\<close>
  bt_kernel :: kernel
  bt_world :: world
  bt_server :: socket                  \<comment> \<open>\<open>m_server\<close> of the TCP transport\<close>
  bt_attempt :: "nat option"           \<comment> \<open>its event, with the callback the handler refers to\<close>
  bt_notification_server :: "socket option"
  bt_signals :: "int list"

text \<open>The conversion of the handler to the type of the parameter makes an object that dies with the call.\<close>

definition with_temporary :: "(nat \<Rightarrow> 'q boot \<Rightarrow> 'q boot outcome) \<Rightarrow> 'q boot \<Rightarrow> 'q boot outcome" where
  "with_temporary f st =
    (let cb = bt_next st
     in bind_outcome (f cb (st\<lparr>bt_functions := cb # bt_functions st, bt_next := cb + 1\<rparr>)) (\<lambda>st.
        Inr (st\<lparr>bt_functions := removeAll cb (bt_functions st)\<rparr>)))"

section \<open>The TCP transport\<close>

text \<open>
  The lambda it registers captures the parameter by reference. \<open>hostInfo\<close> and \<open>listens\<close> are the
  answers of the system.
\<close>

definition tcp_server_transport_new :: "address list \<Rightarrow> bool \<Rightarrow> nat \<Rightarrow> 'q boot \<Rightarrow> 'q boot outcome" where
  "tcp_server_transport_new hostInfo listens cb st =
    (let (ok, sock, k) = TCPSocketServer_connect (SocketOptionsDisableNagle OR SocketOptionsDisableSigPipe OR SocketOptionsNonBlocking)
           hostInfo listens (socket_new (-1) False) (bt_kernel st)
     in Inr (st\<lparr>bt_server := sock, bt_kernel := k, bt_attempt := (if ok then Some cb else None)\<rparr>))"

text \<open>The handler: \<open>newfd\<close> is what \<^verbatim>\<open>accept\<close> returns, \<open>a\<close> the bytes the new buffer has.\<close>

definition tcp_connection_attempt :: "(nat \<Rightarrow> byte) \<Rightarrow> int \<Rightarrow> 'q boot \<Rightarrow> 'q boot outcome" where
  "tcp_connection_attempt a newfd st =
    (case bt_attempt st of
       None \<Rightarrow> Inr st
     | Some cb \<Rightarrow>
         let (connection, k) = acceptPendingConnection newfd (bt_kernel st)
         in case connection of
              None \<Rightarrow> Inl OutOfBounds
            | Some sock \<Rightarrow>
                if cb \<in> set (bt_functions st)
                then let (seg, ps) = bt_router st
                     in Inr (st\<lparr>bt_kernel := k, bt_next := bt_next st + 1,
                                bt_router := (seg, ps @ [TcpPeer (tcp_peer_new a (bt_next st) sock)])\<rparr>)
                else Inl UseAfterFree)"

definition close_connected :: "socket \<Rightarrow> kernel \<Rightarrow> kernel" where
  "close_connected sock k = (if m_connected sock then k_close (m_socket sock) k else k)"

definition tcp_server_transport_destroy :: "'q boot \<Rightarrow> 'q boot" where
  "tcp_server_transport_destroy st =
    st\<lparr>bt_server := snd (disconnect (bt_server st)), bt_kernel := close_connected (bt_server st) (bt_kernel st), bt_attempt := None\<rparr>"

section \<open>The shared-memory transport\<close>

text \<open>
  \<^verbatim>\<open>std::bind\<close> copies the callback. The constructor is \<^verbatim>\<open>noexcept\<close>, so that the exceptions of the socket
  and of the notifier's server end the program. \<open>fd\<close>, \<open>unlinked\<close>, \<open>binds\<close> and \<open>listens\<close> are answers of the system.
\<close>

definition shm_server_transport_new ::
  "(string \<rightharpoonup> string) \<Rightarrow> string \<Rightarrow> int \<Rightarrow> bool \<Rightarrow> bool \<Rightarrow> bool \<Rightarrow> nat \<Rightarrow> 'q boot \<Rightarrow> 'q boot outcome" where
  "shm_server_transport_new env service fd unlinked binds listens cb st =
    noexcept (bind_outcome (UnixSocketServer_new (ipc_file env service) fd unlinked (bt_kernel st)) (\<lambda>(_, sock, k).
      bind_outcome (InterprocessNotifierServer_new binds listens sock k) (\<lambda>(sock, k).
      Inr (st\<lparr>bt_kernel := k, bt_notification_server := Some sock\<rparr>))))"

definition connectionHandler :: "'q spsc_ops \<Rightarrow> int \<Rightarrow> 'q boot \<Rightarrow> 'q boot" where
  "connectionHandler ops process_id st =
    st\<lparr>bt_router := shm_peer_new ops (bt_next st) process_id (bt_router st), bt_next := bt_next st + 1\<rparr>"

definition shm_connection_attempt :: "'q spsc_ops \<Rightarrow> int \<Rightarrow> int \<Rightarrow> fd_answer \<Rightarrow> int list \<Rightarrow> 'q boot \<Rightarrow> 'q boot outcome" where
  "shm_connection_attempt ops rpid newfd answer fresh st =
    bind_outcome (receiver_event rpid newfd answer fresh (bt_kernel st) (bt_world st)) (\<lambda>(client, k, w).
    let st = st\<lparr>bt_kernel := k, bt_world := w\<rparr>
    in Inr (case client of None \<Rightarrow> st | Some (_, _, process_id) \<Rightarrow> connectionHandler ops process_id st))"

definition shm_server_transport_destroy :: "'q boot \<Rightarrow> 'q boot" where
  "shm_server_transport_destroy st =
    st\<lparr>bt_notification_server := None,
       bt_kernel := (case bt_notification_server st of None \<Rightarrow> bt_kernel st | Some sock \<Rightarrow> close_connected sock (bt_kernel st))\<rparr>"

section \<open>run\<close>

definition SIGINT :: int where "SIGINT = 2"
definition SIGTERM :: int where "SIGTERM = 15"

record system_answers =
  sa_hosts :: "address list"
  sa_tcp_listens :: bool
  sa_unix_fd :: int
  sa_unix_unlinked :: bool
  sa_unix_binds :: bool
  sa_unix_listens :: bool

definition boot_start :: "(string \<rightharpoonup> string) \<Rightarrow> string \<Rightarrow> system_answers \<Rightarrow> 'q boot \<Rightarrow> 'q boot outcome" where
  "boot_start env service sa st =
    bind_outcome (with_temporary (tcp_server_transport_new (sa_hosts sa) (sa_tcp_listens sa)) st) (\<lambda>st.
    bind_outcome (with_temporary (shm_server_transport_new env service (sa_unix_fd sa) (sa_unix_unlinked sa) (sa_unix_binds sa) (sa_unix_listens sa)) st) (\<lambda>st.
    Inr (st\<lparr>bt_signals := [SIGINT, SIGTERM]\<rparr>)))"

datatype 'q router_event =
    Signalled int
  | TcpConnection int
  | ShmConnection int fd_answer "int list"
  | PeerEvent "'q shm_router \<Rightarrow> 'q shm_router outcome"

definition boot_event :: "'q spsc_ops \<Rightarrow> (nat \<Rightarrow> byte) \<Rightarrow> int \<Rightarrow> 'q router_event \<Rightarrow> 'q boot \<Rightarrow> 'q boot outcome" where
  "boot_event ops a rpid ev st =
    (case ev of
       Signalled s \<Rightarrow> Inr (if s \<in> set (bt_signals st) then st\<lparr>bt_shutdown := True\<rparr> else st)
     | TcpConnection newfd \<Rightarrow> tcp_connection_attempt a newfd st
     | ShmConnection newfd answer fresh \<Rightarrow>
         if bt_notification_server st = None then Inr st else shm_connection_attempt ops rpid newfd answer fresh st
     | PeerEvent handler \<Rightarrow> bind_outcome (handler (bt_router st)) (\<lambda>r. Inr (st\<lparr>bt_router := r\<rparr>)))"

text \<open>
  One call of \<^verbatim>\<open>dispatch\<close> handles the events of one wait. The loop tests the flag between the calls;
  when there are no more events it waits, which is the result \<open>None\<close>. Otherwise the result
  has the events it has left.
\<close>

fun handle_batch :: "('e \<Rightarrow> 's \<Rightarrow> 's outcome) \<Rightarrow> 'e list \<Rightarrow> 's \<Rightarrow> 's outcome" where
  "handle_batch h [] st = Inr st"
| "handle_batch h (e # es) st = bind_outcome (h e st) (handle_batch h es)"

fun boot_loop :: "('e \<Rightarrow> 'q boot \<Rightarrow> 'q boot outcome) \<Rightarrow> 'e list list \<Rightarrow> 'q boot \<Rightarrow> ('e list list option \<times> 'q boot) outcome" where
  "boot_loop h batches st =
    (if bt_shutdown st then Inr (Some batches, st)
     else case batches of
            [] \<Rightarrow> Inr (None, st)
          | b # bs \<Rightarrow> bind_outcome (handle_batch h b st) (boot_loop h bs))"

declare boot_loop.simps [simp del]

definition boot_finish :: "'q boot \<Rightarrow> 'q boot" where
  "boot_finish st = tcp_server_transport_destroy (shm_server_transport_destroy (st\<lparr>bt_signals := []\<rparr>))"

definition boot_run ::
  "'q spsc_ops \<Rightarrow> (nat \<Rightarrow> byte) \<Rightarrow> int \<Rightarrow> (string \<rightharpoonup> string) \<Rightarrow> string \<Rightarrow> system_answers \<Rightarrow> 'q router_event list list \<Rightarrow>
    'q boot \<Rightarrow> ('q router_event list list option \<times> 'q boot) outcome" where
  "boot_run ops a rpid env service sa batches st =
    bind_outcome (boot_start env service sa st) (\<lambda>st.
    bind_outcome (boot_loop (boot_event ops a rpid) batches st) (\<lambda>(left, st).
    Inr (left, if left = None then st else boot_finish st)))"

section \<open>Lemmas\<close>

lemma handle_batch_append:
  "handle_batch h (xs @ ys) st = bind_outcome (handle_batch h xs st) (handle_batch h ys)"
proof (induction xs arbitrary: st)
  case (Cons x xs)
  then show ?case by (cases "h x st") simp_all
qed simp

text \<open>The flag goes up with a signal that is registered and with nothing else.\<close>

definition stops :: "'q router_event \<Rightarrow> bool" where
  "stops ev \<longleftrightarrow> ev = Signalled SIGINT \<or> ev = Signalled SIGTERM"

lemma boot_event_frame:
  assumes "boot_event ops a rpid ev st = Inr st'" "bt_signals st = [SIGINT, SIGTERM]"
  shows "bt_signals st' = [SIGINT, SIGTERM] \<and> (bt_shutdown st' \<longleftrightarrow> bt_shutdown st \<or> stops ev)"
  using assms
  by (auto simp: boot_event_def stops_def tcp_connection_attempt_def shm_connection_attempt_def connectionHandler_def
      bind_outcome_Inr Let_def split: router_event.splits option.splits prod.splits if_splits)

lemma handle_batch_frame:
  "handle_batch (boot_event ops a rpid) es st = Inr st' \<Longrightarrow> bt_signals st = [SIGINT, SIGTERM] \<Longrightarrow>
    bt_signals st' = [SIGINT, SIGTERM] \<and> (bt_shutdown st' \<longleftrightarrow> bt_shutdown st \<or> (\<exists>e \<in> set es. stops e))"
proof (induction es arbitrary: st)
  case (Cons e es)
  then obtain st1 where st1: "boot_event ops a rpid e st = Inr st1" "handle_batch (boot_event ops a rpid) es st1 = Inr st'"
    by (auto simp: bind_outcome_Inr)
  then show ?case using Cons.IH [OF st1(2)] boot_event_frame [OF st1(1) Cons.prems(2)] by auto
qed simp

lemma boot_start_signals:
  "boot_start env service sa st = Inr st' \<Longrightarrow> bt_signals st' = [SIGINT, SIGTERM] \<and> bt_shutdown st' = bt_shutdown st"
  by (auto simp: boot_start_def with_temporary_def tcp_server_transport_new_def shm_server_transport_new_def noexcept_def
      bind_outcome_Inr Let_def split: prod.splits sum.splits fault.splits)


lemma boot_start_attempt:
  "boot_start env service sa st = Inr st' \<Longrightarrow> bt_attempt st' = Some cb \<Longrightarrow> cb \<notin> set (bt_functions st')"
  by (auto simp: boot_start_def with_temporary_def tcp_server_transport_new_def shm_server_transport_new_def noexcept_def
      bind_outcome_Inr Let_def split: prod.splits sum.splits fault.splits if_splits)

lemma boot_loop_quiet:
  assumes "handle_batch (boot_event ops a rpid) (concat bs) st = Inr st1" "\<forall>e \<in> set (concat bs). \<not> stops e"
    "bt_signals st = [SIGINT, SIGTERM]" "\<not> bt_shutdown st"
  shows "boot_loop (boot_event ops a rpid) (bs @ rest) st = boot_loop (boot_event ops a rpid) rest st1
    \<and> bt_signals st1 = [SIGINT, SIGTERM] \<and> \<not> bt_shutdown st1"
  using assms
proof (induction bs arbitrary: st)
  case (Cons b bs)
  then obtain st2 where st2: "handle_batch (boot_event ops a rpid) b st = Inr st2"
      "handle_batch (boot_event ops a rpid) (concat bs) st2 = Inr st1"
    by (auto simp: handle_batch_append bind_outcome_Inr)
  have "bt_signals st2 = [SIGINT, SIGTERM]" "\<not> bt_shutdown st2"
    using handle_batch_frame [OF st2(1) Cons.prems(3)] Cons.prems by auto
  then show ?case using Cons.IH [OF st2(2)] st2(1) Cons.prems by (simp add: boot_loop.simps [of _ "b # bs @ rest"])
qed simp

text \<open>The descriptors the transports listen on.\<close>

definition listening :: "'q boot \<Rightarrow> int list" where
  "listening st = (if m_connected (bt_server st) then [m_socket (bt_server st)] else [])
     @ (case bt_notification_server st of None \<Rightarrow> [] | Some sock \<Rightarrow> if m_connected sock then [m_socket sock] else [])"

lemma boot_finish_closes:
  "bt_signals (boot_finish st) = []" "bt_attempt (boot_finish st) = None" "bt_notification_server (boot_finish st) = None"
  "bt_router (boot_finish st) = bt_router st"
  "k_open (bt_kernel (boot_finish st)) = foldr remove1 (listening st) (k_open (bt_kernel st))"
  "sk_closes (bt_server st) = [] \<Longrightarrow> \<not> m_connected (bt_server (boot_finish st))"
  by (simp_all add: boot_finish_def tcp_server_transport_destroy_def shm_server_transport_destroy_def listening_def
      close_connected_def k_close_def disconnect_def split: option.split)

section \<open>Properties\<close>


text \<open>
  C38 The first client that connects by TCP makes the router call an object that is gone: the
  handler of the listening socket refers to the constructor's parameter, which was a temporary.
\<close>

theorem tcp_connection_calls_dead_callback:
  assumes "boot_start env service sa st = Inr st0" "bt_attempt st0 \<noteq> None" "newfd \<noteq> -1"
  shows "boot_event ops a rpid (TcpConnection newfd) st0 = Inl UseAfterFree"
  using assms boot_start_attempt [OF assms(1)]
  by (auto simp: boot_event_def tcp_connection_attempt_def acceptPendingConnection_def)

text \<open>
  With a callback that is alive the connection is added, with no subscriptions; when \<^verbatim>\<open>accept\<close>
  fails, the null pointer it returns is used.
\<close>

lemma tcp_connection_added:
  assumes "bt_attempt st = Some cb" "cb \<in> set (bt_functions st)"
  shows "newfd \<noteq> -1 \<Longrightarrow> \<exists>st'. boot_event ops a rpid (TcpConnection newfd) st = Inr st'
      \<and> snd (bt_router st') = snd (bt_router st) @ [TcpPeer (tcp_peer_new a (bt_next st) (socket_new newfd True))]"
    "boot_event ops a rpid (TcpConnection (-1)) st = Inl OutOfBounds"
  using assms
  by (auto simp: boot_event_def tcp_connection_attempt_def acceptPendingConnection_def split: prod.split)

text \<open>
  A client on shared memory joins the router: after its \<^verbatim>\<open>connect\<close> and the router's event there is a
  new connection for its process, without subscriptions, both queues of the process exist, and
  the notifiers of the two processes are wired both ways.
\<close>

theorem shm_client_joins:
  assumes c: "w_table (bt_world st) cpid (inbound_notification c) = Some oi"
      "w_table (bt_world st) cpid (outbound_notification c) = Some oo" "\<not> nc_connected c"
    and r: "rpid \<noteq> cpid" "f0 \<noteq> f1" "newfd \<noteq> -1" "bt_notification_server st \<noteq> None"
  shows "\<exists>m st'. client_handshake cpid True True c (bt_world st) = Inr (True, c\<lparr>nc_connected := True\<rparr>, bt_world st, Some m)
    \<and> boot_event ops a rpid (ShmConnection newfd (FdMessage m) [f0, f1]) st = Inr st'
    \<and> snd (bt_router st') = snd (bt_router st) @ [ShmPeer \<lparr>tp_id = bt_next st, tp_subscriptions = [], sp_process_id = cpid\<rparr>]
    \<and> sg_client (fst (bt_router st')) cpid \<noteq> None \<and> sg_server (fst (bt_router st')) cpid \<noteq> None
    \<and> wired (cpid, outbound_notification c) (rpid, f0) (bt_world st') \<and> wired (rpid, f1) (cpid, inbound_notification c) (bt_world st')"
proof -
  let ?m = "\<lparr>fm_pid = cpid, fm_control = Some [oo, oi]\<rparr>"
  let ?w = "w_open rpid f1 oi (w_open rpid f0 oo (bt_world st))"
  let ?st = "connectionHandler ops cpid (st\<lparr>bt_kernel := k_socket newfd (bt_kernel st), bt_world := ?w\<rparr>)"
  have "boot_event ops a rpid (ShmConnection newfd (FdMessage ?m) [f0, f1]) st = Inr ?st"
    using r(3,4) by (auto simp: boot_event_def shm_connection_attempt_def receiver_event_def acceptPendingConnection_def received_message)
  moreover have "wired (cpid, outbound_notification c) (rpid, f0) ?w" "wired (rpid, f1) (cpid, inbound_notification c) ?w"
    using opened_tables [OF r(1,2), of oi oo "bt_world st"] c by (auto simp: wired_def)
  moreover have "open_queue ops slot \<noteq> None" for slot by (cases slot) (simp_all add: open_queue_def)
  ultimately show ?thesis using client_handshake_message [OF c(3,1,2)]
    by (intro exI [of _ ?m] exI [of _ ?st]) (simp add: connectionHandler_def shm_peer_new_def split: prod.split)
qed

text \<open>
  A router that cannot make its rendezvous (the path is too long or cannot be removed, bound or
  listened on) ends with \<^verbatim>\<open>std::terminate\<close>, since the constructor of the transport is \<^verbatim>\<open>noexcept\<close>; the
  \<^verbatim>\<open>catch\<close> of the main program is not reached. That it has no TCP socket goes unnoticed.
\<close>

theorem bind_failure_terminates:
  assumes "\<not> (length (ipc_file env service) < sun_path_size \<and> sa_unix_unlinked sa \<and> sa_unix_binds sa \<and> sa_unix_listens sa)"
  shows "boot_start env service sa st = Inl Terminate"
  using assms
  by (auto simp: boot_start_def with_temporary_def tcp_server_transport_new_def shm_server_transport_new_def noexcept_def
      UnixSocketServer_new_def UnixSocket_new_def InterprocessNotifierServer_new_def UnixSocketServer_connect_def socket_new_def Let_def split: prod.split)

text \<open>
  A temporary directory without a slash at its end puts the rendezvous beside the directory and
  not into it.
\<close>

theorem ipc_file_beside_directory: "ipc_file [''TMPDIR'' \<mapsto> ''/var/tmp''] ''7900'' = ''/var/tmpfprouter_7900''"
  by (simp add: ipc_file_def get_temp_directory_def env_locations_def)

section \<open>Connections that arrive together\<close>

text \<open>
  The listening descriptors are registered with edge triggering: a wait reports one event for
  all connections that have arrived since the last, and the handler accepts one. \<open>arrivals\<close> has
  what arrives before each wait.
\<close>

definition edge_round :: "int list \<Rightarrow> int list \<times> int list \<Rightarrow> int list \<times> int list" where
  "edge_round arrivals = (\<lambda>(accepted, pending).
    if arrivals = [] then (accepted, pending)
    else (accepted @ [hd (pending @ arrivals)], tl (pending @ arrivals)))"

text \<open>
  A connection that arrives together with another one is left waiting: however many waits
  follow, as many connections are accepted as waits brought new ones, in the order of their
  arrival, and the others stay in the queue of the system.
\<close>

theorem edge_triggered_accept_starves:
  "fold edge_round arrivals ([], []) =
    (take (length (filter (\<lambda>b. b \<noteq> []) arrivals)) (concat arrivals), drop (length (filter (\<lambda>b. b \<noteq> []) arrivals)) (concat arrivals))"
proof (induction arrivals rule: rev_induct)
  case (snoc b bs)
  let ?n = "length (filter (\<lambda>b. b \<noteq> []) bs)"
  have "length (filter (\<lambda>b. b \<noteq> []) bs) \<le> length (concat bs)"
  proof (induction bs)
    case (Cons b bs)
    then show ?case by (cases b) auto
  qed simp
  then have n: "?n \<le> length (concat bs)" .
  show ?case
  proof (cases "b = []")
    case False
    then have "0 < length b" by simp
    then have "?n < length (concat (bs @ [b]))" using n by (simp del: length_greater_0_conv)
    moreover have "drop ?n (concat bs) @ b = drop ?n (concat (bs @ [b]))" using n by simp
    moreover have "take ?n (concat bs) = take ?n (concat (bs @ [b]))" using n by simp
    ultimately show ?thesis using snoc.IH False
      by (simp add: edge_round_def hd_drop_conv_nth take_Suc_conv_app_nth drop_Suc tl_drop del: concat_append)
  qed (use snoc in \<open>simp add: edge_round_def\<close>)
qed simp

section \<open>A router that starts\<close>

definition demo_answers_boot :: system_answers where
  "demo_answers_boot = \<lparr>sa_hosts = [\<lparr>ad_fd = 3, ad_ok = True\<rparr>], sa_tcp_listens = True, sa_unix_fd = 4, sa_unix_unlinked = True, sa_unix_binds = True, sa_unix_listens = True\<rparr>"

definition demo_boot :: "container option ringbuffer boot" where
  "demo_boot = \<lparr>bt_router = (\<lparr>sg_client = Map.empty, sg_server = Map.empty, sg_to_client = (\<lambda>_. 0), sg_to_router = (\<lambda>_. 0)\<rparr>, []),
     bt_shutdown = False, bt_functions = [], bt_next = 0, bt_kernel = demo_kernel, bt_world = demo_world,
     bt_server = socket_new (-1) False, bt_attempt = None, bt_notification_server = None, bt_signals = []\<rparr>"


definition demo_started :: "container option ringbuffer boot" where
  "demo_started = demo_boot\<lparr>bt_kernel := \<lparr>k_open = [4, 3, 0, 1, 2], k_nonblock = [3], k_nodelay = [3], k_lowdelay = []\<rparr>,
     bt_server := socket_new 3 True, bt_attempt := Some 0, bt_next := 2, bt_notification_server := Some (socket_new 4 True),
     bt_signals := [SIGINT, SIGTERM]\<rparr>"

lemma demo_start: "boot_start Map.empty ''7900'' demo_answers_boot demo_boot = Inr demo_started"
proof -
  have "length (ipc_file Map.empty ''7900'') < sun_path_size"
    by (simp add: ipc_file_def get_temp_directory_def env_locations_def sun_path_size_def)
  then show ?thesis
    by (simp add: boot_start_def with_temporary_def tcp_server_transport_new_def shm_server_transport_new_def noexcept_def
      UnixSocketServer_new_def UnixSocket_new_def InterprocessNotifierServer_new_def UnixSocketServer_connect_def socket_new_def Let_def demo_boot_def
      demo_answers_boot_def TCPSocketServer_connect_def k_socket_def TCPSocket_setOptions_def set_nonblocking_def has_option_def
      SocketOptionsDisableNagle_def SocketOptionsDisableSigPipe_def SocketOptionsNonBlocking_def SocketOptionsHighPriority_def
      SocketOptionsNone_def UnixSocket_setOptions_def handler_called_def demo_started_def)
qed


theorem tcp_connection_calls_dead_callback_witness:
  "boot_event undefined (\<lambda>_. 0) 1 (TcpConnection 7) demo_started = Inl UseAfterFree"
  by (rule tcp_connection_calls_dead_callback [OF demo_start]) (simp_all add: demo_started_def)

theorem shm_client_joins_witness:
  "\<exists>m st'. boot_event undefined (\<lambda>_. 0) 1 (ShmConnection 7 (FdMessage m) [8, 9]) demo_started = Inr st' \<and> length (snd (bt_router st')) = 1"
proof -
  have "w_table (bt_world demo_started) 100 (inbound_notification demo_notifier_client) = Some 0"
    "w_table (bt_world demo_started) 100 (outbound_notification demo_notifier_client) = Some 1"
    "\<not> nc_connected demo_notifier_client" "(1 :: int) \<noteq> 100" "(8 :: int) \<noteq> 9" "(7 :: int) \<noteq> -1" "bt_notification_server demo_started \<noteq> None"
    by (simp_all add: demo_started_def demo_boot_def demo_world_def demo_notifier_client_def)
  from shm_client_joins [OF this, of undefined "\<lambda>_. 0"] obtain m st' where
    "boot_event undefined (\<lambda>_. 0) 1 (ShmConnection 7 (FdMessage m) [8, 9]) demo_started = Inr st'"
    "length (snd (bt_router st')) = length (snd (bt_router demo_started)) + 1" by force
  then show ?thesis by (intro exI [of _ m] exI [of _ st']) (simp add: demo_started_def demo_boot_def)
qed

theorem bind_failure_terminates_witness:
  "boot_start Map.empty ''7900'' (demo_answers_boot\<lparr>sa_unix_binds := False\<rparr>) demo_boot = Inl Terminate"
  by (rule bind_failure_terminates)
     (simp_all add: ipc_file_def get_temp_directory_def env_locations_def sun_path_size_def demo_answers_boot_def)

end
