(* ===== verification/Programs.thy ===== *)
theory Programs
  imports Options Url Messages Status
begin

text \<open>
  The programs: the options and settings of the router's main program
  (\<^verbatim>\<open>src/fastpath/router/fprouter.cpp\<close>), the tool that sends a message (\<^verbatim>\<open>tools/fpsend.cpp\<close>) and the logger they
  configure (\<^verbatim>\<open>utils/logger.h\<close>). The clock, the transport and the system are arguments.
\<close>

section \<open>The logger\<close>

datatype level = LogError | LogWarning | LogInfo | LogDebug | LogTrace

primrec level_number :: "level \<Rightarrow> nat" where
  "level_number LogError = 0"
| "level_number LogWarning = 1"
| "level_number LogInfo = 2"
| "level_number LogDebug = 3"
| "level_number LogTrace = 4"

text \<open>The macro \<^verbatim>\<open>LOG\<close>; \<open>cur\<close> is \<^verbatim>\<open>logLevel\<close>.\<close>

definition logs :: "level \<Rightarrow> level \<Rightarrow> bool" where
  "logs cur lvl \<longleftrightarrow> level_number lvl \<le> level_number cur"

text \<open>
  The prefix: \<open>tm\<close> is the time \<^verbatim>\<open>strftime\<close> has written, eight characters, and \<open>micros\<close> the microseconds since
  the epoch; \<^verbatim>\<open>%06lli\<close> pads to six digits. The buffer has 25 characters.
\<close>

fun decimal :: "nat \<Rightarrow> string" where
  "decimal n = (if n < 10 then [char_of (48 + n)] else decimal (n div 10) @ [char_of (48 + n mod 10)])"

definition pad6 :: "nat \<Rightarrow> string" where
  "pad6 n = replicate (6 - length (decimal n)) (CHR ''0'') @ decimal n"

definition log_prefix :: "string \<Rightarrow> nat \<Rightarrow> string outcome" where
  "log_prefix tm micros =
    (let usec = micros mod 1000000; str = '': ['' @ tm @ ''.'' @ pad6 usec @ ''] ''
     in if length str < 25 then Inr str else Inl BufferOverflow)"

section \<open>fprouter\<close>

definition opt :: "string \<Rightarrow> bool \<Rightarrow> bool \<Rightarrow> char \<Rightarrow> option_spec" where
  "opt key req arg short =
    \<lparr>op_key = key, op_description = [], op_required = req, op_requiresArg = arg, op_longName = key, op_shortName = short\<rparr>"

definition fprouter_options :: "option_spec list" where
  "fprouter_options =
    [opt ''help'' False False (CHR ''h''), opt ''config'' True False (CHR ''c''), opt ''loglevel'' False True (CHR ''l''),
     opt ''interface'' False True (CHR ''i''), opt ''service'' True True (CHR ''s''),
     opt ''nobanner'' False False (CHR ''x''), opt ''daemon'' False False (CHR ''d'')]"

definition level_of :: "string \<Rightarrow> level option" where
  "level_of s =
    (if s = ''DEBUG'' then Some LogDebug else if s = ''INFO'' then Some LogInfo
     else if s = ''WARNING'' then Some LogWarning else if s = ''ERROR'' then Some LogError else None)"

definition chosen_level :: "options \<Rightarrow> level option" where
  "chosen_level os = (case get_arg ''loglevel'' 0 os of None \<Rightarrow> Some LogWarning | Some s \<Rightarrow> level_of s)"

text \<open>
  \<^verbatim>\<open>get\<close> with a default of type \<^verbatim>\<open>bool\<close>: the argument is read as a number, and the default is the
  result when there is no argument.
\<close>

definition is_digit :: "char \<Rightarrow> bool" where
  "is_digit c \<longleftrightarrow> 48 \<le> (of_char c :: nat) \<and> (of_char c :: nat) \<le> 57"

definition is_space :: "char \<Rightarrow> bool" where
  "is_space c \<longleftrightarrow> (of_char c :: nat) = 32 \<or> (9 \<le> (of_char c :: nat) \<and> (of_char c :: nat) \<le> 13)"

definition read_bool :: "string \<Rightarrow> bool" where
  "read_bool s =
    (let s = dropWhile is_space s; s = (if take 1 s = ''-'' \<or> take 1 s = ''+'' then drop 1 s else s)
     in \<exists>c \<in> set (takeWhile is_digit s). c \<noteq> CHR ''0'')"

definition get_bool :: "string \<Rightarrow> bool \<Rightarrow> options \<Rightarrow> bool" where
  "get_bool key dflt os = (case get_arg key 0 os of None \<Rightarrow> dflt | Some s \<Rightarrow> read_bool s)"

record router_settings =
  rs_level :: level
  rs_banner :: bool
  rs_config :: string
  rs_daemon :: bool
  rs_interface :: string
  rs_service :: string

text \<open>\<open>Inl\<close>: the exit code; \<open>Inr\<close>: the router runs with these settings.\<close>

definition fprouter_main :: "string list \<Rightarrow> int + router_settings" where
  "fprouter_main argv =
    (case parse argv (fold register_option fprouter_options options_new) of
       (Some _, _) \<Rightarrow> Inl 1
     | (None, os) \<Rightarrow>
         (case chosen_level os of
            None \<Rightarrow> Inl 1
          | Some lvl \<Rightarrow>
              Inr \<lparr>rs_level = lvl, rs_banner = (\<not> get_bool ''nobanner'' False os),
                   rs_config = (case get_arg ''config'' 0 os of None \<Rightarrow> [] | Some s \<Rightarrow> s),
                   rs_daemon = get_bool ''daemon'' False os,
                   rs_interface = getWithDefault ''interface'' ''0.0.0.0'' 0 os,
                   rs_service = getWithDefault ''service'' ''7900'' 0 os\<rparr>))"

section \<open>fpsend\<close>

definition fpsend_options :: "option_spec list" where
  "fpsend_options =
    [opt ''help'' False False (CHR ''h''), opt ''loglevel'' False True (CHR ''l''), opt ''url'' True True (CHR ''u''),
     opt ''subject'' True True (CHR ''s'')]"

definition fpsend_message :: "string \<Rightarrow> message outcome" where
  "fpsend_message subject =
    (let (_, msg) = setSubject (str_bytes subject) Message_new
     in bind_outcome (addDataField_string (str_bytes ''name'') (str_bytes ''tom'') msg) (\<lambda>(_, msg). Inr msg))"

text \<open>
  \<open>valid\<close> says whether the transport for a URL is connected, \<open>send\<close> what sending on it returns. The result
  is the exit code and what was sent. Exceptions are caught; the end of \<^verbatim>\<open>main\<close> returns 0.
\<close>

definition fpsend_main ::
  "(transport_kind \<times> url \<Rightarrow> bool) \<Rightarrow> (message \<Rightarrow> status) \<Rightarrow> string list \<Rightarrow> (int \<times> message list) outcome" where
  "fpsend_main valid send argv =
    (case parse argv (fold register_option fpsend_options options_new) of
       (Some _, _) \<Rightarrow> Inr (1, [])
     | (None, os) \<Rightarrow>
         if chosen_level os = None then Inr (1, [])
         else let subject = (case get_arg ''subject'' 0 os of None \<Rightarrow> [] | Some s \<Rightarrow> s)
              in case make_realm_connection (getWithDefault ''url'' [] 0 os) of
                   Inl (FpException _) \<Rightarrow> Inr (1, [])
                 | Inl e \<Rightarrow> Inl e
                 | Inr transport \<Rightarrow>
                     if valid transport then
                       bind_outcome (fpsend_message subject) (\<lambda>msg.
                       Inr (0, if send msg = OK then [msg] else []))
                     else Inr (0, []))"

section \<open>Lemmas\<close>

declare decimal.simps [simp del]

lemma decimal_digits: "c \<in> set (decimal n) \<Longrightarrow> is_digit c"
proof (induction n rule: decimal.induct)
  case (1 n)
  then show ?case by (subst (asm) (2) decimal.simps) (auto simp: is_digit_def split: if_splits)
qed

lemma decimal_neq_Nil: "decimal n \<noteq> []"
  by (subst decimal.simps) simp

lemma length_decimal: "n < 10 ^ k \<Longrightarrow> 0 < k \<Longrightarrow> length (decimal n) \<le> k"
proof (induction n arbitrary: k rule: decimal.induct)
  case (1 n)
  show ?case
  proof (cases "n < 10")
    case True
    then show ?thesis using 1 by (subst decimal.simps) simp
  next
    case False
    then obtain j where j: "k = Suc j" "0 < j" using 1 by (cases k; cases "k - 1") auto
    then have "length (decimal (n div 10)) \<le> j" using 1 False by (simp add: less_mult_imp_div_less mult.commute)
    then show ?thesis using j False by (subst decimal.simps) simp
  qed
qed

lemma length_pad6: "n < 1000000 \<Longrightarrow> length (pad6 n) = 6"
  using length_decimal [of n 6] by (simp add: pad6_def)

text \<open>
  The logger's buffers are large enough: with the eight characters of a time the prefix always
  fits, and is 20 characters long.
\<close>

theorem log_prefix_fits:
  assumes "length tm = 8"
  shows "\<exists>str. log_prefix tm micros = Inr str \<and> length str = 20"
proof -
  have "length (pad6 (micros mod 1000000)) = 6" by (rule length_pad6) simp
  then show ?thesis using assms by (simp add: log_prefix_def Let_def)
qed

theorem log_prefix_fits_witness: "\<exists>str. log_prefix ''12:00:00'' 1500 = Inr str \<and> length str = 20"
  by (rule log_prefix_fits) simp

lemma get_arg_first: "get_arg k 0 os = (case get_args k os of Some (x # _) \<Rightarrow> Some x | _ \<Rightarrow> None)"
  by (auto simp: get_arg_def get_args_def neq_Nil_conv split: option.split list.split)

lemma fprouter_options_distinct: "distinct_options fprouter_options"
  by (simp add: distinct_options_def fprouter_options_def opt_def)

text \<open>
  The router runs with the settings of its command line: for any sequence of its options by long
  or short name that gives a configuration and a service and an argument for every option that
  needs one, the service, the interface and the level are the first arguments given, the latter
  two with their defaults when they are left out. But \<^verbatim>\<open>--daemon\<close> and \<^verbatim>\<open>--nobanner\<close> without an
  argument have no effect.
\<close>

theorem fprouter_settings:
  assumes "list_all (use_ok fprouter_options) us" "used ''config'' us" "used ''service'' us" "args_of ''service'' us \<noteq> []"
    "used ''interface'' us \<longrightarrow> args_of ''interface'' us \<noteq> []" "used ''loglevel'' us \<longrightarrow> args_of ''loglevel'' us \<noteq> []"
    "(if used ''loglevel'' us then level_of (hd (args_of ''loglevel'' us)) else Some LogWarning) = Some lvl"
  shows "\<exists>rs. fprouter_main (concat (map words_of us)) = Inr rs \<and> rs_level rs = lvl \<and> rs_service rs = hd (args_of ''service'' us)
    \<and> rs_interface rs = (if used ''interface'' us then hd (args_of ''interface'' us) else ''0.0.0.0'')
    \<and> (args_of ''daemon'' us = [] \<longrightarrow> \<not> rs_daemon rs) \<and> (args_of ''nobanner'' us = [] \<longrightarrow> rs_banner rs)"
proof -
  obtain os where os: "parse (concat (map words_of us)) (fold register_option fprouter_options options_new) = (None, os)"
      "\<And>k. get_args k os = (if used k us then Some (args_of k us) else None)"
    using parse_words [OF fprouter_options_distinct assms(1)] assms(2-6) by (auto simp: fprouter_options_def opt_def)
  have first: "get_arg k 0 os = (if used k us \<and> args_of k us \<noteq> [] then Some (hd (args_of k us)) else None)" for k
    by (auto simp: get_arg_first os(2) neq_Nil_conv split: list.split)
  have "chosen_level os = Some lvl" using assms(6,7) by (auto simp: chosen_level_def first split: if_splits)
  then show ?thesis using os(1) assms(3-5) by (simp add: fprouter_main_def getWithDefault_def get_bool_def first)
qed

definition demo_uses :: "use list" where
  "demo_uses = [(opt ''config'' True False (CHR ''c''), Short, []), (opt ''service'' True True (CHR ''s''), Long, [''7901'']),
    (opt ''daemon'' False False (CHR ''d''), Long, [])]"

theorem fprouter_settings_witness:
  "\<exists>rs. fprouter_main [''-c'', ''--service'', ''7901'', ''--daemon''] = Inr rs \<and> rs_service rs = ''7901'' \<and> \<not> rs_daemon rs"
proof -
  have "list_all (use_ok fprouter_options) demo_uses" by (simp add: demo_uses_def use_ok_def fprouter_options_def)
  moreover have "used ''config'' demo_uses" "used ''service'' demo_uses" "args_of ''service'' demo_uses = [''7901'']"
    "\<not> used ''interface'' demo_uses" "\<not> used ''loglevel'' demo_uses" "args_of ''daemon'' demo_uses = []"
    by (simp_all add: demo_uses_def opt_def)
  moreover have "concat (map words_of demo_uses) = [''-c'', ''--service'', ''7901'', ''--daemon'']" by (simp add: demo_uses_def opt_def)
  ultimately show ?thesis using fprouter_settings [of demo_uses LogWarning] by auto
qed

text \<open>Asking for help alone is an error, since the configuration and the service are required.\<close>

theorem fprouter_help_fails: "fprouter_main [''--help''] = Inl 1"
  by (simp add: fprouter_main_def parse_def fprouter_options_def opt_def options_new_def register_option_def find_option_def
      start_option_def)

text \<open>
  The tool that sends a message tells its caller nothing about it: whether the transport is
  connected and whether the message could be sent, the exit code is the same.
\<close>

theorem fpsend_exit_code_blind:
  assumes "fpsend_main valid send argv = Inr (code, sent)" "fpsend_main valid' send' argv = Inr (code', sent')"
  shows "code = code'"
  using assms
  by (auto simp: fpsend_main_def bind_outcome_Inr Let_def split: prod.splits option.splits sum.splits fault.splits if_splits)

theorem fpsend_exit_code_blind_witness:
  "\<exists>sent. fpsend_main (\<lambda>_. False) (\<lambda>_. OK) [''-u'', ''tcp://h'', ''-s'', ''A''] = Inr (0, sent)
    \<and> fpsend_main (\<lambda>_. False) (\<lambda>_. CANNOT_SEND) [''-u'', ''tcp://h'', ''-s'', ''A''] = Inr (0, sent) \<and> sent = []"
proof -
  have run: "fpsend_main (\<lambda>_. False) send [''-u'', ''tcp://h'', ''-s'', ''A''] = Inr (0, [])" for send
  proof -
    have "chosen_level os \<noteq> None" if "get_arg ''loglevel'' 0 os = None" for os using that by (simp add: chosen_level_def)
    moreover have "\<exists>os. parse [''-u'', ''tcp://h'', ''-s'', ''A''] (fold register_option fpsend_options options_new) = (None, os)
        \<and> get_arg ''loglevel'' 0 os = None \<and> get_arg ''url'' 0 os = Some ''tcp://h''"
      by (simp add: parse_def fpsend_options_def opt_def options_new_def register_option_def find_option_def start_option_def
          add_arg_def get_arg_def)
    moreover have "\<exists>u. make_realm_connection ''tcp://h'' = Inr (TCP, u)"
      by (simp add: make_realm_connection_def url_parse_def find_separator_def is_separator_def lower_char_def Let_def)
    ultimately show ?thesis by (auto simp: fpsend_main_def getWithDefault_def Let_def)
  qed
  show ?thesis using run [of "\<lambda>_. OK"] run [of "\<lambda>_. CANNOT_SEND"] fpsend_exit_code_blind [OF run run] by blast
qed

end
