(* ===== verification/Performance.thy ===== *)
theory Performance
  imports Programs Framing
begin

text \<open>
  The two programs that measure the bus (\<^verbatim>\<open>tools/performance_source.cpp\<close>, \<^verbatim>\<open>tools/performance_sink.cpp\<close>): the source
  sends numbered messages from a timer, the sink answers each with the time it came in, and the
  source notes both times until the last number has come back. The two run side by side; between
  them are the messages on their way, which arrive in order and as the decoder hands them over
  (\<open>delivered\<close>). Clocks and the results of sending are arguments. Times of the source are
  nanoseconds, those of the sink microseconds, as the clocks have them.
\<close>

section \<open>Settings\<close>

text \<open>
  \<^verbatim>\<open>get\<close> with a default of type \<^verbatim>\<open>unsigned long\<close>, as streams read it: white space, a sign, digits; a number that
  is too large gives the largest one, no digits give 0, and a minus sign negates modulo \<open>2 ^ 64\<close>.
\<close>

definition digits_value :: "string \<Rightarrow> nat" where
  "digits_value ds = foldl (\<lambda>n c. 10 * n + (of_char c - 48)) 0 ds"

definition read_ulong :: "string \<Rightarrow> size_t" where
  "read_ulong s =
    (let s = dropWhile is_space s;
         neg = (take 1 s = ''-'');
         s = (if neg \<or> take 1 s = ''+'' then drop 1 s else s);
         v = digits_value (takeWhile is_digit s)
     in if v \<ge> 2 ^ 64 then -1 else if neg then - word_of_nat v else word_of_nat v)"

definition get_ulong :: "string \<Rightarrow> size_t \<Rightarrow> options \<Rightarrow> size_t" where
  "get_ulong key dflt os = (case get_arg key 0 os of None \<Rightarrow> dflt | Some s \<Rightarrow> read_ulong s)"

definition source_options :: "option_spec list" where
  "source_options =
    [opt ''help'' False False (CHR ''h''), opt ''loglevel'' False True (CHR ''l''), opt ''url'' True True (CHR ''u''),
     opt ''rate'' False True (CHR ''r''), opt ''count'' False True (CHR ''c'')]"

record source_settings =
  ss_level :: level
  ss_count :: size_t
  ss_url :: string
  ss_period :: size_t      \<comment> \<open>microseconds between two messages\<close>

text \<open>\<open>Inr (Inl code)\<close>: the program returns the code. With a rate of 0 the period is a division by zero, once the
  transport is connected.\<close>

definition source_setup :: "string list \<Rightarrow> (int + source_settings) outcome" where
  "source_setup argv =
    (case parse argv (fold register_option source_options options_new) of
       (Some _, _) \<Rightarrow> Inr (Inl 1)
     | (None, os) \<Rightarrow>
         (case chosen_level os of
            None \<Rightarrow> Inr (Inl 1)
          | Some lvl \<Rightarrow>
              let count = get_ulong ''count'' 1000 os; rate = get_ulong ''rate'' 100 os
              in if rate = 0 then Inl Terminate
                 else Inr (Inr \<lparr>ss_level = lvl, ss_count = count, ss_url = getWithDefault ''url'' [] 0 os, ss_period = 1000000 div rate\<rparr>)))"

section \<open>The source\<close>

datatype 'a tool = Exit int | Running 'a

record perf_source =
  ps_id :: u32
  ps_msg :: message
  ps_times :: "(int \<times> int) list"
  ps_shutdown :: bool

text \<open>\<^verbatim>\<open>sendMsg\<close> is filled once before the timer starts, and used again for every message.\<close>

fun add_scalars :: "(string \<times> scalar) list \<Rightarrow> message \<Rightarrow> message outcome" where
  "add_scalars [] m = Inr m"
| "add_scalars ((n, v) # fs) m = bind_outcome (addScalarField (str_bytes n) v m) (\<lambda>(_, m). add_scalars fs m)"

definition reuse_message :: "string \<Rightarrow> (string \<times> scalar) list \<Rightarrow> message \<Rightarrow> message outcome" where
  "reuse_message subject fs m = add_scalars fs (snd (setSubject (str_bytes subject) (Message_clear m)))"

definition source_init :: "size_t \<Rightarrow> perf_source" where
  "source_init count =
    \<lparr>ps_id = 0,
     ps_msg = (case add_scalars [(''id'', SU32 0)] (snd (setSubject (str_bytes ''TEST.PERF.SOURCE'') Message_new)) of Inr m \<Rightarrow> m | Inl _ \<Rightarrow> Message_new),
     ps_times = replicate (unat count) (0, 0), ps_shutdown = False\<rparr>"

text \<open>The timer: \<open>now\<close> is the clock, \<open>sent\<close> whether \<^verbatim>\<open>sendMessage\<close> returns \<^verbatim>\<open>OK\<close>. The result has the message sent.\<close>

definition source_tick :: "size_t \<Rightarrow> int \<Rightarrow> bool \<Rightarrow> perf_source \<Rightarrow> (perf_source \<times> message list) tool outcome" where
  "source_tick count now sent s =
    (let n = unat (ps_id s)
     in if n < unat count then
          bind_outcome (reuse_message ''TEST.PERF.SOURCE'' [(''id'', SU32 (ps_id s))] (ps_msg s)) (\<lambda>m.
          if n < length (ps_times s) then
            let s = s\<lparr>ps_msg := m, ps_times := (ps_times s)[n := (now, snd (ps_times s ! n))]\<rparr>
            in Inr (if sent then Running (s\<lparr>ps_id := ps_id s + 1\<rparr>, [m]) else Exit 1)
          else Inl OutOfBounds)
        else Inr (Running (s, [])))"

text \<open>The answer: \<^verbatim>\<open>m_times\<close> is indexed with the number from the message.\<close>

definition note_reply :: "u32 \<Rightarrow> size_t \<Rightarrow> (int \<times> int) list \<Rightarrow> (int \<times> int) list outcome" where
  "note_reply i ts table =
    (if unat i < length table then Inr (table[unat i := (fst (table ! unat i), 1000 * sint ts)]) else Inl OutOfBounds)"

definition source_receive :: "size_t \<Rightarrow> message \<Rightarrow> perf_source \<Rightarrow> perf_source outcome" where
  "source_receive count msg s =
    bind_outcome (getScalarField st_uint32 (Some (str_bytes ''id'')) msg) (\<lambda>v.
    let recv_id = (case v of Some (SU32 i) \<Rightarrow> i | _ \<Rightarrow> 0)
    in bind_outcome
         (if v = None then Inr (ps_times s)
          else bind_outcome (getScalarField st_uint64 (Some (str_bytes ''timestamp'')) msg) (\<lambda>t.
               case t of Some (SU64 ts) \<Rightarrow> note_reply recv_id ts (ps_times s) | _ \<Rightarrow> Inr (ps_times s))) (\<lambda>table.
       Inr (s\<lparr>ps_times := table, ps_shutdown := ps_shutdown s \<or> unat (count - 1) \<le> unat recv_id\<rparr>)))"

section \<open>The sink\<close>

definition sink_receive :: "size_t \<Rightarrow> bool \<Rightarrow> message \<Rightarrow> message \<Rightarrow> (message \<times> message list) tool outcome" where
  "sink_receive now sent msg sendMsg =
    bind_outcome (getScalarField st_uint32 (Some (str_bytes ''id'')) msg) (\<lambda>v.
    case v of
      Some (SU32 i) \<Rightarrow>
        bind_outcome (reuse_message ''TEST.PERF.SINK'' [(''id'', SU32 i), (''timestamp'', SU64 now)] sendMsg) (\<lambda>m.
        Inr (if sent then Running (m, [m]) else Exit 1))
    | _ \<Rightarrow> Inr (Running (sendMsg, [])))"

section \<open>Both at work\<close>

text \<open>
  The last two components record when messages were sent and answered, in order; no program
  reads them.
\<close>

record perf =
  pf_source :: perf_source
  pf_sink :: message
  pf_requests :: "message list"
  pf_replies :: "message list"
  pf_sent :: "int list"
  pf_stamps :: "size_t list"

definition perf_init :: "size_t \<Rightarrow> perf" where
  "perf_init count = \<lparr>pf_source = source_init count, pf_sink = Message_new, pf_requests = [], pf_replies = [], pf_sent = [], pf_stamps = []\<rparr>"

inductive perf_step :: "size_t \<Rightarrow> perf \<Rightarrow> perf \<Rightarrow> bool" for count where
  tick: "\<not> ps_shutdown (pf_source s) \<Longrightarrow> source_tick count now True (pf_source s) = Inr (Running (src, out)) \<Longrightarrow>
    perf_step count s (s\<lparr>pf_source := src, pf_requests := pf_requests s @ map delivered out,
      pf_sent := pf_sent s @ map (\<lambda>_. now) out\<rparr>)"
| answer: "pf_requests s = m # ms \<Longrightarrow> sink_receive now True m (pf_sink s) = Inr (Running (sink, out)) \<Longrightarrow>
    perf_step count s (s\<lparr>pf_sink := sink, pf_requests := ms, pf_replies := pf_replies s @ map delivered out,
      pf_stamps := pf_stamps s @ map (\<lambda>_. now) out\<rparr>)"
| reply: "\<not> ps_shutdown (pf_source s) \<Longrightarrow> pf_replies s = m # ms \<Longrightarrow> source_receive count m (pf_source s) = Inr src \<Longrightarrow>
    perf_step count s (s\<lparr>pf_source := src, pf_replies := ms\<rparr>)"

inductive perf_reach :: "size_t \<Rightarrow> perf \<Rightarrow> bool" for count where
  perf_start: "perf_reach count (perf_init count)"
| perf_go: "perf_reach count s \<Longrightarrow> perf_step count s s' \<Longrightarrow> perf_reach count s'"

section \<open>The report\<close>

text \<open>
  \<^verbatim>\<open>duration_cast\<close> truncates. \<^verbatim>\<open>find_p\<close>: \<^verbatim>\<open>nth_element\<close> with \<^verbatim>\<open>greater\<close> puts at the index the element that sorting from
  the largest down would put there; the index is \<open>(100 - p) / 100\<close> of the number, rounded down.
\<close>

definition latency :: "int \<times> int \<Rightarrow> int" where
  "latency t = (let d = snd t - fst t in if 0 \<le> d then d div 1000 else - ((- d) div 1000))"

definition find_p :: "nat \<Rightarrow> int list \<Rightarrow> int outcome" where
  "find_p p ls =
    (let index = (100 - p) * length ls div 100
     in if index < length ls then Inr (rev (sort ls) ! index) else Inl OutOfBounds)"

section \<open>Messages\<close>

text \<open>A message built by \<open>add_scalars\<close> comes out of the decoder with the values under their names.\<close>

definition scalar_of :: "string \<times> scalar \<Rightarrow> field" where
  "scalar_of nv = ScalarField \<lparr>f_identifier = c_string (str_bytes (fst nv)), f_type = scalar_type (snd nv), f_data_length = type_size (scalar_type (snd nv))\<rparr>
     (overwrite 0 (le_bytes (type_size (scalar_type (snd nv))) (scalar_bits (snd nv))) (replicate 8 0))"

definition short_name :: "string \<times> scalar \<Rightarrow> bool" where
  "short_name nv \<longleftrightarrow> length (c_string (str_bytes (fst nv))) < 256"

lemma scalar_of_ctor: "short_name (n, v) \<Longrightarrow> ScalarField_ctor (str_bytes n) v = Inr (scalar_of (n, v))"
  by (simp add: ScalarField_ctor_def Field_ctor_def scalar_of_def short_name_def)

lemma field_identifier_scalar_of [simp]: "field_identifier (scalar_of (n, v)) = c_string (str_bytes n)"
  by (simp add: scalar_of_def field_identifier_def)

lemma received_scalar_of [simp]: "received_field (scalar_of nv) = scalar_of nv"
  by (simp add: scalar_of_def)

lemma reuse_keys:
  "m_payload (snd (setSubject subject (Message_clear m))) = []" "m_keys (snd (setSubject subject (Message_clear m))) = []"
  by (cases m; simp add: setSubject_def Message_clear_def BaseMessage_clear_def)+

lemma get_found:
  assumes "map_of (m_keys m) (c_string (str_bytes n)) = Some j" "j < length (m_payload m)" "m_payload m ! j = scalar_of (n, v)" "short_name (n, v)"
  shows "getScalarField (scalar_type v) (Some (str_bytes n)) m = Inr (Some v)"
  using assms ScalarField_get_ctor [OF scalar_of_ctor [OF assms(4)], of "scalar_type v"]
  by (simp add: getScalarField_def find_key_def payload_at_def)

lemma delivered_keys:
  "m_payload m = [] \<Longrightarrow> m_payload (delivered m) = [] \<and> m_keys (delivered m) = []"
  "m_payload m = [scalar_of (n, v)] \<Longrightarrow> m_payload (delivered m) = [scalar_of (n, v)] \<and> m_keys (delivered m) = [(c_string (str_bytes n), 0)]"
  "m_payload m = [scalar_of (n, v), scalar_of (n', v')] \<Longrightarrow> c_string (str_bytes n) \<noteq> c_string (str_bytes n') \<Longrightarrow>
    m_payload (delivered m) = [scalar_of (n, v), scalar_of (n', v')]
    \<and> m_keys (delivered m) = [(c_string (str_bytes n'), 1), (c_string (str_bytes n), 0)]"
  by (simp_all add: delivered_def push_field_def key_insert_def Message_new_def)

lemma names:
  "short_name (''id'', v)" "short_name (''timestamp'', v)" "c_string (str_bytes ''id'') \<noteq> c_string (str_bytes ''timestamp'')"
  by (simp_all add: short_name_def) code_simp+

lemma source_message:
  "\<exists>m'. reuse_message ''TEST.PERF.SOURCE'' [(''id'', SU32 i)] m = Inr m'
    \<and> getScalarField st_uint32 (Some (str_bytes ''id'')) (delivered m') = Inr (Some (SU32 i))"
proof -
  let ?m = "snd (setSubject (str_bytes ''TEST.PERF.SOURCE'') (Message_clear m))"
  let ?m' = "snd (add_field (scalar_of (''id'', SU32 i)) ?m)"
  have "reuse_message ''TEST.PERF.SOURCE'' [(''id'', SU32 i)] m = Inr ?m'"
    by (simp add: reuse_message_def addScalarField_def scalar_of_ctor [OF names(1)] split: prod.split)
  moreover have "m_payload ?m' = [scalar_of (''id'', SU32 i)]"
    using reuse_keys [of "str_bytes ''TEST.PERF.SOURCE''" m] by (cases ?m) (simp add: add_field_def key_insert_def)
  ultimately show ?thesis
    using delivered_keys(2) [of ?m'] get_found [of "delivered ?m'" "''id''" 0 "SU32 i"] names by auto
qed

lemma sink_message:
  "\<exists>m'. reuse_message ''TEST.PERF.SINK'' [(''id'', SU32 i), (''timestamp'', SU64 now)] m = Inr m'
    \<and> getScalarField st_uint32 (Some (str_bytes ''id'')) (delivered m') = Inr (Some (SU32 i))
    \<and> getScalarField st_uint64 (Some (str_bytes ''timestamp'')) (delivered m') = Inr (Some (SU64 now))"
proof -
  let ?m = "snd (setSubject (str_bytes ''TEST.PERF.SINK'') (Message_clear m))"
  let ?m' = "snd (add_field (scalar_of (''timestamp'', SU64 now)) (snd (add_field (scalar_of (''id'', SU32 i)) ?m)))"
  have "reuse_message ''TEST.PERF.SINK'' [(''id'', SU32 i), (''timestamp'', SU64 now)] m = Inr ?m'"
    by (simp add: reuse_message_def addScalarField_def scalar_of_ctor [OF names(1)] scalar_of_ctor [OF names(2)] split: prod.split)
  moreover have "m_payload ?m' = [scalar_of (''id'', SU32 i), scalar_of (''timestamp'', SU64 now)]"
    using reuse_keys [of "str_bytes ''TEST.PERF.SINK''" m] names(3)
    by (cases ?m) (simp add: add_field_def key_insert_def)
  ultimately show ?thesis
    using delivered_keys(3) [of ?m' "''id''" "SU32 i" "''timestamp''" "SU64 now"] names
      get_found [of "delivered ?m'" "''id''" 0 "SU32 i"] get_found [of "delivered ?m'" "''timestamp''" 1 "SU64 now"] by auto
qed

section \<open>The invariant\<close>

text \<open>
  The numbers in order: those up to \<open>a\<close> have been noted, those up to \<open>length (pf_stamps s)\<close> answered and
  those up to \<open>length (pf_sent s)\<close> sent.
\<close>

definition asks :: "message \<Rightarrow> nat \<Rightarrow> bool" where
  "asks m i \<longleftrightarrow> getScalarField st_uint32 (Some (str_bytes ''id'')) m = Inr (Some (SU32 (word_of_nat i)))"

definition answers :: "size_t list \<Rightarrow> message \<Rightarrow> nat \<Rightarrow> bool" where
  "answers stamps m i \<longleftrightarrow> asks m i \<and> i < length stamps
    \<and> getScalarField st_uint64 (Some (str_bytes ''timestamp'')) m = Inr (Some (SU64 (stamps ! i)))"

definition perf_inv :: "size_t \<Rightarrow> nat \<Rightarrow> perf \<Rightarrow> bool" where
  "perf_inv count a s \<longleftrightarrow>
    a \<le> length (pf_stamps s) \<and> length (pf_stamps s) \<le> length (pf_sent s) \<and> length (pf_sent s) \<le> unat count
    \<and> ps_id (pf_source s) = word_of_nat (length (pf_sent s))
    \<and> list_all2 asks (pf_requests s) [length (pf_stamps s)..<length (pf_sent s)]
    \<and> list_all2 (answers (pf_stamps s)) (pf_replies s) [a..<length (pf_stamps s)]
    \<and> length (ps_times (pf_source s)) = unat count
    \<and> (\<forall>j < length (pf_sent s). fst (ps_times (pf_source s) ! j) = pf_sent s ! j)
    \<and> (\<forall>j < a. snd (ps_times (pf_source s) ! j) = 1000 * sint (pf_stamps s ! j))
    \<and> (ps_shutdown (pf_source s) \<longleftrightarrow> a = unat count)"

lemma unat_u32: "n < 2 ^ 32 \<Longrightarrow> unat (word_of_nat n :: u32) = n"
  by (simp add: unat_of_nat take_bit_nat_eq_self)

lemma list_all2_upt_Cons:
  "list_all2 P (m # ms) [i..<j] \<Longrightarrow> i < j \<and> P m i \<and> list_all2 P ms [Suc i..<j]"
  by (cases "i < j") (simp_all add: upt_conv_Cons)

lemma answers_append: "answers st m i \<Longrightarrow> answers (st @ st') m i"
  by (simp add: answers_def nth_append)

lemma perf_init_inv: "0 < unat count \<Longrightarrow> perf_inv count 0 (perf_init count)"
  by (simp add: perf_inv_def perf_init_def source_init_def)

lemma tick_inv:
  assumes "perf_inv count a s" "unat count < 2 ^ 32" "source_tick count now True (pf_source s) = Inr (Running (src, out))"
  shows "perf_inv count a (s\<lparr>pf_source := src, pf_requests := pf_requests s @ map delivered out, pf_sent := pf_sent s @ map (\<lambda>_. now) out\<rparr>)"
proof -
  let ?c = "length (pf_sent s)"
  have id: "unat (ps_id (pf_source s)) = ?c" using assms(1,2) by (simp add: perf_inv_def unat_u32)
  show ?thesis
  proof (cases "?c < unat count")
    case True
    obtain m where m: "reuse_message ''TEST.PERF.SOURCE'' [(''id'', SU32 (ps_id (pf_source s)))] (ps_msg (pf_source s)) = Inr m"
        "asks (delivered m) ?c"
      using source_message [of "ps_id (pf_source s)" "ps_msg (pf_source s)"] assms(1) by (auto simp: perf_inv_def asks_def)
    have "src = (pf_source s)\<lparr>ps_msg := m, ps_times := (ps_times (pf_source s))[?c := (now, snd (ps_times (pf_source s) ! ?c))],
        ps_id := word_of_nat (Suc ?c)\<rparr>" "out = [m]"
      using assms True m(1) id by (auto simp: source_tick_def perf_inv_def Let_def add.commute)
    then show ?thesis using assms(1) m(2) True by (auto simp: perf_inv_def list_all2_appendI nth_append nth_list_update)
  next
    case False
    then show ?thesis using assms id by (auto simp: source_tick_def Let_def)
  qed
qed

lemma answer_inv:
  assumes "perf_inv count a s" "pf_requests s = m # ms" "sink_receive now True m (pf_sink s) = Inr (Running (sink, out))"
  shows "perf_inv count a (s\<lparr>pf_sink := sink, pf_requests := ms, pf_replies := pf_replies s @ map delivered out,
    pf_stamps := pf_stamps s @ map (\<lambda>_. now) out\<rparr>)"
proof -
  let ?b = "length (pf_stamps s)"
  have m: "?b < length (pf_sent s)" "asks m ?b" "list_all2 asks ms [Suc ?b..<length (pf_sent s)]"
    using assms(1,2) list_all2_upt_Cons [of asks m ms] by (auto simp: perf_inv_def)
  obtain m' where m': "reuse_message ''TEST.PERF.SINK'' [(''id'', SU32 (word_of_nat ?b)), (''timestamp'', SU64 now)] (pf_sink s) = Inr m'"
      "answers (pf_stamps s @ [now]) (delivered m') ?b"
    using sink_message [of "word_of_nat ?b" now "pf_sink s"] by (auto simp: answers_def asks_def)
  have "sink = m'" "out = [m']" using assms(3) m(2) m'(1) by (auto simp: sink_receive_def asks_def)
  moreover have "list_all2 (answers (pf_stamps s @ [now])) (pf_replies s) [a..<?b]"
    using assms(1) answers_append by (auto simp: perf_inv_def elim: list_all2_mono)
  ultimately show ?thesis using assms(1) m m'(2) by (auto simp: perf_inv_def list_all2_appendI nth_append)
qed

lemma reply_inv:
  assumes "perf_inv count a s" "unat count < 2 ^ 32" "pf_replies s = m # ms" "source_receive count m (pf_source s) = Inr src"
  shows "perf_inv count (Suc a) (s\<lparr>pf_source := src, pf_replies := ms\<rparr>)"
proof -
  let ?b = "length (pf_stamps s)"
  have m: "a < ?b" "answers (pf_stamps s) m a" "list_all2 (answers (pf_stamps s)) ms [Suc a..<?b]"
    using assms(1,3) list_all2_upt_Cons [of "answers (pf_stamps s)" m ms] by (auto simp: perf_inv_def)
  have a: "a < unat count" "unat (word_of_nat a :: u32) = a" using m(1) assms(1,2) by (auto simp: perf_inv_def unat_u32)
  have "count \<noteq> 0" using a(1) by auto
  then have "unat (count - 1) = unat count - 1" by (rule unat_minus_one)
  then have "unat (count - 1) \<le> a \<longleftrightarrow> Suc a = unat count" using a(1) by auto
  then have "src = (pf_source s)\<lparr>ps_times := (ps_times (pf_source s))[a := (fst (ps_times (pf_source s) ! a), 1000 * sint (pf_stamps s ! a))],
      ps_shutdown := (Suc a = unat count)\<rparr>"
    using assms(1,4) m(2) a by (auto simp: source_receive_def note_reply_def answers_def asks_def perf_inv_def)
  then show ?thesis using assms(1) m a by (auto simp: perf_inv_def nth_list_update less_Suc_eq)
qed

lemma perf_reach_inv:
  assumes "perf_reach count s" "0 < unat count" "unat count < 2 ^ 32"
  shows "\<exists>a. perf_inv count a s"
  using assms(1)
proof (induction rule: perf_reach.induct)
  case (perf_go s s')
  then obtain a where a: "perf_inv count a s" by blast
  from perf_go.hyps(2) show ?case
  proof cases
    case (tick now src out)
    then show ?thesis using tick_inv [OF a assms(3)] by blast
  next
    case (answer m ms now sink out)
    then show ?thesis using answer_inv [OF a] by blast
  next
    case (reply m ms src)
    then show ?thesis using reply_inv [OF a assms(3)] by blast
  qed
qed (use perf_init_inv [OF assms(2)] in blast)

section \<open>Progress\<close>

definition work :: "size_t \<Rightarrow> perf \<Rightarrow> nat" where
  "work count s = 3 * (unat count - length (pf_sent s)) + 2 * length (pf_requests s) + length (pf_replies s)"

lemma tick_runs:
  assumes "perf_inv count a s" "unat count < 2 ^ 32"
  shows "\<exists>src out. source_tick count now True (pf_source s) = Inr (Running (src, out)) \<and> length out = (if length (pf_sent s) < unat count then 1 else 0)"
  using assms source_message [of "ps_id (pf_source s)" "ps_msg (pf_source s)"]
  by (auto simp: source_tick_def perf_inv_def unat_u32 Let_def)

lemma answer_runs:
  assumes "asks m i"
  shows "\<exists>sink. sink_receive now True m sendMsg = Inr (Running (sink, [sink]))"
  using assms sink_message [of "word_of_nat i" now sendMsg] by (auto simp: sink_receive_def asks_def)

lemma reply_runs:
  assumes "answers stamps m i" "i < length (ps_times s)" "i < 2 ^ 32"
  shows "\<exists>src. source_receive count m s = Inr src"
  using assms by (auto simp: source_receive_def note_reply_def answers_def asks_def unat_u32)

text \<open>What any of the handlers does when it is called next: it returns.\<close>

lemma handlers_run:
  assumes inv: "perf_inv count a s" "unat count < 2 ^ 32"
  shows "\<exists>src out. source_tick count now True (pf_source s) = Inr (Running (src, out))"
    "pf_requests s = m # ms \<Longrightarrow> \<exists>sink. sink_receive stamp True m (pf_sink s) = Inr (Running (sink, [sink]))"
    "pf_replies s = r # rs \<Longrightarrow> \<exists>src. source_receive count r (pf_source s) = Inr src"
proof -
  show "\<exists>src out. source_tick count now True (pf_source s) = Inr (Running (src, out))" using tick_runs [OF inv] by blast
  assume "pf_requests s = m # ms"
  then have "asks m (length (pf_stamps s))" using inv(1) list_all2_upt_Cons [of asks m ms] by (auto simp: perf_inv_def)
  then show "\<exists>sink. sink_receive stamp True m (pf_sink s) = Inr (Running (sink, [sink]))" by (rule answer_runs)
next
  assume "pf_replies s = r # rs"
  then have "a < length (pf_stamps s)" "answers (pf_stamps s) r a"
    using inv(1) list_all2_upt_Cons [of "answers (pf_stamps s)" r rs] by (auto simp: perf_inv_def)
  then show "\<exists>src. source_receive count r (pf_source s) = Inr src"
    using reply_runs [of "pf_stamps s" r a "pf_source s" count] inv by (auto simp: perf_inv_def)
qed

lemma work_down:
  assumes inv: "perf_inv count a s" "unat count < 2 ^ 32" and "\<not> ps_shutdown (pf_source s)"
  shows "\<exists>s'. perf_step count s s' \<and> work count s' < work count s"
proof (cases "pf_replies s")
  case (Cons m ms)
  then obtain src where "source_receive count m (pf_source s) = Inr src" using handlers_run(3) [OF inv] by blast
  then have "perf_step count s (s\<lparr>pf_source := src, pf_replies := ms\<rparr>)" by (rule perf_step.reply [OF assms(3) Cons])
  moreover have "work count (s\<lparr>pf_source := src, pf_replies := ms\<rparr>) < work count s" using Cons by (simp add: work_def)
  ultimately show ?thesis by blast
next
  case Nil
  show ?thesis
  proof (cases "pf_requests s")
    case (Cons m ms)
    then obtain sink where "sink_receive 0 True m (pf_sink s) = Inr (Running (sink, [sink]))" using handlers_run(2) [OF inv] by blast
    note step = perf_step.answer [OF Cons this, of count]
    show ?thesis by (rule exI, rule conjI, rule step) (use Cons in \<open>simp add: work_def\<close>)
  next
    case Nil': Nil
    then have less: "length (pf_sent s) < unat count" using inv(1) assms(3) Nil by (auto simp: perf_inv_def)
    obtain src out where "source_tick count 0 True (pf_source s) = Inr (Running (src, out))"
        "length out = (if length (pf_sent s) < unat count then 1 else 0)"
      using tick_runs [OF inv, of 0] by blast
    note step = perf_step.tick [OF assms(3) this(1)] and out = this(2)
    show ?thesis by (rule exI, rule conjI, rule step) (use less out in \<open>simp add: work_def\<close>)
  qed
qed

section \<open>Properties\<close>

text \<open>
  C8 A measurement with at least one and less than \<open>2 ^ 32\<close> messages is complete: in
  every order in which the timer, the sink and the answers take turns, and when every message that
  is sent arrives, the handlers return whenever they are called, at any time of the clock: the timer
  of the source, the sink on the next request and the source on the next answer. As long as the
  source has not stopped there is a step that brings the end nearer; when it stops, all messages
  have been sent and answered, and entry \<open>i\<close> of the table has the time message
  \<open>i\<close> was sent and the time the sink received it.
\<close>

theorem measurement_completes:
  assumes "perf_reach count s" "0 < unat count" "unat count < 2 ^ 32"
  shows "(ps_shutdown (pf_source s) \<longrightarrow> length (pf_sent s) = unat count \<and> length (pf_stamps s) = unat count
      \<and> ps_times (pf_source s) = zip (pf_sent s) (map (\<lambda>t. 1000 * sint t) (pf_stamps s)))
    \<and> (\<not> ps_shutdown (pf_source s) \<longrightarrow> (\<exists>s'. perf_step count s s' \<and> work count s' < work count s))
    \<and> (\<forall>now. \<exists>r. source_tick count now True (pf_source s) = Inr (Running r))
    \<and> (\<forall>stamp m ms. pf_requests s = m # ms \<longrightarrow> (\<exists>r. sink_receive stamp True m (pf_sink s) = Inr (Running r)))
    \<and> (\<forall>m ms. pf_replies s = m # ms \<longrightarrow> (\<exists>src. source_receive count m (pf_source s) = Inr src))"
proof -
  obtain a where a: "perf_inv count a s" using perf_reach_inv [OF assms] by blast
  then have "ps_shutdown (pf_source s) \<Longrightarrow> length (pf_sent s) = unat count \<and> length (pf_stamps s) = unat count"
    by (auto simp: perf_inv_def)
  moreover have "ps_times (pf_source s) = zip (pf_sent s) (map (\<lambda>t. 1000 * sint t) (pf_stamps s))" if "ps_shutdown (pf_source s)"
    using a that by (intro nth_equalityI) (auto simp: perf_inv_def prod_eq_iff)
  ultimately show ?thesis using work_down [OF a assms(3)] handlers_run [OF a assms(3)] by blast
qed

text \<open>With a count of 0 the source never stops: it sends nothing, and only an answer could end it.\<close>

theorem zero_count_never_ends:
  assumes "perf_reach 0 s"
  shows "\<not> ps_shutdown (pf_source s) \<and> pf_requests s = []"
proof -
  from assms have "\<not> ps_shutdown (pf_source s) \<and> pf_requests s = [] \<and> pf_replies s = []"
  proof (induction rule: perf_reach.induct)
    case (perf_go s s')
    from perf_go.hyps(2) perf_go.IH show ?case by cases (auto simp: source_tick_def Let_def)
  qed (simp add: perf_init_def source_init_def)
  then show ?thesis by blast
qed

text \<open>An answer to somebody else's message with a larger number is written outside the table.\<close>

theorem foreign_reply_overflows:
  assumes "answers stamps m i" "i < 2 ^ 32" "length (ps_times s) \<le> i"
  shows "source_receive count m s = Inl OutOfBounds"
  using assms by (simp add: source_receive_def note_reply_def answers_def asks_def unat_u32)

lemma filter_descending: "length (filter P (rev (sort ls))) = length (filter P ls)"
  by (simp add: filter_sort flip: rev_filter)

lemma descending: "i \<le> j \<Longrightarrow> j < length ls \<Longrightarrow> rev (sort ls) ! j \<le> (rev (sort ls) ! i :: int)"
  by (simp add: rev_nth sorted_nth_mono)

lemma count_from:
  assumes "i \<le> length xs" "\<And>j. i \<le> j \<Longrightarrow> j < length xs \<Longrightarrow> P (xs ! j)"
  shows "length xs - i \<le> length (filter P xs)"
proof -
  have "filter P (drop i xs) = drop i xs" using assms by (intro filter_True) (auto simp: in_set_conv_nth)
  then have "length xs - i = length (filter P (drop i xs))" by simp
  also have "\<dots> \<le> length (filter P (take i xs)) + length (filter P (drop i xs))" by simp
  also have "\<dots> = length (filter P xs)" by (metis append_take_drop_id filter_append length_append)
  finally show ?thesis .
qed

lemma count_upto:
  assumes "i < length xs" "\<And>j. j \<le> i \<Longrightarrow> P (xs ! j)"
  shows "Suc i \<le> length (filter P xs)"
  using count_from [of "length xs - Suc i" "rev xs" P] assms by (simp add: rev_nth rev_filter [symmetric])

lemma percent_index:
  fixes p n :: nat
  assumes "0 < p" "p \<le> 100" "0 < n"
  defines "i \<equiv> (100 - p) * n div 100"
  shows "i < n" "p * n \<le> 100 * (n - i)" "(100 - p) * n < 100 * Suc i"
proof -
  define q where "q = (100 - p) * n"
  have q: "q + p * n = 100 * n" using assms(2) by (simp add: q_def flip: add_mult_distrib)
  have i: "100 * i \<le> q" "q < 100 * Suc i" unfolding i_def q_def [symmetric] by simp_all
  have "0 < p * n" using assms by simp
  then show "i < n" using q i by linarith
  then show "p * n \<le> 100 * (n - i)" using q i by simp
  show "(100 - p) * n < 100 * Suc i" using i(2) by (simp only: q_def)
qed

text \<open>
  The report's percentiles are percentiles: for \<open>p\<close> from 1 to 100 the access is inside the vector, at
  least \<open>p\<close> percent of the latencies are at most the value reported, and more than \<open>100 - p\<close> percent
  are at least the value.
\<close>

theorem find_p_percentile:
  assumes "ls \<noteq> []" "0 < p" "p \<le> 100"
  shows "\<exists>r. find_p p ls = Inr r \<and> r \<in> set ls \<and> p * length ls \<le> 100 * length (filter (\<lambda>x. x \<le> r) ls)
    \<and> (100 - p) * length ls < 100 * length (filter (\<lambda>x. r \<le> x) ls)"
proof -
  define i r where "i = (100 - p) * length ls div 100" and "r = rev (sort ls) ! i"
  have i: "i < length ls" "p * length ls \<le> 100 * (length ls - i)" "(100 - p) * length ls < 100 * Suc i"
    unfolding i_def by (rule percent_index; use assms in simp)+
  have "length ls - i \<le> length (filter (\<lambda>x. x \<le> r) ls)"
    using count_from [of i "rev (sort ls)" "\<lambda>x. x \<le> r"] descending [of i _ ls] i(1) by (simp add: filter_descending r_def)
  then have "p * length ls \<le> 100 * length (filter (\<lambda>x. x \<le> r) ls)" by (intro order_trans [OF i(2)]) simp
  moreover have "Suc i \<le> length (filter (\<lambda>x. r \<le> x) ls)"
    using count_upto [of i "rev (sort ls)" "\<lambda>x. r \<le> x"] descending [of _ i ls] i(1) by (simp add: filter_descending r_def)
  then have "(100 - p) * length ls < 100 * length (filter (\<lambda>x. r \<le> x) ls)" by (intro less_le_trans [OF i(3)]) simp
  moreover have "r \<in> set ls" using i(1) nth_mem [of i "rev (sort ls)"] by (simp add: r_def)
  moreover have "find_p p ls = Inr r" using i(1) unfolding find_p_def Let_def r_def i_def [symmetric] by simp
  ultimately show ?thesis by blast
qed

text \<open>A number written in decimal is read back.\<close>

lemma digits_value_decimal: "digits_value (decimal n) = n"
proof (induction n rule: decimal.induct)
  case (1 n)
  then show ?case by (subst decimal.simps) (auto simp: digits_value_def)
qed

theorem read_ulong_decimal:
  assumes "n < 2 ^ 64"
  shows "read_ulong (decimal n) = word_of_nat n"
proof -
  obtain c cs where c: "decimal n = c # cs" using decimal_neq_Nil by (cases "decimal n") auto
  have "is_digit c" using decimal_digits [of c n] c by simp
  then have "\<not> is_space c" "c \<noteq> CHR ''-''" "c \<noteq> CHR ''+''" by (auto simp: is_digit_def is_space_def)
  moreover have "takeWhile is_digit (c # cs) = c # cs" using decimal_digits [of _ n] c by (simp add: takeWhile_eq_all_conv)
  ultimately show ?thesis using digits_value_decimal [of n] assms c by (simp add: read_ulong_def Let_def)
qed

section \<open>Witnesses\<close>

theorem measurement_completes_witness:
  "\<exists>s' r. perf_step 3 (perf_init 3) s' \<and> work 3 s' < 9 \<and> source_tick 3 7 True (pf_source (perf_init 3)) = Inr (Running r)"
  using measurement_completes [OF perf_start, of 3] by (simp add: perf_init_def source_init_def work_def)

theorem zero_count_never_ends_witness: "\<not> ps_shutdown (pf_source (perf_init 0))"
  using zero_count_never_ends [OF perf_start] by blast

theorem find_p_percentile_witness: "\<exists>r. find_p 50 [4, 1, 3, 2] = Inr r \<and> 2 \<le> length (filter (\<lambda>x. x \<le> r) [4, 1, 3, 2])"
  using find_p_percentile [of "[4, 1, 3, 2]" 50] by fastforce

theorem read_ulong_decimal_witness: "read_ulong (decimal 42) = 42"
  using read_ulong_decimal [of 42] by simp

theorem foreign_reply_overflows_witness:
  "\<exists>m. source_receive 3 m (source_init 3) = Inl OutOfBounds"
proof -
  obtain m where "getScalarField st_uint32 (Some (str_bytes ''id'')) m = Inr (Some (SU32 (word_of_nat 5)))"
      "getScalarField st_uint64 (Some (str_bytes ''timestamp'')) m = Inr (Some (SU64 0))"
    using sink_message [of "word_of_nat 5" 0 Message_new] by blast
  then have "answers (replicate 6 0) m 5" by (simp add: answers_def asks_def)
  then show ?thesis using foreign_reply_overflows [of "replicate 6 0" m 5 "source_init 3" 3] by (auto simp: source_init_def)
qed

end
