(* ===== verification/Bus.thy ===== *)
theory Bus
  imports Message_Listener_Correct Shm_Correct Router_Startup
begin

text \<open>
  The parts of the bus put together: lemmas on a program that sends one message after the
  other, on the router between two of its connections, and on clients of shared memory from the
  moment they connect. The theorems they serve are in the root theory.
\<close>

section \<open>Over TCP\<close>

text \<open>A program that sends messages in a row, with the status of each call.\<close>

fun send_all :: "message list \<Rightarrow> tcp_transport \<Rightarrow> (status list \<times> tcp_transport) outcome" where
  "send_all [] t = Inr ([], t)"
| "send_all (m # ms) t =
    bind_outcome (sendMessage m t) (\<lambda>(st, t).
    bind_outcome (send_all ms t) (\<lambda>(sts, t). Inr (st # sts, t)))"

text \<open>How the system may cut a stream of bytes into reads.\<close>

definition cut :: "byte list \<Rightarrow> byte list list \<Rightarrow> bool" where
  "cut bs cs \<longleftrightarrow> concat cs = bs \<and> (\<forall>c \<in> set cs. c \<noteq> [] \<and> length c \<le> 1500)"

lemma cut_bytewise: "cut bs (map (\<lambda>b. [b]) bs)"
  by (induction bs) (auto simp: cut_def)

text \<open>
  A client subscribes on its transport \<open>tr\<close>, another sends \<open>ms\<close> on \<open>t\<close>; the router reads the
  connection \<open>idB\<close> of the first and then the connection \<open>idA\<close> of the second, and what it has sent to
  the first arrives there. Every \<open>chop\<close> says how the system cuts a stream into reads, and \<open>b\<close> is the
  read buffer of the subscriber. The result has the statuses of the sends, the listener after
  subscribing and the subscriber's transport at the end.
\<close>

definition tcp_exchange ::
  "(byte list \<Rightarrow> byte list list) \<Rightarrow> (byte list \<Rightarrow> byte list list) \<Rightarrow> (byte list \<Rightarrow> byte list list) \<Rightarrow> (nat \<Rightarrow> byte) \<Rightarrow>
   (byte_storage \<Rightarrow> nat) \<Rightarrow> size_t \<Rightarrow> nat \<Rightarrow> nat \<Rightarrow> nat \<Rightarrow> byte list \<Rightarrow> message list \<Rightarrow> message_buffer \<Rightarrow>
   listener \<Rightarrow> tcp_transport \<Rightarrow> router \<Rightarrow> (status list \<times> listener \<times> tcp_transport) outcome" where
  "tcp_exchange chop1 chop2 chop3 a thrown ident tr idA idB subject ms b l t r =
    bind_outcome (subscribe ident tr subject l) (\<lambda>l1.
    bind_outcome (send_all ms t) (\<lambda>(sts, t1).
    let cs1 = chop1 (sk_sent (tt_peer (ml_transports l1 tr))); cs2 = chop2 (sk_sent (tt_peer t1))
    in bind_outcome (data_handler (length cs1 + 1) 2 idB (with_io idB (MessageBuffer_new a 4500) (map RecvData cs1) r)) (\<lambda>r1.
       bind_outcome (data_handler (length cs2 + 1) (length ms + 1) idA (with_io idA (MessageBuffer_new a 4500) (map RecvData cs2) r1)) (\<lambda>r2.
       bind_outcome (peer_of idB r2) (\<lambda>p.
       let cs3 = chop3 (sk_sent (tp_socket p))
       in bind_outcome (receive_loop thrown (length cs3 + 1) (length ms + 1) (on_stream b (map RecvData cs3) (ml_transports l1 tr))) (\<lambda>t2.
          Inr (sts, l1, t2)))))))"

lemma send_all_accepted:
  assumes "accepts t" "\<forall>m \<in> set ms. wf_message m \<and> length (wire_message m) \<le> capacity (m_sendBuffer t)"
  shows "\<exists>t'. send_all ms t = Inr (replicate (length ms) OK, t') \<and> sk_sent (tt_peer t') = sk_sent (tt_peer t) @ wires ms"
  using assms
proof (induction ms arbitrary: t)
  case (Cons m ms)
  have t: "m_connected (tt_peer t)" "sk_sends (tt_peer t) = []" "wf_buffer (m_sendBuffer t)"
    "m_storedLength (mb_storage (m_sendBuffer t)) = 0" "329 \<le> capacity (m_sendBuffer t)"
    using Cons.prems(1) by (auto simp: accepts_def)
  have vis: "visible (m_sendBuffer t) = []" using t(4) by (simp add: visible_def content_def)
  have room: "send_room m (m_sendBuffer t)" using t(3,4) Cons.prems(2) by (simp add: send_room_def)
  obtain b where b: "sendMessage m t = Inr (OK, t\<lparr>m_sendBuffer := b,
       tt_peer := (tt_peer t)\<lparr>sk_sent := sk_sent (tt_peer t) @ visible (m_sendBuffer t) @ wire_message m\<rparr>\<rparr>)"
    "wf_buffer b" "visible b = []" "capacity b = capacity (m_sendBuffer t)" "m_storedLength (mb_storage b) = 0"
    using sendMessage_accepted [OF t(1,2) _ room] Cons.prems(2) by auto
  let ?t = "t\<lparr>m_sendBuffer := b, tt_peer := (tt_peer t)\<lparr>sk_sent := sk_sent (tt_peer t) @ wire_message m\<rparr>\<rparr>"
  have "accepts ?t" using t b by (simp add: accepts_def)
  then obtain t' where "send_all ms ?t = Inr (replicate (length ms) OK, t')" "sk_sent (tt_peer t') = sk_sent (tt_peer ?t) @ wires ms"
    using Cons.IH [of ?t] Cons.prems(2) b(4) by auto
  then show ?case using b(1) vis by auto
qed simp

lemma router_passes_on:
  assumes "distinct (map tp_id r)" "this \<in> set (map tp_id r)" "list_all healthy r" "cut (wires ms) cs" "length (wires ms) \<le> 2 ^ 30"
    and "\<forall>m \<in> set ms. wf_message m \<and> \<not> m_is_admin (subject_new string_hash (subject_string m))" "ms \<noteq> []"
  shows "\<exists>b. data_handler (length cs + 1) (length ms + 1) this (with_io this (MessageBuffer_new a 4500) (map RecvData cs) r) =
      Inr (with_io this b [] (map (\<lambda>p. give (wanted ms p) p) r))"
  using data_handler_delivers [OF assms(1-3), of cs ms "length ms + 1" "length cs + 1" a] assms(4-7)
  by (auto simp: cut_def simp del: data_handler.simps)

text \<open>What a peer that had no subscription gets once it has subscribed.\<close>

definition matching :: "byte list \<Rightarrow> message list \<Rightarrow> message list" where
  "matching subject ms =
    filter (\<lambda>m. matches (subscription_new string_hash subject) (subject_new string_hash (subject_string m))) ms"

lemma healthy_kept [simp]: "healthy (io_peer b inc p) = healthy p" "healthy (add_subscription s p) = healthy p"
  by (simp_all add: healthy_def io_peer_def add_subscription_def)

lemma peer_of_map: "(\<And>p. tp_id (f p) = tp_id p) \<Longrightarrow> peer_of this r = Inr p \<Longrightarrow> peer_of this (map f r) = Inr (f p)"
  by (induction r) (auto simp: peer_of_def split: if_splits)

lemma peer_of_set_peer: "peer_of this r = Inr p \<Longrightarrow> tp_id p' = this \<Longrightarrow> peer_of this (set_peer p' r) = Inr p'"
  by (induction r) (auto simp: peer_of_def set_peer_def split: if_splits)

lemma set_peer_healthy: "list_all healthy r \<Longrightarrow> healthy p \<Longrightarrow> list_all healthy (set_peer p r)"
  by (auto simp: list_all_iff set_peer_def)

lemma with_io_kept:
  "map tp_id (with_io this b inc r) = map tp_id r" "list_all healthy (with_io this b inc r) = list_all healthy r"
  by (induction r) (simp_all add: with_io_def io_peer_def [of b inc] healthy_def)

lemma peer_of_with_io:
  assumes "peer_of this r = Inr p"
  shows "\<exists>p'. peer_of this (with_io that b inc r) = Inr p' \<and> sk_sent (tp_socket p') = sk_sent (tp_socket p)
    \<and> tp_subscriptions p' = tp_subscriptions p"
  using assms by (induction r) (auto simp: with_io_def peer_of_def io_peer_def split: if_splits)

lemma peer_of_healthy: "list_all healthy r \<Longrightarrow> peer_of this r = Inr p \<Longrightarrow> healthy p"
  by (induction r) (auto simp: peer_of_def split: if_splits)

text \<open>
  The router between the registration of one connection and the messages of another: what the
  first is sent is what matches its subscription.
\<close>

lemma router_between:
  assumes s: "nul_free subject" "length subject < 256"
    and r: "distinct (map tp_id r)" "list_all healthy r" "peer_of idB r = Inr pB" "idA \<in> set (map tp_id r)"
    and fresh: "tp_subscriptions pB = []" "sk_sent (tp_socket pB) = []"
    and ms: "ms \<noteq> []" "length (wires ms) \<le> 2 ^ 30"
      "\<forall>m \<in> set ms. wf_message m \<and> \<not> m_is_admin (subject_new string_hash (subject_string m))"
    and cuts: "cut (wire_message (register_message subject ident)) cs1" "cut (wires ms) cs2"
  shows "\<exists>r1 r2 p.
      data_handler (length cs1 + 1) 2 idB (with_io idB (MessageBuffer_new a 4500) (map RecvData cs1) r) = Inr r1
    \<and> data_handler (length cs2 + 1) (length ms + 1) idA (with_io idA (MessageBuffer_new a 4500) (map RecvData cs2) r1) = Inr r2
    \<and> peer_of idB r2 = Inr p \<and> sk_sent (tp_socket p) = wires (matching subject ms)"
proof -
  let ?p = "add_subscription (subject @ [0]) pB"
  obtain b1 where 1: "data_handler (length cs1 + 1) 2 idB (with_io idB (MessageBuffer_new a 4500) (map RecvData cs1) r)
      = Inr (with_io idB b1 [] (set_peer ?p r))"
    using router_handler_registers [OF s r(1,3), of cs1 ident a] cuts(1) by (auto simp: cut_def simp del: data_handler.simps)
  let ?r1 = "with_io idB b1 [] (set_peer ?p r)"
  have id: "tp_id ?p = idB" using peer_of_id [OF r(3)] by (simp add: add_subscription_def)
  have "map tp_id (set_peer ?p r) = map tp_id r" by (simp add: set_peer_def)
  moreover have "list_all healthy (set_peer ?p r)"
    using set_peer_healthy [OF r(2)] peer_of_healthy [OF r(2,3)] by simp
  ultimately have r1: "map tp_id ?r1 = map tp_id r" "list_all healthy ?r1" by (simp_all add: with_io_kept)
  obtain b2 where 2: "data_handler (length cs2 + 1) (length ms + 1) idA (with_io idA (MessageBuffer_new a 4500) (map RecvData cs2) ?r1)
      = Inr (with_io idA b2 [] (map (\<lambda>p. give (wanted ms p) p) ?r1))"
    using router_passes_on [of ?r1 idA ms cs2 a] r(1,4) r1 cuts(2) ms by (auto simp del: data_handler.simps)
  have "peer_of idB (set_peer ?p r) = Inr ?p" by (rule peer_of_set_peer [OF r(3) id])
  then obtain p1 where p1: "peer_of idB ?r1 = Inr p1" "sk_sent (tp_socket p1) = []"
    "tp_subscriptions p1 = [subscription_new string_hash subject]"
    using peer_of_with_io [of idB "set_peer ?p r" ?p idB b1 "[]"] fresh subscription_of_c_string [OF s(1), of string_hash]
    by (auto simp: add_subscription_def)
  have "peer_of idB (map (\<lambda>p. give (wanted ms p) p) ?r1) = Inr (give (wanted ms p1) p1)"
    by (rule peer_of_map [OF _ p1(1)]) simp
  then obtain p where p: "peer_of idB (with_io idA b2 [] (map (\<lambda>p. give (wanted ms p) p) ?r1)) = Inr p"
    "sk_sent (tp_socket p) = sk_sent (tp_socket (give (wanted ms p1) p1))"
    using peer_of_with_io by blast
  have "wanted ms p1 = wires (matching subject ms)"
    using p1(3) by (simp add: wanted_def matching_def is_interested_def)
  then have "sk_sent (tp_socket p) = wires (matching subject ms)"
    using p(2) p1(2) by (simp add: give_def)
  then show ?thesis using 1 2 p(1) by blast
qed

text \<open>The receiving client.\<close>

lemma matching_wires: "length (wires (matching subject ms)) \<le> length (wires ms)" "set (matching subject ms) \<subseteq> set ms"
  "length (matching subject ms) \<le> length ms"
  by (induction ms) (auto simp: matching_def le_SucI)

lemma client_gets:
  assumes "cut (wires (matching subject ms)) cs" "wf_buffer b" "capacity b \<le> 2 ^ 31" "visible b = []"
    and "length (wires ms) \<le> 2 ^ 30" "\<forall>m \<in> set ms. wf_message m"
  shows "\<exists>t'. receive_loop thrown (length cs + 1) (length ms + 1) (on_stream b (map RecvData cs) t) = Inr t'
    \<and> tt_delivered t' = tt_delivered t @ map delivered (matching subject ms)"
  using receive_loop_delivers [of cs b "matching subject ms" "[]" "length ms + 1" "length cs + 1" thrown t]
    assms matching_wires [of subject ms] demo_incomplete
  by (fastforce simp: cut_def simp del: receive_loop.simps)

section \<open>From the transport to the callbacks\<close>

text \<open>The messages of a transport are given to the listener one after the other; a queue is dispatched \<open>n\<close> times.\<close>

fun handle_all :: "nat \<Rightarrow> message list \<Rightarrow> listener \<Rightarrow> listener outcome" where
  "handle_all tr [] l = Inr l"
| "handle_all tr (m # ms) l = bind_outcome (handleMessage tr m l) (handle_all tr ms)"

fun dispatch_all :: "nat \<Rightarrow> nat \<Rightarrow> listener \<Rightarrow> listener outcome" where
  "dispatch_all 0 q l = Inr l"
| "dispatch_all (Suc n) q l = bind_outcome (dispatch_message q l) (\<lambda>(_, l). dispatch_all n q l)"

text \<open>The entries the messages make on a queue: for each message the observers it is addressed to.\<close>

definition entries :: "listener \<Rightarrow> nat list \<Rightarrow> message list \<Rightarrow> nat \<Rightarrow> (nat \<times> message) list" where
  "entries l ps ms q = concat (map (\<lambda>m. map (\<lambda>p. (p, m)) (addressed l m ps q)) ms)"

lemma entries_Cons [simp]:
  "entries l ps [] q = []" "entries l ps (m # ms) q = map (\<lambda>p. (p, m)) (addressed l m ps q) @ entries l ps ms q"
  by (simp_all add: entries_def)

lemma notify_observers_frame:
  "notify_observers msg ps l = Inr l' \<Longrightarrow> m_observers l' = m_observers l \<and> ml_called l' = ml_called l"
proof (induction ps arbitrary: l)
  case (Cons p ps)
  have "message_notify p msg l = Inr (ok, l1) \<Longrightarrow> m_observers l1 = m_observers l \<and> ml_called l1 = ml_called l" for ok l1
    by (auto simp: message_notify_def bind_outcome_Inr split_beta Let_def)
  then show ?case using Cons by (fastforce simp: bind_outcome_Inr split: if_splits)
qed simp

lemma handle_all_spec:
  assumes "map_of (m_observers l) tr = Some ps" "\<forall>p \<in> set ps. ml_heap l p \<noteq> None" "queues_ok l"
    and "\<forall>q. length (queued_messages l q) + length (entries l ps ms q) \<le> ml_qsize l - 1"
  shows "\<exists>l'. handle_all tr ms l = Inr l' \<and> queues_ok l' \<and> same_events l l' \<and> ml_called l' = ml_called l
    \<and> (\<forall>q. queued_messages l' q = queued_messages l q @ entries l ps ms q)"
  using assms
proof (induction ms arbitrary: l)
  case Nil
  then show ?case by (simp add: same_events_def)
next
  case (Cons m ms)
  have "length (queued_messages l q) + length (addressed l m ps q) \<le> ml_qsize l - 1" for q
    using Cons.prems(4) [rule_format, of q] by simp
  then obtain l1 where l1: "notify_observers m ps l = Inr l1" "queues_ok l1" "same_events l l1"
      "\<forall>q. queued_messages l1 q = queued_messages l q @ map (\<lambda>p. (p, m)) (addressed l m ps q)"
    using notify_observers_spec [OF Cons.prems(2,3)] by blast
  have fr: "m_observers l1 = m_observers l" "ml_called l1 = ml_called l" using notify_observers_frame [OF l1(1)] by auto
  have e: "entries l1 ps = entries l ps" using same_addressed [OF l1(3)] by (simp add: entries_def fun_eq_iff)
  have "\<exists>l'. handle_all tr ms l1 = Inr l' \<and> queues_ok l' \<and> same_events l1 l' \<and> ml_called l' = ml_called l1
      \<and> (\<forall>q. queued_messages l' q = queued_messages l1 q @ entries l1 ps ms q)"
  proof (rule Cons.IH)
    show "map_of (m_observers l1) tr = Some ps" "\<forall>p \<in> set ps. ml_heap l1 p \<noteq> None" "queues_ok l1"
      using Cons.prems(1,2) fr(1) l1(2,3) by (auto simp: same_events_def)
    show "\<forall>q. length (queued_messages l1 q) + length (entries l1 ps ms q) \<le> ml_qsize l1 - 1"
      using Cons.prems(4) l1(3,4) e by (auto simp: same_events_def add.assoc)
  qed
  then show ?case
    using l1(1,4) Cons.prems(1) fr(2) e same_events_trans [OF l1(3)] by (auto simp: handleMessage_def)
qed

lemma dispatch_all_spec:
  assumes "queues_ok l" "queued_messages l q = es" "\<forall>(p, m) \<in> set es. ml_heap l p \<noteq> None"
  shows "\<exists>l'. dispatch_all (length es) q l = Inr l' \<and> ml_called l' = ml_called l @ es \<and> queued_messages l' q = []"
  using assms
proof (induction es arbitrary: l)
  case (Cons e es)
  obtain p m where e: "e = (p, m)" by (cases e)
  let ?n = "ml_qsize l" and ?q = "ml_queues l q"
  have inv: "rb_inv ?n ?q" "rb_abs ?n ?q = (p, m) # es" using Cons.prems(1,2) e by (auto simp: queues_ok_def queued_messages_def)
  obtain q' where q': "rb_pop ?n ?q = (Some (p, m), q')" "rb_abs ?n q' = es" "rb_inv ?n q'"
    using rb.pop_cases [OF inv(1)] inv(2) by (metis list.inject list.distinct(1) fst_conv prod.inject)
  define l1 where "l1 = l\<lparr>ml_queues := (ml_queues l)(q := q'), ml_called := ml_called l @ [(p, m)]\<rparr>"
  have "ml_heap l p \<noteq> None" using Cons.prems(3) e by auto
  then have step: "dispatch_message q l = Inr (OK, l1)"
    using q'(1) by (auto simp: dispatch_message_def deref_me_def Let_def l1_def)
  have "queues_ok l1" "queued_messages l1 q = es" "\<forall>(p, m) \<in> set es. ml_heap l1 p \<noteq> None"
    using Cons.prems(1,3) q'(2,3) by (auto simp: queues_ok_def queued_messages_def l1_def)
  from Cons.IH [OF this] obtain l' where "dispatch_all (length es) q l1 = Inr l'" "ml_called l' = ml_called l1 @ es"
    "queued_messages l' q = []" by blast
  then show ?case using step e by (simp add: l1_def)
qed (simp add: queued_messages_def)

section \<open>Through shared memory\<close>

text \<open>
  A client starts and the router accepts it; \<open>stop\<close> is the value its uninitialised member has.
  Either side opens the queues that are not there yet.
\<close>

definition shm_joins :: "'q spsc_ops \<Rightarrow> bool \<Rightarrow> nat \<Rightarrow> int \<Rightarrow> 'q shm_router \<Rightarrow> shm_client \<times> 'q shm_router" where
  "shm_joins ops stop ident pid = (\<lambda>(seg, ps).
    let (seg, c) = SHMTransport_new ops stop True pid seg in (c, shm_peer_new ops ident pid (seg, ps)))"

lemma shm_joins_spec:
  assumes "qok (sq_new ops)" "cont (sq_new ops) = []" "sg_client seg pid = None" "sg_server seg pid = None"
  obtains c seg' where "shm_joins ops stop ident pid (seg, ps) =
      (c, (seg', ps @ [ShmPeer \<lparr>tp_id = ident, tp_subscriptions = [], sp_process_id = pid\<rparr>]))"
    "shm_valid c" "cl_pid c = pid" "cl_delivered c = []"
    "queue_holds qok cont (sg_client seg' pid) []" "queue_holds qok cont (sg_server seg' pid) []"
    "\<forall>other. other \<noteq> pid \<longrightarrow> sg_client seg' other = sg_client seg other \<and> sg_server seg' other = sg_server seg other"
proof -
  let ?c = "\<lparr>cl_pid = pid, cl_notifier = True, cl_connected = True, cl_shouldDisconnect = stop, cl_delivered = []\<rparr>"
  let ?seg = "seg\<lparr>sg_client := (sg_client seg)(pid \<mapsto> sq_new ops), sg_server := (sg_server seg)(pid \<mapsto> sq_new ops)\<rparr>"
  have "SHMTransport_new ops stop True pid seg = (?seg, ?c)"
    using assms(3,4) by (simp add: SHMTransport_new_def notifier_connect_def on_connect_def open_queue_def Let_def)
  then show thesis
    using that [of ?c ?seg] assms(1,2)
    by (simp add: shm_joins_def shm_peer_new_def open_queue_def shm_valid_def queue_holds_def)
qed

lemma two_clients_join:
  assumes q: "qok (sq_new ops)" "cont (sq_new ops) = []"
    and new: "pidA \<noteq> pidB" "\<forall>pid \<in> {pidA, pidB}. sg_client seg pid = None \<and> sg_server seg pid = None"
  obtains A seg1 B seg2 where
    "shm_joins ops stopA idA pidA (seg, []) = (A, (seg1, [ShmPeer \<lparr>tp_id = idA, tp_subscriptions = [], sp_process_id = pidA\<rparr>]))"
    "shm_valid A" "cl_pid A = pidA" "queue_holds qok cont (sg_client seg2 pidA) []" "queue_holds qok cont (sg_server seg2 pidA) []"
    "shm_joins ops stopB idB pidB (seg1, [ShmPeer \<lparr>tp_id = idA, tp_subscriptions = [], sp_process_id = pidA\<rparr>]) =
      (B, (seg2, [ShmPeer \<lparr>tp_id = idA, tp_subscriptions = [], sp_process_id = pidA\<rparr>,
                  ShmPeer \<lparr>tp_id = idB, tp_subscriptions = [], sp_process_id = pidB\<rparr>]))"
    "shm_valid B" "cl_pid B = pidB" "cl_delivered B = []"
    "queue_holds qok cont (sg_client seg2 pidB) []" "queue_holds qok cont (sg_server seg2 pidB) []"
proof -
  let ?pA = "ShmPeer \<lparr>tp_id = idA, tp_subscriptions = [], sp_process_id = pidA\<rparr>"
  obtain A seg1 where A: "shm_joins ops stopA idA pidA (seg, []) = (A, (seg1, [?pA]))"
      "shm_valid A" "cl_pid A = pidA" "queue_holds qok cont (sg_client seg1 pidA) []" "queue_holds qok cont (sg_server seg1 pidA) []"
      "\<forall>other. other \<noteq> pidA \<longrightarrow> sg_client seg1 other = sg_client seg other \<and> sg_server seg1 other = sg_server seg other"
    by (rule shm_joins_spec [where qok = qok and cont = cont and ops = ops and seg = seg and pid = pidA and ident = idA and ps = "[]", OF q])
      (use new(2) in simp_all)
  obtain B seg2 where B: "shm_joins ops stopB idB pidB (seg1, [?pA]) =
        (B, (seg2, [?pA, ShmPeer \<lparr>tp_id = idB, tp_subscriptions = [], sp_process_id = pidB\<rparr>]))"
      "shm_valid B" "cl_pid B = pidB" "cl_delivered B = []"
      "queue_holds qok cont (sg_client seg2 pidB) []" "queue_holds qok cont (sg_server seg2 pidB) []"
      "\<forall>other. other \<noteq> pidB \<longrightarrow> sg_client seg2 other = sg_client seg1 other \<and> sg_server seg2 other = sg_server seg1 other"
    by (rule shm_joins_spec [where qok = qok and cont = cont and ops = ops and seg = seg1 and pid = pidB and ident = idB and ps = "[?pA]", OF q])
      (use new A(6) in simp_all)
  show thesis by (rule that [OF A(1-3) _ _ B(1-6)]) (use A(4,5) B(7) new(1) in simp_all)
qed

text \<open>
  Two clients join; the second registers a subscription, the first sends a message; the router
  handles the notification of either, and the second client receives. The result has the statuses of
  the two sends and the client at the end.
\<close>

definition shm_exchange ::
  "'q spsc_ops \<Rightarrow> (nat \<Rightarrow> byte) \<Rightarrow> bool \<Rightarrow> bool \<Rightarrow> size_t \<Rightarrow> nat \<Rightarrow> nat \<Rightarrow> int \<Rightarrow> int \<Rightarrow> byte list \<Rightarrow> message \<Rightarrow>
   'q shm_segment \<Rightarrow> (status \<times> status \<times> shm_client) outcome" where
  "shm_exchange ops a stopA stopB ident idA idB pidA pidB subject m seg =
    (let (A, r) = shm_joins ops stopA idA pidA (seg, []); (B, seg, ps) = shm_joins ops stopB idB pidB r;
         pA = \<lparr>tp_id = idA, tp_subscriptions = [], sp_process_id = pidA\<rparr>; pB = \<lparr>tp_id = idB, tp_subscriptions = [], sp_process_id = pidB\<rparr>
     in bind_outcome (observer_message ''_FP.REGISTER.OBSERVER'' subject ident) (\<lambda>reg.
        bind_outcome (shm_sendMessage ops a True reg (seg, B)) (\<lambda>(st1, seg, B).
        bind_outcome (notificationHandler ops 2 True pB (seg, ps)) (\<lambda>(seg, ps).
        bind_outcome (shm_sendMessage ops a True m (seg, A)) (\<lambda>(st2, seg, A).
        bind_outcome (notificationHandler ops 2 True pA (seg, ps)) (\<lambda>(seg, ps).
        bind_outcome (shm_receive ops 2 (seg, B)) (\<lambda>(seg, B). Inr (st1, st2, B))))))))"

text \<open>The registration of one client over its queue.\<close>

lemma shm_registers:
  assumes q: "bounded_fifo qok cont cap (sq_push ops) (sq_pop ops)" "0 < cap"
    and s: "nul_free subject" "length subject < 256"
    and B: "shm_valid B" "queue_holds qok cont (sg_server seg (cl_pid B)) []" "sp_process_id this = cl_pid B"
    and f: "find (\<lambda>p. peer_id p = tp_id this) ps = Some (ShmPeer p)"
  obtains seg1 seg2 where "shm_sendMessage ops a True (register_message subject ident) (seg, B) = Inr (OK, (seg1, B))"
    "notificationHandler ops 2 True this (seg1, ps) = Inr (seg2, replace_peer (ShmPeer (add_subscription (subject @ [0]) p)) ps)"
    "sg_client seg2 = sg_client seg" "\<forall>pid. pid \<noteq> cl_pid B \<longrightarrow> sg_server seg2 pid = sg_server seg pid"
proof -
  let ?m = "register_message subject ident"
  have len: "length (wire_message ?m) \<le> 2048" using register_wire(2) [OF s, of ident] s(2) by simp
  have adm: "m_is_admin (subject_new string_hash (subject_string ?m))"
    unfolding register_subject [OF s] by code_simp
  have hdl: "handle_admin_message (subject_new string_hash (subject_string ?m)) (delivered ?m) p =
      Inr (add_subscription (subject @ [0]) p)"
    using register_received [OF s, of ident]
    by (simp add: register_subject [OF s] handle_admin_message_def RegisterObserver_def subject_equal_def)
  obtain c seg1 where 1: "shm_sendMessage ops a True ?m (seg, B) = Inr (OK, (seg1, B))" "holds_message c ?m"
      "sg_client seg1 = sg_client seg" "queue_holds qok cont (sg_server seg1 (cl_pid B)) [Some c]"
      "\<forall>pid. pid \<noteq> cl_pid B \<longrightarrow> sg_server seg1 pid = sg_server seg pid"
    by (rule shm_send_step [OF q register_wire(1) [OF s] len B(1,2)])
  obtain seg2 where 2: "notificationHandler ops 2 True this (seg1, ps) =
        Inr (seg2, replace_peer (ShmPeer (add_subscription (subject @ [0]) p)) ps)"
      "sg_client seg2 = sg_client seg1" "\<forall>pid. pid \<noteq> sp_process_id this \<longrightarrow> sg_server seg2 pid = sg_server seg1 pid"
    by (rule shm_admin_step [OF q(1) 1(2) register_wire(1) [OF s] adm _ f hdl, of seg1]) (use 1(4) B(3) in simp_all)
  show thesis by (rule that [OF 1(1) 2(1)]) (use 1(3,5) 2(2,3) B(3) in simp_all)
qed

definition empty_segment :: "'q shm_segment" where
  "empty_segment = \<lparr>sg_client = (\<lambda>_. None), sg_server = (\<lambda>_. None), sg_to_client = (\<lambda>_. 0), sg_to_router = (\<lambda>_. 0)\<rparr>"

end
