(* ===== verification/Kernel_Semaphore.thy ===== *)
theory Kernel_Semaphore
  imports Semaphore
begin

text \<open>
  The semaphore of the operating system under the lightweight one (\<^verbatim>\<open>utils/semaphore_light.h\<close>, the
  four classes \<^verbatim>\<open>Semaphore\<close>): Windows, Mach, an \<^verbatim>\<open>eventfd\<close>, where \<^verbatim>\<open>HAVE_EVENTFD\<close> is defined, and POSIX.
  The object is its number of tokens; what the system calls do with it is what their
  documentation says. Three of the four count, which is the interface \<open>counting_semaphore\<close>. The
  \<^verbatim>\<open>eventfd\<close> is opened without \<^verbatim>\<open>EFD_SEMAPHORE\<close>, so that one read takes every token. The lightweight
  semaphore is run on either, and the difference is one thread that may wait.
\<close>

section \<open>The four classes\<close>

datatype platform = Windows | Mach | EventFd | Posix

text \<open>The constructor asserts that the count is not negative.\<close>

definition Semaphore_new :: "int \<Rightarrow> nat outcome" where
  "Semaphore_new initialCount = (if initialCount \<ge> 0 then Inr (nat initialCount) else Inl AssertFailed)"

text \<open>\<^verbatim>\<open>WaitForSingleObject\<close>, \<^verbatim>\<open>semaphore_wait\<close>, \<^verbatim>\<open>read\<close> and \<^verbatim>\<open>sem_wait\<close>; \<open>None\<close> while the caller is blocked.\<close>

definition kernel_wait :: "platform \<Rightarrow> nat \<Rightarrow> nat option" where
  "kernel_wait os k = (if k = 0 then None else Some (if os = EventFd then 0 else k - 1))"

text \<open>
  The loop of the POSIX \<^verbatim>\<open>wait\<close>: a signal may interrupt \<^verbatim>\<open>sem_wait\<close>, which is then called again; the
  list says which of the calls are interrupted, none after its end.
\<close>

fun posix_wait :: "bool list \<Rightarrow> nat \<Rightarrow> nat option" where
  "posix_wait [] k = kernel_wait Posix k"
| "posix_wait (interrupted # later) k = (if interrupted then posix_wait later k else kernel_wait Posix k)"

text \<open>
  The signals: one \<^verbatim>\<open>ReleaseSemaphore\<close> of all, which does nothing when the count is not positive or
  would pass \<^verbatim>\<open>maxLong\<close>, or one post after the other.
\<close>

definition maxLong :: int where "maxLong = 0x7fffffff"

definition windows_signal :: "int \<Rightarrow> nat \<Rightarrow> nat" where
  "windows_signal count k = (if count > 0 \<and> int k + count \<le> maxLong then k + nat count else k)"

function kernel_signal :: "int \<Rightarrow> nat \<Rightarrow> nat" where
  "kernel_signal count k = (if count > 0 then kernel_signal (count - 1) (k + 1) else k)"
  by pat_completeness auto
termination by (relation "measure (\<lambda>(count, k). nat count)") auto

declare kernel_signal.simps [simp del]

section \<open>Waiting with a limit\<close>

text \<open>
  The time limit in nanoseconds as seconds and the rest; \<^verbatim>\<open>duration_cast\<close> truncates towards zero.
\<close>

definition trunc_div :: "int \<Rightarrow> int \<Rightarrow> int" where
  "trunc_div a b = (if a \<ge> 0 then a div b else - ((- a) div b))"

definition timeout_of :: "int \<Rightarrow> int \<times> int" where
  "timeout_of duration = (let tv_sec = trunc_div duration 1000000000 in (tv_sec, duration - tv_sec * 1000000000))"

text \<open>
  The wait itself, when nobody posts meanwhile: whether a token was taken, the tokens, and the
  time at which the call returns. \<^verbatim>\<open>semaphore_timedwait\<close> takes a span, \<^verbatim>\<open>sem_timedwait\<close> a point in time;
  the latter rejects a rest that is not one.
\<close>

definition mach_timed_wait :: "int \<Rightarrow> int \<Rightarrow> nat \<Rightarrow> bool \<times> nat \<times> int" where
  "mach_timed_wait now duration k =
    (let (sec, nsec) = timeout_of duration
     in if k > 0 then (True, k - 1, now) else (False, k, now + max 0 (sec * 1000000000 + nsec)))"

definition posix_timed_wait :: "int \<Rightarrow> int \<Rightarrow> nat \<Rightarrow> bool \<times> nat \<times> int" where
  "posix_timed_wait now duration k =
    (let (sec, nsec) = timeout_of duration
     in if k > 0 then (True, k - 1, now)
        else if nsec < 0 then (False, k, now)
        else (False, k, max now (sec * 1000000000 + nsec)))"

lemma timeout_of_sum: "fst (timeout_of duration) * 1000000000 + snd (timeout_of duration) = duration"
  by (simp add: timeout_of_def Let_def)

text \<open>
  The POSIX wait with a limit does not wait: the limit is taken for a date in 1970, which has
  passed, whereas the Mach one returns when the limit is over.
\<close>

theorem posix_timed_wait_returns_at_once:
  assumes "0 \<le> duration" "duration \<le> now"
  shows "posix_timed_wait now duration 0 = (False, 0, now)" "mach_timed_wait now duration 0 = (False, 0, now + duration)"
proof -
  obtain sec nsec where t: "timeout_of duration = (sec, nsec)" by (cases "timeout_of duration")
  then have "sec * 1000000000 + nsec = duration" using timeout_of_sum [of duration] by simp
  then show "posix_timed_wait now duration 0 = (False, 0, now)" "mach_timed_wait now duration 0 = (False, 0, now + duration)"
    using assms by (auto simp: posix_timed_wait_def mach_timed_wait_def t)
qed

section \<open>The counting interface\<close>

locale counting_semaphore =
  fixes ks_wait :: "nat \<Rightarrow> nat option" and ks_signal :: "int \<Rightarrow> nat \<Rightarrow> nat"
  assumes wait_blocks: "ks_wait 0 = None"
    and wait_takes_one: "ks_wait (Suc k) = Some k"
    and signal_adds: "0 \<le> count \<Longrightarrow> int k + count \<le> maxLong \<Longrightarrow> ks_signal count k = k + nat count"
begin

fun served :: "nat \<Rightarrow> nat \<Rightarrow> nat option" where
  "served 0 k = Some k"
| "served (Suc n) k = (case ks_wait k of None \<Rightarrow> None | Some k' \<Rightarrow> served n k')"

text \<open>A signal of \<open>n\<close> lets exactly \<open>n\<close> waiting threads through.\<close>

lemma served_eq: "served n k = (if n \<le> k then Some (k - n) else None)"
proof (induction n arbitrary: k)
  case (Suc n)
  then show ?case by (cases k) (simp_all add: wait_blocks wait_takes_one)
qed simp

lemma signal_serves: "int n \<le> maxLong \<Longrightarrow> served n (ks_signal (int n) 0) = Some 0 \<and> served (Suc n) (ks_signal (int n) 0) = None"
  by (simp only: signal_adds [of "int n" 0] served_eq) simp

end

lemma kernel_signal_eq: "kernel_signal count k = k + nat count"
  by (induction count k rule: kernel_signal.induct) (subst kernel_signal.simps, auto)

lemma posix_wait_eq: "posix_wait interrupts k = kernel_wait Posix k"
  by (induction interrupts k rule: posix_wait.induct) auto

interpretation windows: counting_semaphore "kernel_wait Windows" windows_signal
  by unfold_locales (auto simp: kernel_wait_def windows_signal_def)

interpretation mach: counting_semaphore "kernel_wait Mach" kernel_signal
  by unfold_locales (auto simp: kernel_wait_def kernel_signal_eq)

interpretation posix: counting_semaphore "posix_wait interrupts" kernel_signal for interrupts
  by unfold_locales (auto simp: posix_wait_eq kernel_wait_def kernel_signal_eq)

section \<open>The lightweight semaphore on each of them\<close>

text \<open>Only the step of a sleeping thread is the system's; the other steps are those of the class.\<close>

definition sema_next_on :: "platform \<Rightarrow> bool \<Rightarrow> nat \<Rightarrow> sema \<Rightarrow> sema option" where
  "sema_next_on os spurious i s =
    (case points s ! i of
       Sleep mx \<Rightarrow>
         (case kernel_wait os (tokens s) of
            None \<Rightarrow> None
          | Some k \<Rightarrow> Some (goto i (rest_of mx) (s\<lparr>tokens := k, acquired := acquired s + 1\<rparr>)))
     | _ \<Rightarrow> sema_next spurious i s)"

text \<open>The interleavings in which only the threads of \<open>waiters\<close> wait.\<close>

inductive sema_reach_on :: "platform \<Rightarrow> nat set \<Rightarrow> nat \<Rightarrow> nat \<Rightarrow> sema \<Rightarrow> bool" for os waiters initialCount n where
  new: "sema_reach_on os waiters initialCount n (sema_new initialCount n)"
| wait: "sema_reach_on os waiters initialCount n s \<Longrightarrow> i < n \<Longrightarrow> i \<in> waiters \<Longrightarrow> points s ! i = Outside \<Longrightarrow>
    sema_reach_on os waiters initialCount n (start_wait i block mx s)"
| signal: "sema_reach_on os waiters initialCount n s \<Longrightarrow> i < n \<Longrightarrow> points s ! i = Outside \<Longrightarrow>
    sema_reach_on os waiters initialCount n (signal i count s)"
| step: "sema_reach_on os waiters initialCount n s \<Longrightarrow> i < n \<Longrightarrow> sema_next_on os spurious i s = Some t \<Longrightarrow>
    sema_reach_on os waiters initialCount n t"

text \<open>Where the system counts, this is the semaphore of the previous theory.\<close>

lemma sema_next_counting:
  assumes "os \<noteq> EventFd \<or> tokens s \<le> 1"
  shows "sema_next_on os spurious i s = sema_next spurious i s"
  using assms by (auto simp: sema_next_on_def sema_next_def kernel_wait_def split: point.split)

lemma sema_reach_counting:
  "sema_reach_on os waiters c n s \<Longrightarrow> os \<noteq> EventFd \<Longrightarrow> sema_reach c n s"
  by (induction rule: sema_reach_on.induct) (auto intro: sema_reach.intros simp: sema_next_counting)

section \<open>One waiting thread on an eventfd\<close>

fun only_posts :: "point \<Rightarrow> bool" where
  "only_posts Outside = True" | "only_posts (Post r) = True" | "only_posts _ = False"

lemma only_posts_next:
  "only_posts (points s ! i) \<Longrightarrow> sema_next_on os spurious i s = Some t \<Longrightarrow> i < length (points s) \<Longrightarrow> only_posts (points t ! i)"
  by (auto simp: sema_next_on_def sema_next_def goto_def elim!: only_posts.elims split: nat.splits)

lemma next_frame:
  "sema_next_on os spurious i s = Some t \<Longrightarrow> \<exists>p. points t = (points s)[i := p]"
  by (auto simp: sema_next_on_def sema_next_def goto_def Let_def split: point.splits option.splits if_splits nat.splits)

lemma single_sleeper:
  assumes "\<forall>i < length ps. i \<noteq> w \<longrightarrow> only_posts (ps ! i)"
  shows "sum_list (map sleeping ps) \<le> 1"
proof -
  have none: "sum_list (map sleeping qs) = 0" if "list_all only_posts qs" for qs
    using that by (induction qs) (auto elim: only_posts.elims)
  show ?thesis
  proof (cases "w < length ps")
    case True
    have "list_all only_posts (take w ps)" "list_all only_posts (drop (Suc w) ps)"
      using assms True by (auto simp: list_all_length)
    then have "sum_list (map sleeping (take w ps)) = 0" "sum_list (map sleeping (drop (Suc w) ps)) = 0"
      by (simp_all only: none)
    moreover have "sleeping (ps ! w) \<le> 1" by (cases "ps ! w") simp_all
    ultimately show ?thesis by (subst id_take_nth_drop [OF True]) (simp del: sum_list_eq_0_iff)
  next
    case False
    then have "list_all only_posts ps" using assms by (auto simp: list_all_length)
    then show ?thesis by (simp only: none)
  qed
qed

lemma signalled_next_on: "sema_next_on os spurious i s = Some t \<Longrightarrow> signalled t = signalled s"
  by (auto simp: sema_next_on_def dest: signalled_next split: point.splits option.splits)

lemma eventfd_like_counting:
  assumes "sema_reach_on os {w} c n s" "in_range n s"
  shows "sema_reach c n s \<and> (\<forall>i < n. i \<noteq> w \<longrightarrow> only_posts (points s ! i))"
  using assms
proof (induction rule: sema_reach_on.induct)
  case new
  then show ?case by (auto simp: sema_new_def intro: sema_reach.new [unfolded sema_new_def])
next
  case (wait s i block mx)
  have "in_range n s" using wait.prems by (simp add: in_range_def)
  then show ?case using wait
    by (auto simp: start_wait_def goto_def nth_list_update intro: sema_reach.wait [unfolded start_wait_def goto_def])
next
  case (signal s i count)
  have "in_range n s" using signal.prems by (simp add: in_range_def)
  then have IH: "sema_reach c n s" "\<forall>j < n. j \<noteq> w \<longrightarrow> only_posts (points s ! j)" using signal.IH by blast+
  have "\<forall>j < n. j \<noteq> w \<longrightarrow> only_posts (points (signal i count s) ! j)"
    using IH(2) sema_reach_length [OF IH(1)] signal.hyps(2) by (auto simp: signal_def Let_def goto_def nth_list_update)
  then show ?case using IH(1) signal.hyps(2,3) by (auto intro: sema_reach.signal)
next
  case (step s i spurious t)
  have rng: "in_range n s" using step.prems by (simp add: in_range_def signalled_next_on [OF step.hyps(3)])
  then have IH: "sema_reach c n s" "\<forall>j < n. j \<noteq> w \<longrightarrow> only_posts (points s ! j)" using step.IH by blast+
  have len: "length (points s) = n" by (rule sema_reach_length [OF IH(1)])
  have "sleepers s \<le> 1" unfolding sleepers_def using IH(2) len by (intro single_sleeper [where w = w]) simp
  then have "tokens s \<le> 1" using sema_reach_inv [OF IH(1) rng] by (auto simp: sema_inv_def)
  then have "sema_next spurious i s = Some t" using step.hyps(3) by (simp add: sema_next_counting)
  moreover have "only_posts (points t ! j)" if "j < n" "j \<noteq> w" for j
  proof (cases "j = i")
    case True
    then show ?thesis using only_posts_next [OF _ step.hyps(3)] IH(2) that len by blast
  next
    case False
    obtain p where "points t = (points s)[i := p]" using next_frame [OF step.hyps(3)] by blast
    then show ?thesis using False IH(2) that by simp
  qed
  ultimately show ?case using IH(1) step.hyps(2) by (auto intro: sema_reach.step)
qed

section \<open>Two waiting threads\<close>

text \<open>A thread that finds no permit goes through the spinning loop to sleep.\<close>

lemma spin_to_sleep_on:
  assumes "sema_reach_on os W c n s" "i < n" "length (points s) = n" "points s ! i = Spin mx k" "m_count s \<le> 0" "- (2 ^ 63) < m_count s"
  shows "sema_reach_on os W c n (goto i (Sleep mx) (s\<lparr>m_count := m_count s - 1\<rparr>))"
  using assms
proof (induction k arbitrary: s)
  case 0
  then show ?case using sema_reach_on.step [OF 0(1,2), of False] by (simp add: sema_next_on_def sema_next_def Let_def wrap_ssize_id)
next
  case (Suc k)
  have "sema_reach_on os W c n (goto i (Spin mx k) s)"
    using sema_reach_on.step [OF Suc.prems(1,2), of False] Suc.prems(4,5) by (simp add: sema_next_on_def sema_next_def)
  then show ?case using Suc.IH [of "goto i (Spin mx k) s"] Suc.prems by (simp add: goto_def)
qed

lemma falls_asleep:
  assumes "sema_reach_on os W c n s" "i < n" "i \<in> W" "length (points s) = n" "points s ! i = Outside" "m_count s \<le> 0" "0 < mx" "- (2 ^ 63) < m_count s"
  shows "sema_reach_on os W c n (goto i (Sleep mx) (s\<lparr>m_count := m_count s - 1\<rparr>))"
proof -
  have "sema_reach_on os W c n (start_wait i True mx s)" using assms by (auto intro: sema_reach_on.wait)
  moreover have "points (start_wait i True mx s) ! i = Try True mx" "m_count (start_wait i True mx s) \<le> 0"
    using assms by (simp_all add: start_wait_def goto_def)
  then have "sema_next_on os False i (start_wait i True mx s) = Some (goto i (Spin mx spin_count) (start_wait i True mx s))"
    using assms(7) by (simp add: sema_next_on_def sema_next_def try_with_def give_up_def)
  ultimately have "sema_reach_on os W c n (goto i (Spin mx spin_count) (start_wait i True mx s))"
    using assms(2) by (blast intro: sema_reach_on.step)
  from spin_to_sleep_on [OF this assms(2), of mx spin_count] show ?thesis
    using assms by (simp add: start_wait_def goto_def)
qed

text \<open>
  C18 A wake-up is lost: two threads sleep, a third signals two permits, and the first to wake reads
  both tokens. The second sleeps with a permit put in that nobody acquired, and since the count
  is no longer negative no signal of any size will post a token for it.
\<close>

theorem eventfd_loses_wakeup:
  "\<exists>s. sema_reach_on EventFd {0, 1} 0 3 s \<and> points s = [Outside, Sleep 1, Outside]
    \<and> acquired s = 1 \<and> signalled s = 2 \<and> sema_next_on EventFd spurious 1 s = None
    \<and> (\<forall>count. points (signal 2 count s) = points s \<and> sema_next_on EventFd spurious 1 (signal 2 count s) = None)"
proof -
  let ?R = "sema_reach_on EventFd {0, 1} 0 3"
  let ?s = "\<lambda>c k ps a g. \<lparr>m_count = c, tokens = k, points = ps, acquired = a, signalled = g\<rparr>"
  have "?R (?s 0 0 [Outside, Outside, Outside] 0 0)"
    using sema_reach_on.new [of EventFd "{0, 1}" 0 3] by (simp add: sema_new_def numeral_3_eq_3)
  from falls_asleep [OF this, of 0 1] have "?R (?s (-1) 0 [Sleep 1, Outside, Outside] 0 0)" by (simp add: goto_def)
  from falls_asleep [OF this, of 1 1] have "?R (?s (-2) 0 [Sleep 1, Sleep 1, Outside] 0 0)" by (simp add: goto_def)
  from sema_reach_on.signal [OF this, of 2 2] have "?R (?s 0 0 [Sleep 1, Sleep 1, Post 2] 0 2)"
    by (simp add: signal_def goto_def wrap_ssize_def cast_int_def numeral_2_eq_2)
  from sema_reach_on.step [OF this, of 2 False] have "?R (?s 0 1 [Sleep 1, Sleep 1, Post 1] 0 2)"
    by (simp add: sema_next_on_def sema_next_def goto_def numeral_2_eq_2)
  from sema_reach_on.step [OF this, of 2 False] have "?R (?s 0 2 [Sleep 1, Sleep 1, Post 0] 0 2)"
    by (simp add: sema_next_on_def sema_next_def goto_def numeral_2_eq_2)
  from sema_reach_on.step [OF this, of 2 False] have "?R (?s 0 2 [Sleep 1, Sleep 1, Outside] 0 2)"
    by (simp add: sema_next_on_def sema_next_def goto_def numeral_2_eq_2)
  from sema_reach_on.step [OF this, of 0 False] have "?R (?s 0 0 [Outside, Sleep 1, Outside] 1 2)"
    by (simp add: sema_next_on_def kernel_wait_def rest_of_def goto_def)
  then show ?thesis
    by (intro exI [of _ "?s 0 0 [Outside, Sleep 1, Outside] 1 2"])
      (simp add: sema_next_on_def kernel_wait_def signal_def wrap_ssize_def goto_def numeral_2_eq_2)
qed

text \<open>
  C19 With one thread that waits and any number below \<open>2 ^ 31\<close> that signal, as the
  blocking ring buffer has it, the semaphore on an \<^verbatim>\<open>eventfd\<close> is the
  counting one as long as fewer than \<open>2 ^ 63\<close> permits were put in: it reaches only
  states the counting one reaches, so that permits are conserved.
\<close>

theorem eventfd_single_waiter:
  assumes "sema_reach_on EventFd {w} initialCount n s" "n < 2 ^ 31" "signalled s < 2 ^ 63"
  shows "sema_reach initialCount n s
    \<and> int (signalled s) = int (acquired s) + availableApprox s + int (tokens s) + int (posts s)"
proof -
  have rng: "in_range n s" using assms(2,3) by (simp add: in_range_def)
  then have r: "sema_reach initialCount n s" using eventfd_like_counting [OF assms(1)] by blast
  show ?thesis using r sema_reach_inv [OF r rng] by (auto simp: sema_inv_def availableApprox_def)
qed

theorem eventfd_single_waiter_witness:
  "sema_reach 0 1 (goto 0 (Sleep 1) (sema_new 0 1\<lparr>m_count := -1\<rparr>))"
proof -
  have "sema_reach_on EventFd {0} 0 1 (goto 0 (Sleep 1) (sema_new 0 1\<lparr>m_count := -1\<rparr>))"
    using falls_asleep [OF sema_reach_on.new [of EventFd "{0}" 0 1], of 0 1] by (simp add: sema_new_def)
  from eventfd_single_waiter [OF this] show ?thesis by (simp add: sema_new_def)
qed

theorem posix_timed_wait_returns_at_once_witness:
  "posix_timed_wait 1700000000000000000 2500000000 0 = (False, 0, 1700000000000000000)
    \<and> mach_timed_wait 1700000000000000000 2500000000 0 = (False, 0, 1700000002500000000)"
  using posix_timed_wait_returns_at_once [of 2500000000 1700000000000000000] by simp

end
