(* ===== verification/Printing.thy ===== *)
theory Printing
  imports Programs Framing Router
begin

text \<open>
  What the program writes about its data: the dump of a storage and of a buffer (\<^verbatim>\<open>operator<<\<close> of
  \<^verbatim>\<open>ByteStorage.h\<close> and \<^verbatim>\<open>MessageBuffer.h\<close>), the text of fields and messages (the methods \<^verbatim>\<open>output\<close> under
  \<^verbatim>\<open>messages/\<close>) and the tool \<^verbatim>\<open>fplisten\<close>, which logs the messages it receives. The stream is the text
  written to it; it starts with the default format, and every operation that depends on a format
  sets it.
\<close>

section \<open>Dumps\<close>

definition hex_digit :: "nat \<Rightarrow> char" where
  "hex_digit n = (if n < 10 then char_of (48 + n) else char_of (87 + n))"

text \<open>\<^verbatim>\<open>setw(2) << hex\<close> of a byte, \<^verbatim>\<open>setw(5)\<close> of an index, both filled with zeros.\<close>

definition hex_byte :: "byte \<Rightarrow> string" where
  "hex_byte b = [hex_digit (unat b div 16), hex_digit (unat b mod 16)]"

definition zero_fill :: "nat \<Rightarrow> string \<Rightarrow> string" where
  "zero_fill w s = replicate (w - length s) (CHR ''0'') @ s"

definition byte_char :: "byte \<Rightarrow> char" where
  "byte_char b = (if unat b < 32 \<or> unat b > 127 then CHR ''.'' else char_of (unat b))"

definition newline :: char where "newline = CHR 0x0A"

definition default_block :: nat where "default_block = 8"

text \<open>One line of the loop: the bytes from index \<open>i\<close> on, \<^verbatim>\<open>inc\<close> of them in \<open>output\<close>.\<close>

definition dump_row :: "nat \<Rightarrow> byte list \<Rightarrow> string" where
  "dump_row i output =
    zero_fill 5 (decimal i) @ ''   ''
    @ concat (map (\<lambda>j. if j < length output then hex_byte (output ! j) @ '' '' else ''   '') [0..<default_block])
    @ ''        ''
    @ concat (map (\<lambda>j. if j < length output then byte_char (output ! j) # '' '' else ''  '') [0..<default_block])
    @ [newline]"

function dump_rows :: "nat \<Rightarrow> byte list \<Rightarrow> string" where
  "dump_rows i data =
    (if data = [] then [] else dump_row i (take default_block data) @ dump_rows (i + default_block) (drop default_block data))"
  by pat_completeness auto
termination by (relation "measure (\<lambda>(i, data). length data)") (auto simp: default_block_def)

declare dump_rows.simps [simp del]

definition storage_text :: "byte_storage \<Rightarrow> string" where
  "storage_text s =
    ''[length: '' @ decimal (m_storedLength s) @ '' capacity: '' @ decimal (m_capacity s) @ '']: '' @ [newline]
    @ dump_rows 0 (content s) @ [newline]"

text \<open>\<^verbatim>\<open>MessageBuffer::bytes\<close> asserts that the start index is not past the end.\<close>

definition buffer_text :: "message_buffer \<Rightarrow> string outcome" where
  "buffer_text b =
    (let s = mb_storage b; start = m_startIndex b
     in bind_outcome (assert_that (start \<le> m_storedLength s)) (\<lambda>_.
        Inr (''[start_index: '' @ decimal start @ '' length: '' @ decimal (m_storedLength s - start)
             @ '' capacity: '' @ decimal (m_capacity s - start) @ '']: '' @ [newline]
             @ dump_rows 0 (drop start (content s)) @ [newline])))"

section \<open>Fields and messages\<close>

text \<open>\<^verbatim>\<open>StorageTypeDescription\<close> has sixteen entries; a type from the wire may be past them.\<close>

definition StorageTypeDescription :: "string list" where
  "StorageTypeDescription =
    [''unknown'', ''string'', ''date_time'', ''boolean'', ''uint8'', ''uint16'', ''uint32'', ''uint64'',
     ''int8'', ''int16'', ''int32'', ''int64'', ''float32'', ''float64'', ''data'', ''message'']"

definition type_name :: "storage_type \<Rightarrow> string outcome" where
  "type_name t = (let n = unat (type_code t) in if n < 16 then Inr (StorageTypeDescription ! n) else Inl OutOfBounds)"

definition text_of :: "byte list \<Rightarrow> string" where
  "text_of bs = map (\<lambda>b. char_of (unat b)) bs"

definition int_text :: "int \<Rightarrow> string" where
  "int_text i = (if i < 0 then CHR ''-'' # decimal (nat (- i)) else decimal (nat i))"

text \<open>
  \<^verbatim>\<open>fixed\<close> with a precision: the number \<open>mant * 2 ^ ex\<close> rounded to the nearest multiple of the last
  digit shown, halfway cases to the even one.
\<close>

definition round_even :: "nat \<Rightarrow> nat \<Rightarrow> nat" where
  "round_even n d =
    (let q = n div d; r = n mod d in if 2 * r < d \<or> (2 * r = d \<and> even q) then q else q + 1)"

definition fixed_text :: "nat \<Rightarrow> bool \<Rightarrow> nat \<Rightarrow> int \<Rightarrow> string" where
  "fixed_text precision negative mant ex =
    (let q = round_even (mant * 10 ^ precision * 2 ^ nat ex) (2 ^ nat (- ex))
     in (if negative then ''-'' else '''') @ decimal (q div 10 ^ precision) @ ''.''
        @ zero_fill precision (decimal (q mod 10 ^ precision)))"

text \<open>An IEEE number of \<open>eb\<close> bits of exponent and \<open>mb\<close> of mantissa.\<close>

definition float_text :: "nat \<Rightarrow> nat \<Rightarrow> nat \<Rightarrow> nat \<Rightarrow> string" where
  "float_text precision eb mb bits =
    (let m = bits mod 2 ^ mb; e = bits div 2 ^ mb mod 2 ^ eb; negative = odd (bits div 2 ^ (mb + eb))
     in if e = 2 ^ eb - 1 then (if negative then ''-'' else '''') @ (if m = 0 then ''inf'' else ''nan'')
        else fixed_text precision negative (if e = 0 then m else m + 2 ^ mb)
               (int (max e 1) - int (2 ^ (eb - 1) - 1) - int mb))"

text \<open>Numbers of one byte are characters to a stream.\<close>

fun scalar_text :: "scalar \<Rightarrow> string" where
  "scalar_text (SBool b) = (if b then ''true'' else ''false'')"
| "scalar_text (SU8 w) = [char_of (unat w)]"
| "scalar_text (SU16 w) = decimal (unat w)"
| "scalar_text (SU32 w) = decimal (unat w)"
| "scalar_text (SU64 w) = decimal (unat w)"
| "scalar_text (SI8 w) = [char_of (unat w)]"
| "scalar_text (SI16 w) = int_text (sint w)"
| "scalar_text (SI32 w) = int_text (sint w)"
| "scalar_text (SI64 w) = int_text (sint w)"
| "scalar_text (SF32 w) = float_text 7 8 23 (unat w)"
| "scalar_text (SF64 w) = float_text 16 11 52 (unat w)"

text \<open>
  \<^verbatim>\<open>std::string(data, size - 1)\<close>: for an empty block the length wraps around, and the constructor
  throws \<^verbatim>\<open>length_error\<close>.
\<close>

definition sized_string :: "byte list \<Rightarrow> nat \<Rightarrow> string outcome" where
  "sized_string data len = (if len = 0 then Inl (FpException ''basic_string'') else Inr (text_of (take (len - 1) data)))"

definition ScalarField_output :: "field_header \<Rightarrow> byte list \<Rightarrow> string outcome" where
  "ScalarField_output h raw =
    bind_outcome (type_name (f_type h)) (\<lambda>ty.
    Inr (text_of (f_identifier h) @ '':'' @ ty @ ''=''
      @ (case scalar_of_bits (f_type h) (le_value (take (type_size (f_type h)) raw)) of Some v \<Rightarrow> scalar_text v | None \<Rightarrow> [])))"

definition SmallDataField_output :: "field_header \<Rightarrow> byte list \<Rightarrow> string outcome" where
  "SmallDataField_output h storage =
    bind_outcome (type_name (f_type h)) (\<lambda>ty.
    bind_outcome
      (case f_type h of
         st_string \<Rightarrow> sized_string storage (f_data_length h)
       | st_data \<Rightarrow> Inr (''[data of '' @ decimal (f_data_length h) @ '' bytes]'')
       | _ \<Rightarrow> Inr []) (\<lambda>v.
    Inr (text_of (f_identifier h) @ '':'' @ ty @ ''='' @ v)))"

definition LargeDataField_output :: "field_header \<Rightarrow> byte list \<Rightarrow> string outcome" where
  "LargeDataField_output h storage =
    (case f_type h of
       st_string \<Rightarrow>
         bind_outcome (sized_string storage (length storage)) (\<lambda>v. Inr (text_of (f_identifier h) @ '':string='' @ v))
     | st_data \<Rightarrow> Inr (text_of (f_identifier h) @ '':opaque='' @ ''[data of '' @ decimal (length storage) @ '' bytes]'')
     | _ \<Rightarrow> Inr [])"

definition DateTimeField_output :: "field_header \<Rightarrow> size_t \<Rightarrow> size_t \<Rightarrow> string" where
  "DateTimeField_output h secs micros =
    text_of (f_identifier h) @ '':date_time='' @ int_text (sint secs) @ ''s '' @ int_text (sint micros) @ ''us''"

text \<open>The virtual call, with \<^verbatim>\<open>MessageField::output\<close>, \<^verbatim>\<open>BaseMessage::output\<close> and \<^verbatim>\<open>Message::output\<close>.\<close>

fun field_text :: "field \<Rightarrow> string outcome"
  and payload_text :: "bool \<Rightarrow> field list \<Rightarrow> string outcome"
  and message_text :: "message \<Rightarrow> string outcome" where
  "field_text (ScalarField h raw) = ScalarField_output h raw"
| "field_text (SmallDataField h storage) = SmallDataField_output h storage"
| "field_text (LargeDataField h storage) = LargeDataField_output h storage"
| "field_text (DateTimeField h secs micros) = Inr (DateTimeField_output h secs micros)"
| "field_text (MessageField h m) =
    bind_outcome (type_name (f_type h)) (\<lambda>ty.
    bind_outcome (message_text m) (\<lambda>v. Inr (text_of (f_identifier h) @ '':'' @ ty @ ''='' @ v)))"
| "payload_text first [] = Inr []"
| "payload_text first (f # fs) =
    bind_outcome (field_text f) (\<lambda>v.
    bind_outcome (payload_text False fs) (\<lambda>vs. Inr ((if first then '''' else '', '') @ ''{'' @ v @ ''}'' @ vs)))"
| "message_text (Message addressed flags subject payload keys) =
    bind_outcome (payload_text True payload) (\<lambda>v.
    Inr ((if addressed then (if c_string subject = [] then ''<no subject>'' else text_of (c_string subject)) @ ''='' else '''') @ v))"

section \<open>fplisten\<close>

text \<open>The callback: \<^verbatim>\<open>INFO_LOG(*msg)\<close> in a \<^verbatim>\<open>noexcept\<close> function; the line it logs, if the level lets it.\<close>

definition listen_callback :: "level \<Rightarrow> message \<Rightarrow> string list outcome" where
  "listen_callback cur msg =
    (if logs cur LogInfo then noexcept (bind_outcome (message_text msg) (\<lambda>line. Inr [line])) else Inr [])"

definition fplisten_options :: "option_spec list" where
  "fplisten_options =
    [opt ''help'' False False (CHR ''h''), opt ''loglevel'' False True (CHR ''l''), opt ''url'' True True (CHR ''u''),
     opt ''subject'' True True (CHR ''s'')]"

fun listen_all :: "level \<Rightarrow> message list \<Rightarrow> string list outcome" where
  "listen_all cur [] = Inr []"
| "listen_all cur (m # ms) =
    bind_outcome (listen_callback cur m) (\<lambda>l. bind_outcome (listen_all cur ms) (\<lambda>ls. Inr (l @ ls)))"

text \<open>
  The main function: \<open>received\<close> are the messages that arrive on a transport for a subject before the
  signal that ends the loop. The result is the exit code and the lines logged for them.
\<close>

definition fplisten_main ::
  "(transport_kind \<times> url \<Rightarrow> string \<Rightarrow> message list) \<Rightarrow> string list \<Rightarrow> (int \<times> string list) outcome" where
  "fplisten_main received argv =
    (case parse argv (fold register_option fplisten_options options_new) of
       (Some _, _) \<Rightarrow> Inr (1, [])
     | (None, os) \<Rightarrow>
         (case chosen_level os of
            None \<Rightarrow> Inr (1, [])
          | Some lvl \<Rightarrow>
              let subject = (case get_arg ''subject'' 0 os of None \<Rightarrow> [] | Some s \<Rightarrow> s)
              in case make_realm_connection (getWithDefault ''url'' [] 0 os) of
                   Inl (FpException _) \<Rightarrow> Inr (1, [])
                 | Inl e \<Rightarrow> Inl e
                 | Inr transport \<Rightarrow> bind_outcome (listen_all lvl (received transport subject)) (\<lambda>ls. Inr (0, ls))))"

section \<open>A dump shows its bytes\<close>

text \<open>What a reader makes of a dump: of each line after the first the hexadecimal column.\<close>

definition hex_value :: "char \<Rightarrow> nat" where
  "hex_value c = (let n = of_char c in if n < (58 :: nat) then n - 48 else n - 87)"

fun read_hex :: "nat \<Rightarrow> string \<Rightarrow> byte list" where
  "read_hex (Suc n) (a # b # c # rest) =
    (if a = CHR '' '' then [] else word_of_nat (16 * hex_value a + hex_value b) # read_hex n rest)"
| "read_hex _ _ = []"

definition read_row :: "string \<Rightarrow> byte list" where
  "read_row line = read_hex default_block (drop 3 (dropWhile is_digit line))"

definition line_rest :: "string \<Rightarrow> string" where
  "line_rest s = drop 1 (dropWhile (\<lambda>c. c \<noteq> newline) s)"

function read_rows :: "string \<Rightarrow> byte list" where
  "read_rows s =
    (if s = [] \<or> hd s = newline then [] else read_row (takeWhile (\<lambda>c. c \<noteq> newline) s) @ read_rows (line_rest s))"
  by pat_completeness auto
termination
proof (relation "measure length")
  fix s :: string assume "\<not> (s = [] \<or> hd s = newline)"
  then show "(line_rest s, s) \<in> measure length"
    using length_dropWhile_le [of "\<lambda>c. c \<noteq> newline" "tl s"] by (cases s) (auto simp: line_rest_def)
qed simp

declare read_rows.simps [simp del]

definition read_dump :: "string \<Rightarrow> byte list" where
  "read_dump s = read_rows (line_rest s)"

lemma hex_digit_facts:
  assumes "n < 16"
  shows "hex_value (hex_digit n) = n" "hex_digit n \<noteq> CHR '' ''" "hex_digit n \<noteq> newline"
proof -
  have c: "of_char (hex_digit n) = (if n < 10 then 48 + n else 87 + n)" using assms by (simp add: hex_digit_def)
  then show "hex_value (hex_digit n) = n" using assms by (simp add: hex_value_def Let_def)
  show "hex_digit n \<noteq> CHR '' ''" "hex_digit n \<noteq> newline"
    using c by (auto simp: newline_def split: if_splits)
qed

lemma hex_byte_facts:
  "hex_byte b = [x, y] \<Longrightarrow> x \<noteq> CHR '' '' \<and> word_of_nat (16 * hex_value x + hex_value y) = b"
  "newline \<notin> set (hex_byte b)" "length (hex_byte b) = 2"
proof -
  have "unat b < 256" using unsigned_less [of b, where 'a = nat] by simp
  then have n: "unat b div 16 < 16" "unat b mod 16 < 16" by simp_all
  show "newline \<notin> set (hex_byte b)" "length (hex_byte b) = 2"
    using hex_digit_facts(3) [symmetric] n by (auto simp: hex_byte_def)
  assume "hex_byte b = [x, y]"
  then have "x \<noteq> CHR '' ''" "16 * hex_value x + hex_value y = unat b"
    using hex_digit_facts(1,2) n by (auto simp: hex_byte_def)
  then show "x \<noteq> CHR '' '' \<and> word_of_nat (16 * hex_value x + hex_value y) = b" by simp
qed

lemma byte_char_line: "byte_char b \<noteq> newline"
proof -
  have "unat b < 256" using unsigned_less [of b, where 'a = nat] by simp
  then have "of_char (byte_char b) = (if unat b < 32 \<or> unat b > 127 then 46 else unat b)" by (simp add: byte_char_def)
  then show ?thesis by (auto simp: newline_def split: if_splits)
qed

text \<open>The column of hexadecimal numbers, counted from position \<open>k\<close>.\<close>

definition hex_column :: "byte list \<Rightarrow> nat \<Rightarrow> string" where
  "hex_column output n = concat (map (\<lambda>j. if j < length output then hex_byte (output ! j) @ '' '' else ''   '') [0..<n])"

lemma upt_from_0: "[0..<Suc n] = 0 # map Suc [0..<n]"
  by (simp add: map_Suc_upt upt_conv_Cons)

lemma hex_column_simps:
  "hex_column (b # bs) (Suc n) = hex_byte b @ CHR '' '' # hex_column bs n" "hex_column [] (Suc n) = ''   '' @ hex_column [] n"
  unfolding hex_column_def upt_from_0 by (simp_all add: o_def cong: if_cong)

lemma read_hex_column: "length bs \<le> n \<Longrightarrow> read_hex n (hex_column bs n @ '' '' @ rest) = bs"
proof (induction bs arbitrary: n)
  case Nil
  show ?case by (cases n) (simp_all add: hex_column_simps)
next
  case (Cons b bs)
  then obtain k where k: "n = Suc k" "length bs \<le> k" by (cases n) auto
  obtain x y where "hex_byte b = [x, y]" by (simp add: hex_byte_def)
  then show ?case using hex_byte_facts(1) [of b x y] Cons.IH [OF k(2)] k(1) by (simp add: hex_column_simps)
qed

lemma dump_row_split:
  obtains body where "dump_row i output = body @ [newline]" "newline \<notin> set body" "body \<noteq> []" "hd body \<noteq> newline"
    "length output \<le> default_block \<Longrightarrow> read_row body = output"
proof -
  let ?digits = "zero_fill 5 (decimal i)"
  let ?chars = "concat (map (\<lambda>j. if j < length output then byte_char (output ! j) # '' '' else ''  '') [0..<default_block])"
  let ?body = "?digits @ ''   '' @ hex_column output default_block @ ''        '' @ ?chars"
  have dig: "is_digit c" if "c \<in> set ?digits" for c
    using that decimal_digits [of c i] by (auto simp: zero_fill_def is_digit_def)
  have nl: "\<not> is_digit newline" "\<not> is_digit (CHR '' '')" "newline \<noteq> CHR '' ''" by (simp_all add: is_digit_def newline_def)
  have "newline \<notin> set (hex_column output default_block)" "newline \<notin> set ?chars"
    using hex_byte_facts(2) byte_char_line [symmetric] nl(3) by (auto simp: hex_column_def)
  then have "newline \<notin> set ?body" using dig nl by auto
  moreover have "?digits \<noteq> []" by (simp add: zero_fill_def decimal_neq_Nil)
  moreover from this have "hd ?body \<noteq> newline" using dig nl(1) by (cases ?digits) auto
  moreover have "dropWhile is_digit ?body = ''   '' @ hex_column output default_block @ ''        '' @ ?chars"
    using dig nl(2) by (subst dropWhile_append2) auto
  then have "read_row ?body = output" if "length output \<le> default_block"
    using read_hex_column [OF that, of "''       '' @ ?chars"] by (simp add: read_row_def)
  ultimately show thesis using that [of ?body] by (simp add: dump_row_def hex_column_def)
qed

lemma line_split: "newline \<notin> set body \<Longrightarrow> takeWhile (\<lambda>c. c \<noteq> newline) (body @ newline # rest) = body"
  "newline \<notin> set body \<Longrightarrow> line_rest (body @ newline # rest) = rest"
  by (induction body) (auto simp: line_rest_def)

lemma read_dump_rows: "read_rows (dump_rows i data @ [newline]) = data"
proof (induction i data rule: dump_rows.induct)
  case (1 i data)
  show ?case
  proof (cases "data = []")
    case True
    then show ?thesis by (simp add: dump_rows.simps read_rows.simps)
  next
    case False
    obtain body where body: "dump_row i (take default_block data) = body @ [newline]" "newline \<notin> set body" "body \<noteq> []"
      "hd body \<noteq> newline" "read_row body = take default_block data"
      by (rule dump_row_split [of i "take default_block data"]) simp
    let ?rest = "dump_rows (i + default_block) (drop default_block data) @ [newline]"
    have whole: "dump_rows i data @ [newline] = body @ newline # ?rest"
      using False body(1) by (subst dump_rows.simps) simp
    have "read_rows (body @ newline # ?rest) = read_row body @ read_rows ?rest"
      using body(2-4) line_split by (subst read_rows.simps) simp
    then show ?thesis using 1 False body(5) whole by simp
  qed
qed

lemma text_no_newline: "newline \<notin> set (decimal n)"
  using decimal_digits [of newline n] by (auto simp: is_digit_def newline_def)

lemma read_dump_header: "newline \<notin> set h \<Longrightarrow> read_dump (h @ newline # dump_rows 0 data @ [newline]) = data"
  by (simp add: read_dump_def line_split read_dump_rows)

text \<open>
  C32 Dumps are faithful: the bytes of a storage can be read off its dump, all of them and in order,
  whatever they are; and the bytes of a buffer that have not been consumed off the dump of the
  buffer, whose start index must lie within what is stored.
\<close>

theorem dump_shows_bytes:
  "read_dump (storage_text s) = content s
    \<and> (m_startIndex b \<le> m_storedLength (mb_storage b) \<longrightarrow>
        (\<exists>text. buffer_text b = Inr text \<and> read_dump text = drop (m_startIndex b) (content (mb_storage b))))"
proof -
  have "read_dump (storage_text s) = content s"
    using read_dump_header [of "''[length: '' @ decimal (m_storedLength s) @ '' capacity: '' @ decimal (m_capacity s) @ '']: ''" "content s"]
      text_no_newline by (simp add: storage_text_def newline_def)
  moreover have "\<exists>text. buffer_text b = Inr text \<and> read_dump text = drop (m_startIndex b) (content (mb_storage b))"
    if "m_startIndex b \<le> m_storedLength (mb_storage b)"
    using that text_no_newline
      read_dump_header [of "''[start_index: '' @ decimal (m_startIndex b) @ '' length: '' @ decimal (m_storedLength (mb_storage b) - m_startIndex b)
        @ '' capacity: '' @ decimal (m_capacity (mb_storage b) - m_startIndex b) @ '']: ''" "drop (m_startIndex b) (content (mb_storage b))"]
    by (simp add: buffer_text_def newline_def Let_def)
  ultimately show ?thesis by blast
qed

theorem dump_shows_bytes_witness:
  "\<exists>text. buffer_text ((MessageBuffer_new (\<lambda>_. 0) 16)\<lparr>mb_storage := append_bytes [7, 200, 13] (ByteStorage_alloc (\<lambda>_. 0) 16), m_startIndex := 1\<rparr>) = Inr text
    \<and> read_dump text = [200, 13]"
proof -
  let ?s = "append_bytes [7, 200, 13] (ByteStorage_alloc (\<lambda>_. 0) 16)"
  have "content ?s = [7, 200, 13]" "m_storedLength ?s = 3" by code_simp+
  then show ?thesis
    using dump_shows_bytes [of ?s "(MessageBuffer_new (\<lambda>_. 0) 16)\<lparr>mb_storage := ?s, m_startIndex := 1\<rparr>"] by simp
qed

section \<open>What can be printed\<close>

text \<open>
  The format allows two kinds of fields that cannot: a string without even the NUL, and a number
  of a type past the end of the table of names. The problem of a message is that of its first
  such field, fields of nested messages included.
\<close>

datatype problem = EmptyString | UnknownType

fun field_problem :: "field \<Rightarrow> problem option"
  and payload_problem :: "field list \<Rightarrow> problem option"
  and message_problem :: "message \<Rightarrow> problem option" where
  "field_problem (ScalarField h raw) = (if unat (type_code (f_type h)) < 16 then None else Some UnknownType)"
| "field_problem (SmallDataField h d) = (if f_type h = st_string \<and> f_data_length h = 0 then Some EmptyString else None)"
| "field_problem (LargeDataField h d) = (if f_type h = st_string \<and> d = [] then Some EmptyString else None)"
| "field_problem (DateTimeField h a b) = None"
| "field_problem (MessageField h m) = message_problem m"
| "payload_problem [] = None"
| "payload_problem (f # fs) = (case field_problem f of None \<Rightarrow> payload_problem fs | Some p \<Rightarrow> Some p)"
| "message_problem (Message a fl sub pay keys) = payload_problem pay"

text \<open>The text, or what goes wrong instead.\<close>

fun fault_of :: "problem \<Rightarrow> fault" where
  "fault_of EmptyString = FpException ''basic_string''" | "fault_of UnknownType = OutOfBounds"

definition text_or_problem :: "problem option \<Rightarrow> string outcome \<Rightarrow> bool" where
  "text_or_problem p r \<longleftrightarrow> (case p of None \<Rightarrow> \<exists>v. r = Inr v | Some e \<Rightarrow> r = Inl (fault_of e))"

lemma text_or_problem_bind:
  assumes "text_or_problem p1 r" "\<And>v. text_or_problem p2 (f v)"
  shows "text_or_problem (case p1 of None \<Rightarrow> p2 | Some p \<Rightarrow> Some p) (bind_outcome r f)"
  using assms by (auto simp: text_or_problem_def split: option.splits)

lemma text_or_problem_map: "text_or_problem p r \<Longrightarrow> text_or_problem p (bind_outcome r (\<lambda>v. Inr (f v)))"
  by (auto simp: text_or_problem_def split: option.splits)

lemma m_payload_fold: "m_payload (fold push_field fs m) = m_payload m @ fs"
  by (induction fs arbitrary: m) (auto simp: push_field_def split: message.split)

lemma message_text_payload: "text_or_problem p (payload_text True (m_payload m)) \<Longrightarrow> text_or_problem p (message_text m)"
  by (cases m) (simp add: text_or_problem_map)

lemma text_of_received:
  "wf_field f \<Longrightarrow> text_or_problem (field_problem f) (field_text (received_field f))"
  "wf_payload fs \<Longrightarrow> text_or_problem (payload_problem fs) (payload_text first (received_payload fs))"
  "wf_base m \<Longrightarrow> text_or_problem (message_problem m) (message_text (received_base m))"
proof (induction f and fs and m arbitrary: and first rule: received_field_received_payload_received_base.induct
    [case_names message scalar small large pointer none some_field base])
  case (message h m)
  then show ?case by (simp add: type_name_def StorageTypeDescription_def text_or_problem_map)
next
  case (scalar h raw)
  then show ?case by (auto simp: ScalarField_output_def type_name_def text_or_problem_def Let_def)
next
  case (small h d)
  then show ?case by (auto simp: SmallDataField_output_def type_name_def text_or_problem_def Let_def sized_string_def)
next
  case (large h d)
  then show ?case by (auto simp: LargeDataField_output_def text_or_problem_def sized_string_def max_small_size_def)
next
  case (pointer h a b)
  then show ?case by (simp add: text_or_problem_def)
next
  case none
  then show ?case by (simp add: text_or_problem_def)
next
  case (some_field f fs)
  have "text_or_problem (field_problem f) (field_text (received_field f))"
    "text_or_problem (payload_problem fs) (payload_text False (received_payload fs))"
    using some_field by simp_all
  then show ?case by (simp add: text_or_problem_bind text_or_problem_map)
next
  case (base a fl sub pay keys)
  then show ?case by (simp add: message_text_payload m_payload_fold Message_new_def)
qed

lemma delivered_text:
  assumes "wf_message m"
  shows "text_or_problem (message_problem m) (message_text (delivered m))"
proof -
  have "wf_payload (m_payload m)" using assms by (cases m) (simp add: wf_message_def)
  then have "text_or_problem (payload_problem (m_payload m)) (message_text (delivered m))"
    using text_of_received(2) [of "m_payload m" True]
    by (intro message_text_payload) (simp add: delivered_def m_payload_fold Message_new_def)
  moreover have "payload_problem (m_payload m) = message_problem m" by (cases m) simp
  ultimately show ?thesis by simp
qed

text \<open>
  C40 What the listener does with a message that was encoded and decoded: at a level above INFO, the
  default among them, it prints nothing and goes on, whatever the message. At INFO or below it
  prints one line when every field can be printed. Otherwise the first field that cannot decides: an
  empty string ends the program, since the exception leaves a \<^verbatim>\<open>noexcept\<close>
  function, and a number of an unknown type reads past the table of names.
\<close>

theorem listener_prints_printable:
  assumes "wf_message m"
  shows "if logs cur LogInfo
    then (case message_problem m of
            None \<Rightarrow> \<exists>line. listen_callback cur (delivered m) = Inr [line]
          | Some EmptyString \<Rightarrow> listen_callback cur (delivered m) = Inl Terminate
          | Some UnknownType \<Rightarrow> listen_callback cur (delivered m) = Inl OutOfBounds)
    else listen_callback cur (delivered m) = Inr []"
  using delivered_text [OF assms]
  by (auto simp: text_or_problem_def listen_callback_def noexcept_def split: option.splits problem.splits)

text \<open>Two messages that are accepted from the wire and end the listener.\<close>

definition bare_message :: "field list \<Rightarrow> message" where
  "bare_message pay = Message True 0 (str_bytes ''A'' @ [0]) pay []"

definition empty_string_message :: message where
  "empty_string_message = bare_message [SmallDataField \<lparr>f_identifier = str_bytes ''s'', f_type = st_string, f_data_length = 0\<rparr> []]"

lemma empty_string_message_ok: "wf_message empty_string_message"
proof -
  have sub: "subject_string empty_string_message = str_bytes ''A''"
    by (simp add: empty_string_message_def bare_message_def subject_string_def str_bytes_def c_string_def)
  have "length (wire_message empty_string_message) < 100"
    using sub by (simp add: length_wire_message MsgAddressing_size_def str_bytes_def empty_string_message_def bare_message_def wire_leaf_def)
  then show ?thesis
    using sub by (simp add: wf_message_def empty_string_message_def bare_message_def wf_header_def max_small_size_def str_bytes_def)
qed

theorem listener_prints_printable_witness:
  "(\<exists>line. listen_callback LogInfo (delivered demo_message) = Inr [line])
    \<and> listen_callback LogInfo (delivered empty_string_message) = Inl Terminate
    \<and> listen_callback LogWarning (delivered empty_string_message) = Inr []"
proof -
  have l: "logs LogInfo LogInfo" "\<not> logs LogWarning LogInfo" by (simp_all add: logs_def)
  have "message_problem demo_message = None" "message_problem empty_string_message = Some EmptyString"
    by (simp_all add: demo_message_def empty_string_message_def bare_message_def)
  then show ?thesis
    using listener_prints_printable [OF demo_wf, of LogInfo] listener_prints_printable [OF empty_string_message_ok, of LogInfo]
      listener_prints_printable [OF empty_string_message_ok, of LogWarning] l by simp
qed

text \<open>The listener logs one line per message, in the order they arrive, and none at its default level.\<close>

theorem listen_logs_in_order:
  assumes "logs cur LogInfo" "\<forall>m \<in> set ms. wf_message m \<and> message_problem m = None"
  shows "\<exists>ls. listen_all cur (map delivered ms) = Inr ls \<and> map Inr ls = map (\<lambda>m. message_text (delivered m)) ms"
  using assms(2)
proof (induction ms)
  case (Cons m ms)
  obtain l where l: "message_text (delivered m) = Inr l"
    using delivered_text [of m] Cons.prems by (auto simp: text_or_problem_def)
  then show ?case using Cons assms(1) by (auto simp: listen_callback_def noexcept_def)
qed simp

theorem listen_silent_by_default: "listen_all LogWarning ms = Inr []"
  by (induction ms) (simp_all add: listen_callback_def logs_def)

end
