(* ===== verification/Event_Sources.thy ===== *)
theory Event_Sources
  imports Events
begin

text \<open>
  Where events come from: the timer and signal descriptors that \<^verbatim>\<open>TimerEvent.cpp\<close> and \<^verbatim>\<open>SignalEvent.cpp\<close> open on
  Linux, and what \<^verbatim>\<open>Session.cpp\<close> does to the signal masks and the cores of its thread. The descriptors,
  the masks and the pending signals are the kernel's, with the behaviour the manual pages of
  \<^verbatim>\<open>timerfd_create\<close>, \<^verbatim>\<open>signalfd\<close>, \<^verbatim>\<open>sigprocmask\<close> and \<^verbatim>\<open>kill\<close> give them. Times are in nanoseconds.
\<close>

section \<open>Timers\<close>

text \<open>An armed timer knows since when, its period and how many expirations have been read.\<close>

datatype timerfd = Disarmed | Armed int int nat

definition expirations :: "int \<Rightarrow> timerfd \<Rightarrow> nat" where
  "expirations now t = (case t of Disarmed \<Rightarrow> 0 | Armed since period seen \<Rightarrow> nat ((now - since) div period) - seen)"

text \<open>
  \<^verbatim>\<open>timerfd_settime\<close> with the same value and interval: an invalid one is rejected, zero disarms. A
  \<^verbatim>\<open>read\<close> takes the expirations there are, and fails when there are none.
\<close>

definition timerfd_settime :: "int \<Rightarrow> int \<times> int \<Rightarrow> timerfd option" where
  "timerfd_settime now = (\<lambda>(tv_sec, tv_nsec).
    if tv_sec < 0 \<or> tv_nsec < 0 \<or> tv_nsec \<ge> 1000000000 then None
    else if tv_sec = 0 \<and> tv_nsec = 0 then Some Disarmed
    else Some (Armed now (tv_sec * 1000000000 + tv_nsec) 0))"

definition timerfd_read :: "int \<Rightarrow> timerfd \<Rightarrow> timerfd" where
  "timerfd_read now t =
    (case t of Disarmed \<Rightarrow> Disarmed | Armed since period seen \<Rightarrow> Armed since period (seen + expirations now t))"

type_synonym timers = "int \<rightharpoonup> timerfd"

text \<open>
  The constructor; \<open>ident\<close> is the descriptor \<^verbatim>\<open>timerfd_create\<close> returns. What it has opened stays when it throws.
\<close>

definition TimerEvent_ctor :: "int \<Rightarrow> int \<Rightarrow> int \<Rightarrow> timers \<Rightarrow> event_kind outcome \<times> timers" where
  "TimerEvent_ctor now ident timeout k =
    (if ident = -1 then (Inl (FpException ''Failed to timerfd_create: ''), k)
     else let k = k(ident \<mapsto> Disarmed)
          in case timerfd_settime now (timespec_of timeout) of
               None \<Rightarrow> (Inl (FpException ''Failed to create timer: ''), k)
             | Some t \<Rightarrow> (Inr (TimerEvent ident timeout), k(ident \<mapsto> t)))"

text \<open>\<^verbatim>\<open>reset\<close> is \<^verbatim>\<open>noexcept\<close>, so that its exception ends the program.\<close>

definition TimerEvent_reset :: "int \<Rightarrow> int \<Rightarrow> int \<Rightarrow> timers \<Rightarrow> timers outcome" where
  "TimerEvent_reset now ident timeout k =
    (case timerfd_settime now (timespec_of timeout) of None \<Rightarrow> Inl Terminate | Some t \<Rightarrow> Inr (k(ident \<mapsto> t)))"

text \<open>The part of \<^verbatim>\<open>__notify\<close> that reads the descriptor, and the destructor, which does nothing.\<close>

definition TimerEvent_acknowledge :: "int \<Rightarrow> int \<Rightarrow> timers \<Rightarrow> timers" where
  "TimerEvent_acknowledge now ident k = (case k ident of None \<Rightarrow> k | Some t \<Rightarrow> k(ident \<mapsto> timerfd_read now t))"

definition TimerEvent_destroy :: "event_kind \<Rightarrow> timers \<Rightarrow> timers" where
  "TimerEvent_destroy e k = k"

lemma timespec_nonneg:
  assumes "0 \<le> timeout"
  shows "0 \<le> fst (timespec_of timeout)" "0 \<le> snd (timespec_of timeout)" "snd (timespec_of timeout) < 1000000000"
    "fst (timespec_of timeout) * 1000000000 + snd (timespec_of timeout) = timeout * 1000"
proof -
  have "timeout * 1000 - timeout div 1000000 * 1000000000 = timeout mod 1000000 * 1000"
    using div_mult_mod_eq [of timeout 1000000] by linarith
  then show "0 \<le> fst (timespec_of timeout)" "0 \<le> snd (timespec_of timeout)" "snd (timespec_of timeout) < 1000000000"
    "fst (timespec_of timeout) * 1000000000 + snd (timespec_of timeout) = timeout * 1000"
    using assms pos_mod_bound [of 1000000 timeout] by (auto simp: timespec_of_def Let_def)
qed

lemma settime_positive:
  assumes "0 < timeout"
  shows "timerfd_settime now (timespec_of timeout) = Some (Armed now (timeout * 1000) 0)"
proof -
  obtain s n where t: "timespec_of timeout = (s, n)" by (cases "timespec_of timeout")
  have "0 \<le> s" "0 \<le> n" "n < 1000000000" "s * 1000000000 + n = timeout * 1000"
    using timespec_nonneg [of timeout] assms t by simp_all
  moreover from this have "\<not> (s = 0 \<and> n = 0)" using assms by linarith
  ultimately show ?thesis by (simp add: timerfd_settime_def t)
qed

text \<open>
  A timer event fires once per period: registered at \<open>start\<close> it has expired, at any later time, as
  often as its timeout fits in between, and after a notification at \<open>t1\<close> only those are left that
  came since. With a timeout of zero it never fires, and a negative one is refused with an
  exception that leaves the descriptor open.
\<close>

theorem timer_fires_once_per_period:
  assumes "ident \<noteq> -1" "0 < timeout" "start \<le> t1" "t1 \<le> t2"
  shows "\<exists>k'. TimerEvent_ctor start ident timeout k = (Inr (TimerEvent ident timeout), k')
    \<and> expirations t1 (the (k' ident)) = nat ((t1 - start) div (timeout * 1000))
    \<and> expirations t2 (the (TimerEvent_acknowledge t1 ident k' ident)) =
        nat ((t2 - start) div (timeout * 1000)) - nat ((t1 - start) div (timeout * 1000))"
  using assms settime_positive [OF assms(2), of start]
  by (simp add: TimerEvent_ctor_def TimerEvent_acknowledge_def timerfd_read_def expirations_def Let_def)

theorem timer_of_zero_never_fires:
  assumes "ident \<noteq> -1"
  shows "\<exists>k'. TimerEvent_ctor start ident 0 k = (Inr (TimerEvent ident 0), k') \<and> expirations now (the (k' ident)) = 0"
  using assms by (simp add: TimerEvent_ctor_def timerfd_settime_def timespec_of_def expirations_def)

theorem negative_timeout_refused:
  assumes "ident \<noteq> -1" "timeout < 0"
  shows "TimerEvent_ctor start ident timeout k = (Inl (FpException ''Failed to create timer: ''), k(ident \<mapsto> Disarmed))"
    "TimerEvent_reset start ident timeout k = Inl Terminate"
proof -
  define q where "q = (- timeout) div 1000000"
  have "0 \<le> q" "- timeout = q * 1000000 + (- timeout) mod 1000000" "0 \<le> (- timeout) mod 1000000"
    using assms(2) div_mult_mod_eq [of "- timeout" 1000000] by (simp_all add: q_def pos_imp_zdiv_nonneg_iff)
  moreover have "timespec_of timeout = (- q, timeout * 1000 + q * 1000000000)"
    using assms(2) by (simp add: timespec_of_def q_def)
  ultimately have "timerfd_settime start (timespec_of timeout) = None"
    using assms(2) by (auto simp: timerfd_settime_def)
  then show "TimerEvent_ctor start ident timeout k = (Inl (FpException ''Failed to create timer: ''), k(ident \<mapsto> Disarmed))"
    "TimerEvent_reset start ident timeout k = Inl Terminate"
    using assms(1) by (simp_all add: TimerEvent_ctor_def TimerEvent_reset_def Let_def)
qed

text \<open>
  Timers leak: a program that registers and removes one timer after the other holds a descriptor
  for each of them, since the class has no destructor and nothing else closes it.
\<close>

fun timers_one_by_one :: "int \<Rightarrow> int list \<Rightarrow> int \<Rightarrow> timers \<Rightarrow> timers" where
  "timers_one_by_one now [] timeout k = k"
| "timers_one_by_one now (ident # idents) timeout k =
    (case TimerEvent_ctor now ident timeout k of
       (Inl e, k) \<Rightarrow> k
     | (Inr e, k) \<Rightarrow> timers_one_by_one now idents timeout (TimerEvent_destroy e k))"

theorem timers_leak:
  assumes "0 < timeout" "-1 \<notin> set idents"
  shows "dom (timers_one_by_one now idents timeout k) = dom k \<union> set idents"
  using assms(2)
proof (induction idents arbitrary: k)
  case (Cons ident idents)
  have "ident \<noteq> -1" "-1 \<notin> set idents" using Cons.prems by auto
  then have "timers_one_by_one now (ident # idents) timeout k =
      timers_one_by_one now idents timeout (k(ident \<mapsto> Armed now (timeout * 1000) 0))"
    using settime_positive [OF assms(1), of now] by (simp add: TimerEvent_ctor_def TimerEvent_destroy_def)
  then show ?case using Cons.IH [OF \<open>-1 \<notin> set idents\<close>] by auto
qed simp

section \<open>Signals\<close>

text \<open>The signals each thread blocks, the signals the descriptors take, and those pending.\<close>

record signals =
  sg_masks :: "int set list"
  sg_fds :: "int \<rightharpoonup> int set"
  sg_pending :: "int set"

text \<open>
  The constructor on thread \<open>i\<close>: \<^verbatim>\<open>signalfd\<close> answers \<open>fd\<close>, and the two calls both change the mask of
  the calling thread, which is all \<^verbatim>\<open>sigprocmask\<close> does.
\<close>

definition SignalEvent_ctor :: "nat \<Rightarrow> int \<Rightarrow> int \<Rightarrow> signals \<Rightarrow> (event_kind \<times> signals) outcome" where
  "SignalEvent_ctor i fd signo k =
    (if fd = -1 then Inl (FpException ''Failed to timerfd_create: '')
     else Inr (SignalEvent fd signo,
       k\<lparr>sg_fds := (sg_fds k)(fd \<mapsto> {signo}), sg_masks := (sg_masks k)[i := insert signo (sg_masks k ! i)]\<rparr>))"

text \<open>
  \<^verbatim>\<open>Session::start\<close> on thread \<open>i\<close>: every signal is blocked, and the thread of the event loop inherits
  that. Starting a thread on its own copies the mask.
\<close>

definition start_thread :: "nat \<Rightarrow> signals \<Rightarrow> signals" where
  "start_thread i k = k\<lparr>sg_masks := sg_masks k @ [sg_masks k ! i]\<rparr>"

definition session_start_signals :: "nat \<Rightarrow> signals \<Rightarrow> signals" where
  "session_start_signals i k = start_thread i (k\<lparr>sg_masks := (sg_masks k)[i := UNIV]\<rparr>)"

text \<open>
  A signal for the process: \<open>None\<close> when a thread does not block it, which ends the program; otherwise
  it waits for a descriptor.
\<close>

definition raise_signal :: "int \<Rightarrow> signals \<Rightarrow> signals option" where
  "raise_signal signo k =
    (if \<exists>m \<in> set (sg_masks k). signo \<notin> m then None else Some (k\<lparr>sg_pending := insert signo (sg_pending k)\<rparr>))"

definition signalfd_readable :: "int \<Rightarrow> signals \<Rightarrow> bool" where
  "signalfd_readable fd k \<longleftrightarrow> (case sg_fds k fd of None \<Rightarrow> False | Some taken \<Rightarrow> taken \<inter> sg_pending k \<noteq> {})"

definition process_new :: signals where
  "process_new = \<lparr>sg_masks = [{}], sg_fds = Map.empty, sg_pending = {}\<rparr>"

text \<open>
  After the session is started a signal with an event makes the descriptor of the event readable
  instead of ending the program, and one without an event has no effect at all: starting the
  session blocks every signal of the calling thread and never unblocks them, so that the program
  can no longer be interrupted or terminated by a signal it has no event for.
\<close>

theorem session_signals_arrive:
  assumes "fd \<noteq> -1"
  shows "\<exists>k. SignalEvent_ctor 0 fd signo (session_start_signals 0 process_new) = Inr (SignalEvent fd signo, k)
    \<and> (\<exists>k'. raise_signal signo k = Some k' \<and> signalfd_readable fd k')
    \<and> (\<forall>other. other \<noteq> signo \<longrightarrow> (\<exists>k'. raise_signal other k = Some k' \<and> (\<forall>d. signalfd_readable d k' = signalfd_readable d k)))"
  using assms
  by (auto simp: SignalEvent_ctor_def session_start_signals_def start_thread_def process_new_def raise_signal_def
      signalfd_readable_def split: option.splits)

text \<open>
  Without that a signal event is not safe: a thread that was started before the event was created
  does not block the signal, and the signal ends the program although there is an event for it.
\<close>

theorem older_thread_gets_signal:
  assumes "fd \<noteq> -1"
  shows "\<exists>k. SignalEvent_ctor 0 fd signo (start_thread 0 process_new) = Inr (SignalEvent fd signo, k) \<and> raise_signal signo k = None"
  using assms by (simp add: SignalEvent_ctor_def start_thread_def process_new_def raise_signal_def)

section \<open>Cores\<close>

text \<open>
  \<^verbatim>\<open>Session::_assign_to_cpu\<close>: \<open>have\<close> says whether the build found \<^verbatim>\<open>pthread_setaffinity_np\<close>. The cores that
  exist are put in the set, \<^verbatim>\<open>CPU_SET\<close> ignoring numbers outside it; the system refuses an empty set,
  which goes unnoticed, since the function returns an error number and not -1.
\<close>

definition can_set_affinity :: "bool \<Rightarrow> bool" where
  "can_set_affinity have = have"

definition set_affinity :: "bool \<Rightarrow> int \<Rightarrow> int list \<Rightarrow> int set \<Rightarrow> int set" where
  "set_affinity have num_cores cores old =
    (if have then let cpuset = {c \<in> set cores. 0 \<le> c \<and> c < num_cores \<and> c < 1024} in if cpuset = {} then old else cpuset
     else old)"

definition assign_to_cpu :: "bool \<Rightarrow> int \<Rightarrow> int list \<Rightarrow> int set \<Rightarrow> bool \<times> int set" where
  "assign_to_cpu have num_cores cores old =
    (if can_set_affinity have then (True, set_affinity have num_cores cores old) else (False, old))"

text \<open>
  Assigning cores never leaves the thread without one, but reports success even when none of the
  cores exists and the thread stays where it was.
\<close>

theorem assign_to_cpu_outcome:
  "snd (assign_to_cpu have num_cores cores old) = {} \<Longrightarrow> old = {}"
  "\<forall>c \<in> set cores. num_cores \<le> c \<Longrightarrow> assign_to_cpu True num_cores cores old = (True, old)"
  by (auto simp: assign_to_cpu_def can_set_affinity_def set_affinity_def Let_def split: if_splits)

section \<open>Witnesses\<close>

theorem timer_fires_once_per_period_witness:
  "\<exists>k'. TimerEvent_ctor 0 5 1500000 Map.empty = (Inr (TimerEvent 5 1500000), k') \<and> expirations 7000000000 (the (k' 5)) = 4
    \<and> expirations 9000000000 (the (TimerEvent_acknowledge 7000000000 5 k' 5)) = 2"
  using timer_fires_once_per_period [of 5 1500000 0 7000000000 9000000000 Map.empty] by simp

theorem timers_leak_witness: "dom (timers_one_by_one 0 [5, 6, 7] 1000 Map.empty) = {5, 6, 7}"
  using timers_leak [of 1000 "[5, 6, 7]" 0 Map.empty] by simp

theorem session_signals_arrive_witness:
  "\<exists>k k'. SignalEvent_ctor 0 9 2 (session_start_signals 0 process_new) = Inr (SignalEvent 9 2, k)
    \<and> raise_signal 2 k = Some k' \<and> signalfd_readable 9 k'"
  using session_signals_arrive [of 9 2] by auto

end
