(* ===== verification/Allocators.thy ===== *)
theory Allocators
  imports Arena
begin

text \<open>
  The allocators over a resource (\<^verbatim>\<open>utils/allocator/\<close>, \<^verbatim>\<open>transport/sm/shm_allocator.h\<close>, and the class
  \<^verbatim>\<open>linear_allocator\<close> of \<^verbatim>\<open>utils/fast_linear_allocator.h\<close>). A resource hands out blocks of bytes; its contract
  is the locale \<open>allocator_resource\<close>, in which the clients of the resource are verified, and which is
  interpreted on the standard heap, on a shared segment and on the arena. The memory that \<^verbatim>\<open>malloc\<close>
  and the segment manager find is an argument, the address they give for each number of bytes, and
  what is relied on is that as many bytes as were asked for are free there.
\<close>

section \<open>The resources\<close>

text \<open>
  \<^verbatim>\<open>std_allocator_resource\<close>: the state is the blocks in use, \<open>addr n\<close> what \<^verbatim>\<open>std::allocator\<close> finds for \<open>n\<close> bytes;
  when it finds nothing its exception leaves a \<^verbatim>\<open>noexcept\<close> function. Giving back what is not a block is undefined.
\<close>

definition std_resource_allocate :: "(nat \<Rightarrow> nat option) \<Rightarrow> nat \<Rightarrow> block list \<Rightarrow> (nat \<times> block list) outcome" where
  "std_resource_allocate addr n bs = (case addr n of None \<Rightarrow> Inl Terminate | Some p \<Rightarrow> Inr (p, (p, n) # bs))"

definition std_resource_deallocate :: "nat \<Rightarrow> nat \<Rightarrow> block list \<Rightarrow> block list outcome" where
  "std_resource_deallocate p n bs = (if (p, n) \<in> set bs then Inr (remove1 (p, n) bs) else Inl UseAfterFree)"

text \<open>\<^verbatim>\<open>shm_allocator\<close>: a failure is an assertion, and the size given back is not looked at.\<close>

definition shm_resource_allocate :: "(nat \<Rightarrow> nat option) \<Rightarrow> nat \<Rightarrow> block list \<Rightarrow> (nat \<times> block list) outcome" where
  "shm_resource_allocate addr n bs =
    bind_outcome (assert_that (addr n \<noteq> None)) (\<lambda>_. Inr (the (addr n), (the (addr n), n) # bs))"

definition shm_resource_deallocate :: "nat \<Rightarrow> nat \<Rightarrow> block list \<Rightarrow> block list outcome" where
  "shm_resource_deallocate p n bs =
    (case find (\<lambda>b. fst b = p) bs of None \<Rightarrow> Inl UseAfterFree | Some b \<Rightarrow> Inr (remove1 b bs))"

text \<open>
  The heap finds \<open>n\<close> bytes, which are free; a heap is \<open>sound\<close> when what it gives for any number of
  bytes is free for that number.
\<close>

definition free_at :: "(nat \<Rightarrow> nat option) \<Rightarrow> nat \<Rightarrow> block list \<Rightarrow> bool" where
  "free_at addr n bs \<longleftrightarrow> (case addr n of None \<Rightarrow> False | Some p \<Rightarrow> \<forall>b \<in> set bs. apart (p, n) b)"

definition sound_heap :: "(nat \<Rightarrow> nat option) \<Rightarrow> block list \<Rightarrow> bool" where
  "sound_heap addr bs \<longleftrightarrow> (\<forall>n p. addr n = Some p \<longrightarrow> (\<forall>b \<in> set bs. apart (p, n) b))"

lemma sound_heap_free: "sound_heap addr bs \<Longrightarrow> addr n \<noteq> None \<Longrightarrow> free_at addr n bs"
  by (auto simp: sound_heap_def free_at_def)

section \<open>The clients of a resource\<close>

text \<open>
  \<^verbatim>\<open>generic_allocator<T>\<close> for objects of \<open>sizeof_T\<close> bytes; the product is a \<^verbatim>\<open>size_t\<close>. \<open>alloc\<close> and \<open>dealloc\<close> are
  the virtual functions of the resource.
\<close>

definition byte_count :: "nat \<Rightarrow> nat \<Rightarrow> nat" where
  "byte_count sizeof_T n = unat (word_of_nat sizeof_T * word_of_nat n :: size_t)"

definition generic_allocate :: "(nat \<Rightarrow> 's \<Rightarrow> (nat \<times> 's) outcome) \<Rightarrow> nat \<Rightarrow> nat \<Rightarrow> 's \<Rightarrow> (nat \<times> 's) outcome" where
  "generic_allocate alloc sizeof_T n s = alloc (byte_count sizeof_T n) s"

definition generic_deallocate :: "(nat \<Rightarrow> nat \<Rightarrow> 's \<Rightarrow> 's outcome) \<Rightarrow> nat \<Rightarrow> nat \<Rightarrow> nat \<Rightarrow> 's \<Rightarrow> 's outcome" where
  "generic_deallocate dealloc sizeof_T p n s = dealloc p (byte_count sizeof_T n) s"

text \<open>\<^verbatim>\<open>linear_allocator<T>\<close> passes the number of objects on as a number of bytes.\<close>

definition linear_allocate :: "(nat \<Rightarrow> nat) \<Rightarrow> nat \<Rightarrow> nat \<Rightarrow> arena \<Rightarrow> (nat \<times> arena) outcome" where
  "linear_allocate malloc sizeof_T n ar = arena_allocate malloc n ar"

definition linear_deallocate :: "nat \<Rightarrow> nat \<Rightarrow> nat \<Rightarrow> arena \<Rightarrow> arena outcome" where
  "linear_deallocate sizeof_T p n ar = arena_deallocate p n ar"

lemma byte_count_small: "sizeof_T * n < 2 ^ 64 \<Longrightarrow> byte_count sizeof_T n = sizeof_T * n"
  using unat_of_nat64 [of "sizeof_T * n"] by (simp add: byte_count_def)

locale allocator_resource =
  fixes holds :: "'s \<Rightarrow> block list \<Rightarrow> bool"
    and alloc :: "'a \<Rightarrow> nat \<Rightarrow> 's \<Rightarrow> (nat \<times> 's) outcome"
    and dealloc :: "nat \<Rightarrow> nat \<Rightarrow> 's \<Rightarrow> 's outcome"
    and available :: "'a \<Rightarrow> nat \<Rightarrow> 's \<Rightarrow> bool"
  assumes alloc_apart: "holds s bs \<Longrightarrow> 0 < n \<Longrightarrow> n < 2 ^ 64 \<Longrightarrow> available addr n s \<Longrightarrow>
      \<exists>p s'. alloc addr n s = Inr (p, s') \<and> holds s' ((p, n) # bs) \<and> (\<forall>b \<in> set bs. apart (p, n) b)"
    and dealloc_block: "holds s bs \<Longrightarrow> (p, n) \<in> set bs \<Longrightarrow> \<exists>s'. dealloc p n s = Inr s' \<and> holds s' (remove1 (p, n) bs)"
begin

text \<open>Objects from a generic allocator have their bytes to themselves.\<close>

lemma objects_apart:
  assumes "holds s bs" "0 < sizeof_T * n" "sizeof_T * n < 2 ^ 64" "available addr (sizeof_T * n) s"
  obtains p s' where "generic_allocate (alloc addr) sizeof_T n s = Inr (p, s')" "holds s' ((p, sizeof_T * n) # bs)"
    "\<forall>b \<in> set bs. apart (p, sizeof_T * n) b"
  using alloc_apart [OF assms] byte_count_small [OF assms(3)] by (auto simp: generic_allocate_def)

lemma object_apart_inside:
  assumes "apart (p, sizeof_T * n) b" "i < n"
  shows "apart (p + i * sizeof_T, sizeof_T) b"
proof -
  have "i * sizeof_T + sizeof_T \<le> sizeof_T * n"
    using assms(2) by (metis add.commute mult.commute mult_Suc_right mult_le_mono1 Suc_leI)
  then show ?thesis using assms(1) by (auto simp: apart_def)
qed

lemma objects_given_back:
  assumes "holds s bs" "(p, sizeof_T * n) \<in> set bs" "sizeof_T * n < 2 ^ 64"
  shows "\<exists>s'. generic_deallocate dealloc sizeof_T p n s = Inr s' \<and> holds s' (remove1 (p, sizeof_T * n) bs)"
  using dealloc_block [OF assms(1,2)] byte_count_small [OF assms(3)] by (simp add: generic_deallocate_def)

end

section \<open>The resources meet the contract\<close>

interpretation std_resource: allocator_resource "\<lambda>s bs. s = bs" std_resource_allocate std_resource_deallocate free_at
  by unfold_locales (auto simp: std_resource_allocate_def std_resource_deallocate_def free_at_def split: option.splits)

text \<open>The segment finds a block by its address, which is enough while the blocks are disjoint.\<close>

definition apart_blocks :: "block list \<Rightarrow> bool" where
  "apart_blocks bs \<longleftrightarrow> sorted_wrt apart bs \<and> (\<forall>b \<in> set bs. 0 < snd b)"

lemma find_block: "apart_blocks bs \<Longrightarrow> (p, n) \<in> set bs \<Longrightarrow> find (\<lambda>b. fst b = p) bs = Some (p, n)"
proof (induction bs)
  case (Cons b bs)
  have ok: "apart_blocks bs" "0 < snd b" "\<forall>c \<in> set bs. apart b c \<and> 0 < snd c" using Cons.prems(1) by (auto simp: apart_blocks_def)
  show ?case
  proof (cases "fst b = p")
    case True
    have "(p, n) \<notin> set bs" using ok(2,3) True by (force simp: apart_def)
    then show ?thesis using True Cons.prems(2) by auto
  next
    case False
    then show ?thesis using Cons.IH [OF ok(1)] Cons.prems(2) by auto
  qed
qed simp

lemma apart_blocks_remove: "apart_blocks bs \<Longrightarrow> apart_blocks (remove1 b bs)"
proof (induction bs)
  case (Cons c bs)
  then show ?case using set_remove1_subset [of b bs] by (auto simp: apart_blocks_def)
qed (simp add: apart_blocks_def)

interpretation shm_resource: allocator_resource "\<lambda>s bs. s = bs \<and> apart_blocks bs" shm_resource_allocate shm_resource_deallocate free_at
proof unfold_locales
  fix s bs n and addr :: "nat \<Rightarrow> nat option"
  assume "s = bs \<and> apart_blocks bs" "0 < n" "n < 2 ^ 64" "free_at addr n s"
  then show "\<exists>p s'. shm_resource_allocate addr n s = Inr (p, s') \<and> (s' = (p, n) # bs \<and> apart_blocks ((p, n) # bs))
      \<and> (\<forall>b \<in> set bs. apart (p, n) b)"
    by (auto simp: shm_resource_allocate_def free_at_def apart_blocks_def split: option.splits)
next
  fix s bs p n
  assume "s = bs \<and> apart_blocks bs" "(p, n) \<in> set bs"
  then show "\<exists>s'. shm_resource_deallocate p n s = Inr s' \<and> s' = remove1 (p, n) bs \<and> apart_blocks (remove1 (p, n) bs)"
    using find_block [of bs p n] apart_blocks_remove [of bs] by (simp add: shm_resource_deallocate_def)
qed

interpretation arena_resource: allocator_resource arena_reach arena_allocate arena_deallocate fresh
proof unfold_locales
  fix s bs n and addr :: "nat \<Rightarrow> nat"
  assume a: "arena_reach s bs" "0 < n" "n < 2 ^ 64" "fresh addr n s"
  then show "\<exists>p s'. arena_allocate addr n s = Inr (p, s') \<and> arena_reach s' ((p, n) # bs) \<and> (\<forall>b \<in> set bs. apart (p, n) b)"
    by (rule arena_allocate_apart)
next
  fix s bs p n
  assume a: "arena_reach s bs" "(p, n) \<in> set bs"
  then obtain s' where "arena_deallocate p n s = Inr s'" by (rule arena_deallocate_succeeds)
  then show "\<exists>s'. arena_deallocate p n s = Inr s' \<and> arena_reach s' (remove1 (p, n) bs)"
    using a by (blast intro: arena_reach.dealloc)
qed

section \<open>Properties\<close>

text \<open>
  C21 Objects allocated with a generic allocator from the standard heap: when the heap has room for
  \<open>n\<close> objects of \<open>sizeof_T\<close> bytes, and what it gives for a number of bytes
  is free for that number only, the call succeeds, none of the \<open>n\<close> objects overlaps
  what is in use, the bytes of all of them are in use afterwards, and giving them back leaves what
  was there before.
\<close>

theorem generic_allocator_objects:
  assumes "sound_heap addr bs" "addr (sizeof_T * n) \<noteq> None" "0 < sizeof_T" "0 < n" "sizeof_T * n < 2 ^ 64"
  shows "\<exists>p. generic_allocate (std_resource_allocate addr) sizeof_T n bs = Inr (p, (p, sizeof_T * n) # bs)
    \<and> (\<forall>i < n. \<forall>b \<in> set bs. apart (p + i * sizeof_T, sizeof_T) b)
    \<and> generic_deallocate std_resource_deallocate sizeof_T p n ((p, sizeof_T * n) # bs) = Inr bs"
proof -
  have "free_at addr (sizeof_T * n) bs" by (rule sound_heap_free [OF assms(1,2)])
  then obtain p where p: "generic_allocate (std_resource_allocate addr) sizeof_T n bs = Inr (p, (p, sizeof_T * n) # bs)"
      "\<forall>b \<in> set bs. apart (p, sizeof_T * n) b"
    using std_resource.objects_apart [where s = bs and bs = bs and addr = addr and sizeof_T = sizeof_T and n = n] assms(3-5)
    by (metis mult_pos_pos)
  then show ?thesis
    using std_resource.objects_given_back [of "(p, sizeof_T * n) # bs" "(p, sizeof_T * n) # bs" p sizeof_T n]
      std_resource.object_apart_inside assms(5) by auto
qed

text \<open>The multiplication is not checked: a request that wraps around gets a block that is too small.\<close>

theorem generic_allocator_wraps:
  "generic_allocate (std_resource_allocate (\<lambda>_. Some p)) 8 (2 ^ 61 + 1) [] = Inr (p, [(p, 8)])"
proof -
  have "byte_count 8 (2 ^ 61 + 1) = 8" by (simp add: byte_count_def)
  then show ?thesis by (simp add: generic_allocate_def std_resource_allocate_def)
qed

text \<open>
  The linear allocator takes objects for bytes: two arrays of objects of more than one byte,
  allocated one after the other from an arena with space, overlap.
\<close>

theorem linear_allocator_overlaps:
  assumes "1 < sizeof_T" "0 < n" "2 * n \<le> initial_size"
  shows "\<exists>p q ar ar'. linear_allocate malloc1 sizeof_T n (arena_new malloc initial_size) = Inr (p, ar)
    \<and> linear_allocate malloc2 sizeof_T n ar = Inr (q, ar') \<and> \<not> apart (p, sizeof_T * n) (q, sizeof_T * n)"
proof -
  define addr where "addr = malloc (align_up initial_size)"
  let ?ar = "(arena_new malloc initial_size)\<lparr>ar_slabs := [\<lparr>sl_content = addr, sl_size = initial_size, sl_allocated = word_of_nat n, sl_head = addr + n\<rparr>]\<rparr>"
  have 1: "linear_allocate malloc1 sizeof_T n (arena_new malloc initial_size) = Inr (addr, ?ar)"
    using assms(3) by (simp add: linear_allocate_def arena_allocate_def find_slab_with_space_def arena_new_def slab_new_def addr_def Let_def
        slab_free_def slab_allocate_def)
  have "find_slab_with_space n ?ar = Some 0"
    using assms(3) by (simp add: find_slab_with_space_def slab_free_def)
  then have 2: "\<exists>ar'. linear_allocate malloc2 sizeof_T n ?ar = Inr (addr + n, ar')"
    using assms(3) by (simp add: linear_allocate_def arena_allocate_def slab_free_def slab_allocate_def)
  have "1 * n < sizeof_T * n" using assms(1,2) by (intro mult_strict_right_mono) simp_all
  then have "\<not> apart (addr, sizeof_T * n) (addr + n, sizeof_T * n)" using assms(2) by (simp add: apart_def)
  then show ?thesis using 1 2 by blast
qed

theorem generic_allocator_objects_witness:
  "\<exists>p. generic_allocate (std_resource_allocate (\<lambda>k. if k \<le> 24 then Some 100 else None)) 8 3 [(0, 100), (124, 50)] = Inr (p, [(p, 24), (0, 100), (124, 50)])
    \<and> generic_deallocate std_resource_deallocate 8 p 3 [(p, 24), (0, 100), (124, 50)] = Inr [(0, 100), (124, 50)]"
proof -
  let ?addr = "\<lambda>k. if k \<le> 24 then Some 100 else None"
  have "sound_heap ?addr [(0, 100), (124, 50)]" by (auto simp: sound_heap_def apart_def split: if_splits)
  from generic_allocator_objects [OF this, of 8 3] show ?thesis by auto
qed

theorem linear_allocator_overlaps_witness:
  "\<exists>p q ar ar'. linear_allocate (\<lambda>_. 5000) 8 4 (arena_new (\<lambda>_. 1000) 64) = Inr (p, ar) \<and> linear_allocate (\<lambda>_. 5000) 8 4 ar = Inr (q, ar')
    \<and> \<not> apart (p, 32) (q, 32)"
  using linear_allocator_overlaps [of 8 4 64 "\<lambda>_. 5000" "\<lambda>_. 1000" "\<lambda>_. 5000"] by simp

end
