(* ===== verification/Console.thy ===== *)
theory Console
  imports Programs
begin

text \<open>
  What a log line looks like (\<^verbatim>\<open>utils/logger.h\<close>, \<^verbatim>\<open>utils/console_colors.h\<close>) and how the router becomes a
  daemon (\<^verbatim>\<open>utils/daemon_process.cpp\<close>). The terminal, the environment and the answers of the system are
  arguments.
\<close>

section \<open>Colours\<close>

datatype console_color = col_normal | col_black | col_red | col_green | col_yellow | col_blue | col_magenta | col_cyan | col_white

datatype console_attr = attr_normal | attr_bright | attr_dim | attr_underline | attr_blink | attr_reverse | attr_hidden

primrec color_value :: "console_color \<Rightarrow> string" where
  "color_value col_normal = '';0m''"
| "color_value col_black = '';30m''"
| "color_value col_red = '';31m''"
| "color_value col_green = '';32m''"
| "color_value col_yellow = '';33m''"
| "color_value col_blue = '';34m''"
| "color_value col_magenta = '';35m''"
| "color_value col_cyan = '';36m''"
| "color_value col_white = '';37m''"

primrec attr_value :: "console_attr \<Rightarrow> nat" where
  "attr_value attr_normal = 0"
| "attr_value attr_bright = 1"
| "attr_value attr_dim = 2"
| "attr_value attr_underline = 3"
| "attr_value attr_blink = 4"
| "attr_value attr_reverse = 5"
| "attr_value attr_hidden = 6"

definition escape :: char where "escape = CHR 0x1B"

definition setcolor :: "console_color \<Rightarrow> console_attr \<Rightarrow> string" where
  "setcolor color attr = [escape] @ ''['' @ decimal (attr_value attr) @ color_value color"

text \<open>\<open>term\<close> is the variable \<^verbatim>\<open>TERM\<close> of the environment.\<close>

definition supported_output_device :: "bool \<Rightarrow> string option \<Rightarrow> bool" where
  "supported_output_device is_tty term \<longleftrightarrow> is_tty \<and>
    (case term of None \<Rightarrow> False | Some t \<Rightarrow>
       t \<in> {''xterm'', ''xterm-color'', ''xterm-256color'', ''screen'', ''screen-256color'', ''linux'', ''cygwin''})"

section \<open>Log lines\<close>

primrec description :: "level \<Rightarrow> char" where
  "description LogError = CHR ''E''"
| "description LogWarning = CHR ''W''"
| "description LogInfo = CHR ''I''"
| "description LogDebug = CHR ''D''"
| "description LogTrace = CHR ''T''"

primrec level_color :: "level \<Rightarrow> string" where
  "level_color LogError = setcolor col_red attr_bright"
| "level_color LogWarning = setcolor col_yellow attr_normal"
| "level_color LogInfo = setcolor col_white attr_normal"
| "level_color LogDebug = setcolor col_white attr_dim"
| "level_color LogTrace = setcolor col_red attr_dim"

text \<open>The two functions \<^verbatim>\<open>use_colors\<close> chooses between; \<open>thread\<close> is the identifier of the thread, if it is logged.\<close>

definition colored_line :: "string option \<Rightarrow> level \<Rightarrow> string \<Rightarrow> string \<Rightarrow> string" where
  "colored_line thread lvl prefix msg =
    [description lvl] @ setcolor col_yellow attr_normal @ prefix
    @ (case thread of None \<Rightarrow> '''' | Some t \<Rightarrow> setcolor col_green attr_normal @ t @ '': '')
    @ level_color lvl @ msg @ setcolor col_normal attr_normal @ [CHR 0x0A]"

definition plain_line :: "string option \<Rightarrow> level \<Rightarrow> string \<Rightarrow> string \<Rightarrow> string" where
  "plain_line thread lvl prefix msg =
    [description lvl] @ prefix @ (case thread of None \<Rightarrow> '''' | Some t \<Rightarrow> t @ '': '') @ msg @ [CHR 0x0A]"

definition log_line :: "bool \<Rightarrow> bool \<Rightarrow> string option \<Rightarrow> level \<Rightarrow> string \<Rightarrow> string \<Rightarrow> string" where
  "log_line supported use thread lvl prefix msg =
    (if use \<and> supported then colored_line thread lvl prefix msg else plain_line thread lvl prefix msg)"

text \<open>What a terminal shows: the sequences from the escape character to the letter \<^verbatim>\<open>m\<close> are left out.\<close>

fun shown :: "bool \<Rightarrow> string \<Rightarrow> string" where
  "shown skip [] = []"
| "shown True (c # cs) = (if c = CHR ''m'' then shown False cs else shown True cs)"
| "shown False (c # cs) = (if c = escape then shown True cs else c # shown False cs)"

lemma shown_plain: "escape \<notin> set s \<Longrightarrow> shown False (s @ rest) = s @ shown False rest"
  by (induction s) auto

lemma decimal_no_m: "CHR ''m'' \<notin> set (decimal n)"
  using decimal_digits [of "CHR ''m''" n] by (auto simp: is_digit_def)

lemma shown_skip: "CHR ''m'' \<notin> set s \<Longrightarrow> shown True (s @ rest) = shown True rest"
  by (induction s) auto

lemma shown_color: "shown False (setcolor color attr @ rest) = shown False rest"
proof -
  have "shown True (decimal (attr_value attr) @ color_value color @ rest) = shown False rest"
    using shown_skip [OF decimal_no_m] by (cases color) simp_all
  then show ?thesis by (simp add: setcolor_def)
qed

lemma shown_level_color: "shown False (level_color lvl @ rest) = shown False rest"
  by (cases lvl) (simp_all add: shown_color)

text \<open>
  Colours change nothing in what is read: a line shows the same text with them and without,
  for every level, as long as prefix, thread and message have no escape sequences of their own.
\<close>

theorem colors_show_same_line:
  assumes "escape \<notin> set prefix" "escape \<notin> set msg" "\<forall>t. thread = Some t \<longrightarrow> escape \<notin> set t"
  shows "shown False (log_line supported use thread lvl prefix msg) = plain_line thread lvl prefix msg"
proof -
  have esc: "description lvl \<noteq> escape" "CHR 0x0A \<noteq> escape" "CHR '':'' \<noteq> escape" "CHR '' '' \<noteq> escape"
    by (cases lvl; simp add: escape_def)+
  have tail: "shown False (msg @ rest) = msg @ shown False rest" "shown False (prefix @ rest) = prefix @ shown False rest"
    and thr: "thread = Some t \<Longrightarrow> shown False (t @ rest) = t @ shown False rest" for rest t
    using assms by (simp_all add: shown_plain)
  show ?thesis
    using esc by (auto simp: log_line_def colored_line_def plain_line_def shown_color shown_level_color tail thr split: option.split)
qed

section \<open>The daemon\<close>

datatype process_end = ExitCode int | Detached bool nat   \<comment> \<open>leads its session; the mask of file modes\<close>

text \<open>\<open>pid\<close> is what \<^verbatim>\<open>fork\<close> returns in the process that goes on with it: 0 in the child, -1 for a failure.\<close>

definition run_as_daemon :: "int \<Rightarrow> process_end" where
  "run_as_daemon pid = (if pid \<noteq> 0 then ExitCode 0 else Detached True 0)"

text \<open>A failed \<^verbatim>\<open>fork\<close> is taken for the parent: the program ends with success and no daemon is running.\<close>

theorem failed_fork_exits_successfully: "run_as_daemon (-1) = ExitCode 0"
  by (simp add: run_as_daemon_def)

theorem colors_show_same_line_witness:
  "shown False (log_line True True (Some ''7'') LogError '': '' ''no route'') = ''E: 7: no route'' @ [CHR 0x0A]"
  using colors_show_same_line [of "'': ''" "''no route''" "Some ''7''" True True LogError]
  by (simp add: escape_def plain_line_def)

end
