(* ===== verification/Spec2Isabelle.thy ===== *)
theory Spec2Isabelle
  imports Message_Properties Subscriptions Ring_Buffer Multi_Ring Object_Pool RW_Lock Sockets Router_Correct Url
    Poll_Manager Events_Correct Message_Listener_Correct Arena Options Semaphore Lock_Holders Event_Locking Session
    Shm_Correct Multi_Ring_Solo Pool_Pointers Notifiers Poll_Variants Router_Startup Performance
    Bus Kernel_Semaphore Printing Event_Sources Allocators Console
begin

text \<open>
  FastPath (\<^verbatim>\<open>src/fastpath\<close>) is a publish/subscribe message bus. A program builds messages of typed,
  named fields (\<^verbatim>\<open>messages/\<close>), sends them through a transport (\<^verbatim>\<open>transport/\<close>) to a router process
  (\<^verbatim>\<open>router/\<close>), and the router passes each message on to the connections that have subscribed to
  its subject. On the receiving side a thread polls the descriptors (\<^verbatim>\<open>event/\<close>), the transport
  cuts the stream of bytes into messages, a listener puts them on the queues of the interested
  subscribers, and the program dispatches its queues. \<^verbatim>\<open>utils/\<close> has the containers, locks and
  allocators underneath. This development models these parts one theory each and proves what
  each promises, and for the way of a message through them what they promise together.

  \<^bold>\<open>Conventions.\<close> Operations are functions that take the state and return it changed. What stops a
  C++ operation is a value of the type \<open>fault\<close>, the left side of \<open>outcome\<close>: an exception, a failed
  \<^verbatim>\<open>assert\<close> (release builds compile assertions out; the model keeps them as faults, so that a
  theorem that an operation returns also shows that its assertions hold), an access outside a
  block or to freed memory, an overflow of a fixed array. Sizes and counters whose width matters
  are words (\<open>size_t\<close>, \<open>u32\<close>, \<open>u16\<close>, \<open>byte\<close>), others are natural numbers. Memory that outlives a call
  (storage blocks, events, message events, pool objects, arena blocks) has an address or an
  identity, so that dangling pointers can be said and excluded. The system is a parameter: the
  results of \<^verbatim>\<open>send\<close>, \<^verbatim>\<open>recv\<close>, \<^verbatim>\<open>connect\<close>, \<^verbatim>\<open>epoll_wait\<close> and \<^verbatim>\<open>malloc\<close> are arguments, and what is relied
  on of them is a named hypothesis. Threads are step relations, one access to shared memory at a
  time, with sequentially consistent memory.

  \<^bold>\<open>Theories\<close>, from the bottom up.

  \<^item> \<open>FP_Prelude\<close>: machine types, faults, little-endian scalars, C strings and the list lemmas the
    others share; the collections \<open>storage_simps\<close>, \<open>codec_simps\<close>, \<open>event_simps\<close>. \<open>Status\<close>: the status
    codes (\<^verbatim>\<open>status.h\<close>).
  \<^item> \<open>Byte_Storage\<close>, \<open>Message_Buffer\<close>: \<^verbatim>\<open>ByteStorage.h\<close>, \<^verbatim>\<open>MutableByteStorage.h\<close> and \<^verbatim>\<open>MessageBuffer.h\<close>, a
    growing block of bytes with read and mark pointers and a window on it. The locale
    \<open>byte_fifo\<close> says that a buffer is a queue of bytes and is interpreted on it.
  \<^item> \<open>Message_Fields\<close>, \<open>Messages\<close>: the field classes as one datatype and \<^verbatim>\<open>BaseMessage\<close>, \<^verbatim>\<open>Message\<close>,
    \<^verbatim>\<open>MutableMessage\<close> with the index from names to positions; the locale \<open>keyed_container\<close>
    (what is found after an insertion) is interpreted on messages.
  \<^item> \<open>Message_Codec\<close>, \<open>Codec_Correct\<close>, \<open>Message_Properties\<close>: \<^verbatim>\<open>MessageCodec.h\<close>. \<open>wire_message\<close> is the wire
    format as a function; the encoder writes it, the decoder reads it back and, on any bytes at
    all, terminates and returns well-formed messages; with the faults of both.
  \<^item> \<open>Subscriptions\<close>: \<^verbatim>\<open>subject.h\<close>, \<^verbatim>\<open>subscription.h\<close>, \<^verbatim>\<open>stringhash.h\<close>. Matching by hashed components
    refines the matching of component lists with wildcards, up to collisions of the hash.
  \<^item> \<open>Sockets\<close>, \<open>Endpoint_Sockets\<close>: the socket classes over the answers of the system.
  \<^item> \<open>Framing\<close>: how a stream of chunks becomes messages, as the locale \<open>stream_receiver\<close>, whose
    conclusion is that the chunks do not matter. It is interpreted twice, for the router's
    connections and for the client's transport.
  \<^item> \<open>Router\<close>, \<open>Router_Correct\<close>: \<^verbatim>\<open>peer_connection\<close>, \<^verbatim>\<open>tcp_peer_connection\<close> and the dispatch of
    \<^verbatim>\<open>bootstrap.cpp\<close>: reassembly, administration messages, distribution by subscription.
  \<^item> \<open>Tcp_Transport\<close>, \<open>Tcp_Transport_Correct\<close>: \<^verbatim>\<open>TCPTransport.cpp\<close> and \<^verbatim>\<open>BackoffStrategy.h\<close>: sending,
    receiving, losing and regaining the connection. \<open>Url\<close>: the parser of \<^verbatim>\<open>URL.cpp\<close> and the choice of
    the transport.
  \<^item> \<open>Shm_Transport\<close>, \<open>Shm_Correct\<close>: \<^verbatim>\<open>SHMTransport.cpp\<close>, \<^verbatim>\<open>SharedMemoryBuffer.h\<close> and
    \<^verbatim>\<open>shm_peer_connection.cpp\<close>: the queues of a segment between clients and router, for any queue that
    meets \<open>bounded_fifo\<close>, and the dispatch to connections of both kinds through \<^verbatim>\<open>message_wrapper\<close>, whose
    pointer into the segment is null for a message that came over TCP.
  \<^item> \<open>Poll_Manager\<close>, \<open>Events\<close>, \<open>Events_Correct\<close>: the \<^verbatim>\<open>epoll\<close> loop, the event classes, both event
    managers and the three queues, from registration to dispatch and removal. \<open>Event_Locking\<close>: the
    calls the global event manager makes on its lock. \<open>Session\<close>: starting and stopping the thread of
    the event loop, with and without spurious wake-ups of the caller.
  \<^item> \<open>Message_Listener\<close>, \<open>Message_Listener_Correct\<close>: \<^verbatim>\<open>MessageListener.cpp\<close>, \<^verbatim>\<open>Subscriber\<close> and \<^verbatim>\<open>MessageEvent\<close>:
    observers, subscription messages, delivery to queues; a subscription made in the listener is
    in force at the router once its bytes have arrived there.
  \<^item> \<open>Ring_Buffer\<close>, \<open>Multi_Ring\<close>: the bounded queues of \<^verbatim>\<open>utils/\<close>; the locale \<open>bounded_fifo\<close> is
    interpreted on both, and the first also runs with two interleaved threads, pushing by moving or by
    copying; copying assigns to a slot that holds no object. \<open>Multi_Ring_Threads\<close>:
    the second with any number of producers and consumers interleaved access by access; the
    sequence number of a cell says which one thread may touch its data, and what is popped is what
    was pushed, in the order of the positions. \<open>Multi_Ring_Solo\<close>: a thread that runs alone finishes
    its call, wherever the others stopped (the locale \<open>finishing\<close>). \<open>Semaphore\<close>: the lightweight
    semaphore with any number of threads and its count of 64 bits, and the blocking ring buffer on it. \<open>Kernel_Semaphore\<close>: the
    semaphores of the four platforms underneath. Three of them are interpretations of the locale
    \<open>counting_semaphore\<close>; the event descriptor of Linux is not, so that the semaphore is right on it
    for one waiting thread only.
  \<^item> \<open>RW_Lock\<close>, \<open>Lock_Holders\<close>: the reader-writer spin lock with its atomic operations interleaved,
    the holder classes and the spin lock. \<open>Object_Pool\<close>, \<open>Pool_Pointers\<close>: the message pool, the shared
    and unique pointers it hands out and \<^verbatim>\<open>ref_count_ptr.h\<close>. \<open>Arena\<close>: the slabs the fields of a message
    are allocated from, over what \<^verbatim>\<open>malloc\<close> returns. \<open>Allocators\<close>: the allocators that forward to a resource, for any resource that
    meets \<open>allocator_resource\<close>, which is interpreted on the heap, a shared segment and the arena.
  \<^item> \<open>Notifiers\<close>: the descriptors one thread or process wakes another with, on an \<^verbatim>\<open>eventfd\<close> (Linux) and
    on a pipe (mac), both interpretations of the locale \<open>wakeup\<close>, and the handshake by which a client
    of shared memory passes its descriptors to the router (\<^verbatim>\<open>transport/sm/\<close>).
  \<^item> \<open>Poll_Variants\<close>: the poll loop on \<^verbatim>\<open>kqueue\<close> and on \<^verbatim>\<open>select\<close>. \<open>Event_Sources\<close>: the descriptors of timers
    and signals, the signal masks of the threads and their assignment to processors.
  \<^item> \<open>Router_Startup\<close>: \<^verbatim>\<open>bootstrap.cpp\<close>, \<^verbatim>\<open>tcp_server_transport.cpp\<close>, \<^verbatim>\<open>shm_server_transport.cpp\<close> and
    \<^verbatim>\<open>temp_directory.h\<close>: the router from its construction through its event loop to the signal that
    ends it, with the connections it accepts.
  \<^item> \<open>Options\<close>: the command line parser. \<open>Programs\<close>: the main functions of \<^verbatim>\<open>fprouter\<close> and \<^verbatim>\<open>fpsend\<close> and the
    prefix of a log line. \<open>Performance\<close>: the two programs that measure the bus, running side by side,
    and the percentiles they report. \<open>Printing\<close>: messages and storage as text, and \<^verbatim>\<open>fplisten\<close>, which logs
    what it receives. \<open>Console\<close>: the coloured lines of the logger and the steps that turn the process
    into a daemon.
  \<^item> \<open>Bus\<close>: scenarios that run the clients and the router together, one operation after the other;
    its definitions compose those of the theories above and model no code of their own. This theory
    has the theorems on them: over TCP (\<open>publish_subscribe_tcp\<close>) and over shared memory
    (\<open>publish_subscribe_shm\<close>) a subscriber receives exactly the messages its subscription matches, in
    order, and each received message makes exactly the callbacks of the interested subscribers run
    (\<open>messages_reach_callbacks\<close>).

  \<^bold>\<open>Fuel.\<close> Loops that a measure does not bound take a number of rounds and give \<open>OutOfFuel\<close> (or
  \<open>None\<close>) when it is used up; the theorems name a number that is enough: the decoder never runs
  out with \<open>decode_fuel\<close> (three steps per byte), the receivers need one round per read and one step
  per message and one more, dispatch one round per entry and one more, the connecting loop one
  round per refusal and two more. The calls that spin on a lock get any number of attempts, since
  whether they return depends on the other threads.

  \<^bold>\<open>Not modelled\<close>: the segments of Boost.Interprocess and the queue in them, which are parameters;
  weak memory orders; the Windows service and the banner the router prints; the experiments under
  \<^verbatim>\<open>playground\<close>, which no program of the bus uses; third-party code (the queues of
  \<^verbatim>\<open>concurrentqueue.h\<close> and \<^verbatim>\<open>blockingconcurrentqueue.h\<close>, \<^verbatim>\<open>short_alloc.h\<close>).
\<close>

section \<open>The bus as a whole\<close>

text \<open>
  C1 Publish and subscribe over TCP, end to end: one client subscribes, another sends messages in a
  row, the bytes of both arrive at the router in reads of any size, the router handles first the one
  and then the other connection, and the bytes it sends back arrive at the subscriber in reads of
  any size again. Then every call reports success and the subscriber's transport delivers exactly
  the messages whose subject its subscription matches, in the order they were sent, each once. The
  provisos: the subscription is without NUL and shorter than 256 bytes; there is at least one
  message, and each is well-formed, has no administration subject and is on the wire no longer than
  the block of the sender's send buffer (1024 bytes at the start: a longer message writes through a
  freed pointer, see \<open>encode_growth_faults\<close>); together they have at most 2^30 bytes;
  both sockets take all they are given and had sent nothing before; the connections of the router
  are healthy and distinct, and the subscriber's has no subscription and nothing sent yet; the
  subscriber's receive buffer is well-formed, has nothing in it and at most 2^31 bytes.
\<close>

theorem publish_subscribe_tcp:
  assumes "nul_free subject" "length subject < 256"
    and "accepts (ml_transports l tr)" "sk_sent (tt_peer (ml_transports l tr)) = []"
    and "accepts t" "sk_sent (tt_peer t) = []" "ms \<noteq> []" "length (wires ms) \<le> 2 ^ 30"
    and "\<forall>m \<in> set ms. wf_message m \<and> length (wire_message m) \<le> capacity (m_sendBuffer t)
           \<and> \<not> m_is_admin (subject_new string_hash (subject_string m))"
    and "distinct (map tp_id r)" "list_all healthy r" "peer_of idB r = Inr pB" "idA \<in> set (map tp_id r)"
    and "tp_subscriptions pB = []" "sk_sent (tp_socket pB) = []"
    and "wf_buffer b" "capacity b \<le> 2 ^ 31" "visible b = []"
    and "\<forall>bs. cut bs (chop1 bs) \<and> cut bs (chop2 bs) \<and> cut bs (chop3 bs)"
  shows "\<exists>l1 t2. tcp_exchange chop1 chop2 chop3 a thrown ident tr idA idB subject ms b l t r = Inr (replicate (length ms) OK, l1, t2)
    \<and> tt_delivered t2 = tt_delivered (ml_transports l1 tr) @ map delivered (matching subject ms)"
proof -
  obtain l1 where l1: "subscribe ident tr subject l = Inr l1"
    "sk_sent (tt_peer (ml_transports l1 tr)) = wire_message (register_message subject ident)"
    by (rule subscribe_sends [OF assms(3,1,2), of ident]) (use assms(4) in simp)
  obtain t1 where t1: "send_all ms t = Inr (replicate (length ms) OK, t1)" "sk_sent (tt_peer t1) = wires ms"
    using send_all_accepted [OF assms(5), of ms] assms(6,9) by auto
  let ?cs1 = "chop1 (wire_message (register_message subject ident))" and ?cs2 = "chop2 (wires ms)"
    and ?cs3 = "chop3 (wires (matching subject ms))"
  obtain r1 r2 p where "data_handler (length ?cs1 + 1) 2 idB (with_io idB (MessageBuffer_new a 4500) (map RecvData ?cs1) r) = Inr r1"
    "data_handler (length ?cs2 + 1) (length ms + 1) idA (with_io idA (MessageBuffer_new a 4500) (map RecvData ?cs2) r1) = Inr r2"
    "peer_of idB r2 = Inr p" "sk_sent (tp_socket p) = wires (matching subject ms)"
    using router_between [OF assms(1,2,10-15,7,8), of ident ?cs1 ?cs2] assms(9,19) by metis
  moreover obtain t2 where "receive_loop thrown (length ?cs3 + 1) (length ms + 1) (on_stream b (map RecvData ?cs3) (ml_transports l1 tr)) = Inr t2"
      "tt_delivered t2 = tt_delivered (ml_transports l1 tr) @ map delivered (matching subject ms)"
    using client_gets [of subject ms ?cs3] assms(8,9,16-19) by metis
  ultimately show ?thesis
    using l1 t1 by (simp add: tcp_exchange_def Let_def del: data_handler.simps receive_loop.simps)
qed

theorem publish_subscribe_tcp_witness:
  "\<exists>l1 t2. tcp_exchange (map (\<lambda>b. [b])) (map (\<lambda>b. [b])) (map (\<lambda>b. [b])) (\<lambda>_. 0) (\<lambda>_. 0) 7 0 1 0 (str_bytes ''A'') [demo_message]
      (MessageBuffer_new (\<lambda>_. 0) 1500) demo_listener (demo_transport [] []) demo_router = Inr ([OK], l1, t2)
    \<and> tt_delivered t2 = tt_delivered (ml_transports l1 0) @ [delivered demo_message]"
proof -
  let ?p = "tcp_peer_new (\<lambda>_. 0) 0 (socket_new 3 True)"
  have nf: "nul_free (str_bytes ''A'')" "length (str_bytes ''A'') < 256" by code_simp+
  have t: "accepts (demo_transport [] [])" "ml_transports demo_listener 0 = demo_transport [] []"
    using demo_accepts by (simp_all add: demo_listener_def)
  have sent: "sk_sent (tt_peer (demo_transport [] [])) = []" by (simp add: demo_transport_def socket_new_def)
  have p: "peer_of 0 demo_router = Inr ?p" "tp_subscriptions ?p = []" "sk_sent (tp_socket ?p) = []"
    by (simp_all add: peer_of_def demo_router_def tcp_peer_new_def socket_new_def)
  have ms: "\<forall>m \<in> set [demo_message]. wf_message m \<and> length (wire_message m) \<le> capacity (m_sendBuffer (demo_transport [] []))
       \<and> \<not> m_is_admin (subject_new string_hash (subject_string m))"
    using t(1) demo_length demo_message_ok by (simp add: accepts_def)
  have mat: "matching (str_bytes ''A'') [demo_message] = [demo_message]"
    using demo_interested by (simp add: matching_def subscriber_interested_def demo_subscriber_facts)
  have cb: "capacity (MessageBuffer_new (\<lambda>_. 0) 1500) \<le> 2 ^ 31" by (rule demo_capacity) simp_all
  show ?thesis
    using publish_subscribe_tcp [OF nf demo_accepts _ t(1) sent _ _ ms demo_router_ok(1,3) p(1) _ p(2,3) demo_buffer(4) cb demo_buffer(5),
        of 1 "map (\<lambda>b. [b])" "map (\<lambda>b. [b])" "map (\<lambda>b. [b])" "\<lambda>_. 0" "\<lambda>_. 0" 7]
      t(2) sent mat demo_length demo_router_ok(2) cut_bytewise by simp
qed

text \<open>
  C3 The same through shared memory, from the start: two clients and the router's connections to
  them open the queues of the segment, one client registers a subscription, the other sends a
  message, the router is notified of either, and the first client receives. It is given the
  message, once, exactly when the subscription matches, whatever queue with the documented
  behaviour and room for one entry the segment uses. The provisos: the two processes have different
  numbers and no queues in the segment yet, and the connections different identities; the
  subscription is without NUL and shorter than 256 bytes; the message is well-formed, has no
  administration subject and has at most 2048 bytes on the wire, the size of the buffer it is encoded
  into (a longer one writes through a freed pointer, see \<open>encode_growth_faults\<close>).
\<close>

theorem publish_subscribe_shm:
  assumes q: "bounded_fifo qok cont cap (sq_push ops) (sq_pop ops)" "0 < cap" "qok (sq_new ops)" "cont (sq_new ops) = []"
    and new: "pidA \<noteq> pidB" "idA \<noteq> idB" "\<forall>pid \<in> {pidA, pidB}. sg_client seg pid = None \<and> sg_server seg pid = None"
    and s: "nul_free subject" "length subject < 256"
    and m: "wf_message m" "length (wire_message m) \<le> 2048" "\<not> m_is_admin (subject_new string_hash (subject_string m))"
  shows "\<exists>B. shm_exchange ops a stopA stopB ident idA idB pidA pidB subject m seg = Inr (OK, OK, B)
    \<and> cl_delivered B = map delivered (matching subject [m])"
proof -
  let ?pA = "\<lparr>tp_id = idA, tp_subscriptions = [], sp_process_id = pidA\<rparr> :: shm_peer"
  let ?pB = "\<lparr>tp_id = idB, tp_subscriptions = [], sp_process_id = pidB\<rparr> :: shm_peer"
  let ?subs = "\<lparr>tp_id = idB, tp_subscriptions = [subscription_new string_hash subject], sp_process_id = pidB\<rparr> :: shm_peer"
  obtain A seg1 B seg1' where A: "shm_joins ops stopA idA pidA (seg, []) = (A, (seg1, [ShmPeer ?pA]))"
      "shm_valid A" "cl_pid A = pidA" "queue_holds qok cont (sg_client seg1' pidA) []" "queue_holds qok cont (sg_server seg1' pidA) []"
    and B: "shm_joins ops stopB idB pidB (seg1, [ShmPeer ?pA]) = (B, (seg1', [ShmPeer ?pA, ShmPeer ?pB]))"
      "shm_valid B" "cl_pid B = pidB" "cl_delivered B = []" "queue_holds qok cont (sg_client seg1' pidB) []"
      "queue_holds qok cont (sg_server seg1' pidB) []"
    by (rule two_clients_join [where qok = qok and cont = cont, OF q(3,4) new(1,3)])
  obtain seg2 seg3 where reg: "shm_sendMessage ops a True (register_message subject ident) (seg1', B) = Inr (OK, (seg2, B))"
      "notificationHandler ops 2 True ?pB (seg2, [ShmPeer ?pA, ShmPeer ?pB]) =
        Inr (seg3, replace_peer (ShmPeer (add_subscription (subject @ [0]) ?pB)) [ShmPeer ?pA, ShmPeer ?pB])"
      "sg_client seg3 = sg_client seg1'" "\<forall>pid. pid \<noteq> cl_pid B \<longrightarrow> sg_server seg3 pid = sg_server seg1' pid"
    by (rule shm_registers [OF q(1,2) s, where B = B and seg = seg1' and this = ?pB and ps = "[ShmPeer ?pA, ShmPeer ?pB]" and p = ?pB])
      (use B(2,3,6) new in simp_all)
  have peers: "replace_peer (ShmPeer (add_subscription (subject @ [0]) ?pB)) [ShmPeer ?pA, ShmPeer ?pB] = map ShmPeer [?pA, ?subs]"
    using new subscription_of_c_string [OF s(1), of string_hash] by (simp add: replace_peer_def add_subscription_def)
  have queues: "queue_holds qok cont (sg_server seg3 (cl_pid A)) []"
    "\<forall>p \<in> set [?pA, ?subs]. queue_holds qok cont (sg_client seg3 (sp_process_id p)) []"
    using A(3-5) B(3,5) reg(3,4) new(1) by simp_all
  have dist: "distinct (map sp_process_id [?pA, ?subs])" using new(1) by simp
  have "cl_pid B = sp_process_id ?subs" "sp_process_id ?pA = cl_pid A" "?subs \<in> set [?pA, ?subs]" using B(3) A(3) by simp_all
  from shm_delivers [OF q(1,2) m A(2) queues(1) this(2) dist queues(2) this(3,1), of a]
  obtain st seg4 seg5 where end2: "shm_sendMessage ops a True m (seg3, A) = Inr (OK, st)" "snd st = A"
     "notificationHandler ops 2 True ?pA (fst st, map ShmPeer [?pA, ?subs]) = Inr (seg4, map ShmPeer [?pA, ?subs])"
     "shm_receive ops 2 (seg4, B) = Inr (seg5, B\<lparr>cl_delivered := cl_delivered B @
        (if is_interested (subject_new string_hash (subject_string m)) ?subs then [delivered m] else [])\<rparr>)"
    by blast
  have "(if is_interested (subject_new string_hash (subject_string m)) ?subs then [delivered m] else []) = map delivered (matching subject [m])"
    by (simp add: is_interested_def matching_def)
  moreover have "observer_message ''_FP.REGISTER.OBSERVER'' subject ident = Inr (register_message subject ident)"
    by (rule register_message [OF s, of ident])
  ultimately show ?thesis
    using A(1) B(1,4) reg(1,2) end2 unfolding peers by (cases st) (simp add: shm_exchange_def)
qed

theorem publish_subscribe_shm_witness:
  "\<exists>B. shm_exchange demo_ops (\<lambda>_. 0) False False 7 0 1 1 2 (str_bytes ''A'') demo_message empty_segment = Inr (OK, OK, B)
    \<and> cl_delivered B = [delivered demo_message]"
proof -
  have nf: "nul_free (str_bytes ''A'')" "length (str_bytes ''A'') < 256" by code_simp+
  have new: "rb_inv 1025 (sq_new demo_ops)" "rb_abs 1025 (sq_new demo_ops) = []"
    using rb_inv_new [where 'a = "container option" and 'b = "container option" and n = 1025] by (simp_all add: demo_ops_def)
  have seg: "\<forall>pid \<in> {1, 2}. sg_client empty_segment pid = None \<and> sg_server empty_segment pid = None"
    by (simp add: empty_segment_def)
  have mat: "map delivered (matching (str_bytes ''A'') [demo_message]) = [delivered demo_message]"
    using demo_interested by (simp add: matching_def subscriber_interested_def demo_subscriber_facts)
  show ?thesis
    by (rule publish_subscribe_shm [where pidA = 1 and pidB = 2 and idA = 0 and idB = 1, OF demo_contract _ new _ _ seg nf demo_wf, unfolded mat])
      (use demo_length demo_message_ok in simp_all)
qed

text \<open>
  C4 From the transport to the program: when the messages a transport delivered are handled by the
  listener, all queues being empty before and with room for what they are to get, the observers of
  the transport being alive, and a queue is dispatched, the callbacks that are called are those of
  the observers of that queue whose subscription matches, for every message in the order of arrival
  and for each message in the order of registration; afterwards the queue is empty.
\<close>

theorem messages_reach_callbacks:
  assumes "map_of (m_observers l) tr = Some ps" "\<forall>p \<in> set ps. ml_heap l p \<noteq> None" "queues_ok l"
    and "\<forall>q. queued_messages l q = []" "\<forall>q. length (entries l ps ms q) \<le> ml_qsize l - 1"
  shows "\<exists>l1. handle_all tr ms l = Inr l1
    \<and> (\<forall>q. \<exists>l2. dispatch_all (length (entries l ps ms q)) q l1 = Inr l2
          \<and> ml_called l2 = ml_called l @ entries l ps ms q \<and> queued_messages l2 q = [])"
proof -
  obtain l1 where l1: "handle_all tr ms l = Inr l1" "queues_ok l1" "same_events l l1" "ml_called l1 = ml_called l"
      "\<forall>q. queued_messages l1 q = entries l ps ms q"
    using handle_all_spec [OF assms(1-3), of ms] assms(4,5) by auto
  have "\<forall>(p, m) \<in> set (entries l ps ms q). ml_heap l1 p \<noteq> None" for q
    using assms(2) l1(3) by (auto simp: entries_def addressed_def same_events_def)
  then have "\<exists>l2. dispatch_all (length (entries l ps ms q)) q l1 = Inr l2
      \<and> ml_called l2 = ml_called l @ entries l ps ms q \<and> queued_messages l2 q = []" for q
    using dispatch_all_spec [OF l1(2)] l1(4,5) by metis
  then show ?thesis using l1(1) by blast
qed

theorem messages_reach_callbacks_witness:
  "\<exists>l1 l2. handle_all 0 [demo_message, demo_message] demo_listener = Inr l1 \<and> dispatch_all 2 1 l1 = Inr l2
     \<and> ml_called l2 = [(1, demo_message), (1, demo_message)]"
proof -
  have ad: "addressed demo_listener demo_message [0, 1] q = (if q = 0 then [0] else if q = 1 then [1] else [])" for q
    using demo_events by (auto simp: addressed_def)
  have l: "map_of (m_observers demo_listener) 0 = Some [0, 1]" "\<forall>p \<in> set [0, 1]. ml_heap demo_listener p \<noteq> None"
    "\<forall>q. queued_messages demo_listener q = []"
    "\<forall>q. length (entries demo_listener [0, 1] [demo_message, demo_message] q) \<le> ml_qsize demo_listener - 1"
    using demo_queues(2) ad by (simp_all add: demo_listener_def)
  have "ml_called demo_listener = []" by (simp add: demo_listener_def)
  moreover have e: "entries demo_listener [0, 1] [demo_message, demo_message] 1 = [(1, demo_message), (1, demo_message)]"
    using ad by simp
  ultimately show ?thesis
    using messages_reach_callbacks [OF l(1,2) demo_queues(1) l(3,4)] by (metis append_Nil length_Cons list.size(3) numeral_2_eq_2)
qed

end
